(* ===== verification/Prelude.thy ===== *)
theory Prelude
  imports Main "HOL-Library.Word" "HOL-Library.Char_ord"
begin

text \<open>
  What every component of the zippylog model shares: the machine integer types, the exceptions
  the C++ code throws, the results of functions that may throw, the state-and-exception actions
  the stateful handlers are written in, and the operations of \<open>std::string\<close> the code calls.

  A byte is a \<open>char\<close>, and \<open>std::string\<close>, the contents of a 0MQ frame and the contents of a file
  are lists of bytes.
\<close>

section \<open>Integers\<close>

type_synonym u32 = "32 word"
type_synonym u64 = "64 word"

text \<open>The conversions to the signed types \<open>int32\<close> and \<open>int64\<close>, which keep the low bits.\<close>

definition to_int32 :: "int \<Rightarrow> int" where
  "to_int32 x = (x + 2 ^ 31) mod 2 ^ 32 - 2 ^ 31"

definition to_int64 :: "int \<Rightarrow> int" where
  "to_int64 x = (x + 2 ^ 63) mod 2 ^ 64 - 2 ^ 63"

lemma to_int32_id: "- (2 ^ 31) \<le> x \<Longrightarrow> x < 2 ^ 31 \<Longrightarrow> to_int32 x = x"
  by (simp add: to_int32_def mod_pos_pos_trivial)

lemma to_int32_bounds: "- (2 ^ 31) \<le> to_int32 x \<and> to_int32 x < 2 ^ 31"
  using pos_mod_sign [of "2 ^ 32" "x + 2 ^ 31"] pos_mod_bound [of "2 ^ 32" "x + 2 ^ 31"]
  by (simp add: to_int32_def)

lemma word_of_to_int32: "(word_of_int (to_int32 x) :: u32) = word_of_int x"
proof -
  have "(to_int32 x) mod 4294967296 = x mod 4294967296"
    unfolding to_int32_def by (simp add: mod_diff_left_eq)
  then show ?thesis by (simp only: word_of_int_eq_iff) (simp add: take_bit_eq_mod)
qed

lemma unat_word_of_nat: "n < 2 ^ 32 \<Longrightarrow> unat (word_of_nat n :: u32) = n"
  by (simp add: unat_of_nat take_bit_nat_eq_self)

lemma word_of_nat_neq_0: "0 < n \<Longrightarrow> n < 2 ^ 32 \<Longrightarrow> (word_of_nat n :: u32) \<noteq> 0"
  using unat_word_of_nat [of n] by auto

section \<open>Exceptions and results\<close>

text \<open>
  One constructor per exception class the code throws. Three outcomes are no exceptions of C++:
  \<open>AssertionFailure\<close> (a failed \<open>assert\<close> ends the process), \<open>Undefined\<close> (the code reads or
  writes memory it may not), and \<open>Blocked\<close> (a call that never returns: the thread waits in it for ever,
  and the state is the one it waits in). None is stopped by a \<open>catch (...)\<close> clause.
\<close>

datatype exn =
    InvalidArgument string
  | RuntimeException string
  | LogicError string
  | OutOfRange
  | DeserializeException
  | InvalidStoreUriException string
  | UnsupportedStoreUriException string
  | StorePathNotDirectoryException string
  | ThrownPointer string
  | AssertionFailure
  | Undefined string
  | Blocked

type_synonym 'a res = "exn + 'a"

definition catchable :: "exn \<Rightarrow> bool" where
  "catchable e = (case e of AssertionFailure \<Rightarrow> False | Undefined _ \<Rightarrow> False | Blocked \<Rightarrow> False | _ \<Rightarrow> True)"

lemma catchable_simps [simp]:
  "catchable (InvalidArgument s)" "catchable (RuntimeException s)" "catchable (LogicError s)"
  "catchable OutOfRange" "catchable DeserializeException" "catchable (InvalidStoreUriException s)"
  "catchable (UnsupportedStoreUriException s)" "catchable (StorePathNotDirectoryException s)"
  "catchable (ThrownPointer s)" "\<not> catchable AssertionFailure" "\<not> catchable (Undefined s)" "\<not> catchable Blocked"
  by (simp_all add: catchable_def)

fun rbind :: "'a res \<Rightarrow> ('a \<Rightarrow> 'b res) \<Rightarrow> 'b res" where
  "rbind (Inl e) f = Inl e"
| "rbind (Inr x) f = f x"

lemma rbind_Inr_iff: "rbind m f = Inr y \<longleftrightarrow> (\<exists>x. m = Inr x \<and> f x = Inr y)"
  by (cases m) auto


lemma rbind_Inl_iff: "rbind m f = Inl e \<longleftrightarrow> m = Inl e \<or> (\<exists>x. m = Inr x \<and> f x = Inl e)"
  by (cases m) auto

lemma rbind_cong_Inr: "(\<And>x. m = Inr x \<Longrightarrow> f x = g x) \<Longrightarrow> rbind m f = rbind m g"
  by (cases m) auto

section \<open>Actions: state and exceptions\<close>

text \<open>
  A handler of the code is a function from the state to a result and the next state. A throw keeps
  the state changes made before it, as a C++ exception does: log messages that were sent stay sent.
\<close>

type_synonym ('s, 'a) action = "'s \<Rightarrow> 'a res \<times> 's"

definition ret :: "'a \<Rightarrow> ('s, 'a) action" where
  "ret x s = (Inr x, s)"

definition throw :: "exn \<Rightarrow> ('s, 'a) action" where
  "throw e s = (Inl e, s)"

definition andThen :: "('s, 'a) action \<Rightarrow> ('a \<Rightarrow> ('s, 'b) action) \<Rightarrow> ('s, 'b) action" where
  "andThen m f s = (case m s of (Inl e, s') \<Rightarrow> (Inl e, s') | (Inr x, s') \<Rightarrow> f x s')"

definition modify :: "('s \<Rightarrow> 's) \<Rightarrow> ('s, unit) action" where
  "modify f s = (Inr (), f s)"

definition gets :: "('s \<Rightarrow> 'a) \<Rightarrow> ('s, 'a) action" where
  "gets f s = (Inr (f s), s)"

definition lift_res :: "'a res \<Rightarrow> ('s, 'a) action" where
  "lift_res r s = (r, s)"

text \<open>\<open>try_catch m h\<close> is \<open>try { m } catch (...) { h }\<close>.\<close>

definition try_catch :: "('s, 'a) action \<Rightarrow> (exn \<Rightarrow> ('s, 'a) action) \<Rightarrow> ('s, 'a) action" where
  "try_catch m h s =
     (case m s of
        (Inl e, s') \<Rightarrow> if catchable e then h e s' else (Inl e, s')
      | (Inr x, s') \<Rightarrow> (Inr x, s'))"

fun for_each :: "('x \<Rightarrow> ('s, unit) action) \<Rightarrow> 'x list \<Rightarrow> ('s, unit) action" where
  "for_each f [] = ret ()"
| "for_each f (x # xs) = andThen (f x) (\<lambda>_. for_each f xs)"

named_theorems action_simps \<open>running an action on a state\<close>

lemma ret_run [action_simps, simp]: "ret x s = (Inr x, s)"
  by (simp add: ret_def)

lemma throw_run [action_simps, simp]: "throw e s = (Inl e, s)"
  by (simp add: throw_def)

lemma modify_run [action_simps, simp]: "modify f s = (Inr (), f s)"
  by (simp add: modify_def)

lemma gets_run [action_simps, simp]: "gets f s = (Inr (f s), s)"
  by (simp add: gets_def)

lemma lift_res_run [action_simps, simp]: "lift_res r s = (r, s)"
  by (simp add: lift_res_def)

lemma andThen_Inr: "m s = (Inr x, s') \<Longrightarrow> andThen m f s = f x s'"
  by (simp add: andThen_def)

lemma andThen_Inl: "m s = (Inl e, s') \<Longrightarrow> andThen m f s = (Inl e, s')"
  by (simp add: andThen_def)

lemma andThen_simps [action_simps, simp]:
  "andThen (ret x) f1 s1 = f1 x s1"
  "andThen (throw e) f2 s2 = (Inl e, s2)"
  "andThen (modify g) f3 s3 = f3 () (g s3)"
  "andThen (gets k) f4 s4 = f4 (k s4) s4"
  "andThen (lift_res r) f5 s5 = (case r of Inl e \<Rightarrow> (Inl e, s5) | Inr x \<Rightarrow> f5 x s5)"
  by (simp_all add: andThen_def split: sum.split)

lemma andThen_assoc: "andThen (andThen m f) g = andThen m (\<lambda>x. andThen (f x) g)"
  by (rule ext) (simp add: andThen_def split: prod.split sum.split)

lemma andThen_if [action_simps]:
  "andThen (if b then m else n) f s = (if b then andThen m f s else andThen n f s)"
  by simp

lemma andThen_Inr_iff:
  "andThen m f s = (Inr y, t) \<longleftrightarrow> (\<exists>x s'. m s = (Inr x, s') \<and> f x s' = (Inr y, t))"
  by (auto simp: andThen_def split: prod.splits sum.splits)

lemma andThen_Inl_iff:
  "andThen m f s = (Inl e, t) \<longleftrightarrow>
     m s = (Inl e, t) \<or> (\<exists>x s'. m s = (Inr x, s') \<and> f x s' = (Inl e, t))"
  by (auto simp: andThen_def split: prod.splits sum.splits)

text \<open>
  \<open>keeps P m\<close>: the relation \<open>P\<close> between a state and a later one holds across the action, whether it
  returns or throws. The rules follow the structure of an action.
\<close>

definition keeps :: "('s \<Rightarrow> 's \<Rightarrow> bool) \<Rightarrow> ('s, 'a) action \<Rightarrow> bool" where
  "keeps P m \<longleftrightarrow> (\<forall>s. P s (snd (m s)))"

named_theorems keeps_intros \<open>how an action keeps a relation on states\<close>

lemma keepsD: "keeps P m \<Longrightarrow> m s = (r, s') \<Longrightarrow> P s s'"
  by (auto simp: keeps_def dest: spec [of _ s])

lemma keepsI: "(\<And>s. P s (snd (m s))) \<Longrightarrow> keeps P m"
  by (simp add: keeps_def)

lemma keeps_pure [keeps_intros]:
  assumes "reflp P"
  shows "keeps P (ret x)" "keeps P (throw e)" "keeps P (gets f)" "keeps P (lift_res r)"
  using assms by (simp_all add: keeps_def reflp_def)

lemma keeps_modify: "(\<And>s. P s (f s)) \<Longrightarrow> keeps P (modify f)"
  by (simp add: keeps_def)

lemma keeps_andThen [keeps_intros]:
  assumes "transp P" "keeps P m" "\<And>x. keeps P (f x)"
  shows "keeps P (andThen m f)"
proof (rule keepsI)
  fix s
  obtain r s' where m: "m s = (r, s')" by (cases "m s")
  have step: "P s s'" using assms(2) m by (rule keepsD)
  show "P s (snd (andThen m f s))"
  proof (cases r)
    case (Inl e)
    with m step show ?thesis by (simp add: andThen_def)
  next
    case (Inr x)
    have "P s' (snd (f x s'))" using assms(3) by (simp add: keeps_def)
    with step have "P s (snd (f x s'))" using assms(1) by (blast dest: transpD)
    with m Inr show ?thesis by (simp add: andThen_def)
  qed
qed

lemma keeps_if [keeps_intros]: "keeps P m \<Longrightarrow> keeps P n \<Longrightarrow> keeps P (if b then m else n)"
  by simp

lemma keeps_option [keeps_intros]:
  "keeps P m \<Longrightarrow> (\<And>x. keeps P (f x)) \<Longrightarrow> keeps P (case z of None \<Rightarrow> m | Some x \<Rightarrow> f x)"
  by (cases z) auto

lemma keeps_try_catch [keeps_intros]:
  assumes "transp P" "keeps P m" "\<And>e. keeps P (h e)"
  shows "keeps P (try_catch m h)"
proof (rule keepsI)
  fix s
  obtain r s' where m: "m s = (r, s')" by (cases "m s")
  have step: "P s s'" using assms(2) m by (rule keepsD)
  show "P s (snd (try_catch m h s))"
  proof (cases r)
    case (Inl e)
    have "P s' (snd (h e s'))" using assms(3) by (simp add: keeps_def)
    with step have "P s (snd (h e s'))" using assms(1) by (blast dest: transpD)
    with m step Inl show ?thesis by (simp add: try_catch_def)
  next
    case (Inr x)
    with m step show ?thesis by (simp add: try_catch_def)
  qed
qed

lemma keeps_for_each [keeps_intros]:
  assumes "reflp P" "transp P" "\<And>x. keeps P (f x)"
  shows "keeps P (for_each f xs)"
proof (induction xs)
  case Nil
  show ?case unfolding for_each.simps using assms(1) by (rule keeps_pure)
next
  case (Cons x xs)
  show ?case unfolding for_each.simps using assms(2,3) Cons.IH by (rule keeps_andThen)
qed

section \<open>Strings of bytes\<close>

text \<open>
  The operations of \<open>std::string\<close> the code uses. \<open>substr\<close> throws \<open>out_of_range\<close> when the position
  is past the end, and is cut at the end of the string otherwise. \<open>None\<close> is \<open>string::npos\<close>.
\<close>

definition substr :: "string \<Rightarrow> nat \<Rightarrow> nat \<Rightarrow> string res" where
  "substr s pos n = (if pos \<le> length s then Inr (take n (drop pos s)) else Inl OutOfRange)"

fun index_of :: "(char \<Rightarrow> bool) \<Rightarrow> string \<Rightarrow> nat option" where
  "index_of P [] = None"
| "index_of P (c # cs) = (if P c then Some 0 else map_option Suc (index_of P cs))"

definition find_first_of :: "string \<Rightarrow> string \<Rightarrow> nat \<Rightarrow> nat option" where
  "find_first_of s chars pos = map_option (\<lambda>i. pos + i) (index_of (\<lambda>c. c \<in> set chars) (drop pos s))"

definition ends_with :: "string \<Rightarrow> string \<Rightarrow> bool" where
  "ends_with s suffix \<longleftrightarrow> length suffix \<le> length s \<and> drop (length s - length suffix) s = suffix"

lemma ends_with_append [simp]: "ends_with (a @ b) b"
  by (simp add: ends_with_def)

lemma ends_with_iff: "ends_with s t \<longleftrightarrow> (\<exists>a. s = a @ t)"
  unfolding ends_with_def
  by (metis append_take_drop_id append_eq_conv_conj diff_add_inverse2 le_add2 length_append length_drop)

lemma index_of_None_iff: "index_of P s = None \<longleftrightarrow> (\<forall>c \<in> set s. \<not> P c)"
  by (induction s) auto

lemma index_of_append_hit:
  "(\<And>c. c \<in> set a \<Longrightarrow> \<not> P c) \<Longrightarrow> P c \<Longrightarrow> index_of P (a @ c # b) = Some (length a)"
  by (induction a) auto

end
