(* ===== verification/Store_Path.thy ===== *)
theory Store_Path
  imports Prelude
begin

text \<open>
  Store paths: the static functions of the class \<open>Store\<close> (src/zippylog/store.cpp) that validate,
  parse and build paths of the form \<open>/bucket/set/stream\<close>. The definitions follow the code's
  loops over indices; \<open>path_denotes\<close> is the abstract grammar they are proved to implement.
\<close>

section \<open>Validation\<close>

text \<open>The value of a \<open>char\<close> of the code, which is signed.\<close>

definition char_value :: "char \<Rightarrow> int" where
  "char_value c = (let n = (of_char c :: int) in if n < 128 then n else n - 256)"

definition extension :: string where
  "extension = ''.zippylog''"

text \<open>The loop of \<open>ValidatePath\<close> from index \<open>i\<close>, with the slashes counted so far.\<close>

function validate_from :: "string \<Rightarrow> nat \<Rightarrow> nat \<Rightarrow> bool" where
  "validate_from path i seen_paths =
     (if i < length path then
        if path ! i = CHR ''/'' then
          if path ! (i - 1) = CHR ''/'' then False
          else if seen_paths + 1 > 3 then False
          else validate_from path (Suc i) (seen_paths + 1)
        else if char_value (path ! i) \<ge> 48 \<and> char_value (path ! i) \<le> 57 then validate_from path (Suc i) seen_paths
        else if char_value (path ! i) \<ge> 65 \<and> char_value (path ! i) \<le> 90 then validate_from path (Suc i) seen_paths
        else if char_value (path ! i) \<ge> 97 \<and> char_value (path ! i) \<le> 122 then validate_from path (Suc i) seen_paths
        else if char_value (path ! i) = 45 \<or> char_value (path ! i) = 95 then validate_from path (Suc i) seen_paths
        else if seen_paths = 3 \<and> path ! i = CHR ''.'' then
          substr path i (length path - i) = Inr extension
        else False
      else True)"
  by pat_completeness auto
termination
  by (relation "measure (\<lambda>(path, i, _). length path - i)") auto

declare validate_from.simps [simp del]

text \<open>\<open>path[0]\<close> of the empty (constant) string is the terminating zero byte.\<close>

definition ValidatePath :: "string \<Rightarrow> bool" where
  "ValidatePath path =
     (if (if path = [] then CHR 0x00 else path ! 0) \<noteq> CHR ''/'' then False
      else validate_from path 1 1)"

section \<open>Parsing\<close>

text \<open>
  The three out parameters of \<open>ParsePath\<close> are the components of the result; \<open>None\<close> is the return
  value \<open>false\<close>, after which no caller reads them. \<open>parse_fields\<close> is the loop, its first argument
  the iterations left. The \<open>switch\<close> writes the component of the current field.
\<close>

fun assign_field :: "nat \<Rightarrow> string \<Rightarrow> string \<times> string \<times> string \<Rightarrow> string \<times> string \<times> string" where
  "assign_field field v (bucket, sset, stream) =
     (if field = 0 then (v, sset, stream)
      else if field = 1 then (bucket, v, stream)
      else if field = 2 then
        (bucket, sset,
          if length v > 9 \<and> take 9 (drop (length v - 9) v) = extension then take (length v - 9) v else v)
      else (bucket, sset, stream))"

fun parse_fields ::
  "nat \<Rightarrow> string \<Rightarrow> nat \<Rightarrow> nat \<Rightarrow> nat \<Rightarrow> string \<times> string \<times> string \<Rightarrow> (string \<times> string \<times> string) option res"
where
  "parse_fields 0 path off cur field out = Inr (Some out)"
| "parse_fields (Suc left) path off cur field out =
     (case find_first_of path ''/'' off of
        None \<Rightarrow>
          rbind (if field = 0 then substr path 1 (length path - 1) else substr path cur (length path - cur))
            (\<lambda>v. Inr (Some (assign_field field v out)))
      | Some off' \<Rightarrow>
          if field = 2 then Inr None
          else
            rbind (if field = 0 then substr path 1 (off' - 1) else substr path cur (off' - cur))
              (\<lambda>v. parse_fields left path (off' + 1) (off' + 1) (field + 1) (assign_field field v out)))"

definition ParsePath :: "string \<Rightarrow> (string \<times> string \<times> string) option res" where
  "ParsePath path =
     (if \<not> ValidatePath path then Inr None
      else if length path = 1 then Inr (Some ([], [], []))
      else parse_fields 3 path 1 1 0 ([], [], []))"

text \<open>
  The value of a call of \<open>ParsePath\<close> for the callers below; \<open>ParsePath_parse_path\<close> shows that the
  call never throws, so nothing is lost.
\<close>

definition parse_path :: "string \<Rightarrow> (string \<times> string \<times> string) option" where
  "parse_path path = (case ParsePath path of Inl _ \<Rightarrow> None | Inr r \<Rightarrow> r)"

definition ParseBucketPath :: "string \<Rightarrow> string option" where
  "ParseBucketPath path =
     (case parse_path path of
        None \<Rightarrow> None
      | Some (bucket, _, _) \<Rightarrow> if length bucket > 0 then Some bucket else None)"

definition ParseStreamSetPath :: "string \<Rightarrow> (string \<times> string) option" where
  "ParseStreamSetPath path =
     (case parse_path path of
        None \<Rightarrow> None
      | Some (bucket, sset, _) \<Rightarrow>
          if length bucket > 0 \<and> length sset > 0 then Some (bucket, sset) else None)"

definition IsBucketPath :: "string \<Rightarrow> bool" where
  "IsBucketPath path =
     (case parse_path path of
        None \<Rightarrow> False
      | Some (bucket, sset, stream) \<Rightarrow> bucket \<noteq> [] \<and> sset = [] \<and> stream = [])"

definition IsStreamSetPath :: "string \<Rightarrow> bool" where
  "IsStreamSetPath path =
     (case parse_path path of
        None \<Rightarrow> False
      | Some (bucket, sset, stream) \<Rightarrow> bucket \<noteq> [] \<and> sset \<noteq> [] \<and> stream = [])"

definition IsStreamPath :: "string \<Rightarrow> bool" where
  "IsStreamPath path =
     (case parse_path path of
        None \<Rightarrow> False
      | Some (bucket, sset, stream) \<Rightarrow> bucket \<noteq> [] \<and> sset \<noteq> [] \<and> stream \<noteq> [])"

definition BucketPath :: "string \<Rightarrow> string" where
  "BucketPath bucket = ''/'' @ bucket"

definition StreamsetPath :: "string \<Rightarrow> string \<Rightarrow> string" where
  "StreamsetPath bucket stream_set = BucketPath bucket @ ''/'' @ stream_set"

definition StreamPath :: "string \<Rightarrow> string \<Rightarrow> string \<Rightarrow> string" where
  "StreamPath bucket stream_set filename = StreamsetPath bucket stream_set @ ''/'' @ filename"

section \<open>The grammar of store paths\<close>

definition name_char :: "char \<Rightarrow> bool" where
  "name_char c \<longleftrightarrow>
     (let v = char_value c in
      48 \<le> v \<and> v \<le> 57 \<or> 65 \<le> v \<and> v \<le> 90 \<or> 97 \<le> v \<and> v \<le> 122 \<or> v = 45 \<or> v = 95)"

definition is_name :: "string \<Rightarrow> bool" where
  "is_name s \<longleftrightarrow> s \<noteq> [] \<and> list_all name_char s"

inductive path_denotes :: "string \<Rightarrow> string \<times> string \<times> string \<Rightarrow> bool" where
  root: "path_denotes ''/'' ([], [], [])"
| bucket: "is_name b \<Longrightarrow> path_denotes (BucketPath b) (b, [], [])"
| bucket_slash: "is_name b \<Longrightarrow> path_denotes (BucketPath b @ ''/'') (b, [], [])"
| sset: "is_name b \<Longrightarrow> is_name s \<Longrightarrow> path_denotes (StreamsetPath b s) (b, s, [])"
| sset_slash: "is_name b \<Longrightarrow> is_name s \<Longrightarrow> path_denotes (StreamsetPath b s @ ''/'') (b, s, [])"
| stream: "is_name b \<Longrightarrow> is_name s \<Longrightarrow> is_name n \<Longrightarrow> path_denotes (StreamPath b s n) (b, s, n)"
| stream_ext: "is_name b \<Longrightarrow> is_name s \<Longrightarrow> is_name n \<Longrightarrow>
    path_denotes (StreamPath b s n @ extension) (b, s, n)"
| bare_ext: "is_name b \<Longrightarrow> is_name s \<Longrightarrow>
    path_denotes (StreamsetPath b s @ ''/'' @ extension) (b, s, extension)"

lemmas path_defs = BucketPath_def StreamsetPath_def StreamPath_def

lemma name_char_not_special [simp]:
  "\<not> name_char CHR ''/''" "\<not> name_char CHR ''.''"
  by (simp_all add: name_char_def char_value_def)

lemma is_name_noslash: "is_name s \<Longrightarrow> CHR ''/'' \<notin> set s"
  unfolding is_name_def list_all_iff using name_char_not_special by blast

lemma is_name_nodot: "is_name s \<Longrightarrow> CHR ''.'' \<notin> set s"
  unfolding is_name_def list_all_iff using name_char_not_special by blast

lemma is_name_nonempty: "is_name s \<Longrightarrow> s \<noteq> []"
  by (simp add: is_name_def)

section \<open>Validation by structure\<close>

text \<open>The validation loop again, by recursion on the rest of the path and its previous character.\<close>

fun valid_rest :: "char \<Rightarrow> nat \<Rightarrow> string \<Rightarrow> bool" where
  "valid_rest prev seen [] = True"
| "valid_rest prev seen (c # cs) =
     (if c = CHR ''/'' then prev \<noteq> CHR ''/'' \<and> seen < 3 \<and> valid_rest c (Suc seen) cs
      else if name_char c then valid_rest c seen cs
      else seen = 3 \<and> c # cs = extension)"

lemma validate_from_structural:
  "0 < i \<Longrightarrow> i \<le> length path \<Longrightarrow>
   validate_from path i seen = valid_rest (path ! (i - 1)) seen (drop i path)"
proof (induction path i seen rule: validate_from.induct)
  case (1 path i seen)
  show ?case
  proof (cases "i < length path")
    case False
    then show ?thesis by (simp add: validate_from.simps [of path i])
  next
    case True
    then have d: "drop i path = path ! i # drop (Suc i) path" by (simp add: Cons_nth_drop_Suc)
    have sub: "substr path i (length path - i) = Inr (drop i path)"
      using True by (simp add: substr_def)
    have dot: "extension ! 0 = CHR ''.''" by (simp add: extension_def)
    have hd: "path ! i = CHR ''.''" if "path ! i # drop (Suc i) path = extension"
      using that by (simp add: extension_def)
    show ?thesis
      using True "1.IH" "1.prems" hd
      by (subst validate_from.simps) (auto simp: sub d name_char_def Let_def)
  qed
qed

lemma ValidatePath_structural:
  "ValidatePath path \<longleftrightarrow> (\<exists>cs. path = CHR ''/'' # cs \<and> valid_rest CHR ''/'' 1 cs)"
  by (cases path) (auto simp: ValidatePath_def validate_from_structural)


lemma valid_rest_names:
  "list_all name_char x \<Longrightarrow> valid_rest prev seen (x @ r) = valid_rest (last (prev # x)) seen r"
proof (induction x arbitrary: prev)
  case Nil
  then show ?case by simp
next
  case (Cons c x)
  then have "c \<noteq> CHR ''/''" using name_char_not_special(1) by auto
  with Cons show ?case by simp
qed

lemma last_name_not_slash:
  "list_all name_char x \<Longrightarrow> last (CHR ''/'' # x) = CHR ''/'' \<longleftrightarrow> x = []"
  by (cases x rule: rev_cases) (use name_char_not_special(1) in \<open>auto simp: list_all_iff\<close>)

text \<open>One component of a path: the longest run of name characters, and what may follow it.\<close>

lemma valid_rest_names_end: "list_all name_char x \<Longrightarrow> valid_rest prev seen x"
  using valid_rest_names [of x prev seen "[]"] by simp

lemma valid_rest_component:
  assumes "valid_rest CHR ''/'' seen cs"
  shows "list_all name_char cs \<or>
    (\<exists>x r. is_name x \<and> cs = x @ CHR ''/'' # r \<and> seen < 3 \<and> valid_rest CHR ''/'' (Suc seen) r) \<or>
    (\<exists>x. list_all name_char x \<and> cs = x @ extension \<and> seen = 3)"
proof -
  define x r where "x = takeWhile name_char cs" and "r = dropWhile name_char cs"
  have x: "list_all name_char x" unfolding x_def list_all_iff by (blast dest: set_takeWhileD)
  have cs: "cs = x @ r" by (simp add: x_def r_def)
  have v: "valid_rest (last (CHR ''/'' # x)) seen r"
    using assms valid_rest_names [OF x, of "CHR ''/''" seen r] cs by simp
  show ?thesis
  proof (cases r)
    case Nil
    with x cs show ?thesis by simp
  next
    case (Cons c r')
    then have c: "\<not> name_char c" using hd_dropWhile [of name_char cs] by (simp add: r_def)
    show ?thesis
    proof (cases "c = CHR ''/''")
      case True
      with v Cons have l: "last (CHR ''/'' # x) \<noteq> CHR ''/''" and s: "seen < 3"
        and v': "valid_rest CHR ''/'' (Suc seen) r'"
        by simp_all
      from l have "x \<noteq> []" by auto
      with x have "is_name x" by (simp add: is_name_def)
      with s v' cs Cons True show ?thesis by blast
    next
      case False
      with v Cons c have "seen = 3" "r = extension" by simp_all
      with x cs show ?thesis by blast
    qed
  qed
qed

lemma list_all_name: "list_all name_char x \<longleftrightarrow> x = [] \<or> is_name x"
  by (auto simp: is_name_def)

lemma extension_not_name [simp]: "list_all name_char extension = False"
  by (simp add: extension_def)

text \<open>Each of the eight shapes, as the string the validation loop sees after the first slash.\<close>

lemma valid_rest_last:
  assumes "valid_rest CHR ''/'' 3 q"
  shows "q = [] \<or> is_name q \<or> q = extension \<or> (\<exists>n. is_name n \<and> q = n @ extension)"
  using valid_rest_component [OF assms] by (auto simp: list_all_name)

lemma valid_rest_second:
  assumes "valid_rest CHR ''/'' 2 r"
  shows "r = [] \<or> is_name r \<or>
    (\<exists>s q. is_name s \<and> r = s @ CHR ''/'' # q \<and>
       (q = [] \<or> is_name q \<or> q = extension \<or> (\<exists>n. is_name n \<and> q = n @ extension)))"
proof -
  have "Suc 2 = 3" by simp
  with valid_rest_component [OF assms] valid_rest_last show ?thesis
    unfolding list_all_name by (metis numeral_eq_iff semiring_norm(89))
qed

lemma valid_rest_first:
  assumes "valid_rest CHR ''/'' 1 cs"
  shows "cs = [] \<or> is_name cs \<or>
    (\<exists>b r. is_name b \<and> cs = b @ CHR ''/'' # r \<and> valid_rest CHR ''/'' 2 r)"
proof -
  have "Suc 1 = 2" by simp
  with valid_rest_component [OF assms] show ?thesis
    unfolding list_all_name by (metis numeral_eq_one_iff semiring_norm(86))
qed

lemma denotes_exists:
  assumes "ValidatePath path"
  shows "\<exists>t. path_denotes path t"
proof -
  obtain cs where path: "path = CHR ''/'' # cs" and v: "valid_rest CHR ''/'' 1 cs"
    using assms by (auto simp: ValidatePath_structural)
  note shape = path_denotes.intros [unfolded path_defs, simplified]
  from valid_rest_first [OF v] consider (stop) "cs = []" | (name) "is_name cs"
    | (slash) b r where "is_name b" "cs = b @ CHR ''/'' # r" "valid_rest CHR ''/'' 2 r"
    by blast
  then show ?thesis
  proof cases
    case stop
    with shape(1) path show ?thesis by blast
  next
    case name
    with shape(2) path show ?thesis by blast
  next
    case (slash b r)
    from valid_rest_second [OF slash(3)] consider (stop) "r = []" | (name) "is_name r"
      | (slash) s q where "is_name s" "r = s @ CHR ''/'' # q"
          "q = [] \<or> is_name q \<or> q = extension \<or> (\<exists>n. is_name n \<and> q = n @ extension)"
      by blast
    then show ?thesis
      by cases (use slash path in \<open>auto simp del: split_paired_Ex intro: shape exI\<close>)
  qed
qed

lemma is_name_list_all: "is_name x \<Longrightarrow> list_all name_char x"
  by (simp add: is_name_def)

lemma extension_valid [simp]: "valid_rest prev 3 extension"
  by (simp add: extension_def name_char_def char_value_def)

lemma last_is_name: "is_name x \<Longrightarrow> last x \<noteq> CHR ''/''"
  using last_name_not_slash [of x] by (auto simp: is_name_def split: if_splits)

lemmas valid_rest_simps =
  valid_rest_names valid_rest_names_end is_name_list_all last_is_name is_name_nonempty

lemma denotes_valid: "path_denotes path t \<Longrightarrow> ValidatePath path"
proof (induction rule: path_denotes.induct)
  case root
  show ?case by (simp add: ValidatePath_structural)
qed (auto simp: ValidatePath_structural path_defs valid_rest_simps numeral_2_eq_2 numeral_3_eq_3 [symmetric])

section \<open>Parsing by structure\<close>

lemma find_slash_hit:
  "CHR ''/'' \<notin> set x \<Longrightarrow>
   find_first_of (pre @ x @ CHR ''/'' # r) ''/'' (length pre) = Some (length pre + length x)"
  by (simp add: find_first_of_def) (subst index_of_append_hit, auto)

lemma find_slash_none:
  "CHR ''/'' \<notin> set x \<Longrightarrow> find_first_of (pre @ x) ''/'' (length pre) = None"
  by (auto simp: find_first_of_def index_of_None_iff)

text \<open>One step of the parser at a component that a slash ends, and at the last component.\<close>

lemma parse_fields_slash:
  assumes "CHR ''/'' \<notin> set x" "path = pre @ x @ CHR ''/'' # r" "field < 2" "field = 0 \<longrightarrow> length pre = 1"
  shows "parse_fields (Suc l) path (length pre) (length pre) field out =
    parse_fields l path (length (pre @ x @ ''/'')) (length (pre @ x @ ''/'')) (field + 1) (assign_field field x out)"
  using assms find_slash_hit [of x pre r] by (auto simp: substr_def)

lemma parse_fields_end:
  assumes "CHR ''/'' \<notin> set x" "path = pre @ x" "field = 0 \<longrightarrow> length pre = 1"
  shows "parse_fields (Suc l) path (length pre) (length pre) field out = Inr (Some (assign_field field x out))"
  using assms find_slash_none [of x pre] by (auto simp: substr_def)

lemma parse_one:
  assumes "is_name b" shows "ParsePath (BucketPath b) = Inr (Some (b, [], []))"
  using assms denotes_valid [OF path_denotes.bucket [OF assms]]
    parse_fields_end [of b "BucketPath b" "''/''" 0 2 "([], [], [])"]
  by (simp add: ParsePath_def path_defs is_name_noslash is_name_nonempty eval_nat_numeral)

lemma parse_two:
  assumes "is_name b" "CHR ''/'' \<notin> set s" "ValidatePath (BucketPath b @ ''/'' @ s)"
  shows "ParsePath (BucketPath b @ ''/'' @ s) = Inr (Some (b, s, []))"
  using assms
    parse_fields_slash [of b "BucketPath b @ ''/'' @ s" "''/''" s 0 2 "([], [], [])"]
    parse_fields_end [of s "BucketPath b @ ''/'' @ s" "''/'' @ b @ ''/''" 1 1 "(b, [], [])"]
  by (simp add: ParsePath_def path_defs is_name_noslash is_name_nonempty eval_nat_numeral)

lemma parse_three:
  assumes "is_name b" "is_name s" "CHR ''/'' \<notin> set n" "ValidatePath (StreamPath b s n)"
  shows "ParsePath (StreamPath b s n) = Inr (Some (assign_field 2 n (b, s, [])))"
  using assms
    parse_fields_slash [of b "StreamPath b s n" "''/''" "s @ ''/'' @ n" 0 2 "([], [], [])"]
    parse_fields_slash [of s "StreamPath b s n" "''/'' @ b @ ''/''" n 1 1 "(b, [], [])"]
    parse_fields_end [of n "StreamPath b s n" "''/'' @ b @ ''/'' @ s @ ''/''" 2 0 "(b, s, [])"]
  by (simp add: ParsePath_def path_defs is_name_noslash is_name_nonempty eval_nat_numeral)

lemma strip_name: "is_name n \<Longrightarrow> assign_field 2 n (b, s, t) = (b, s, n)"
proof -
  assume n: "is_name n"
  have "take 9 (drop (length n - 9) n) \<noteq> extension"
  proof
    assume e: "take 9 (drop (length n - 9) n) = extension"
    have "CHR ''.'' \<in> set (take 9 (drop (length n - 9) n))" unfolding e by (simp add: extension_def)
    then have "CHR ''.'' \<in> set n" by (blast dest: in_set_takeD in_set_dropD)
    with is_name_nodot [OF n] show False ..
  qed
  then show ?thesis by simp
qed

lemma length_extension [simp]: "length extension = 9"
  by (simp add: extension_def)

lemma extension_noslash [simp]: "CHR ''/'' \<notin> set extension"
  by (simp add: extension_def)

lemma denotes_parse:
  assumes d: "path_denotes path t"
  shows "ParsePath path = Inr (Some t)"
proof -
  note valid = denotes_valid [OF d]
  from d show ?thesis
  proof (cases rule: path_denotes.cases)
    case root
    with valid show ?thesis by (simp add: ParsePath_def)
  next
    case (bucket b)
    then show ?thesis by (simp add: parse_one)
  next
    case (bucket_slash b)
    with valid parse_two [of b "[]"] show ?thesis by (simp add: path_defs)
  next
    case (sset b s)
    with valid parse_two [of b s] show ?thesis by (simp add: path_defs is_name_noslash)
  next
    case (sset_slash b s)
    with valid parse_three [of b s "[]"] show ?thesis by (simp add: path_defs)
  next
    case (stream b s n)
    with valid parse_three [of b s n] strip_name show ?thesis by (simp add: is_name_noslash)
  next
    case (stream_ext b s n)
    with valid parse_three [of b s "n @ extension"] is_name_nonempty [of n] show ?thesis
      by (simp add: path_defs is_name_noslash)
  next
    case (bare_ext b s)
    with valid parse_three [of b s extension] show ?thesis by (simp add: path_defs)
  qed
qed

lemma parse_path_iff: "parse_path path = Some t \<longleftrightarrow> path_denotes path t"
proof
  assume p: "parse_path path = Some t"
  then have "ValidatePath path" by (auto simp: parse_path_def ParsePath_def split: if_splits)
  then obtain u where u: "path_denotes path u" using denotes_exists by blast
  with p denotes_parse [OF u] show "path_denotes path t" by (simp add: parse_path_def)
qed (simp add: parse_path_def denotes_parse)

lemma parse_path_names:
  assumes "parse_path path = Some (b, s, n)"
  shows "list_all name_char b" "list_all name_char s" "s \<noteq> [] \<longrightarrow> b \<noteq> []" "n \<noteq> [] \<longrightarrow> s \<noteq> []"
    "is_name n \<or> n = [] \<or> n = extension"
proof -
  from assms have "path_denotes path (b, s, n)" by (simp add: parse_path_iff)
  then show "list_all name_char b" "list_all name_char s" "s \<noteq> [] \<longrightarrow> b \<noteq> []" "n \<noteq> [] \<longrightarrow> s \<noteq> []"
    "is_name n \<or> n = [] \<or> n = extension"
    by (cases rule: path_denotes.cases; simp add: list_all_name is_name_nonempty)+
qed

section \<open>Properties\<close>

text \<open>
  C1: the index loop of \<open>ValidatePath\<close> accepts exactly the paths of the grammar, \<open>ParsePath\<close> never
  throws, and it returns the components of the path exactly for those paths (so its
  \<open>return false\<close> in the third field is never reached).
\<close>

theorem ParsePath_grammar:
  "(ValidatePath path \<longleftrightarrow> (\<exists>t. path_denotes path t)) \<and>
   (ParsePath path = Inr (Some t) \<longleftrightarrow> path_denotes path t) \<and>
   (ParsePath path = Inr None \<longleftrightarrow> \<not> ValidatePath path)"
proof -
  have valid: "ValidatePath path \<longleftrightarrow> (\<exists>u. path_denotes path u)"
    using denotes_valid denotes_exists by blast
  have total: "ParsePath path = Inr (Some u)" if "path_denotes path u" for u
    using that by (rule denotes_parse)
  have none: "ParsePath path = Inr None" if "\<not> ValidatePath path"
    using that by (simp add: ParsePath_def)
  have some: "path_denotes path t" if "ParsePath path = Inr (Some t)"
    using that by (simp add: parse_path_iff [symmetric] parse_path_def)
  from valid total none some show ?thesis by fastforce
qed

text \<open>
  C2: building the path of a bucket, a stream set or a stream from names and parsing it gives the
  names back, also when the stream carries the file extension, and the three classifications tell
  the three kinds of path apart.
\<close>

theorem path_roundtrip:
  assumes "is_name b" "is_name s" "is_name n"
  shows "ParseBucketPath (BucketPath b) = Some b
    \<and> ParseStreamSetPath (StreamsetPath b s) = Some (b, s)
    \<and> ParsePath (StreamPath b s n) = Inr (Some (b, s, n))
    \<and> ParsePath (StreamPath b s n @ extension) = Inr (Some (b, s, n))
    \<and> IsBucketPath (BucketPath b) \<and> \<not> IsStreamSetPath (BucketPath b) \<and> \<not> IsStreamPath (BucketPath b)
    \<and> IsStreamSetPath (StreamsetPath b s) \<and> \<not> IsBucketPath (StreamsetPath b s)
    \<and> \<not> IsStreamPath (StreamsetPath b s)
    \<and> IsStreamPath (StreamPath b s n) \<and> \<not> IsBucketPath (StreamPath b s n)
    \<and> \<not> IsStreamSetPath (StreamPath b s n)"
proof -
  note d = path_denotes.bucket [OF assms(1)] path_denotes.sset [OF assms(1,2)]
    path_denotes.stream [OF assms] path_denotes.stream_ext [OF assms]
  note p = d [THEN denotes_parse] d [folded parse_path_iff]
  show ?thesis
    using assms [THEN is_name_nonempty] p
    by (simp add: ParseBucketPath_def ParseStreamSetPath_def IsBucketPath_def IsStreamSetPath_def
        IsStreamPath_def)
qed

lemma path_roundtrip_witness:
  "IsStreamPath (StreamPath ''zippylog'' ''server-1'' ''2010-10-29-15'')"
  by (rule path_roundtrip [THEN conjunct2, THEN conjunct2, THEN conjunct2, THEN conjunct2,
        THEN conjunct2, THEN conjunct2, THEN conjunct2, THEN conjunct2, THEN conjunct2,
        THEN conjunct2, THEN conjunct1]) (simp_all add: is_name_def name_char_def char_value_def)

end
