(* ===== verification/Calendar.thy ===== *)
theory Calendar
  imports Store_Path "HOL-Library.Signed_Division"
begin

text \<open>
  Times and the names of streams: \<open>platform::Time\<close>, its construction from a number of microseconds
  (src/zippylog/platform.cpp), and \<open>Store::StreamNameForTime\<close> (src/zippylog/store.cpp), which names the
  stream an envelope written at a time goes to.

  \<open>gmtime\<close> of the C library is written out over the proleptic Gregorian calendar; \<open>timegm_days\<close> is its
  inverse on days, which gives the injectivity of the names.
\<close>

section \<open>The calendar of the C library\<close>

definition leap_year :: "int \<Rightarrow> bool" where
  "leap_year y \<longleftrightarrow> y mod 4 = 0 \<and> (y mod 100 \<noteq> 0 \<or> y mod 400 = 0)"

definition days_in_year :: "int \<Rightarrow> int" where
  "days_in_year y = (if leap_year y then 366 else 365)"

definition month_lengths :: "int \<Rightarrow> int list" where
  "month_lengths y = [31, if leap_year y then 29 else 28, 31, 30, 31, 30, 31, 31, 30, 31, 30, 31]"

text \<open>The year of a day and the day in it, counting from the first day of the year \<open>y\<close>.\<close>

function year_forward :: "int \<Rightarrow> int \<Rightarrow> int \<times> int" where
  "year_forward y d = (if d < days_in_year y then (y, d) else year_forward (y + 1) (d - days_in_year y))"
  by pat_completeness auto
termination
  by (relation "measure (\<lambda>(y, d). nat d)") (auto simp: days_in_year_def split: if_splits)

function year_backward :: "int \<Rightarrow> int \<Rightarrow> int \<times> int" where
  "year_backward y d = (if 0 \<le> d then (y, d) else year_backward (y - 1) (d + days_in_year (y - 1)))"
  by pat_completeness auto
termination
  by (relation "measure (\<lambda>(y, d). nat (- d))") (auto simp: days_in_year_def split: if_splits)

declare year_forward.simps [simp del] year_backward.simps [simp del]

fun month_of :: "int list \<Rightarrow> int \<Rightarrow> int \<Rightarrow> int \<times> int" where
  "month_of [] m d = (m, d)"
| "month_of (l # ls) m d = (if d < l then (m, d) else month_of ls (m + 1) (d - l))"

record tm =
  tm_year :: int
  tm_mon :: int
  tm_mday :: int
  tm_hour :: int
  tm_min :: int
  tm_sec :: int
  tm_wday :: int
  tm_yday :: int
  tm_isdst :: int

definition gmtime :: "int \<Rightarrow> tm" where
  "gmtime t =
     (let days = t div 86400; secs = t mod 86400;
          (y0, d0) = year_backward 1970 days;
          (y, yd) = year_forward y0 d0;
          (m, md) = month_of (month_lengths y) 0 yd
      in \<lparr>tm_year = y - 1900, tm_mon = m, tm_mday = md + 1, tm_hour = secs div 3600,
          tm_min = secs mod 3600 div 60, tm_sec = secs mod 60, tm_wday = (days + 4) mod 7,
          tm_yday = yd, tm_isdst = 0\<rparr>)"

section \<open>Times\<close>

record Time =
  year :: int
  mon :: int
  mday :: int
  hour :: int
  min :: int
  sec :: int
  usec :: int
  wday :: int
  yday :: int
  isdst :: int
  epoch_micro :: int
  epoch_sec :: int

definition fill_time :: "int \<Rightarrow> int \<Rightarrow> int \<Rightarrow> Time" where
  "fill_time micro s u =
     (let gtm = gmtime s in
      \<lparr>year = tm_year gtm + 1900, mon = tm_mon gtm + 1, mday = tm_mday gtm, hour = tm_hour gtm,
       min = tm_min gtm, sec = tm_sec gtm, usec = u, wday = tm_wday gtm, yday = tm_yday gtm,
       isdst = tm_isdst gtm, epoch_micro = micro, epoch_sec = s\<rparr>)"

text \<open>\<open>gettimeofday\<close> yields seconds and microseconds; \<open>epoch_sec\<close> is an \<open>int32\<close>.\<close>

definition TimeNow :: "int \<times> int \<Rightarrow> Time" where
  "TimeNow tv = fill_time (to_int64 (fst tv * 1000000 + snd tv)) (to_int32 (fst tv)) (snd tv)"

definition UnixMicroTimeToZippyTime :: "int \<Rightarrow> Time" where
  "UnixMicroTimeToZippyTime from' =
     fill_time from' (to_int32 (from' sdiv 1000000)) (from' smod 1000000)"

section \<open>Stream names\<close>

fun dec :: "nat \<Rightarrow> string" where
  "dec n = (if n < 10 then [char_of (48 + n)] else dec (n div 10) @ [char_of (48 + n mod 10)])"

declare dec.simps [simp del]

text \<open>The conversion \<open>%0wd\<close> of \<open>sprintf\<close>.\<close>

definition zpad :: "nat \<Rightarrow> int \<Rightarrow> string" where
  "zpad w n =
     (if 0 \<le> n then replicate (w - length (dec (nat n))) CHR ''0'' @ dec (nat n)
      else ''-'' @ replicate (w - 1 - length (dec (nat (- n)))) CHR ''0'' @ dec (nat (- n)))"

text \<open>\<open>sprintf\<close> into a buffer of \<open>bytes\<close> bytes, read back as a string of \<open>n\<close> characters.\<close>

definition sprintf_buffer :: "nat \<Rightarrow> nat \<Rightarrow> string \<Rightarrow> string res" where
  "sprintf_buffer bytes n s =
     (if length s < bytes then Inr (take n s) else Inl (Undefined ''sprintf past the buffer''))"

definition date_part :: "Time \<Rightarrow> string" where
  "date_part t = zpad 4 (year t) @ ''-'' @ zpad 2 (mon t) @ ''-'' @ zpad 2 (mday t)"

definition StreamNameForTime :: "Time \<Rightarrow> int \<Rightarrow> string res" where
  "StreamNameForTime t seconds_per_file =
     (if seconds_per_file = 86400 then sprintf_buffer 11 10 (date_part t)
      else if seconds_per_file = 3600 then
        sprintf_buffer 14 13 (date_part t @ ''-'' @ zpad 2 (hour t))
      else if seconds_per_file > 3600 \<or> seconds_per_file < 4 then
        Inl (InvalidArgument ''seconds_per_file value not valid'')
      else if 3600 mod seconds_per_file > 0 then
        Inl (InvalidArgument ''seconds_per_file does not divide into 3600 evenly'')
      else
        let series_max = 3600 div seconds_per_file;
            seconds_since_hour = min t * 60 + sec t;
            current = seconds_since_hour div seconds_per_file + 1
        in sprintf_buffer 22 21
             (date_part t @ ''-'' @ zpad 2 (hour t) @ ''-'' @ zpad 3 current @ ''-'' @ zpad 3 series_max))"

definition StreamNameForTime_micro :: "int \<Rightarrow> int \<Rightarrow> string res" where
  "StreamNameForTime_micro time seconds_per_file =
     StreamNameForTime (UnixMicroTimeToZippyTime time) seconds_per_file"

section \<open>The calendar is a bijection\<close>

text \<open>The days before a year, in closed form, and the day a date stands for.\<close>

definition days_before :: "int \<Rightarrow> int" where
  "days_before y = 365 * y + (y - 1) div 4 - (y - 1) div 100 + (y - 1) div 400"

definition date_day :: "int \<Rightarrow> int \<Rightarrow> int \<Rightarrow> int" where
  "date_day y m d = days_before y + sum_list (take (nat m) (month_lengths y)) + d"

lemma div_step:
  assumes "0 < (k::int)"
  shows "y div k = (y - 1) div k + (if y mod k = 0 then 1 else 0)"
proof (cases "y mod k = 0")
  case True
  then obtain q where "y = k * q" by (auto simp: mod_eq_0_iff_dvd dvd_def)
  moreover have "(k * q - 1) div k = q - 1"
    using assms by (simp add: div_pos_neg_trivial int_div_pos_eq [of _ _ "q - 1" "k - 1"] algebra_simps)
  ultimately show ?thesis using assms by simp
next
  case False
  define q r where "q = y div k" and "r = y mod k"
  have r: "0 < r" "r < k" and y: "y = k * q + r"
    using assms False pos_mod_sign [of k y] pos_mod_bound [of k y] by (auto simp: q_def r_def order_less_le)
  have "(y - 1) div k = q"
    using r by (intro int_div_pos_eq [of _ _ _ "r - 1"]) (auto simp: y)
  then show ?thesis using False by (simp add: q_def)
qed

lemma leap_dvd: "y mod 400 = 0 \<Longrightarrow> y mod (100::int) = 0" "y mod 100 = 0 \<Longrightarrow> y mod (4::int) = 0"
  unfolding mod_eq_0_iff_dvd by (erule dvd_trans [rotated], simp)+

lemma leap_count:
  fixes a b c a' b' c' y :: int
  assumes "a = a' + (if p then 1 else 0)" "b = b' + (if q then 1 else 0)" "c = c' + (if r then 1 else 0)"
    "r \<longrightarrow> q" "q \<longrightarrow> p"
  shows "365 * (y + 1) + a - b + c =
    365 * y + a' - b' + c' + (if p \<and> (\<not> q \<or> r) then 366 else 365)"
  using assms by (cases p; cases q; cases r; simp)

lemma days_before_step: "days_before (y + 1) = days_before y + days_in_year y"
  unfolding days_before_def days_in_year_def leap_year_def add_diff_cancel_right'
  by (rule leap_count [OF div_step div_step div_step]) (use leap_dvd [of y] in auto)

lemma days_in_year_pos: "0 < days_in_year y"
  by (simp add: days_in_year_def)

lemma days_before_mono: "y \<le> z \<Longrightarrow> days_before y \<le> days_before z"
proof (induction z rule: int_ge_induct)
  case base
  show ?case by simp
next
  case (step z)
  then show ?case using days_before_step [of z] days_in_year_pos [of z] by simp
qed

lemma year_forward_day:
  "0 \<le> d \<Longrightarrow> year_forward y d = (y', d') \<Longrightarrow>
   days_before y' + d' = days_before y + d \<and> 0 \<le> d' \<and> d' < days_in_year y'"
proof (induction y d rule: year_forward.induct)
  case (1 y d)
  show ?case
  proof (cases "d < days_in_year y")
    case True
    with "1.prems" show ?thesis by (simp add: year_forward.simps [of y d])
  next
    case False
    with "1.prems" have "year_forward (y + 1) (d - days_in_year y) = (y', d')"
      by (simp add: year_forward.simps [of y d])
    from "1.IH" [OF False _ this] False show ?thesis by (simp add: days_before_step)
  qed
qed

lemma year_backward_day:
  "year_backward y d = (y', d') \<Longrightarrow> days_before y' + d' = days_before y + d \<and> 0 \<le> d'"
proof (induction y d rule: year_backward.induct)
  case (1 y d)
  show ?case
  proof (cases "0 \<le> d")
    case True
    with "1.prems" show ?thesis by (simp add: year_backward.simps [of y d])
  next
    case False
    with "1.prems" have "year_backward (y - 1) (d + days_in_year (y - 1)) = (y', d')"
      by (simp add: year_backward.simps [of y d])
    from "1.IH" [OF False this] show ?thesis using days_before_step [of "y - 1"] by simp
  qed
qed

lemma month_of_day:
  "0 \<le> d \<Longrightarrow> d < sum_list ls \<Longrightarrow> month_of ls m d = (m', d') \<Longrightarrow>
   (\<exists>k < length ls. m' = m + int k \<and> sum_list (take k ls) + d' = d \<and> 0 \<le> d' \<and> d' < ls ! k)"
proof (induction ls arbitrary: m d)
  case (Cons l ls)
  show ?case
  proof (cases "d < l")
    case True
    with Cons.prems show ?thesis by (intro exI [of _ 0]) auto
  next
    case False
    with Cons.prems have "month_of ls (m + 1) (d - l) = (m', d')" by simp
    from Cons.IH [OF _ _ this] False Cons.prems obtain k where "k < length ls"
      "m' = m + 1 + int k" "sum_list (take k ls) + d' = d - l" "0 \<le> d'" "d' < ls ! k"
      by auto
    then show ?thesis by (intro exI [of _ "Suc k"]) auto
  qed
qed simp

lemma month_lengths_sum: "sum_list (month_lengths y) = days_in_year y"
  by (simp add: month_lengths_def days_in_year_def)

lemma month_lengths_le: "k < 12 \<Longrightarrow> month_lengths y ! k \<le> 31"
  by (cases k rule: nat.exhaust; simp add: month_lengths_def nth_Cons split: nat.split)

text \<open>What the rest of the development knows about \<open>gmtime\<close>.\<close>

lemma gmtime_day:
  "date_day (tm_year (gmtime t) + 1900) (tm_mon (gmtime t)) (tm_mday (gmtime t)) =
     days_before 1970 + t div 86400 + 1"
  "0 \<le> tm_mon (gmtime t) \<and> tm_mon (gmtime t) < 12"
  "1 \<le> tm_mday (gmtime t) \<and> tm_mday (gmtime t) \<le> 31"
  "days_before (tm_year (gmtime t) + 1900) \<le> days_before 1970 + t div 86400"
  "days_before 1970 + t div 86400 < days_before (tm_year (gmtime t) + 1900 + 1)"
proof -
  obtain y0 d0 where b: "year_backward 1970 (t div 86400) = (y0, d0)" by fastforce
  obtain y yd where f: "year_forward y0 d0 = (y, yd)" by fastforce
  obtain m md where m: "month_of (month_lengths y) 0 yd = (m, md)" by fastforce
  have g: "tm_year (gmtime t) = y - 1900" "tm_mon (gmtime t) = m" "tm_mday (gmtime t) = md + 1"
    by (simp_all add: gmtime_def b f m Let_def)
  have d0: "days_before y0 + d0 = days_before 1970 + t div 86400" "0 \<le> d0"
    using year_backward_day [OF b] by simp_all
  have yd: "days_before y + yd = days_before 1970 + t div 86400" "0 \<le> yd" "yd < days_in_year y"
    using year_forward_day [OF d0(2) f] d0(1) by simp_all
  from month_of_day [OF yd(2) _ m] yd(3) obtain k where k: "k < 12" "m = int k"
    "sum_list (take k (month_lengths y)) + md = yd" "0 \<le> md" "md < month_lengths y ! k"
    by (auto simp: month_lengths_sum) (simp add: month_lengths_def)
  show "date_day (tm_year (gmtime t) + 1900) (tm_mon (gmtime t)) (tm_mday (gmtime t)) =
      days_before 1970 + t div 86400 + 1"
    using k yd by (simp add: g date_day_def)
  show "0 \<le> tm_mon (gmtime t) \<and> tm_mon (gmtime t) < 12" using k by (simp add: g)
  show "1 \<le> tm_mday (gmtime t) \<and> tm_mday (gmtime t) \<le> 31"
    using k month_lengths_le [of k y] by (simp add: g)
  show "days_before (tm_year (gmtime t) + 1900) \<le> days_before 1970 + t div 86400"
    using yd by (simp add: g)
  show "days_before 1970 + t div 86400 < days_before (tm_year (gmtime t) + 1900 + 1)"
    using yd by (simp add: g days_before_step)
qed

lemma gmtime_clock:
  "tm_hour (gmtime t) = t mod 86400 div 3600"
  "tm_min (gmtime t) = t mod 86400 mod 3600 div 60"
  "tm_sec (gmtime t) = t mod 86400 mod 60"
  by (simp_all add: gmtime_def Let_def split: prod.split)

lemma gmtime_year:
  assumes "- (2 ^ 31) \<le> t" "t < 2 ^ 31"
  shows "1901 \<le> tm_year (gmtime t) + 1900 \<and> tm_year (gmtime t) + 1900 \<le> 2038"
proof -
  have t: "- 24856 \<le> t div 86400" "t div 86400 \<le> 24855" using assms by simp_all
  have lo: "\<not> tm_year (gmtime t) + 1900 + 1 \<le> 1901"
    using days_before_mono [of "tm_year (gmtime t) + 1900 + 1" 1901] gmtime_day(5) [of t] t
    by (auto simp: days_before_def)
  have hi: "\<not> 2039 \<le> tm_year (gmtime t) + 1900"
    using days_before_mono [of 2039 "tm_year (gmtime t) + 1900"] gmtime_day(4) [of t] t
    by (auto simp: days_before_def)
  from lo hi show ?thesis by linarith
qed

section \<open>Decimal numerals\<close>

definition numeral_value :: "string \<Rightarrow> nat" where
  "numeral_value s = foldl (\<lambda>a c. 10 * a + (of_char c - 48)) 0 s"

lemma numeral_value_append [simp]:
  "numeral_value (s @ [c]) = 10 * numeral_value s + (of_char c - 48)"
  by (simp add: numeral_value_def)

lemma numeral_value_zeros [simp]: "numeral_value (replicate k CHR ''0'' @ s) = numeral_value s"
  by (induction k) (simp_all add: numeral_value_def)

lemma digit_value: "d < 10 \<Longrightarrow> of_char (char_of (48 + d :: nat)) = (48 + d :: nat)"
  by simp

lemma dec_value [simp]: "numeral_value (dec n) = n"
proof (induction n rule: dec.induct)
  case (1 n)
  show ?case
  proof (cases "n < 10")
    case True
    then show ?thesis by (simp add: dec.simps [of n] numeral_value_def digit_value)
  next
    case False
    with 1 have "numeral_value (dec (n div 10)) = n div 10" by simp
    with False show ?thesis by (simp add: dec.simps [of n])
  qed
qed

lemma dec_length: "n < 10 ^ Suc w \<Longrightarrow> length (dec n) \<le> Suc w"
proof (induction w arbitrary: n)
  case 0
  then show ?case by (simp add: dec.simps [of n])
next
  case (Suc w)
  have "n div 10 < 10 ^ Suc w" using Suc.prems by simp
  with Suc.IH show ?case by (simp add: dec.simps [of n])
qed

lemma digit_name: "d < 10 \<Longrightarrow> name_char (char_of (48 + d :: nat))"
proof -
  have "list_all (\<lambda>d. name_char (char_of (48 + d :: nat))) [0..<10]" by code_simp
  then show "d < 10 \<Longrightarrow> name_char (char_of (48 + d :: nat))" by (simp add: list_all_iff)
qed

lemma dec_names: "list_all name_char (dec n)"
proof (induction n rule: dec.induct)
  case (1 n)
  then show ?case by (cases "n < 10") (simp_all add: dec.simps [of n] digit_name)
qed

lemma zpad_length: "0 \<le> n \<Longrightarrow> n < 10 ^ Suc w \<Longrightarrow> length (zpad (Suc w) n) = Suc w"
  using dec_length [of "nat n" w] by (simp add: zpad_def nat_less_iff)

lemma zpad_inject: "0 \<le> m \<Longrightarrow> 0 \<le> n \<Longrightarrow> zpad w m = zpad w n \<longleftrightarrow> m = n"
  by (metis numeral_value_zeros dec_value zpad_def nat_eq_iff2)

lemma zpad_names: "0 \<le> n \<Longrightarrow> list_all name_char (zpad w n)"
  using dec_names by (auto simp: zpad_def list_all_iff name_char_def char_value_def)

lemmas zpad_lengths =
  zpad_length [of _ 3, simplified] zpad_length [of _ 1, simplified] zpad_length [of _ 2, simplified]

section \<open>Times the code constructs\<close>

definition good_time :: "Time \<Rightarrow> bool" where
  "good_time t \<longleftrightarrow> 1901 \<le> year t \<and> year t \<le> 2038 \<and> 1 \<le> mon t \<and> mon t \<le> 12 \<and> 1 \<le> mday t \<and> mday t \<le> 31 \<and>
     0 \<le> hour t \<and> hour t < 24 \<and> 0 \<le> min t \<and> min t < 60 \<and> 0 \<le> sec t \<and> sec t < 60"

lemma fill_time_good:
  assumes "- (2 ^ 31) \<le> s" "s < 2 ^ 31"
  shows "good_time (fill_time micro s u)"
proof -
  have "0 \<le> s mod 86400" "s mod 86400 < 86400" by simp_all
  then have h: "s mod 86400 div 3600 < 24" "0 \<le> s mod 86400 div 3600" by linarith+
  have "0 \<le> s mod 86400 mod 3600" "s mod 86400 mod 3600 < 3600" by simp_all
  then have m: "s mod 86400 mod 3600 div 60 < 60" "0 \<le> s mod 86400 mod 3600 div 60" by linarith+
  from h m show ?thesis
    using gmtime_year [OF assms] gmtime_day(2,3) [of s]
    by (simp add: good_time_def fill_time_def Let_def gmtime_clock)
qed

lemma unix_time_good: "good_time (UnixMicroTimeToZippyTime a)"
  unfolding UnixMicroTimeToZippyTime_def using to_int32_bounds by (intro fill_time_good) simp_all

lemma time_now_good: "good_time (TimeNow tv)"
  unfolding TimeNow_def using to_int32_bounds by (intro fill_time_good) simp_all

definition valid_period :: "int \<Rightarrow> bool" where
  "valid_period n \<longleftrightarrow> n = 86400 \<or> 4 \<le> n \<and> n \<le> 3600 \<and> n dvd 3600"

text \<open>The number the name of a stream of less than an hour carries.\<close>

definition series_index :: "Time \<Rightarrow> int \<Rightarrow> int" where
  "series_index t n = (min t * 60 + sec t) div n + 1"

lemma series_bounds:
  assumes "good_time t" "4 \<le> n"
  shows "0 \<le> series_index t n" "series_index t n < 1000" "0 \<le> 3600 div n" "3600 div n < 1000"
proof -
  have s: "0 \<le> min t * 60 + sec t" "min t * 60 + sec t < 3600"
    using assms(1) by (simp_all add: good_time_def)
  have "(min t * 60 + sec t) div n \<le> (min t * 60 + sec t) div 4"
    using s assms(2) by (intro zdiv_mono2) simp_all
  moreover have "3600 div n \<le> 3600 div 4" using assms(2) by (intro zdiv_mono2) simp_all
  moreover have "0 \<le> (min t * 60 + sec t) div n" "0 \<le> 3600 div n"
    using s assms(2) by (simp_all add: pos_imp_zdiv_nonneg_iff)
  ultimately show "0 \<le> series_index t n" "series_index t n < 1000" "0 \<le> 3600 div n" "3600 div n < 1000"
    using s(2) by (simp_all add: series_index_def)
qed

lemma period_mod: "4 \<le> n \<Longrightarrow> 0 < 3600 mod n \<longleftrightarrow> \<not> n dvd (3600::int)"
  using pos_mod_sign [of n 3600] by (auto simp: dvd_eq_mod_eq_0 order_less_le)

definition stream_name :: "Time \<Rightarrow> int \<Rightarrow> string" where
  "stream_name t n =
     (if n = 86400 then date_part t
      else if n = 3600 then date_part t @ ''-'' @ zpad 2 (hour t)
      else date_part t @ ''-'' @ zpad 2 (hour t) @ ''-'' @ zpad 3 (series_index t n) @ ''-'' @ zpad 3 (3600 div n))"

lemma part_lengths:
  assumes "good_time t"
  shows "length (zpad 4 (year t)) = 4" "length (zpad 2 (mon t)) = 2" "length (zpad 2 (mday t)) = 2"
    "length (zpad 2 (hour t)) = 2"
  using assms zpad_length [of "year t" 3] zpad_length [of "mon t" 1] zpad_length [of "mday t" 1]
    zpad_length [of "hour t" 1]
  by (simp_all add: good_time_def numeral_eq_Suc)

lemma series_lengths:
  assumes "good_time t" "4 \<le> n"
  shows "length (zpad 3 (series_index t n)) = 3" "length (zpad 3 (3600 div n)) = 3"
  using series_bounds [OF assms] zpad_length [of "series_index t n" 2] zpad_length [of "3600 div n" 2]
  by (simp_all add: numeral_eq_Suc)

lemma StreamNameForTime_valid:
  assumes "good_time t" "valid_period n"
  shows "StreamNameForTime t n = Inr (stream_name t n)"
  using assms part_lengths [OF assms(1)] series_lengths [OF assms(1)] period_mod [of n]
  by (auto simp: StreamNameForTime_def valid_period_def stream_name_def sprintf_buffer_def date_part_def
      series_index_def Let_def)

lemma StreamNameForTime_invalid:
  assumes "\<not> valid_period n"
  shows "\<exists>msg. StreamNameForTime t n = Inl (InvalidArgument msg)"
proof (cases "n = 86400 \<or> n = 3600 \<or> 3600 < n \<or> n < 4")
  case True
  with assms show ?thesis by (auto simp: StreamNameForTime_def valid_period_def)
next
  case False
  with assms have "0 < 3600 mod n" by (simp add: valid_period_def period_mod)
  with False show ?thesis by (simp add: StreamNameForTime_def)
qed

lemma stream_name_is_name:
  assumes "good_time t" "valid_period n"
  shows "is_name (stream_name t n)"
proof -
  note b = assms(1) [unfolded good_time_def] series_bounds [OF assms(1), of n]
  have dash: "name_char CHR ''-''" by (simp add: name_char_def char_value_def)
  have "list_all name_char (stream_name t n)"
    using b assms(2) dash
    by (auto simp: stream_name_def date_part_def valid_period_def intro!: zpad_names)
  then show ?thesis by (simp add: is_name_def stream_name_def date_part_def)
qed

section \<open>Names identify periods\<close>

lemma date_part_inject:
  assumes "good_time t" "good_time u"
  shows "date_part t @ x = date_part u @ y \<longleftrightarrow> year t = year u \<and> mon t = mon u \<and> mday t = mday u \<and> x = y"
  using assms part_lengths [OF assms(1)] part_lengths [OF assms(2)]
  by (auto simp: date_part_def good_time_def zpad_inject)

lemma stream_name_inject:
  assumes "good_time t" "good_time u" "valid_period n"
  shows "stream_name t n = stream_name u n \<longleftrightarrow>
    (year t = year u \<and> mon t = mon u \<and> mday t = mday u) \<and>
    (n = 86400 \<or> hour t = hour u \<and> (n = 3600 \<or> series_index t n = series_index u n))"
proof (cases "n = 86400")
  case True
  then show ?thesis using date_part_inject [OF assms(1,2), of "[]" "[]"] by (simp add: stream_name_def)
next
  case False
  then have n: "4 \<le> n" using assms(3) by (simp add: valid_period_def)
  have h: "zpad 2 (hour t) = zpad 2 (hour u) \<longleftrightarrow> hour t = hour u"
    using assms(1,2) by (simp add: good_time_def zpad_inject)
  have s: "zpad 3 (series_index t n) = zpad 3 (series_index u n) \<longleftrightarrow> series_index t n = series_index u n"
    using series_bounds(1) [OF assms(1) n] series_bounds(1) [OF assms(2) n] by (simp add: zpad_inject)
  show ?thesis
    using False h s part_lengths(4) [OF assms(1)] part_lengths(4) [OF assms(2)]
      series_lengths(1) [OF assms(1) n] series_lengths(1) [OF assms(2) n]
    by (auto simp: stream_name_def date_part_inject [OF assms(1,2)])
qed

lemma div_split_iff:
  assumes "0 < (k::int)" "0 < m"
  shows "s div (k * m) = t div (k * m) \<and> s mod (k * m) div k = t mod (k * m) div k \<longleftrightarrow> s div k = t div k"
proof -
  have d: "x div (k * m) = x div k div m" for x using assms by (simp add: zdiv_zmult2_eq)
  have r: "x mod (k * m) div k = x div k mod m" for x
    using assms by (simp add: zmod_zmult2_eq)
  show ?thesis unfolding d r by (metis div_mult_mod_eq)
qed

lemma date_iff:
  "year (fill_time a s u) = year (fill_time b t v) \<and> mon (fill_time a s u) = mon (fill_time b t v) \<and>
   mday (fill_time a s u) = mday (fill_time b t v) \<longleftrightarrow> s div 86400 = t div 86400"
proof
  assume "year (fill_time a s u) = year (fill_time b t v) \<and> mon (fill_time a s u) = mon (fill_time b t v) \<and>
    mday (fill_time a s u) = mday (fill_time b t v)"
  then show "s div 86400 = t div 86400"
    using gmtime_day(1) [of s] gmtime_day(1) [of t] by (simp add: fill_time_def Let_def)
next
  assume "s div 86400 = t div 86400"
  then show "year (fill_time a s u) = year (fill_time b t v) \<and> mon (fill_time a s u) = mon (fill_time b t v) \<and>
    mday (fill_time a s u) = mday (fill_time b t v)"
    by (simp add: fill_time_def Let_def gmtime_def split: prod.split)
qed

lemma hour_fill: "hour (fill_time a s u) = s mod (3600 * 24) div 3600"
  by (simp add: fill_time_def Let_def gmtime_clock)

lemma series_fill: "series_index (fill_time a s u) n = s mod 3600 div n + 1"
proof -
  have "s mod 86400 mod 3600 = s mod 3600" "s mod 86400 mod 60 = s mod 3600 mod 60"
    by (simp_all add: mod_mod_cancel)
  then show ?thesis
    by (simp add: series_index_def fill_time_def Let_def gmtime_clock)
qed

lemma fill_name_iff:
  assumes "- (2 ^ 31) \<le> s" "s < 2 ^ 31" "- (2 ^ 31) \<le> t" "t < 2 ^ 31" "valid_period n"
  shows "stream_name (fill_time a s u) n = stream_name (fill_time b t v) n \<longleftrightarrow> s div n = t div n"
proof -
  note iff = stream_name_inject [OF fill_time_good [OF assms(1,2)] fill_time_good [OF assms(3,4)] assms(5),
      of a u b v, unfolded date_iff hour_fill series_fill]
  have day: "s div (3600 * 24) = t div (3600 * 24) \<and> s mod (3600 * 24) div 3600 = t mod (3600 * 24) div 3600
      \<longleftrightarrow> s div 3600 = t div 3600"
    by (rule div_split_iff) simp_all
  from assms(5) consider "n = 86400" | "n = 3600" | m where "n \<noteq> 86400" "n \<noteq> 3600" "0 < n" "3600 = n * m"
    unfolding valid_period_def dvd_def by fastforce
  then show ?thesis
  proof cases
    case 1
    then show ?thesis using iff by simp
  next
    case 2
    then show ?thesis using iff day by simp
  next
    case (3 m)
    then have m: "0 < m" by (metis zero_less_mult_pos zero_less_numeral)
    from div_split_iff [OF 3(3) m, of s t] show ?thesis using iff day 3 by auto
  qed
qed

lemma unix_seconds:
  assumes "0 \<le> a" "a < 2 ^ 31 * 1000000"
  shows "UnixMicroTimeToZippyTime a = fill_time a (a div 1000000) (a mod 1000000)"
proof -
  have "a sdiv 1000000 = a div 1000000" "a smod 1000000 = a mod 1000000"
    using assms by (simp_all add: signed_divide_int_def signed_modulo_int_def sgn_if minus_div_mult_eq_mod)
  moreover have "0 \<le> a div 1000000" "a div 1000000 < 2 ^ 31" using assms by simp_all
  ultimately show ?thesis by (simp add: UnixMicroTimeToZippyTime_def to_int32_id)
qed

section \<open>Properties\<close>

text \<open>
  For every 64-bit time \<open>StreamNameForTime\<close> returns a legal stream name for the periods that
  divide an hour (and for a day), never writes past its buffers, and throws \<open>invalid_argument\<close> for
  every other period; the path built from the name parses back to it.
\<close>

lemma stream_name_legal:
  assumes "is_name b" "is_name s"
  shows "if valid_period n
    then \<exists>name. StreamNameForTime_micro a n = Inr name \<and> is_name name \<and>
           ParsePath (StreamPath b s name) = Inr (Some (b, s, name))
    else \<exists>msg. StreamNameForTime_micro a n = Inl (InvalidArgument msg)"
proof (cases "valid_period n")
  case True
  define name where "name = stream_name (UnixMicroTimeToZippyTime a) n"
  have name: "is_name name" unfolding name_def using unix_time_good True by (rule stream_name_is_name)
  have "StreamNameForTime_micro a n = Inr name"
    unfolding StreamNameForTime_micro_def name_def using unix_time_good True by (rule StreamNameForTime_valid)
  with name denotes_parse [OF path_denotes.stream [OF assms name]] True show ?thesis by auto
next
  case False
  then show ?thesis using StreamNameForTime_invalid by (simp add: StreamNameForTime_micro_def)
qed

lemma stream_name_legal_witness:
  "\<exists>name. StreamNameForTime_micro 1285372800000000 900 = Inr name \<and> is_name name \<and>
     ParsePath (StreamPath ''b'' ''s'' name) = Inr (Some (''b'', ''s'', name))"
proof -
  have "is_name ''b''" "is_name ''s''" "valid_period 900"
    by (simp_all add: is_name_def name_char_def char_value_def valid_period_def)
  with stream_name_legal [of "''b''" "''s''" 900 1285372800000000] show ?thesis by simp
qed

text \<open>
  Until the 31-bit count of seconds ends, two envelopes go to the stream of the same name exactly
  when they are written in the same period: names of different periods never collide, and a period
  never spreads over two names.
\<close>

lemma stream_name_periods:
  assumes "valid_period n" "0 \<le> a" "a < 2 ^ 31 * 1000000" "0 \<le> b" "b < 2 ^ 31 * 1000000"
  shows "StreamNameForTime_micro a n = StreamNameForTime_micro b n \<longleftrightarrow>
    a div (n * 1000000) = b div (n * 1000000)"
proof -
  have n: "0 \<le> n" using assms(1) by (auto simp: valid_period_def)
  have split: "x div (n * 1000000) = x div 1000000 div n" for x
    using zdiv_zmult2_eq [of n x 1000000] n by (simp add: mult.commute)
  have s: "- (2 ^ 31) \<le> x div 1000000" "x div 1000000 < 2 ^ 31" if "0 \<le> x" "x < 2 ^ 31 * 1000000" for x :: int
  proof -
    have "- (2 ^ 31) \<le> (0::int)" "0 \<le> x div 1000000" using that(1) by simp_all
    then show "- (2 ^ 31) \<le> x div 1000000" by (rule order_trans)
    show "x div 1000000 < 2 ^ 31" using that by simp
  qed
  show ?thesis
    unfolding split StreamNameForTime_micro_def
    using fill_name_iff [OF s [OF assms(2,3)] s [OF assms(4,5)] assms(1), of a "a mod 1000000" b "b mod 1000000"]
    unfolding StreamNameForTime_valid [OF unix_time_good assms(1)]
    unfolding unix_seconds [OF assms(2,3)] unix_seconds [OF assms(4,5)] by simp
qed

lemma stream_name_periods_witness:
  "StreamNameForTime_micro 1285372800000000 3600 \<noteq> StreamNameForTime_micro 1285376400000000 3600"
  using stream_name_periods [of 3600 1285372800000000 1285376400000000] by (simp add: valid_period_def)

lemmas evaluate_name =
  StreamNameForTime_micro_def UnixMicroTimeToZippyTime_def to_int32_def signed_divide_int_def
  signed_modulo_int_def sgn_if fill_time_def gmtime_def year_backward.simps year_forward.simps
  days_in_year_def leap_year_def month_lengths_def StreamNameForTime_def date_part_def zpad_def
  dec.simps sprintf_buffer_def

text \<open>
  One second after 2038-01-19 03:14:07 UTC the \<open>int32\<close> conversion of the seconds wraps, and the
  envelope is filed under December 1901.
\<close>

lemma stream_name_wraps:
  "StreamNameForTime_micro (2 ^ 31 * 1000000 - 1) 3600 = Inr ''2038-01-19-03'' \<and>
   StreamNameForTime_micro (2 ^ 31 * 1000000) 3600 = Inr ''1901-12-13-20''"
  by (simp add: evaluate_name, simp add: char_of_def bit_0)

end
