(* ===== verification/Platform.thy ===== *)
theory Platform
  imports Calendar
begin

text \<open>
  The platform layer (src/zippylog/platform.cpp, its POSIX branches): the timer of a subscription,
  and the filesystem functions the stores call, over a model of a POSIX file tree.

  The file tree is the list of its nodes under their path components, in the order the system lists
  them; the working directory is the root. The nodes in \<open>denied\<close> are those the system refuses to
  open or create below (permissions, or a lock that another process holds). \<open>node_size\<close> is the size
  the system reports for a node that is not a regular file.
\<close>

section \<open>Timers\<close>

record Timer =
  signaled :: bool
  running :: bool
  initialized :: bool
  microseconds :: u32
  deadline :: "nat option"

text \<open>
  \<open>deadline\<close> is the expiry of the POSIX timer on the monotonic clock; \<open>None\<close> is a disarmed timer, whose
  remaining time reads as zero. Setting a timer to zero disarms it.
\<close>

definition new_Timer :: "u32 \<Rightarrow> Timer" where
  "new_Timer us = \<lparr>signaled = False, running = False, initialized = False, microseconds = us, deadline = None\<rparr>"

definition Timer_Initialize :: "Timer \<Rightarrow> Timer" where
  "Timer_Initialize t = t\<lparr>initialized := True, signaled := False, running := False, deadline := None\<rparr>"

definition Timer_Reset :: "Timer \<Rightarrow> bool \<times> Timer" where
  "Timer_Reset t =
     (let t = t\<lparr>signaled := False\<rparr> in
      if running t then (True, t\<lparr>running := False, deadline := None\<rparr>) else (False, t))"

definition Timer_Start :: "nat \<Rightarrow> u32 \<Rightarrow> Timer \<Rightarrow> bool \<times> Timer" where
  "Timer_Start now us t =
     (let t = (if \<not> initialized t then Timer_Initialize t else t);
          (ok, t) = (if running t then Timer_Reset t else (True, t))
      in if \<not> ok then (False, t)
         else
           let t = (if us > 0 then t\<lparr>microseconds := us\<rparr> else t);
               sec = microseconds t div 1000000;
               nsec = (microseconds t mod 1000000) * 1000
           in (True, t\<lparr>running := True,
                       deadline := (if sec = 0 \<and> nsec = 0 then None
                                    else Some (now + unat sec * 1000000 + unat nsec div 1000))\<rparr>))"

definition Timer_Signaled :: "nat \<Rightarrow> Timer \<Rightarrow> bool \<times> Timer" where
  "Timer_Signaled now t =
     (if signaled t then (True, t)
      else if \<not> running t then (False, t)
      else if (case deadline t of None \<Rightarrow> True | Some d \<Rightarrow> d \<le> now) then (True, t\<lparr>signaled := True\<rparr>)
      else (False, t))"

lemma micros_split:
  fixes us :: u32
  shows "unat (us div 1000000) * 1000000 + unat ((us mod 1000000) * 1000) div 1000 = unat us"
proof -
  have m: "unat (us mod 1000000) < 1000000" by (simp add: unat_mod)
  then have "unat ((us mod 1000000) * 1000) = unat (us mod 1000000) * 1000"
    by (simp add: unat_word_ariths)
  then show ?thesis by (simp add: unat_div unat_mod)
qed

text \<open>What a subscription's expiry rests on: a timer that is started expires on time, and stays expired.\<close>

lemma Timer_Start_deadline:
  assumes "\<not> running t \<or> initialized t" "0 < us"
  shows "fst (Timer_Start now us t)"
    "fst (Timer_Signaled later (snd (Timer_Start now us t))) \<longleftrightarrow> signaled t \<and> initialized t \<and> \<not> running t \<or> now + unat us \<le> later"
proof -
  have nz: "\<not> (us div 1000000 = 0 \<and> (us mod 1000000) * 1000 = 0)"
  proof
    assume "us div 1000000 = 0 \<and> (us mod 1000000) * 1000 = 0"
    with micros_split [of us] have "unat us = 0" by simp
    with assms(2) show False by (simp add: unat_eq_0)
  qed
  then show "fst (Timer_Start now us t)"
    "fst (Timer_Signaled later (snd (Timer_Start now us t))) \<longleftrightarrow> signaled t \<and> initialized t \<and> \<not> running t \<or> now + unat us \<le> later"
    using assms micros_split [of us]
    by (auto simp: Timer_Start_def Timer_Signaled_def Timer_Initialize_def Timer_Reset_def Let_def)
qed

lemma Timer_Signaled_stays:
  "Timer_Signaled now t = (True, t') \<Longrightarrow> Timer_Signaled later t' = (True, t')"
  by (auto simp: Timer_Signaled_def split: if_splits)

section \<open>The file tree\<close>

datatype fnode = Dir | Reg string | Fifo | CharDev | BlockDev | Socket

record filesystem =
  nodes :: "(string list \<times> fnode) list"
  denied :: "string list list"
  node_size :: int

text \<open>A path of the code as the system reads it: up to the first zero byte, cut at the slashes.\<close>

definition c_str :: "string \<Rightarrow> string" where
  "c_str s = takeWhile (\<lambda>c. c \<noteq> CHR 0x00) s"

fun split_slash :: "string \<Rightarrow> string \<Rightarrow> string list" where
  "split_slash acc [] = [rev acc]"
| "split_slash acc (c # cs) = (if c = CHR ''/'' then rev acc # split_slash [] cs else split_slash (c # acc) cs)"

definition components :: "string \<Rightarrow> string list" where
  "components path = [x \<leftarrow> split_slash [] (c_str path). x \<noteq> [] \<and> x \<noteq> ''.'']"

definition node_at :: "filesystem \<Rightarrow> string list \<Rightarrow> fnode option" where
  "node_at fs p = (if p = [] then Some Dir else map_of (nodes fs) p)"

definition lookup_path :: "filesystem \<Rightarrow> string \<Rightarrow> fnode option" where
  "lookup_path fs path = node_at fs (components path)"

definition allowed :: "filesystem \<Rightarrow> string list \<Rightarrow> bool" where
  "allowed fs p \<longleftrightarrow> p \<notin> set (denied fs)"

section \<open>Files and directories\<close>

datatype FileType = REGULAR | DIRECTORY | PIPE | CHARACTER | UNKNOWN

record FileStat =
  type :: FileType
  size :: int

text \<open>The mode bits of a node, and the tests of \<open>stat\<close>, which look at single bits of them.\<close>

definition st_mode :: "fnode \<Rightarrow> u32" where
  "st_mode n = (case n of Dir \<Rightarrow> 0x4000 | Reg _ \<Rightarrow> 0x8000 | Fifo \<Rightarrow> 0x1000 | CharDev \<Rightarrow> 0x2000
     | BlockDev \<Rightarrow> 0x6000 | Socket \<Rightarrow> 0xC000)"

definition st_size :: "filesystem \<Rightarrow> fnode \<Rightarrow> int" where
  "st_size fs n = (case n of Reg content \<Rightarrow> int (length content) | _ \<Rightarrow> node_size fs)"

definition stat :: "filesystem \<Rightarrow> string \<Rightarrow> FileStat option" where
  "stat fs path =
     (case lookup_path fs path of
        None \<Rightarrow> None
      | Some n \<Rightarrow>
          Some \<lparr>type =
                  (if and (st_mode n) 0x4000 \<noteq> 0 then DIRECTORY
                   else if and (st_mode n) 0x8000 \<noteq> 0 then REGULAR
                   else if and (st_mode n) 0x1000 \<noteq> 0 then PIPE
                   else UNKNOWN),
                size = st_size fs n\<rparr>)"

text \<open>
  \<open>int result = stat(path, st)\<close> is 0 or 1 and never \<open>-1\<close>, so a failure is not noticed and the type of the
  uninitialised \<open>FileStat\<close> is tested: the argument \<open>uninit\<close>.
\<close>

definition PathIsDirectory :: "FileType \<Rightarrow> filesystem \<Rightarrow> string \<Rightarrow> bool" where
  "PathIsDirectory uninit fs path =
     ((case stat fs path of None \<Rightarrow> uninit | Some st \<Rightarrow> type st) = DIRECTORY)"

definition PathIsRegularFile :: "FileType \<Rightarrow> filesystem \<Rightarrow> string \<Rightarrow> bool" where
  "PathIsRegularFile uninit fs path =
     ((case stat fs path of None \<Rightarrow> uninit | Some st \<Rightarrow> type st) = REGULAR)"

text \<open>The size of a directory entry is not assigned on POSIX.\<close>

record DirectoryEntry =
  entry_name :: string
  entry_type :: FileType

definition children :: "filesystem \<Rightarrow> string list \<Rightarrow> (string \<times> fnode) list" where
  "children fs p = [(last q, n). (q, n) \<leftarrow> nodes fs, q \<noteq> [] \<and> butlast q = p]"

definition d_type :: "fnode \<Rightarrow> FileType" where
  "d_type n = (case n of Dir \<Rightarrow> DIRECTORY | Reg _ \<Rightarrow> REGULAR | _ \<Rightarrow> UNKNOWN)"

definition DirectoryEntries :: "filesystem \<Rightarrow> string \<Rightarrow> DirectoryEntry list option" where
  "DirectoryEntries fs dir =
     (if lookup_path fs dir = Some Dir \<and> allowed fs (components dir) then
        Some (\<lparr>entry_name = ''.'', entry_type = DIRECTORY\<rparr> # \<lparr>entry_name = ''..'', entry_type = DIRECTORY\<rparr> #
              map (\<lambda>(name, n). \<lparr>entry_name = name, entry_type = d_type n\<rparr>) (children fs (components dir)))
      else None)"

definition hidden :: "DirectoryEntry \<Rightarrow> bool" where
  "hidden e \<longleftrightarrow> (case entry_name e of [] \<Rightarrow> False | c # _ \<Rightarrow> c = CHR ''.'')"

text \<open>The functions with an output vector return the vector; \<open>v\<close> is what it held before the call.\<close>

definition DirectoriesInDirectory :: "filesystem \<Rightarrow> string \<Rightarrow> bool \<times> DirectoryEntry list" where
  "DirectoriesInDirectory fs dir =
     (case DirectoryEntries fs dir of
        None \<Rightarrow> (False, [])
      | Some entries \<Rightarrow> (True, [e \<leftarrow> entries. entry_type e = DIRECTORY \<and> \<not> hidden e]))"

definition DirectoryNamesInDirectory :: "filesystem \<Rightarrow> string \<Rightarrow> string list \<Rightarrow> bool \<times> string list" where
  "DirectoryNamesInDirectory fs dir v =
     (let (ok, entries) = DirectoriesInDirectory fs dir in
      if \<not> ok then (False, v) else (True, map entry_name entries))"

definition FilesInDirectory :: "filesystem \<Rightarrow> string \<Rightarrow> bool \<times> DirectoryEntry list" where
  "FilesInDirectory fs dir =
     (case DirectoryEntries fs dir of
        None \<Rightarrow> (False, [])
      | Some entries \<Rightarrow> (True, [e \<leftarrow> entries. entry_type e = REGULAR]))"

definition FileNamesInDirectory :: "filesystem \<Rightarrow> string \<Rightarrow> bool \<times> string list" where
  "FileNamesInDirectory fs dir =
     (let (ok, entries) = FilesInDirectory fs dir in
      if \<not> ok then (False, []) else (True, map entry_name entries))"

definition PathJoin :: "string \<Rightarrow> string \<Rightarrow> string" where
  "PathJoin a b = a @ ''/'' @ b"

text \<open>\<open>mkdir\<close> of the system: the parent is a directory that may be written, the path is new.\<close>

definition sys_creatable :: "filesystem \<Rightarrow> string list \<Rightarrow> bool" where
  "sys_creatable fs p \<longleftrightarrow>
     p \<noteq> [] \<and> node_at fs p = None \<and> node_at fs (butlast p) = Some Dir \<and> allowed fs (butlast p)"

definition add_node :: "string list \<Rightarrow> fnode \<Rightarrow> filesystem \<Rightarrow> filesystem" where
  "add_node p n fs = fs\<lparr>nodes := nodes fs @ [(p, n)]\<rparr>"

definition MakeDirectory :: "filesystem \<Rightarrow> string \<Rightarrow> bool \<times> filesystem" where
  "MakeDirectory fs path =
     (let p = components path in if sys_creatable fs p then (True, add_node p Dir fs) else (False, fs))"

section \<open>File handles\<close>

record open_flags =
  READ :: bool
  WRITE :: bool
  APPEND :: bool
  CREATE :: bool
  TRUNCATE :: bool
  WRITE_LOCK :: bool

text \<open>
  \<open>open\<close> of the system on the access mode and flags the code computes; the write lock of the file is
  refused when the node is denied, as it is for a file that another process has locked.
\<close>

definition sys_open :: "bool \<Rightarrow> bool \<Rightarrow> bool \<Rightarrow> filesystem \<Rightarrow> string list \<Rightarrow> (filesystem \<times> string list) option" where
  "sys_open writing creat trunc fs p =
     (case node_at fs p of
        None \<Rightarrow>
          if creat \<and> sys_creatable fs p \<and> allowed fs p then Some (add_node p (Reg []) fs, p) else None
      | Some n \<Rightarrow>
          if \<not> allowed fs p \<or> writing \<and> n = Dir then None
          else Some (if trunc \<and> writing
                     then fs\<lparr>nodes := map (\<lambda>(q, m). if q = p then (q, Reg []) else (q, m)) (nodes fs)\<rparr>
                     else fs, p))"

definition File_Open :: "filesystem \<Rightarrow> string \<Rightarrow> open_flags \<Rightarrow> (filesystem \<times> string list) option res" where
  "File_Open fs path flags =
     (if \<not> READ flags \<and> \<not> WRITE flags then
        Inl (InvalidArgument ''must have one of READ or WRITE flag set'')
      else Inr (sys_open (WRITE flags) (CREATE flags) (TRUNCATE flags) fs (components path)))"

text \<open>\<open>write\<close> on a descriptor opened with \<open>O_APPEND\<close>.\<close>

definition sys_append :: "string list \<Rightarrow> string \<Rightarrow> filesystem \<Rightarrow> filesystem" where
  "sys_append p bytes fs =
     fs\<lparr>nodes := map (\<lambda>(q, n). if q = p then (q, case n of Reg c \<Rightarrow> Reg (c @ bytes) | _ \<Rightarrow> n) else (q, n)) (nodes fs)\<rparr>"

definition file_content :: "filesystem \<Rightarrow> string list \<Rightarrow> string" where
  "file_content fs p = (case node_at fs p of Some (Reg c) \<Rightarrow> c | _ \<Rightarrow> [])"

section \<open>The file tree under the operations\<close>

lemma map_of_map_at:
  "map_of (map (\<lambda>(q, n). if q = p then (q, f n) else (q, n)) xs) k =
     (if k = p then map_option f (map_of xs p) else map_of xs k)"
  by (induction xs) auto

lemma sys_append_fields [simp]:
  "denied (sys_append p b fs) = denied fs" "node_size (sys_append p b fs) = node_size fs"
  by (simp_all add: sys_append_def)

lemma sys_append_map:
  "nodes (sys_append p b fs) =
     map (\<lambda>(q, n). if q = p then (q, (case n of Reg c \<Rightarrow> Reg (c @ b) | _ \<Rightarrow> n)) else (q, n)) (nodes fs)"
  by (simp add: sys_append_def)

lemma node_at_append:
  "node_at (sys_append p b fs) q =
     (if q = p \<and> q \<noteq> [] then map_option (\<lambda>n. case n of Reg c \<Rightarrow> Reg (c @ b) | _ \<Rightarrow> n) (node_at fs p)
      else node_at fs q)"
  unfolding node_at_def sys_append_map map_of_map_at by simp

lemma sys_append_nil: "sys_append p [] fs = fs"
  by (cases fs) (auto simp: sys_append_def intro!: map_idI split: fnode.split)

lemma sys_append_append: "sys_append p b (sys_append p a fs) = sys_append p (a @ b) fs"
  by (cases fs) (auto simp: sys_append_def split: fnode.split)

lemma file_content_append:
  assumes "node_at fs p = Some (Reg x)" "p \<noteq> []"
  shows "file_content (sys_append p b fs) p = file_content fs p @ b"
    "node_at (sys_append p b fs) p = Some (Reg (x @ b))"
  using assms by (simp_all add: file_content_def node_at_append)

lemma node_at_add:
  "node_at (add_node p n fs) q = (if node_at fs q = None \<and> q = p then Some n else node_at fs q)"
  by (auto simp: node_at_def add_node_def map_add_def split: option.split)

lemma add_node_fields [simp]:
  "denied (add_node p n fs) = denied fs" "node_size (add_node p n fs) = node_size fs"
  by (simp_all add: add_node_def)

lemma allowed_fields [simp]:
  "allowed (add_node p n fs) q = allowed fs q" "allowed (sys_append p b fs) q = allowed fs q"
  by (simp_all add: allowed_def)

end
