(* ===== verification/Sorted_Map.thy ===== *)
theory Sorted_Map
  imports Prelude "HOL-Library.List_Lexorder"
begin

text \<open>
  \<open>std::map\<close>: an association list in the order of its keys. Strings are ordered by the lexicographic order
  of the library.
\<close>

text \<open>\<open>m[k] = v\<close>.\<close>

definition map_put :: "'k :: linorder \<Rightarrow> 'v \<Rightarrow> ('k \<times> 'v) list \<Rightarrow> ('k \<times> 'v) list" where
  "map_put k v m = insort_key fst (k, v) (filter (\<lambda>(q, _). q \<noteq> k) m)"

text \<open>\<open>m.erase(k)\<close>.\<close>

definition map_erase :: "'k \<Rightarrow> ('k \<times> 'v) list \<Rightarrow> ('k \<times> 'v) list" where
  "map_erase k m = filter (\<lambda>(q, _). q \<noteq> k) m"

definition ordered :: "('k :: linorder \<times> 'v) list \<Rightarrow> bool" where
  "ordered m \<longleftrightarrow> sorted (map fst m) \<and> distinct (map fst m)"

lemma map_of_insort: "k \<notin> fst ` set m \<Longrightarrow> map_of (insort_key fst (k, v) m) = (map_of m)(k \<mapsto> v)"
  by (induction m) (auto simp: fun_eq_iff)

lemma map_of_without: "map_of (filter (\<lambda>(q, _). q \<noteq> k) m) = (map_of m)(k := None)"
  by (induction m) (auto simp: fun_eq_iff)

lemma map_of_erase [simp]: "map_of (map_erase k m) = (map_of m)(k := None)"
  by (simp add: map_erase_def map_of_without)

lemma map_of_put [simp]: "map_of (map_put k v m) = (map_of m)(k \<mapsto> v)"
  by (subst map_put_def, subst map_of_insort) (auto simp: map_of_without)

lemma set_insort_pairs: "set (insort_key fst x m) = insert x (set m)"
  by (rule set_insort_key)

lemma set_put: "set (map_put k v m) = insert (k, v) {x \<in> set m. fst x \<noteq> k}"
  by (auto simp: map_put_def set_insort_pairs)

lemma distinct_insort_fst: "distinct (map fst (insort_key fst (k, v) m)) \<longleftrightarrow> k \<notin> fst ` set m \<and> distinct (map fst m)"
  by (induction m) (auto simp: set_insort_pairs)

lemma distinct_put: "distinct (map fst m) \<Longrightarrow> distinct (map fst (map_put k v m))"
  by (auto simp: map_put_def distinct_insort_fst distinct_map_filter)

lemma ordered_erase [simp]: "ordered m \<Longrightarrow> ordered (map_erase k m)"
  using sorted_filter [of fst m] by (simp add: ordered_def map_erase_def distinct_map_filter)

lemma ordered_put [simp]:
  assumes "ordered m"
  shows "ordered (map_put k v m)"
proof -
  have "ordered (map_erase k m)" using assms by simp
  moreover have "k \<notin> fst ` set (map_erase k m)" by (auto simp: map_erase_def)
  moreover have "map_put k v m = insort_key fst (k, v) (map_erase k m)" by (simp add: map_put_def map_erase_def)
  ultimately show ?thesis by (simp add: ordered_def sorted_insort_key distinct_insort_fst)
qed

end
