(* ===== verification/Messages.thy ===== *)
theory Messages
  imports Platform Sorted_Map "HOL-Library.Product_Lexorder"
begin

text \<open>
  The messages of the protocol (proto/zippylog and the classes generated from it), the serialisation
  library as a parameter, and the registry that maps enumerations to messages
  (src/zippylog/message_registrar.cpp).

  Protocol Buffers is not part of the repository: its functions on messages and envelopes are the
  fields of the record \<open>codec\<close>, an argument of every definition that serialises or parses.
\<close>

section \<open>Messages\<close>

text \<open>
  The messages with the fields the code reads or writes. A field is an \<open>option\<close> where the code asks
  whether it is present. The messages a device logs carry the id of the device.
\<close>

datatype rp_log =
    LogCreate | LogDestroy | LogRunStart | LogRunStop | LogFailReceiveMessage | LogReceiveEmptyMessage
  | LogUnknownMessageVersion | LogUnknownRequestType u32 | LogEnvelopeParseFailure "string option"
  | LogEmptyEnvelope | LogInvalidMessageEnumeration | LogEmbeddedMessageParseFailure
  | LogBeginStoreInfo | LogEndStoreInfo | LogReceiveInvalidGet | LogGetInvalidStream | LogGetInvalidOffset
  | LogBeginGetStream | LogEndGetStream | LogSendErrorResponse string | LogForwardSubscribeKeepalive string
  | LogBeginBucketInfo | LogEndBucketInfo | LogBeginStreamSetInfo | LogEndStreamSetInfo
  | LogBeginStreamInfo | LogEndStreamInfo | LogBeginWriteEnvelope | LogEndWriteEnvelope

datatype server_log =
    ServerCreate string "string list" | ServerDestroy | ServerRunStart | ServerRunFinish
  | ServerFlushOutputStreams | ServerReceiveClientMessage | ServerSendClientMessage

datatype watcher_log = WatcherCreate | WatcherDestroy | WatcherRunStart | WatcherRunFinish

text \<open>The classes whose fields the code does not touch.\<close>

datatype other_class =
    PluginStateV1 | SubscriptionKeepaliveAckV1 | PluginRegisterAckV1 | PluginUnregisterAckV1 | PluginStatusV1
  | WriteEnvelopeFromMessagesV1 | WriteEnvelopeFromStringV1

datatype ErrorCode =
    ENVELOPE_PARSE_FAILURE | INVALID_MESSAGE_NAMESPACE | UNKNOWN_REQUEST_TYPE | EMPTY_ENVELOPE
  | MISSING_ENUMERATIONS | REQUEST_NOT_IMPLEMENTED | EMPTY_FIELD | FIELD_LENGTHS_DIFFERENT
  | INVALID_STREAM_OFFSET | INVALID_OFFSET | PATH_NOT_FOUND | LIMIT_EXCEEDED
  | UNKNOWN_MESSAGE_FORMAT_VERSION | INVALID_PATH | UNSUPPORTED_OPERATION_MESSAGE_VERSION | EMPTY_MESSAGE
  | PROTOCOL_NO_ENVELOPE | GENERAL_ERROR_PROCESSING | LUA_ERROR | SUBSCRIPTION_REJECTED

datatype SubscriptionType = ENVELOPE | STORE_CHANGE | UNKNOWN_TYPE

record StreamInfoV1 =
  si_path :: string
  si_length :: "int option"

record StreamSetInfoV1 =
  ss_path :: string
  ss_stream :: "StreamInfoV1 list"

record BucketInfoV1 =
  bi_path :: string
  bi_stream_set :: "StreamSetInfoV1 list"

record FeatureSpecification =
  supported_message_formats :: "u32 list"
  supported_request_types :: "u32 list"
  supported_request_names :: "string list"
  max_stream_segment_bytes :: u32
  max_stream_segment_envelopes :: u32

record SubscriptionRecord =
  sr_id :: "string option"
  sr_type :: "SubscriptionType option"
  sr_path :: "string list"
  sr_lua_code :: "string option"
  sr_socket_identifier :: "string list"
  sr_filter_namespace :: "u32 list"
  sr_enumeration_namespace :: "u32 list"
  sr_enumeration_type :: "u32 list"

datatype Message =
    PingV1 | GetFeaturesV1 | GetStoreInfoV1
  | GetBucketInfoV1 "string option" | GetStreamSetInfoV1 "string option" | GetStreamInfoV1 "string option"
  | GetStreamSegmentV1 (gs_path: "string option") (gs_start_offset: "u64 option")
      (gs_max_bytes: "u32 option") (gs_max_envelopes: "u32 option")
  | WriteEnvelopeV1 (we_path: "string option") (we_envelope: "string list") (we_acknowledge: bool) (we_synchronous: bool)
  | SubscribeStoreChangesV1 "string list"
  | SubscribeEnvelopesV1 (se_path: "string list") (se_lua_code: "string option") (se_filter_namespace: "u32 list")
      (se_enumeration_namespace: "u32 list") (se_enumeration_type: "u32 list")
  | SubscribeKeepaliveV1 "string list" | SubscribeCancelV1 string
  | RegisterPluginV1 string string | UnregisterPluginV1 string | GetPluginStatusV1 "string list"
  | PongV1 | FeatureSpecificationV1 FeatureSpecification
  | StreamSegmentStartV1 string u64
  | StreamSegmentEndV1 (se_offset: u64) (se_bytes_sent: u32) (se_envelopes_sent: u32)
  | SubscriptionAcceptAckV1 string u32 | SubscriptionStartV1 string | WriteAckV1 u32
  | Error ErrorCode string
  | StreamInfoMsg StreamInfoV1 | StreamSetInfoMsg StreamSetInfoV1 | BucketInfoMsg BucketInfoV1
  | StoreInfoMsg "BucketInfoV1 list"
  | StoreChangeStreamAddedV1 string string string | StoreChangeStreamDeletedV1 string string string
  | StoreChangeStreamAppendedV1 string string string u64
  | StoreChangeBucketAddedV1 string | StoreChangeBucketDeletedV1 string
  | StoreChangeStreamSetAddedV1 string string | StoreChangeStreamSetDeletedV1 string string
  | SubscriptionRecordMsg SubscriptionRecord
  | RequestProcessorLog rp_log string | ServerLog server_log string | StoreWatcherLog watcher_log string
  | OtherMessage other_class | ApplicationMessage u32 u32 string

definition message_namespace :: u32 where
  "message_namespace = 1"

fun log_enumeration :: "rp_log \<Rightarrow> u32" where
  "log_enumeration LogCreate = 1"
| "log_enumeration LogDestroy = 2"
| "log_enumeration LogRunStart = 3"
| "log_enumeration LogRunStop = 4"
| "log_enumeration LogFailReceiveMessage = 5"
| "log_enumeration LogReceiveEmptyMessage = 6"
| "log_enumeration LogUnknownMessageVersion = 7"
| "log_enumeration (LogUnknownRequestType _) = 8"
| "log_enumeration (LogEnvelopeParseFailure _) = 9"
| "log_enumeration LogEmptyEnvelope = 10"
| "log_enumeration LogInvalidMessageEnumeration = 11"
| "log_enumeration LogEmbeddedMessageParseFailure = 12"
| "log_enumeration LogBeginStoreInfo = 13"
| "log_enumeration LogEndStoreInfo = 14"
| "log_enumeration LogReceiveInvalidGet = 15"
| "log_enumeration LogGetInvalidStream = 16"
| "log_enumeration LogGetInvalidOffset = 17"
| "log_enumeration LogBeginGetStream = 18"
| "log_enumeration LogEndGetStream = 19"
| "log_enumeration (LogSendErrorResponse _) = 20"
| "log_enumeration (LogForwardSubscribeKeepalive _) = 21"
| "log_enumeration LogBeginBucketInfo = 22"
| "log_enumeration LogEndBucketInfo = 23"
| "log_enumeration LogBeginStreamSetInfo = 24"
| "log_enumeration LogEndStreamSetInfo = 25"
| "log_enumeration LogBeginStreamInfo = 26"
| "log_enumeration LogEndStreamInfo = 27"
| "log_enumeration LogBeginWriteEnvelope = 28"
| "log_enumeration LogEndWriteEnvelope = 29"

fun server_log_enumeration :: "server_log \<Rightarrow> u32" where
  "server_log_enumeration (ServerCreate _ _) = 120"
| "server_log_enumeration ServerDestroy = 121"
| "server_log_enumeration ServerRunStart = 122"
| "server_log_enumeration ServerRunFinish = 123"
| "server_log_enumeration ServerFlushOutputStreams = 124"
| "server_log_enumeration ServerReceiveClientMessage = 125"
| "server_log_enumeration ServerSendClientMessage = 126"

fun watcher_log_enumeration :: "watcher_log \<Rightarrow> u32" where
  "watcher_log_enumeration WatcherCreate = 127"
| "watcher_log_enumeration WatcherDestroy = 128"
| "watcher_log_enumeration WatcherRunStart = 129"
| "watcher_log_enumeration WatcherRunFinish = 130"

fun other_enumeration :: "other_class \<Rightarrow> u32" where
  "other_enumeration PluginStateV1 = 113"
| "other_enumeration SubscriptionKeepaliveAckV1 = 110"
| "other_enumeration PluginRegisterAckV1 = 114"
| "other_enumeration PluginUnregisterAckV1 = 117"
| "other_enumeration PluginStatusV1 = 115"
| "other_enumeration WriteEnvelopeFromMessagesV1 = 79"
| "other_enumeration WriteEnvelopeFromStringV1 = 131"

text \<open>The namespace and \<open>zippylog_enumeration\<close> that \<open>add_to_envelope\<close> of each class writes.\<close>

fun message_enumeration :: "Message \<Rightarrow> u32 \<times> u32" where
  "message_enumeration PingV1 = (message_namespace, 91)"
| "message_enumeration GetFeaturesV1 = (message_namespace, 72)"
| "message_enumeration GetStoreInfoV1 = (message_namespace, 73)"
| "message_enumeration (GetBucketInfoV1 _) = (message_namespace, 74)"
| "message_enumeration (GetStreamSetInfoV1 _) = (message_namespace, 75)"
| "message_enumeration (GetStreamInfoV1 _) = (message_namespace, 76)"
| "message_enumeration (GetStreamSegmentV1 _ _ _ _) = (message_namespace, 92)"
| "message_enumeration (WriteEnvelopeV1 _ _ _ _) = (message_namespace, 78)"
| "message_enumeration (SubscribeStoreChangesV1 _) = (message_namespace, 80)"
| "message_enumeration (SubscribeEnvelopesV1 _ _ _ _ _) = (message_namespace, 81)"
| "message_enumeration (SubscribeKeepaliveV1 _) = (message_namespace, 82)"
| "message_enumeration (SubscribeCancelV1 _) = (message_namespace, 83)"
| "message_enumeration (RegisterPluginV1 _ _) = (message_namespace, 111)"
| "message_enumeration (UnregisterPluginV1 _) = (message_namespace, 112)"
| "message_enumeration (GetPluginStatusV1 _) = (message_namespace, 116)"
| "message_enumeration PongV1 = (message_namespace, 70)"
| "message_enumeration (FeatureSpecificationV1 _) = (message_namespace, 71)"
| "message_enumeration (StreamSegmentStartV1 _ _) = (message_namespace, 104)"
| "message_enumeration (StreamSegmentEndV1 _ _ _) = (message_namespace, 105)"
| "message_enumeration (SubscriptionAcceptAckV1 _ _) = (message_namespace, 109)"
| "message_enumeration (SubscriptionStartV1 _) = (message_namespace, 107)"
| "message_enumeration (WriteAckV1 _) = (message_namespace, 108)"
| "message_enumeration (Error _ _) = (message_namespace, 69)"
| "message_enumeration (StreamInfoMsg _) = (message_namespace, 93)"
| "message_enumeration (StreamSetInfoMsg _) = (message_namespace, 94)"
| "message_enumeration (BucketInfoMsg _) = (message_namespace, 95)"
| "message_enumeration (StoreInfoMsg _) = (message_namespace, 96)"
| "message_enumeration (StoreChangeStreamAddedV1 _ _ _) = (message_namespace, 97)"
| "message_enumeration (StoreChangeStreamDeletedV1 _ _ _) = (message_namespace, 98)"
| "message_enumeration (StoreChangeStreamAppendedV1 _ _ _ _) = (message_namespace, 99)"
| "message_enumeration (StoreChangeBucketAddedV1 _) = (message_namespace, 100)"
| "message_enumeration (StoreChangeBucketDeletedV1 _) = (message_namespace, 101)"
| "message_enumeration (StoreChangeStreamSetAddedV1 _ _) = (message_namespace, 102)"
| "message_enumeration (StoreChangeStreamSetDeletedV1 _ _) = (message_namespace, 103)"
| "message_enumeration (SubscriptionRecordMsg _) = (message_namespace, 119)"
| "message_enumeration (RequestProcessorLog l _) = (message_namespace, log_enumeration l)"
| "message_enumeration (ServerLog l _) = (message_namespace, server_log_enumeration l)"
| "message_enumeration (StoreWatcherLog l _) = (message_namespace, watcher_log_enumeration l)"
| "message_enumeration (OtherMessage l) = (message_namespace, other_enumeration l)"
| "message_enumeration (ApplicationMessage ns ty _) = (ns, ty)"

section \<open>Envelopes on the wire\<close>

record ActorInfo =
  touch_time :: "u64 option"
  sequence_id :: "u64 option"
  hostname :: "string option"
  host_id :: "string option"
  actor_id :: "string option"
  app_id :: "string option"

record EnvelopePB =
  version :: "u32 option"
  message :: "string list"
  message_ns :: "u32 list"
  message_ty :: "u32 list"
  create_time :: "u64 option"
  tag :: "string list"
  actor :: "ActorInfo list"
  numeric_value :: "u64 option"
  string_value :: "string option"

definition empty_envelope :: EnvelopePB where
  "empty_envelope = \<lparr>version = None, message = [], message_ns = [], message_ty = [], create_time = None,
     tag = [], actor = [], numeric_value = None, string_value = None\<rparr>"

text \<open>
  The library. \<open>Serializable\<close> is the result of \<open>AppendToString\<close>, \<open>EnvelopeBytes\<close> what it appends; the first
  argument of \<open>ParseMessage\<close> is the prototype whose class parses. \<open>ReadVarint32\<close> gives the number and
  the bytes after it; \<open>ParsePartial\<close> is what a parse that fails leaves in the envelope and \<open>ParseStop\<close>
  how many of the given bytes it has consumed;
  \<open>Spill\<close> is how many of the buffered bytes an output stream hands to the descriptor on its own.
\<close>

record codec =
  Serializable :: "EnvelopePB \<Rightarrow> bool"
  EnvelopeBytes :: "EnvelopePB \<Rightarrow> string"
  ParseEnvelope :: "string \<Rightarrow> EnvelopePB option"
  SerializeMessage :: "Message \<Rightarrow> string option"
  ParseMessage :: "Message \<Rightarrow> string \<Rightarrow> Message option"
  WriteVarint32 :: "u32 \<Rightarrow> string"
  ReadVarint32 :: "string \<Rightarrow> (u32 \<times> string) option"
  ParsePartial :: "string \<Rightarrow> EnvelopePB"
  ParseStop :: "string \<Rightarrow> nat"
  Spill :: "string \<Rightarrow> nat"

text \<open>
  A codec for the examples of the development: one message in an envelope, whose type is the first
  byte, numbers below 128 in one byte, and a message parses to the registered prototype.
\<close>

definition sample_codec :: codec where
  "sample_codec = \<lparr>
     Serializable = (\<lambda>_. True),
     EnvelopeBytes = (\<lambda>e. concat (map2 (\<lambda>t m. char_of (unat t) # m) (message_ty e) (message e))),
     ParseEnvelope = (\<lambda>s. case s of [] \<Rightarrow> None
        | c # m \<Rightarrow> Some (empty_envelope\<lparr>message := [m], message_ns := [1], message_ty := [of_char c]\<rparr>)),
     SerializeMessage = (\<lambda>_. Some ''m''),
     ParseMessage = (\<lambda>p _. Some p),
     WriteVarint32 = (\<lambda>n. [char_of (unat n)]),
     ReadVarint32 = (\<lambda>s. case s of [] \<Rightarrow> None | c # r \<Rightarrow> Some (of_char c, r)),
     ParsePartial = (\<lambda>_. empty_envelope),
     ParseStop = (\<lambda>_. 0),
     Spill = (\<lambda>_. 0)\<rparr>"

lemma sample_codec_simps [simp]:
  "Serializable sample_codec e"
  "EnvelopeBytes sample_codec e = concat (map2 (\<lambda>t m. char_of (unat t) # m) (message_ty e) (message e))"
  "ParseEnvelope sample_codec [] = None"
  "ParseEnvelope sample_codec (b # m) =
     Some (empty_envelope\<lparr>message := [m], message_ns := [1], message_ty := [of_char b]\<rparr>)"
  "SerializeMessage sample_codec x = Some ''m''"
  "ParseMessage sample_codec p s = Some p"
  "WriteVarint32 sample_codec n = [char_of (unat n)]"
  "ReadVarint32 sample_codec [] = None"
  "ReadVarint32 sample_codec (b # s) = Some (of_char b, s)"
  "ParsePartial sample_codec s = empty_envelope"
  "ParseStop sample_codec s = 0"
  "Spill sample_codec s = 0"
  by (simp_all add: sample_codec_def)

section \<open>The registrar\<close>

text \<open>The map of registered prototypes, in the order of its keys.\<close>

type_synonym registrar = "((u32 \<times> u32) \<times> Message) list"

definition register_message :: "u32 \<Rightarrow> u32 \<Rightarrow> Message \<Rightarrow> registrar \<Rightarrow> bool \<times> registrar" where
  "register_message ns enumeration inst types =
     (case map_of types (ns, enumeration) of
        Some _ \<Rightarrow> (False, types)
      | None \<Rightarrow> (True, map_put (ns, enumeration) inst types))"

definition registered :: "registrar \<Rightarrow> u32 \<Rightarrow> u32 \<Rightarrow> Message option" where
  "registered types ns enumeration = map_of types (ns, enumeration)"

definition GetAllEnumerations :: "registrar \<Rightarrow> (u32 \<times> u32) list" where
  "GetAllEnumerations types = map fst types"

definition Cleanup :: "registrar \<Rightarrow> registrar" where
  "Cleanup types = []"

lemma register_message_registers:
  "ordered types \<Longrightarrow> ordered (snd (register_message ns enumeration m types))"
  "registered (snd (register_message ns enumeration m types)) =
     (\<lambda>n e. if (n, e) = (ns, enumeration) \<and> registered types n e = None then Some m else registered types n e)"
  by (auto simp: register_message_def registered_def fun_eq_iff split: option.splits)

end
