(* ===== verification/Envelope.thy ===== *)
theory Envelope
  imports Messages
begin

text \<open>
  The class \<open>Envelope\<close> (src/zippylog/envelope.cpp, envelope.hpp): the protocol buffer it wraps and the
  array of messages it has parsed. The invariant \<open>cache_ok\<close> says that a cached message is the parse
  of the bytes at its index; the lemmas show which operations keep it.
\<close>

section \<open>The class\<close>

text \<open>
  \<open>messages\<close> is the pointer array: \<open>None\<close> for the null pointer, and for each slot the message it
  points to; the length of the list is \<open>messages_size\<close>.
\<close>

record Envelope =
  envelope :: EnvelopePB
  messages :: "Message option list option"

definition of_pb :: "EnvelopePB \<Rightarrow> Envelope" where
  "of_pb pb = \<lparr>envelope = pb, messages = None\<rparr>"

text \<open>The constructors. The time the system reports is the argument \<open>now\<close>, in microseconds.\<close>

definition new_Envelope :: "u64 \<Rightarrow> Envelope" where
  "new_Envelope now = of_pb (empty_envelope\<lparr>create_time := Some now\<rparr>)"

definition Envelope_of_string :: "u64 \<Rightarrow> string \<Rightarrow> Envelope" where
  "Envelope_of_string now s = of_pb (empty_envelope\<lparr>create_time := Some now, string_value := Some s\<rparr>)"

definition InitializeFromBuffer :: "codec \<Rightarrow> string \<Rightarrow> Envelope res" where
  "InitializeFromBuffer c data =
     (case ParseEnvelope c data of None \<Rightarrow> Inl DeserializeException | Some pb \<Rightarrow> Inr (of_pb pb))"

definition Envelope_of_zmq :: "codec \<Rightarrow> string \<Rightarrow> nat \<Rightarrow> Envelope res" where
  "Envelope_of_zmq c msg offset =
     (if length msg = 0 then Inl (InvalidArgument ''0MQ message is empty'')
      else if offset + 1 \<ge> length msg then Inl (InvalidArgument ''specified offset is larger than message'')
      else InitializeFromBuffer c (drop offset msg))"

definition Envelope_of_data :: "codec \<Rightarrow> string \<Rightarrow> Envelope res" where
  "Envelope_of_data c data =
     (if length data = 0 then Inl (InvalidArgument ''0 size data buffer'')
      else InitializeFromBuffer c data)"

definition copy_Envelope :: "Envelope \<Rightarrow> Envelope" where
  "copy_Envelope e = of_pb (envelope e)"

text \<open>The assignment operator, for an object that is not assigned to itself.\<close>

definition assign_Envelope :: "Envelope \<Rightarrow> Envelope \<Rightarrow> Envelope" where
  "assign_Envelope this orig = this\<lparr>messages := None, envelope := envelope orig\<rparr>"

definition Serialize :: "codec \<Rightarrow> Envelope \<Rightarrow> string \<Rightarrow> bool \<times> string" where
  "Serialize c e s = (Serializable c (envelope e), s @ EnvelopeBytes c (envelope e))"

definition Envelope_eq :: "codec \<Rightarrow> Envelope \<Rightarrow> Envelope \<Rightarrow> bool" where
  "Envelope_eq c e f \<longleftrightarrow> snd (Serialize c e []) = snd (Serialize c f [])"

definition AddMessage :: "codec \<Rightarrow> Message \<Rightarrow> u32 \<Rightarrow> u32 \<Rightarrow> Envelope \<Rightarrow> bool \<times> Envelope" where
  "AddMessage c m ns enumeration e =
     (case SerializeMessage c m of
        None \<Rightarrow> (False, e)
      | Some buffer \<Rightarrow>
          (True, e\<lparr>envelope := (envelope e)\<lparr>message_ns := message_ns (envelope e) @ [ns],
                                          message_ty := message_ty (envelope e) @ [enumeration],
                                          message := message (envelope e) @ [buffer]\<rparr>\<rparr>))"

text \<open>\<open>add_to_envelope\<close> of the generated classes.\<close>

definition add_to_envelope :: "codec \<Rightarrow> Message \<Rightarrow> Envelope \<Rightarrow> Envelope" where
  "add_to_envelope c m e = snd (AddMessage c m (fst (message_enumeration m)) (snd (message_enumeration m)) e)"

definition ParseFromBytes :: "codec \<Rightarrow> string \<Rightarrow> Envelope \<Rightarrow> bool \<times> Envelope" where
  "ParseFromBytes c bytes e =
     (case ParseEnvelope c bytes of
        None \<Rightarrow> (False, e\<lparr>messages := None, envelope := ParsePartial c bytes\<rparr>)
      | Some pb \<Rightarrow> (True, e\<lparr>messages := None, envelope := pb\<rparr>))"

definition ToZmqMessage :: "codec \<Rightarrow> Envelope \<Rightarrow> string option" where
  "ToZmqMessage c e =
     (if Serializable c (envelope e) then Some (EnvelopeBytes c (envelope e)) else None)"

definition ToProtocolZmqMessage :: "codec \<Rightarrow> Envelope \<Rightarrow> string option" where
  "ToProtocolZmqMessage c e =
     (if Serializable c (envelope e) then Some (CHR 0x01 # EnvelopeBytes c (envelope e)) else None)"

definition MessageCount :: "Envelope \<Rightarrow> nat" where
  "MessageCount e = length (message (envelope e))"

definition AddTag :: "string \<Rightarrow> Envelope \<Rightarrow> Envelope" where
  "AddTag s e = e\<lparr>envelope := (envelope e)\<lparr>tag := tag (envelope e) @ [s]\<rparr>\<rparr>"

section \<open>Reading messages\<close>

text \<open>The array of at least \<open>count\<close> slots that \<open>GetMessage\<close> works on.\<close>

definition grow_cache :: "nat \<Rightarrow> Message option list option \<Rightarrow> Message option list" where
  "grow_cache count ms =
     (case ms of
        None \<Rightarrow> replicate count None
      | Some cs \<Rightarrow> if count > length cs then cs @ replicate (count - length cs) None else cs)"

definition GetMessage :: "codec \<Rightarrow> registrar \<Rightarrow> int \<Rightarrow> Envelope \<Rightarrow> Message option res \<times> Envelope" where
  "GetMessage c types index e =
     (if index < 0 then (Inl (InvalidArgument ''index must be non-negative''), e)
      else
        let i = nat index; pb = envelope e in
        if length (message pb) < i + 1 then (Inr None, e)
        else if length (message_ns pb) < i + 1 then (Inr None, e)
        else if length (message_ty pb) < i + 1 then (Inr None, e)
        else
          let cs = grow_cache (length (message pb)) (messages e); e = e\<lparr>messages := Some cs\<rparr> in
          case cs ! i of
            Some m \<Rightarrow> (Inr (Some m), e)
          | None \<Rightarrow>
              (case registered types (message_ns pb ! i) (message_ty pb ! i) of
                 None \<Rightarrow> (Inr None, e)
               | Some msg \<Rightarrow>
                   (case ParseMessage c msg (message pb ! i) of
                      None \<Rightarrow> (Inr None, e)
                    | Some m \<Rightarrow> (Inr (Some m), e\<lparr>messages := Some (cs[i := Some m])\<rparr>))))"

definition CopyMessage :: "int \<Rightarrow> Envelope \<Rightarrow> Envelope \<Rightarrow> bool res \<times> Envelope" where
  "CopyMessage index e dest =
     (if index < 0 then (Inl (InvalidArgument ''index must be non-negative''), dest)
      else
        let i = nat index; pb = envelope e in
        if length (message pb) < i + 1 then (Inr False, dest)
        else
          let dest = dest\<lparr>envelope := (envelope dest)\<lparr>message := message (envelope dest) @ [message pb ! i]\<rparr>\<rparr> in
          if length (message_ns pb) < i + 1 \<or> length (message_ty pb) < i + 1
          then (Inl (Undefined ''repeated field index''), dest)
          else (Inr True, dest\<lparr>envelope := (envelope dest)\<lparr>
                  message_ns := message_ns (envelope dest) @ [message_ns pb ! i],
                  message_ty := message_ty (envelope dest) @ [message_ty pb ! i]\<rparr>\<rparr>))"

definition Envelope_Clear :: "Envelope \<Rightarrow> Envelope" where
  "Envelope_Clear e =
     (let t = (case create_time (envelope e) of Some t \<Rightarrow> t | None \<Rightarrow> 0) in
      e\<lparr>envelope := empty_envelope\<lparr>create_time := Some t\<rparr>, messages := None\<rparr>)"

section \<open>Removing a message\<close>

text \<open>
  The loop of \<open>RemoveMessage\<close> at index \<open>i\<close>, for the indices above the removed one. The test
  \<open>messages_size >= i\<close> lets it read one slot past the end of the array.
\<close>

function shift_messages :: "nat \<Rightarrow> nat \<Rightarrow> Envelope \<Rightarrow> Envelope res" where
  "shift_messages n i e =
     (if i < n then
        let pb = envelope e in
        if length (message_ns pb) \<le> i \<or> length (message_ty pb) \<le> i
        then Inl (Undefined ''repeated field index'')
        else
          let e = e\<lparr>envelope := pb\<lparr>message := (message pb)[i - 1 := message pb ! i],
                                  message_ns := (message_ns pb)[i - 1 := message_ns pb ! i],
                                  message_ty := (message_ty pb)[i - 1 := message_ty pb ! i]\<rparr>\<rparr> in
          case messages e of
            Some cs \<Rightarrow>
              if length cs \<ge> i then
                if length cs = i then Inl (Undefined ''read past the message cache'')
                else shift_messages n (i + 1) (e\<lparr>messages := Some (cs[i - 1 := cs ! i])\<rparr>)
              else shift_messages n (i + 1) e
          | None \<Rightarrow> shift_messages n (i + 1) e
      else Inr e)"
  by pat_completeness auto
termination
  by (relation "measure (\<lambda>(n, i, _). n - i)") auto

declare shift_messages.simps [simp del]

definition RemoveMessage :: "int \<Rightarrow> Envelope \<Rightarrow> (bool \<times> Envelope) res" where
  "RemoveMessage index e =
     (if index < 0 then Inl (InvalidArgument ''index must be non-negative'')
      else
        let initial_size = length (message (envelope e)) in
        if int initial_size < index + 1 then Inr (False, e)
        else
          rbind (shift_messages initial_size (nat index + 1) e) (\<lambda>e.
            if message_ns (envelope e) = [] \<or> message_ty (envelope e) = []
            then Inl (Undefined ''RemoveLast of an empty field'')
            else
              let e = e\<lparr>envelope := (envelope e)\<lparr>message := butlast (message (envelope e)),
                          message_ns := butlast (message_ns (envelope e)),
                          message_ty := butlast (message_ty (envelope e))\<rparr>\<rparr>;
                  e = (case messages e of
                         Some cs \<Rightarrow> if length cs \<ge> initial_size then e\<lparr>messages := Some (cs[initial_size - 1 := None])\<rparr> else e
                       | None \<Rightarrow> e)
              in Inr (True, e)))"

section \<open>The cache invariant\<close>

text \<open>The message at an index as a fresh parse of the stored bytes, without a cache.\<close>

definition parsed :: "codec \<Rightarrow> registrar \<Rightarrow> EnvelopePB \<Rightarrow> nat \<Rightarrow> Message option" where
  "parsed c types pb i =
     (if i < length (message pb) \<and> i < length (message_ns pb) \<and> i < length (message_ty pb) then
        (case registered types (message_ns pb ! i) (message_ty pb ! i) of
           None \<Rightarrow> None
         | Some p \<Rightarrow> ParseMessage c p (message pb ! i))
      else None)"

definition slot_ok :: "codec \<Rightarrow> registrar \<Rightarrow> EnvelopePB \<Rightarrow> Message option list \<Rightarrow> nat \<Rightarrow> bool" where
  "slot_ok c types pb cs i \<longleftrightarrow> (\<forall>m. cs ! i = Some m \<longrightarrow> parsed c types pb i = Some m)"

definition cache_ok :: "codec \<Rightarrow> registrar \<Rightarrow> Envelope \<Rightarrow> bool" where
  "cache_ok c types e \<longleftrightarrow>
     (case messages e of None \<Rightarrow> True | Some cs \<Rightarrow> \<forall>i < length cs. slot_ok c types (envelope e) cs i)"

definition aligned :: "Envelope \<Rightarrow> bool" where
  "aligned e \<longleftrightarrow>
     length (message_ns (envelope e)) = length (message (envelope e)) \<and>
     length (message_ty (envelope e)) = length (message (envelope e))"

lemma parsed_bound: "parsed c types pb i = Some m \<Longrightarrow> i < length (message pb)"
  by (simp add: parsed_def split: if_splits)

lemma cache_ok_of_pb [simp]: "cache_ok c types (of_pb pb)"
  by (simp add: cache_ok_def of_pb_def)

lemma grow_cache_length: "length (message pb) \<le> length (grow_cache (length (message pb)) ms)"
  by (simp add: grow_cache_def split: option.split)

lemma grow_cache_ok:
  assumes "cache_ok c types e" "i < length (grow_cache n (messages e))"
  shows "slot_ok c types (envelope e) (grow_cache n (messages e)) i"
  using assms
  by (auto simp: cache_ok_def slot_ok_def grow_cache_def nth_append split: option.splits if_splits)

lemma GetMessage_parsed:
  assumes "cache_ok c types e" "0 \<le> index"
  obtains e' where "GetMessage c types index e = (Inr (parsed c types (envelope e) (nat index)), e')"
    "envelope e' = envelope e" "cache_ok c types e'"
proof -
  define i cs where "i = nat index" and "cs = grow_cache (length (message (envelope e))) (messages e)"
  have slots: "slot_ok c types (envelope e) cs k" if "k < length cs" for k
    using grow_cache_ok [OF assms(1)] that by (simp add: cs_def)
  show thesis
  proof (cases "i < length (message (envelope e)) \<and> i < length (message_ns (envelope e)) \<and> i < length (message_ty (envelope e))")
    case False
    then have "GetMessage c types index e = (Inr (parsed c types (envelope e) (nat index)), e)"
      using assms(2) by (auto simp: GetMessage_def parsed_def Let_def i_def)
    with that assms(1) show thesis by blast
  next
    case True
    then have len: "i < length cs" using grow_cache_length [of "envelope e" "messages e"] by (simp add: cs_def)
    define r where "r = parsed c types (envelope e) i"
    define e' where "e' = e\<lparr>messages := Some (case r of None \<Rightarrow> cs | Some m \<Rightarrow> cs[i := Some m])\<rparr>"
    have hit: "r = Some m" if "cs ! i = Some m" for m
      using slots [OF len] that by (simp add: slot_ok_def r_def)
    have idem: "cs[i := Some m] = cs" if "cs ! i = Some m" for m
      using that list_update_id [of cs i] by simp
    have "GetMessage c types index e = (Inr r, e')"
    proof (cases "cs ! i")
      case (Some m)
      with hit idem True assms(2) show ?thesis
        by (auto simp: GetMessage_def Let_def i_def cs_def e'_def)
    next
      case None
      with True assms(2) show ?thesis
        by (auto simp: GetMessage_def Let_def i_def [symmetric] cs_def [symmetric] e'_def r_def parsed_def
            split: option.split)
    qed
    moreover have "cache_ok c types e'"
      using slots len by (auto simp: cache_ok_def e'_def slot_ok_def r_def nth_list_update split: option.split if_splits)
    moreover have "envelope e' = envelope e" by (simp add: e'_def)
    ultimately show thesis using that by (simp add: r_def i_def)
  qed
qed

section \<open>The loop of \<open>RemoveMessage\<close>\<close>

function shift_list :: "nat \<Rightarrow> nat \<Rightarrow> 'a list \<Rightarrow> 'a list" where
  "shift_list n i xs = (if i < n then shift_list n (i + 1) (xs[i - 1 := xs ! i]) else xs)"
  by pat_completeness auto
termination
  by (relation "measure (\<lambda>(n, i, _). n - i)") auto

declare shift_list.simps [simp del]

lemma shift_list_length [simp]: "length (shift_list n i xs) = length xs"
proof (induction n i xs rule: shift_list.induct)
  case (1 n i xs)
  then show ?case by (simp add: shift_list.simps [of n i xs])
qed

lemma shift_list_nth:
  "0 < i \<Longrightarrow> n \<le> length xs \<Longrightarrow> k < length xs \<Longrightarrow>
   shift_list n i xs ! k = (if i - 1 \<le> k \<and> k < n - 1 then xs ! (k + 1) else xs ! k)"
proof (induction n i xs rule: shift_list.induct)
  case (1 n i xs)
  show ?case
  proof (cases "i < n")
    case True
    with "1.prems" "1.IH" show ?thesis
      by (subst shift_list.simps) (auto simp: nth_list_update)
  next
    case False
    with "1.prems" show ?thesis by (subst shift_list.simps) auto
  qed
qed

lemma butlast_shift_list:
  assumes "0 < i" "i \<le> length xs"
  shows "butlast (shift_list (length xs) i xs) = take (i - 1) xs @ drop i xs"
  using assms
  by (intro nth_equalityI) (auto simp: nth_butlast shift_list_nth nth_append min_def)

text \<open>The loop succeeds when the array does not end between the removed index and the last one.\<close>

definition shift_fields :: "nat \<Rightarrow> nat \<Rightarrow> Envelope \<Rightarrow> Envelope" where
  "shift_fields n i e =
     e\<lparr>envelope := (envelope e)\<lparr>message := shift_list n i (message (envelope e)),
         message_ns := shift_list n i (message_ns (envelope e)),
         message_ty := shift_list n i (message_ty (envelope e))\<rparr>,
       messages := map_option (\<lambda>cs. if length cs \<ge> n then shift_list n i cs else cs) (messages e)\<rparr>"

lemma shift_messages_ok:
  assumes "0 < i" "n = length (message (envelope e))" "aligned e"
    "\<forall>cs. messages e = Some cs \<longrightarrow> length cs < i \<or> n \<le> length cs"
  shows "shift_messages n i e = Inr (shift_fields n i e)"
  using assms
proof (induction n i e rule: shift_messages.induct)
  case (1 n i e)
  show ?case
  proof (cases "i < n")
    case False
    then have "shift_fields n i e = e"
      by (cases "messages e") (auto simp: shift_fields_def shift_list.simps [of n i])
    with False show ?thesis by (simp add: shift_messages.simps [of n i e])
  next
    case True
    let ?pb = "envelope e"
    let ?e = "e\<lparr>envelope := ?pb\<lparr>message := (message ?pb)[i - 1 := message ?pb ! i],
                message_ns := (message_ns ?pb)[i - 1 := message_ns ?pb ! i],
                message_ty := (message_ty ?pb)[i - 1 := message_ty ?pb ! i]\<rparr>\<rparr>"
    have len: "\<not> (length (message_ns ?pb) \<le> i \<or> length (message_ty ?pb) \<le> i)"
      using "1.prems" True by (simp add: aligned_def)
    note step = shift_messages.simps [of n i e] shift_list.simps [of n i]
    show ?thesis
    proof (cases "messages e")
      case None
      have "shift_messages n (i + 1) ?e = Inr (shift_fields n (i + 1) ?e)"
        using "1.IH"(1) [OF True refl len refl] "1.prems" None by (simp add: aligned_def)
      with True len None show ?thesis by (simp add: step shift_fields_def Let_def)
    next
      case (Some cs)
      show ?thesis
      proof (cases "length cs < i")
        case short: True
        have "shift_messages n (i + 1) ?e = Inr (shift_fields n (i + 1) ?e)"
          using "1.IH"(3) [OF True refl len refl] "1.prems" Some short by (simp add: aligned_def)
        with True len Some short show ?thesis by (simp add: step shift_fields_def Let_def)
      next
        case False
        then have long: "n \<le> length cs" using "1.prems"(4) Some by auto
        have "shift_messages n (i + 1) (?e\<lparr>messages := Some (cs[i - 1 := cs ! i])\<rparr>) =
            Inr (shift_fields n (i + 1) (?e\<lparr>messages := Some (cs[i - 1 := cs ! i])\<rparr>))"
          using "1.IH"(2) [OF True refl len refl] "1.prems" Some long True by (simp add: aligned_def)
        with True len Some long show ?thesis by (simp add: step shift_fields_def Let_def)
      qed
    qed
  qed
qed

lemma shift_messages_undefined:
  assumes "0 < i" "n = length (message (envelope e))" "aligned e" "messages e = Some cs"
    "i \<le> length cs" "length cs < n"
  shows "shift_messages n i e = Inl (Undefined ''read past the message cache'')"
  using assms
proof (induction n i e arbitrary: cs rule: shift_messages.induct)
  case (1 n i e)
  let ?pb = "envelope e"
  let ?e = "e\<lparr>envelope := ?pb\<lparr>message := (message ?pb)[i - 1 := message ?pb ! i],
              message_ns := (message_ns ?pb)[i - 1 := message_ns ?pb ! i],
              message_ty := (message_ty ?pb)[i - 1 := message_ty ?pb ! i]\<rparr>\<rparr>"
  have True: "i < n" using "1.prems" by simp
  have len: "\<not> (length (message_ns ?pb) \<le> i \<or> length (message_ty ?pb) \<le> i)"
    using "1.prems" True by (simp add: aligned_def)
  show ?case
  proof (cases "length cs = i")
    case stop: True
    with True len "1.prems" show ?thesis by (subst shift_messages.simps) (simp add: Let_def)
  next
    case False
    then have "shift_messages n (i + 1) (?e\<lparr>messages := Some (cs[i - 1 := cs ! i])\<rparr>) =
        Inl (Undefined ''read past the message cache'')"
      using "1.IH"(2) [OF True refl len refl, of cs "cs[i - 1 := cs ! i]"] "1.prems" by (simp add: aligned_def)
    with False True len "1.prems" show ?thesis by (subst shift_messages.simps) (simp add: Let_def)
  qed
qed

section \<open>What keeps the cache\<close>

text \<open>Removing the element at an index.\<close>

definition delete_at :: "nat \<Rightarrow> 'a list \<Rightarrow> 'a list" where
  "delete_at i xs = take i xs @ drop (Suc i) xs"

lemma length_delete_at [simp]: "i < length xs \<Longrightarrow> length (delete_at i xs) = length xs - 1"
  by (simp add: delete_at_def)

lemma nth_delete_at:
  "i < length xs \<Longrightarrow> k < length xs - 1 \<Longrightarrow> delete_at i xs ! k = (if k < i then xs ! k else xs ! Suc k)"
  by (auto simp: delete_at_def nth_append min_def)

lemma AddMessage_keeps_cache:
  assumes "cache_ok c types e" "aligned e"
  shows "cache_ok c types (snd (AddMessage c m ns ty e))" "aligned (snd (AddMessage c m ns ty e))"
proof -
  have "parsed c types pb' i = Some v"
    if "parsed c types (envelope e) i = Some v"
      "pb' = (envelope e)\<lparr>message_ns := message_ns (envelope e) @ [ns],
         message_ty := message_ty (envelope e) @ [ty], message := message (envelope e) @ [b]\<rparr>" for pb' b i v
    using that by (auto simp: parsed_def nth_append split: if_splits option.splits)
  then show "cache_ok c types (snd (AddMessage c m ns ty e))"
    using assms(1) by (auto simp: AddMessage_def cache_ok_def slot_ok_def split: option.splits)
  show "aligned (snd (AddMessage c m ns ty e))"
    using assms(2) by (auto simp: AddMessage_def aligned_def split: option.splits)
qed

lemma parsed_delete:
  assumes "aligned e" "i < length (message (envelope e))" "k < length (message (envelope e)) - 1"
    "pb' = (envelope e)\<lparr>message := delete_at i (message (envelope e)),
       message_ns := delete_at i (message_ns (envelope e)), message_ty := delete_at i (message_ty (envelope e))\<rparr>"
  shows "parsed c types pb' k = parsed c types (envelope e) (if k < i then k else Suc k)"
  using assms by (auto simp: parsed_def aligned_def nth_delete_at split: option.split)

text \<open>The array of messages after a removal that stays within it.\<close>

definition delete_slot :: "nat \<Rightarrow> nat \<Rightarrow> Message option list \<Rightarrow> Message option list" where
  "delete_slot n i cs = (if length cs \<ge> n then (shift_list n (Suc i) cs)[n - 1 := None] else cs)"

lemma delete_slot_length: "length (delete_slot n i cs) = length cs"
  by (simp add: delete_slot_def)

lemma delete_slot_ok:
  assumes "\<forall>k < length cs. slot_ok c types (envelope e) cs k" "aligned e"
    "n = length (message (envelope e))" "i < n" "length cs \<le> i \<or> n \<le> length cs"
    "pb' = (envelope e)\<lparr>message := delete_at i (message (envelope e)),
       message_ns := delete_at i (message_ns (envelope e)), message_ty := delete_at i (message_ty (envelope e))\<rparr>"
    "k < length cs"
  shows "slot_ok c types pb' (delete_slot n i cs) k"
proof (cases "n \<le> length cs")
  case False
  with assms show ?thesis
    using parsed_delete [OF assms(2), of i k pb' c types] by (auto simp: slot_ok_def delete_slot_def)
next
  case True
  have beyond: "cs ! k = None" if "n \<le> k"
    using assms(1,3,7) that parsed_bound [of c types "envelope e" k] by (cases "cs ! k") (auto simp: slot_ok_def)
  show ?thesis
  proof (cases "k < n - 1")
    case low: True
    with True assms(4,7) have "delete_slot n i cs ! k = cs ! (if k < i then k else Suc k)"
      by (simp add: delete_slot_def shift_list_nth)
    moreover have "slot_ok c types (envelope e) cs (if k < i then k else Suc k)"
      using assms(1) True low by auto
    ultimately show ?thesis
      using parsed_delete [OF assms(2), of i k pb' c types] assms(3,4,6) low by (simp add: slot_ok_def)
  next
    case False
    with True assms(4,7) beyond have "delete_slot n i cs ! k = None"
      by (cases "k = n - 1") (auto simp: delete_slot_def shift_list_nth)
    then show ?thesis by (simp add: slot_ok_def)
  qed
qed

lemma delete_by_shift:
  assumes "length xs = n" "i < n"
  shows "butlast (shift_list n (Suc i) xs) = delete_at i xs" "shift_list n (Suc i) xs \<noteq> []"
  using butlast_shift_list [of "Suc i" xs] shift_list_length [of n "Suc i" xs] assms
  by (auto simp: delete_at_def simp del: shift_list_length)

lemma RemoveMessage_ok:
  assumes "cache_ok c types e" "aligned e" "i < MessageCount e"
    "\<forall>cs. messages e = Some cs \<longrightarrow> length cs \<le> i \<or> MessageCount e \<le> length cs"
  obtains e' where "RemoveMessage (int i) e = Inr (True, e')"
    "envelope e' = (envelope e)\<lparr>message := delete_at i (message (envelope e)),
       message_ns := delete_at i (message_ns (envelope e)), message_ty := delete_at i (message_ty (envelope e))\<rparr>"
    "cache_ok c types e'" "aligned e'"
proof -
  let ?n = "length (message (envelope e))"
  define pb' where "pb' = (envelope e)\<lparr>message := delete_at i (message (envelope e)),
     message_ns := delete_at i (message_ns (envelope e)), message_ty := delete_at i (message_ty (envelope e))\<rparr>"
  define e' where "e' = e\<lparr>envelope := pb', messages := map_option (delete_slot ?n i) (messages e)\<rparr>"
  have i: "i < ?n" using assms(3) by (simp add: MessageCount_def)
  have loop: "shift_messages ?n (Suc i) e = Inr (shift_fields ?n (Suc i) e)"
    using assms i by (intro shift_messages_ok) (auto simp: MessageCount_def)
  have "RemoveMessage (int i) e = Inr (True, e')"
    using i loop assms(2)
    by (cases "messages e")
       (auto simp: RemoveMessage_def shift_fields_def e'_def pb'_def aligned_def delete_slot_def Let_def
        nat_add_distrib delete_by_shift)
  moreover have "cache_ok c types e'"
  proof (cases "messages e")
    case None
    then show ?thesis by (simp add: cache_ok_def e'_def)
  next
    case (Some cs)
    then have slots: "\<forall>k < length cs. slot_ok c types (envelope e) cs k"
      "length cs \<le> i \<or> ?n \<le> length cs"
      using assms(1,4) by (simp_all add: cache_ok_def MessageCount_def)
    from delete_slot_ok [OF slots(1) assms(2) refl i slots(2) pb'_def] Some show ?thesis
      by (simp add: cache_ok_def e'_def delete_slot_length)
  qed
  moreover have "aligned e'" using assms(2) i by (simp add: aligned_def e'_def pb'_def)
  moreover have "envelope e' = pb'" by (simp add: e'_def)
  ultimately show thesis using that by (simp add: pb'_def)
qed

section \<open>Properties\<close>

text \<open>
  The cache is invisible. In an envelope whose cache is correct, \<open>GetMessage\<close> returns the parse of
  the stored bytes at the index (or the null pointer where there is none), and the envelope stays
  as it was with a correct cache; a negative index throws.
\<close>

lemma GetMessage_uncached:
  assumes "cache_ok c types e"
  shows "\<exists>e'. GetMessage c types index e =
      (if index < 0 then Inl (InvalidArgument ''index must be non-negative'')
       else Inr (parsed c types (envelope e) (nat index)), e')
    \<and> envelope e' = envelope e \<and> cache_ok c types e'"
proof (cases "index < 0")
  case True
  with assms show ?thesis by (simp add: GetMessage_def)
next
  case False
  then show ?thesis using GetMessage_parsed [OF assms, of index] by auto
qed

lemma GetMessage_uncached_witness:
  "fst (GetMessage sample_codec [((1, 91), PingV1)] 0
     (of_pb (empty_envelope\<lparr>message := [''x''], message_ns := [1], message_ty := [91]\<rparr>))) = Inr (Some PingV1)"
proof -
  let ?e = "of_pb (empty_envelope\<lparr>message := [''x''], message_ns := [1], message_ty := [91]\<rparr>)"
  have "parsed sample_codec [((1, 91), PingV1)] (envelope ?e) 0 = Some PingV1"
    by (simp add: parsed_def of_pb_def registered_def)
  with GetMessage_uncached [of sample_codec "[((1, 91), PingV1)]" ?e 0] show ?thesis by auto
qed

text \<open>
  \<open>RemoveMessage\<close> deletes the message and its two enumerations at the index and keeps the cache
  correct, unless the cache is longer than the index but shorter than the list of messages (messages
  were added since it was built): then the loop reads past the end of the array.
\<close>

lemma RemoveMessage_deletes:
  assumes "cache_ok c types e" "aligned e" "i < MessageCount e"
  shows "if \<exists>cs. messages e = Some cs \<and> i < length cs \<and> length cs < MessageCount e
    then RemoveMessage (int i) e = Inl (Undefined ''read past the message cache'')
    else \<exists>e'. RemoveMessage (int i) e = Inr (True, e') \<and>
      envelope e' = (envelope e)\<lparr>message := delete_at i (message (envelope e)),
        message_ns := delete_at i (message_ns (envelope e)), message_ty := delete_at i (message_ty (envelope e))\<rparr> \<and>
      cache_ok c types e' \<and> aligned e'"
proof (cases "\<exists>cs. messages e = Some cs \<and> i < length cs \<and> length cs < MessageCount e")
  case True
  then obtain cs where cs: "messages e = Some cs" "Suc i \<le> length cs" "length cs < length (message (envelope e))"
    by (auto simp: MessageCount_def)
  have "shift_messages (length (message (envelope e))) (Suc i) e = Inl (Undefined ''read past the message cache'')"
    by (rule shift_messages_undefined [OF _ refl assms(2) cs]) simp
  with True assms(3) show ?thesis by (auto simp: RemoveMessage_def MessageCount_def nat_add_distrib)
next
  case False
  then have "\<forall>cs. messages e = Some cs \<longrightarrow> length cs \<le> i \<or> MessageCount e \<le> length cs" by fastforce
  from RemoveMessage_ok [OF assms this] False show ?thesis by metis
qed

lemma RemoveMessage_deletes_witness:
  "\<exists>e'. RemoveMessage 0 (of_pb (empty_envelope\<lparr>message := [''a'', ''b''], message_ns := [1, 1], message_ty := [91, 72]\<rparr>)) =
      Inr (True, e') \<and> message (envelope e') = [''b'']"
proof -
  let ?e = "of_pb (empty_envelope\<lparr>message := [''a'', ''b''], message_ns := [1, 1], message_ty := [91, 72]\<rparr>)"
  have e: "cache_ok sample_codec [] ?e" "aligned ?e" "0 < MessageCount ?e" "messages ?e = None"
    by (simp, simp_all add: aligned_def of_pb_def MessageCount_def)
  from RemoveMessage_deletes [OF e(1-3)] e(4) show ?thesis
    by (auto simp: of_pb_def delete_at_def)
qed

end
