(* ===== verification/Stream.thy ===== *)
theory Stream
  imports Envelope
begin

text \<open>
  Streams of envelopes (src/zippylog/stream.cpp): the reader \<open>InputStream\<close> with its look-ahead of the
  next size, its subclass on a file, and the writer \<open>OutputStream\<close> with the buffer of the library
  between it and the file. The abstract contents of a stream is the version byte followed by one
  record per envelope; the lemmas relate the reader and the writer to it.
\<close>

section \<open>Reading\<close>

text \<open>
  \<open>file_bytes\<close> is the open file as the descriptor reads it, \<open>rest\<close> the bytes that the coded stream on it
  has not consumed.
\<close>

record InputStream =
  file_bytes :: string
  rest :: string
  coded_input_stream_read_bytes :: int
  stream_version :: "char option"
  have_next_size :: bool
  next_envelope_size :: u32
  offset :: int

definition new_InputStream :: "string \<Rightarrow> InputStream" where
  "new_InputStream bytes = \<lparr>file_bytes = bytes, rest = bytes, coded_input_stream_read_bytes = 0,
     stream_version = None, have_next_size = False, next_envelope_size = 0, offset = - 1\<rparr>"

definition NextEnvelopeSize :: "codec \<Rightarrow> InputStream \<Rightarrow> u32 \<times> InputStream" where
  "NextEnvelopeSize c s =
     (if have_next_size s then (next_envelope_size s, s)
      else
        case ReadVarint32 c (rest s) of
          None \<Rightarrow> (0, s)
        | Some (n, r) \<Rightarrow> (n, s\<lparr>next_envelope_size := n, rest := r, have_next_size := True\<rparr>))"

definition ReadVersion :: "InputStream \<Rightarrow> bool \<times> InputStream" where
  "ReadVersion s =
     (case rest s of
        [] \<Rightarrow> (False, s\<lparr>coded_input_stream_read_bytes := coded_input_stream_read_bytes s + 1\<rparr>)
      | v # r \<Rightarrow>
          (v = CHR 0x01, s\<lparr>rest := r, stream_version := Some v, offset := 1\<rparr>))"

text \<open>
  Rebuilding the coded stream returns what it has buffered to the stream below, so the position of
  the reader is kept; the count of bytes starts again.
\<close>

definition RebuildCodedInputStream :: "InputStream \<Rightarrow> InputStream" where
  "RebuildCodedInputStream s = s\<lparr>coded_input_stream_read_bytes := 0\<rparr>"

definition record_size :: "u32 \<Rightarrow> u32" where
  "record_size n = (if n \<le> 0x7f then n + 1 else if n \<le> 0x3fff then n + 2 else if n \<le> 0x1fffff then n + 3 else n + 4)"

text \<open>\<open>ReadEnvelope\<close> returns the flag, the envelope, the number of bytes read and the stream.\<close>

definition ReadEnvelope :: "codec \<Rightarrow> Envelope \<Rightarrow> InputStream \<Rightarrow> (bool \<times> Envelope \<times> u32) \<times> InputStream" where
  "ReadEnvelope c e s =
     (let (n, s) = NextEnvelopeSize c s in
      if n = 0 then ((False, e, 0), s)
      else
        let s = (if coded_input_stream_read_bytes s > (2 ^ 31 - 1) div 2 then RebuildCodedInputStream s else s);
            limited = take (unat n) (rest s);
            (ok, e) = ParseFromBytes c limited e
        in if \<not> ok then
             ((False, e, 0), s\<lparr>rest := drop (ParseStop c limited) (rest s), have_next_size := False\<rparr>)
           else
             let bytes_read = record_size n in
             ((True, e, bytes_read),
              s\<lparr>rest := drop (unat n) (rest s), have_next_size := False,
                offset := offset s + uint bytes_read,
                coded_input_stream_read_bytes :=
                  to_int32 (coded_input_stream_read_bytes s + uint bytes_read)\<rparr>))"

text \<open>The constructor of \<open>FileInputStream\<close>, and the seek. \<open>lseek\<close> fails on a negative offset.\<close>

definition SetAbsoluteOffset :: "int \<Rightarrow> InputStream \<Rightarrow> bool res \<times> InputStream" where
  "SetAbsoluteOffset off s =
     (if off < 0 then (Inl (RuntimeException ''could not seek to requested stream offset''), s)
      else (Inr True, s\<lparr>rest := drop (nat off) (file_bytes s), offset := off\<rparr>))"

definition new_FileInputStream :: "filesystem \<Rightarrow> string \<Rightarrow> int \<Rightarrow> InputStream res" where
  "new_FileInputStream fs path start_offset =
     rbind (File_Open fs path \<lparr>READ = True, WRITE = False, APPEND = False, CREATE = False, TRUNCATE = False, WRITE_LOCK = False\<rparr>)
       (\<lambda>opened. case opened of
          None \<Rightarrow> Inl (RuntimeException ''could not open file input stream'')
        | Some (_, fd) \<Rightarrow>
            let s = RebuildCodedInputStream (new_InputStream (file_content fs fd)); (ok, s) = ReadVersion s in
            if \<not> ok then Inl (RuntimeException ''could not read stream version or stream version not supported'')
            else if start_offset > 0 then
              (case SetAbsoluteOffset start_offset s of
                 (Inl e, _) \<Rightarrow> Inl e
               | (Inr True, s) \<Rightarrow> Inr s
               | (Inr False, _) \<Rightarrow> Inl (RuntimeException ''could not set stream offset''))
            else Inr s)"

section \<open>Writing\<close>

text \<open>
  The stream on the open file \<open>os_fd\<close> with the bytes the library has buffered. \<open>Spill\<close> is what the
  library writes on its own when data is added; destroying the stream or flushing writes the rest.
\<close>

record OutputStream =
  os_fd :: "string list"
  buffered :: string

definition WriteRaw :: "codec \<Rightarrow> string \<Rightarrow> OutputStream \<Rightarrow> filesystem \<Rightarrow> OutputStream \<times> filesystem" where
  "WriteRaw c bytes os fs =
     (let b = buffered os @ bytes; k = Spill c b in
      (os\<lparr>buffered := drop k b\<rparr>, sys_append (os_fd os) (take k b) fs))"

definition OutputStream_Flush :: "OutputStream \<Rightarrow> filesystem \<Rightarrow> bool \<times> OutputStream \<times> filesystem" where
  "OutputStream_Flush os fs =
     (True, os\<lparr>buffered := []\<rparr>, sys_append (os_fd os) (buffered os) fs)"

definition WriteEnvelope :: "codec \<Rightarrow> Envelope \<Rightarrow> OutputStream \<Rightarrow> filesystem \<Rightarrow> bool \<times> OutputStream \<times> filesystem" where
  "WriteEnvelope c e os fs =
     (let bytes = EnvelopeBytes c (envelope e);
          (os, fs) = WriteRaw c (WriteVarint32 c (word_of_nat (length bytes))) os fs;
          (os, fs) = WriteRaw c bytes os fs
      in (True, os, fs))"

definition WriteEnvelope_data :: "codec \<Rightarrow> string \<Rightarrow> OutputStream \<Rightarrow> filesystem \<Rightarrow> bool \<times> OutputStream \<times> filesystem" where
  "WriteEnvelope_data c data os fs =
     (let (os, fs) = WriteRaw c (WriteVarint32 c (word_of_nat (length data))) os fs;
          (os, fs) = WriteRaw c data os fs
      in (True, os, fs))"

definition WriteStreamHeader :: "codec \<Rightarrow> OutputStream \<Rightarrow> filesystem \<Rightarrow> bool \<times> OutputStream \<times> filesystem" where
  "WriteStreamHeader c os fs =
     (let (os, fs) = WriteRaw c [CHR 0x01] os fs in OutputStream_Flush os fs)"

definition new_FileOutputStream :: "codec \<Rightarrow> filesystem \<Rightarrow> string \<Rightarrow> bool \<Rightarrow> (OutputStream \<times> filesystem) res" where
  "new_FileOutputStream c fs path write_lock =
     rbind (File_Open fs path \<lparr>READ = False, WRITE = True, APPEND = True, CREATE = True, TRUNCATE = False, WRITE_LOCK = write_lock\<rparr>)
       (\<lambda>opened. case opened of
          None \<Rightarrow> Inl (RuntimeException ''could not open file'')
        | Some (fs, fd) \<Rightarrow>
            (case stat fs path of
               None \<Rightarrow> Inl (RuntimeException ''could not stat file opened for writing. weird'')
             | Some st \<Rightarrow>
                 let os = \<lparr>os_fd = fd, buffered = []\<rparr> in
                 if size st = 0 then
                   let (ok, os, fs) = WriteStreamHeader c os fs in
                   if \<not> ok then Inl (RuntimeException ''could not write stream header to new stream'')
                   else Inr (os, fs)
                 else Inr (os, fs)))"

text \<open>The destructor closes the library's stream, which flushes it.\<close>

definition delete_FileOutputStream :: "OutputStream \<Rightarrow> filesystem \<Rightarrow> filesystem" where
  "delete_FileOutputStream os fs = sys_append (os_fd os) (buffered os) fs"

section \<open>The contents of a stream\<close>

definition record_bytes :: "codec \<Rightarrow> EnvelopePB \<Rightarrow> string" where
  "record_bytes c pb = WriteVarint32 c (word_of_nat (length (EnvelopeBytes c pb))) @ EnvelopeBytes c pb"

definition stream_bytes :: "codec \<Rightarrow> EnvelopePB list \<Rightarrow> string" where
  "stream_bytes c pbs = CHR 0x01 # concat (map (record_bytes c) pbs)"

text \<open>
  What the stream relies on for an envelope: the library parses what it serialised, and reads the
  size it wrote, in the documented number of bytes; the envelope is not empty and smaller than
  \<open>2 ^ 28\<close> bytes.
\<close>

definition varint_length :: "nat \<Rightarrow> nat" where
  "varint_length n = (if n \<le> 0x7f then 1 else if n \<le> 0x3fff then 2 else if n \<le> 0x1fffff then 3 else 4)"

definition sound_record :: "codec \<Rightarrow> EnvelopePB \<Rightarrow> bool" where
  "sound_record c pb \<longleftrightarrow>
     (let n = length (EnvelopeBytes c pb); w = word_of_nat n in
      0 < n \<and> n < 2 ^ 28 \<and> ParseEnvelope c (EnvelopeBytes c pb) = Some pb \<and>
      length (WriteVarint32 c w) = varint_length n \<and>
      (\<forall>r. ReadVarint32 c (WriteVarint32 c w @ r) = Some (w, r)))"

lemma record_size_word:
  assumes "0 < n" "n < 2 ^ 28"
  shows "unat (record_size (word_of_nat n)) = n + varint_length n"
proof -
  have n: "unat (word_of_nat n :: u32) = n"
    using assms by (intro unat_word_of_nat) simp
  have le: "(word_of_nat n :: u32) \<le> 0x7f \<longleftrightarrow> n \<le> 0x7f" "(word_of_nat n :: u32) \<le> 0x3fff \<longleftrightarrow> n \<le> 0x3fff"
    "(word_of_nat n :: u32) \<le> 0x1fffff \<longleftrightarrow> n \<le> 0x1fffff"
    by (simp_all add: word_le_nat_alt n)
  have add: "unat ((word_of_nat n :: u32) + 1) = n + 1" "unat ((word_of_nat n :: u32) + 2) = n + 2"
    "unat ((word_of_nat n :: u32) + 3) = n + 3" "unat ((word_of_nat n :: u32) + 4) = n + 4"
    using assms by (simp_all add: unat_word_ariths n)
  show ?thesis by (simp add: record_size_def varint_length_def le add)
qed

lemma ReadEnvelope_record:
  assumes "sound_record c pb" "rest s = record_bytes c pb @ r" "\<not> have_next_size s"
  obtains s' where
    "ReadEnvelope c e s = ((True, e\<lparr>messages := None, envelope := pb\<rparr>, record_size (word_of_nat (length (EnvelopeBytes c pb)))), s')"
    "rest s' = r" "\<not> have_next_size s'" "file_bytes s' = file_bytes s"
    "offset s' = offset s + int (length (record_bytes c pb))"
proof -
  let ?n = "length (EnvelopeBytes c pb)" and ?w = "word_of_nat (length (EnvelopeBytes c pb)) :: u32"
  have h: "0 < ?n" "?n < 2 ^ 28" "ParseEnvelope c (EnvelopeBytes c pb) = Some pb"
    "length (WriteVarint32 c ?w) = varint_length ?n" "ReadVarint32 c (rest s) = Some (?w, EnvelopeBytes c pb @ r)"
    using assms by (auto simp: sound_record_def Let_def record_bytes_def)
  have w: "unat ?w = ?n" "?w \<noteq> 0" using h(1,2) by (simp_all add: unat_word_of_nat word_of_nat_neq_0)
  have size: "uint (record_size ?w) = int (length (record_bytes c pb))"
    using record_size_word [OF h(1,2)] h(4) by (simp add: record_bytes_def uint_nat)
  show thesis
    using that size h w assms(3)
    by (cases "coded_input_stream_read_bytes s > (2 ^ 31 - 1) div 2")
       (auto simp: ReadEnvelope_def NextEnvelopeSize_def ParseFromBytes_def RebuildCodedInputStream_def Let_def)
qed

text \<open>Reading up to \<open>n\<close> envelopes, and writing a list of them.\<close>

fun read_some :: "codec \<Rightarrow> nat \<Rightarrow> InputStream \<Rightarrow> EnvelopePB list \<times> InputStream" where
  "read_some c 0 s = ([], s)"
| "read_some c (Suc n) s =
     (let ((ok, e, _), s) = ReadEnvelope c (of_pb empty_envelope) s in
      if ok then (let (es, s) = read_some c n s in (envelope e # es, s)) else ([], s))"

fun write_all :: "codec \<Rightarrow> Envelope list \<Rightarrow> OutputStream \<Rightarrow> filesystem \<Rightarrow> OutputStream \<times> filesystem" where
  "write_all c [] os fs = (os, fs)"
| "write_all c (e # es) os fs = (let (_, os, fs) = WriteEnvelope c e os fs in write_all c es os fs)"

lemma read_some_records:
  assumes "list_all (sound_record c) pbs" "rest s = concat (map (record_bytes c) pbs) @ r" "\<not> have_next_size s"
  obtains s' where "read_some c (length pbs) s = (pbs, s')" "rest s' = r" "\<not> have_next_size s'"
    "file_bytes s' = file_bytes s" "offset s' = offset s + int (length (concat (map (record_bytes c) pbs)))"
  using assms
proof (induction pbs arbitrary: s thesis)
  case Nil
  then show ?case by simp
next
  case (Cons pb pbs)
  have "sound_record c pb" "rest s = record_bytes c pb @ (concat (map (record_bytes c) pbs) @ r)"
    using Cons.prems by simp_all
  from ReadEnvelope_record [OF this Cons.prems(4), of "of_pb empty_envelope"] obtain s1 where s1:
    "ReadEnvelope c (of_pb empty_envelope) s = ((True, of_pb empty_envelope\<lparr>messages := None, envelope := pb\<rparr>,
       record_size (word_of_nat (length (EnvelopeBytes c pb)))), s1)"
    "rest s1 = concat (map (record_bytes c) pbs) @ r" "\<not> have_next_size s1" "file_bytes s1 = file_bytes s"
    "offset s1 = offset s + int (length (record_bytes c pb))" .
  have "list_all (sound_record c) pbs" using Cons.prems(2) by simp
  from Cons.IH [OF _ this s1(2,3)] obtain s2 where "read_some c (length pbs) s1 = (pbs, s2)" "rest s2 = r"
    "\<not> have_next_size s2" "file_bytes s2 = file_bytes s1"
    "offset s2 = offset s1 + int (length (concat (map (record_bytes c) pbs)))" .
  with s1 Cons.prems(1) [of s2] show ?case by simp
qed

text \<open>What the file holds once the writer's buffer is written.\<close>

definition written :: "OutputStream \<Rightarrow> filesystem \<Rightarrow> string" where
  "written os fs = file_content fs (os_fd os) @ buffered os"

definition writable :: "OutputStream \<Rightarrow> filesystem \<Rightarrow> bool" where
  "writable os fs \<longleftrightarrow> os_fd os \<noteq> [] \<and> (\<exists>x. node_at fs (os_fd os) = Some (Reg x))"

lemma append_written:
  assumes "writable os fs"
  shows "file_content (sys_append (os_fd os) b fs) (os_fd os) = file_content fs (os_fd os) @ b"
  using assms file_content_append by (auto simp: writable_def)

lemma writable_append: "writable os fs \<Longrightarrow> writable os (sys_append (os_fd os) b fs)"
  using file_content_append by (fastforce simp: writable_def)

lemma writable_fd: "os_fd os' = os_fd os \<Longrightarrow> writable os' fs = writable os fs"
  by (simp add: writable_def)

lemma WriteRaw_written:
  assumes "writable os fs" "WriteRaw c b os fs = (os', fs')"
  shows "written os' fs' = written os fs @ b" "writable os' fs'" "os_fd os' = os_fd os"
    "fs' = sys_append (os_fd os) (take (Spill c (buffered os @ b)) (buffered os @ b)) fs"
proof -
  show fd: "os_fd os' = os_fd os"
    and fs': "fs' = sys_append (os_fd os) (take (Spill c (buffered os @ b)) (buffered os @ b)) fs"
    using assms(2) by (auto simp: WriteRaw_def Let_def)
  show "writable os' fs'" using writable_append [OF assms(1)] fd fs' by (simp add: writable_def)
  have "buffered os' = drop (Spill c (buffered os @ b)) (buffered os @ b)"
    using assms(2) by (auto simp: WriteRaw_def Let_def)
  then show "written os' fs' = written os fs @ b"
    using append_written [OF assms(1)] fd fs' by (simp add: written_def del: take_append drop_append)
qed

lemma WriteEnvelope_written:
  assumes "writable os fs" "WriteEnvelope c e os fs = (ok, os', fs')"
  shows "ok" "written os' fs' = written os fs @ record_bytes c (envelope e)" "writable os' fs'"
    "os_fd os' = os_fd os" "\<exists>b. fs' = sys_append (os_fd os) b fs"
proof -
  let ?v = "WriteVarint32 c (word_of_nat (length (EnvelopeBytes c (envelope e))))"
  obtain os1 fs1 where 1: "WriteRaw c ?v os fs = (os1, fs1)" by fastforce
  have 2: "WriteRaw c (EnvelopeBytes c (envelope e)) os1 fs1 = (os', fs')" and ok: "ok"
    using assms(2) 1 by (auto simp: WriteEnvelope_def Let_def split: prod.splits)
  note w1 = WriteRaw_written [OF assms(1) 1] and w2 = WriteRaw_written [OF WriteRaw_written(2) [OF assms(1) 1] 2]
  show "ok" "written os' fs' = written os fs @ record_bytes c (envelope e)" "writable os' fs'" "os_fd os' = os_fd os"
    using ok w1 w2 by (simp_all add: record_bytes_def)
  show "\<exists>b. fs' = sys_append (os_fd os) b fs"
    using w1(3,4) w2(4) by (auto simp: sys_append_append)
qed

lemma write_all_written:
  assumes "writable os fs" "write_all c es os fs = (os', fs')"
  shows "written os' fs' = written os fs @ concat (map (record_bytes c \<circ> envelope) es) \<and> writable os' fs' \<and>
    os_fd os' = os_fd os \<and> denied fs' = denied fs"
  using assms
proof (induction es arbitrary: os fs)
  case Nil
  then show ?case by simp
next
  case (Cons e es)
  obtain ok os1 fs1 where 1: "WriteEnvelope c e os fs = (ok, os1, fs1)" by (cases "WriteEnvelope c e os fs") auto
  note w1 = WriteEnvelope_written [OF Cons.prems(1) 1]
  have "write_all c es os1 fs1 = (os', fs')" using Cons.prems(2) 1 by simp
  from Cons.IH [OF w1(3) this] w1 show ?case by auto
qed

lemma delete_written:
  assumes "writable os fs"
  shows "file_content (delete_FileOutputStream os fs) (os_fd os) = written os fs"
    "\<exists>x. node_at (delete_FileOutputStream os fs) (os_fd os) = Some (Reg x)"
  using assms append_written [OF assms] writable_append [OF assms]
  by (auto simp: delete_FileOutputStream_def written_def writable_def)

text \<open>Opening the writer on a new file, and the reader on a file that holds a stream.\<close>

lemma new_FileOutputStream_new:
  assumes "sys_creatable fs (components path)" "allowed fs (components path)"
  obtains os fs' where "new_FileOutputStream c fs path lock = Inr (os, fs')" "written os fs' = [CHR 0x01]"
    "writable os fs'" "os_fd os = components path" "denied fs' = denied fs"
proof -
  let ?p = "components path"
  define fs1 where "fs1 = add_node ?p (Reg []) fs"
  define os0 where "os0 = \<lparr>os_fd = ?p, buffered = []\<rparr>"
  have p: "?p \<noteq> []" "node_at fs ?p = None" using assms(1) by (simp_all add: sys_creatable_def)
  have at: "node_at fs1 ?p = Some (Reg [])" using p by (simp add: fs1_def node_at_add)
  have w: "writable os0 fs1" "written os0 fs1 = []" using at p by (simp_all add: writable_def written_def os0_def file_content_def)
  obtain os1 fs2 where raw: "WriteRaw c [CHR 0x01] os0 fs1 = (os1, fs2)" by fastforce
  note r = WriteRaw_written [OF w(1) raw]
  define os2 fs3 where "os2 = os1\<lparr>buffered := []\<rparr>" and "fs3 = sys_append (os_fd os1) (buffered os1) fs2"
  have "stat fs1 path = Some \<lparr>type = REGULAR, size = 0\<rparr>"
    using at by (simp add: stat_def lookup_path_def st_mode_def st_size_def)
  then have "new_FileOutputStream c fs path lock = Inr (os2, fs3)"
    using p assms raw
    by (simp add: new_FileOutputStream_def File_Open_def sys_open_def fs1_def [symmetric] os0_def [symmetric]
        WriteStreamHeader_def OutputStream_Flush_def os2_def fs3_def)
  moreover have "written os2 fs3 = [CHR 0x01]"
    using append_written [OF r(2)] r(1) w(2) by (simp add: written_def os2_def fs3_def)
  moreover have "writable os2 fs3" using writable_append [OF r(2)] by (simp add: writable_def os2_def fs3_def)
  moreover have "os_fd os2 = ?p" "denied fs3 = denied fs"
    using r(3,4) by (simp_all add: os2_def fs3_def os0_def fs1_def)
  ultimately show thesis using that by blast
qed

lemma new_FileInputStream_stream:
  assumes "node_at fs (components path) = Some (Reg (CHR 0x01 # b))" "allowed fs (components path)" "0 \<le> off"
  obtains s where "new_FileInputStream fs path off = Inr s" "\<not> have_next_size s" "file_bytes s = CHR 0x01 # b"
    "rest s = (if off = 0 then b else drop (nat off) (CHR 0x01 # b))" "offset s = (if off = 0 then 1 else off)"
proof -
  have open': "File_Open fs path \<lparr>READ = True, WRITE = False, APPEND = False, CREATE = False, TRUNCATE = False, WRITE_LOCK = False\<rparr>
      = Inr (Some (fs, components path))"
    using assms by (simp add: File_Open_def sys_open_def)
  show thesis
    using that assms open'
    by (cases "off = 0")
       (auto simp: new_FileInputStream_def file_content_def new_InputStream_def RebuildCodedInputStream_def
        ReadVersion_def SetAbsoluteOffset_def)
qed

section \<open>Properties\<close>

lemma file_node:
  "file_content fs p = x \<Longrightarrow> \<exists>y. node_at fs p = Some (Reg y) \<Longrightarrow> node_at fs p = Some (Reg x)"
  by (auto simp: file_content_def)

text \<open>
  C40: the envelopes written to a new stream file are read back from it in order and unchanged, when
  the writer is closed, however the library splits its writes; the reader then is at the end of the
  file, at the offset of its last byte, and finds no further size.
\<close>

theorem stream_roundtrip:
  assumes "sys_creatable fs (components path)" "allowed fs (components path)"
    "list_all (sound_record c) (map envelope es)" "ReadVarint32 c [] = None"
  shows "\<exists>os fs1 os2 fs2 s s'. new_FileOutputStream c fs path lock = Inr (os, fs1) \<and>
    write_all c es os fs1 = (os2, fs2) \<and>
    new_FileInputStream (delete_FileOutputStream os2 fs2) path 0 = Inr s \<and>
    read_some c (length es) s = (map envelope es, s') \<and>
    offset s' = int (length (stream_bytes c (map envelope es))) \<and> NextEnvelopeSize c s' = (0, s')"
proof -
  obtain os fs1 where new: "new_FileOutputStream c fs path lock = Inr (os, fs1)" "written os fs1 = [CHR 0x01]"
    "writable os fs1" "os_fd os = components path" "denied fs1 = denied fs"
    using new_FileOutputStream_new [OF assms(1,2)] by blast
  obtain os2 fs2 where all: "write_all c es os fs1 = (os2, fs2)" by fastforce
  note w = write_all_written [OF new(3) all]
  let ?fs = "delete_FileOutputStream os2 fs2" and ?b = "concat (map (record_bytes c) (map envelope es))"
  have w2: "writable os2 fs2" using w by blast
  have "node_at ?fs (components path) = Some (Reg (CHR 0x01 # ?b))"
    using delete_written [OF w2] w new by (intro file_node) (auto simp: comp_def)
  moreover have "allowed ?fs (components path)"
    using assms(2) w new(5) by (simp add: delete_FileOutputStream_def allowed_def)
  ultimately obtain s where s: "new_FileInputStream ?fs path 0 = Inr s" "\<not> have_next_size s" "rest s = ?b @ []" "offset s = 1"
    using new_FileInputStream_stream [of ?fs path ?b 0] by auto
  obtain s' where s': "read_some c (length (map envelope es)) s = (map envelope es, s')" "rest s' = []"
    "\<not> have_next_size s'" "offset s' = offset s + int (length ?b)"
    using read_some_records [OF assms(3) s(3,2)] by blast
  have "NextEnvelopeSize c s' = (0, s')" using s' assms(4) by (simp add: NextEnvelopeSize_def)
  with new(1) all s s' show ?thesis by (auto simp: stream_bytes_def)
qed

lemma stream_roundtrip_witness:
  "\<exists>os fs1 os2 fs2 s s'.
     new_FileOutputStream sample_codec \<lparr>nodes = [([''d''], Dir)], denied = [], node_size = 0\<rparr> ''/d/x.zippylog'' True = Inr (os, fs1) \<and>
     write_all sample_codec [of_pb (empty_envelope\<lparr>message := [''a''], message_ns := [1], message_ty := [91]\<rparr>)] os fs1 = (os2, fs2) \<and>
     new_FileInputStream (delete_FileOutputStream os2 fs2) ''/d/x.zippylog'' 0 = Inr s \<and>
     read_some sample_codec 1 s = ([empty_envelope\<lparr>message := [''a''], message_ns := [1], message_ty := [91]\<rparr>], s')"
proof -
  let ?fs = "\<lparr>nodes = [([''d''], Dir)], denied = [], node_size = 0\<rparr> :: filesystem"
  let ?e = "empty_envelope\<lparr>message := [''a''], message_ns := [1], message_ty := [91]\<rparr>"
  have c: "components ''/d/x.zippylog'' = [''d'', ''x.zippylog'']"
    by (simp add: components_def c_str_def)
  have digits: "char_of (91::nat) = CHR 0x5B" "char_of (2::nat) = CHR 0x02"
    by (simp_all add: char_of_def bit_0)
  have h: "sys_creatable ?fs (components ''/d/x.zippylog'')" "allowed ?fs (components ''/d/x.zippylog'')"
    "list_all (sound_record sample_codec) (map envelope [of_pb ?e])" "ReadVarint32 sample_codec [] = None"
    by (simp_all add: c sys_creatable_def node_at_def allowed_def sound_record_def of_pb_def varint_length_def
        digits)
  from stream_roundtrip [OF h, of True] show ?thesis by (auto simp: of_pb_def)
qed

text \<open>
  The offset a reader reports after some envelopes is a valid start: a reader opened there reads
  exactly the envelopes that are left.
\<close>

lemma stream_resume:
  assumes "node_at fs (components path) = Some (Reg (stream_bytes c (xs @ ys)))" "allowed fs (components path)"
    "list_all (sound_record c) (xs @ ys)"
  shows "\<exists>s s' t t'. new_FileInputStream fs path 0 = Inr s \<and> read_some c (length xs) s = (xs, s') \<and>
    new_FileInputStream fs path (offset s') = Inr t \<and> read_some c (length ys) t = (ys, t') \<and> rest t' = []"
proof -
  let ?bx = "concat (map (record_bytes c) xs)" and ?by = "concat (map (record_bytes c) ys)"
  have content: "node_at fs (components path) = Some (Reg (CHR 0x01 # ?bx @ ?by))"
    using assms(1) by (simp add: stream_bytes_def)
  obtain s where s: "new_FileInputStream fs path 0 = Inr s" "\<not> have_next_size s" "rest s = ?bx @ ?by" "offset s = 1"
    using new_FileInputStream_stream [OF content assms(2), of 0] by auto
  have sound: "list_all (sound_record c) xs" "list_all (sound_record c) ys" using assms(3) by simp_all
  obtain s' where s': "read_some c (length xs) s = (xs, s')" "offset s' = offset s + int (length ?bx)"
    using read_some_records [OF sound(1) s(3,2)] by blast
  have off: "offset s' = 1 + int (length ?bx)" "0 \<le> offset s'" "offset s' \<noteq> 0" using s s' by simp_all
  then have "nat (offset s') = Suc (length ?bx)" by simp
  then have "drop (nat (offset s')) (CHR 0x01 # ?bx @ ?by) = ?by @ []" by simp
  with off obtain t where t: "new_FileInputStream fs path (offset s') = Inr t" "\<not> have_next_size t" "rest t = ?by @ []"
    using new_FileInputStream_stream [OF content assms(2), of "offset s'"] by metis
  obtain t' where "read_some c (length ys) t = (ys, t')" "rest t' = []"
    using read_some_records [OF sound(2) t(3,2)] by blast
  with s s' t show ?thesis by blast
qed

text \<open>A file of two records for the examples.\<close>

definition sample_stream :: string where
  "sample_stream = [CHR 0x01, CHR 0x02, CHR 0x5B, CHR ''a'', CHR 0x01, CHR 0x48]"

definition sample_file :: filesystem where
  "sample_file = \<lparr>nodes = [([''x''], Reg sample_stream)], denied = [], node_size = 0\<rparr>"

lemma stream_resume_witness:
  "\<exists>s s' t t'. new_FileInputStream sample_file ''x'' 0 = Inr s \<and>
     read_some sample_codec 1 s = ([empty_envelope\<lparr>message := [''a''], message_ns := [1], message_ty := [91]\<rparr>], s') \<and>
     new_FileInputStream sample_file ''x'' (offset s') = Inr t \<and>
     read_some sample_codec 1 t = ([empty_envelope\<lparr>message := [''''], message_ns := [1], message_ty := [72]\<rparr>], t')"
proof -
  let ?a = "empty_envelope\<lparr>message := [''a''], message_ns := [1], message_ty := [91]\<rparr>"
  let ?b = "empty_envelope\<lparr>message := [''''], message_ns := [1], message_ty := [72]\<rparr>"
  have c: "components ''x'' = [''x'']" by (simp add: components_def c_str_def)
  have h: "node_at sample_file (components ''x'') = Some (Reg (stream_bytes sample_codec ([?a] @ [?b])))"
    "allowed sample_file (components ''x'')" "list_all (sound_record sample_codec) ([?a] @ [?b])"
    by (simp_all add: sample_file_def sample_stream_def c node_at_def allowed_def sound_record_def varint_length_def
        stream_bytes_def record_bytes_def, simp_all add: char_of_def bit_0)
  from stream_resume [OF h] show ?thesis by auto
qed

text \<open>
  A seek does not forget a size that was read ahead: after it the reader takes the old size for
  the record at the new offset, and the size bytes of that record for the start of the envelope.
\<close>

lemma seek_keeps_stale_size:
  assumes "have_next_size s" "0 \<le> off"
  shows "\<exists>t. SetAbsoluteOffset off s = (Inr True, t) \<and> NextEnvelopeSize c t = (next_envelope_size s, t) \<and>
    rest t = drop (nat off) (file_bytes s) \<and> offset t = off"
  using assms by (simp add: SetAbsoluteOffset_def NextEnvelopeSize_def)

lemma seek_keeps_stale_size_witness:
  "\<exists>t. SetAbsoluteOffset 4 (snd (NextEnvelopeSize sample_codec (snd (ReadVersion (new_InputStream sample_stream))))) =
      (Inr True, t) \<and>
     fst (NextEnvelopeSize sample_codec t) = 2 \<and> rest t = [CHR 0x01, CHR 0x48]"
proof -
  let ?s = "snd (NextEnvelopeSize sample_codec (snd (ReadVersion (new_InputStream sample_stream))))"
  have s: "have_next_size ?s" "next_envelope_size ?s = 2" "file_bytes ?s = sample_stream"
    by (simp_all add: NextEnvelopeSize_def ReadVersion_def new_InputStream_def sample_stream_def)
  from seek_keeps_stale_size [OF s(1), of 4 sample_codec] s show ?thesis by (auto simp: sample_stream_def)
qed

end
