(* ===== verification/File_Tree.thy ===== *)
theory File_Tree
  imports Platform
begin

text \<open>
  Well-formed file trees: distinct paths whose components are ordinary names and whose parents are
  directories. The lemmas give the platform functions by what the tree holds, which is all that the
  store needs of them.
\<close>

section \<open>Paths as components\<close>

definition plain :: "string \<Rightarrow> bool" where
  "plain x \<longleftrightarrow> x \<noteq> [] \<and> x \<noteq> ''.'' \<and> CHR ''/'' \<notin> set x \<and> CHR 0x00 \<notin> set x"

lemma split_slash_append:
  "split_slash acc (a @ CHR ''/'' # b) = split_slash acc a @ split_slash [] b"
  by (induction a arbitrary: acc) auto

lemma split_slash_none: "CHR ''/'' \<notin> set a \<Longrightarrow> split_slash acc a = [rev acc @ a]"
  by (induction a arbitrary: acc) auto

lemma c_str_id: "CHR 0x00 \<notin> set a \<Longrightarrow> c_str a = a"
  unfolding c_str_def by (rule takeWhile_eq_all_conv [THEN iffD2]) metis

lemma components_slash:
  assumes "CHR 0x00 \<notin> set a"
  shows "components (a @ CHR ''/'' # b) = components a @ components b"
proof -
  have "c_str (a @ CHR ''/'' # b) = a @ CHR ''/'' # c_str b"
    using assms unfolding c_str_def by (subst takeWhile_append2) auto
  then show ?thesis
    using assms by (simp add: components_def split_slash_append c_str_id)
qed

lemma components_plain: "plain x \<Longrightarrow> components x = [x]"
  by (simp add: components_def plain_def split_slash_none c_str_id)

lemma components_Nil [simp]: "components [] = []"
  by (simp add: components_def c_str_def)

section \<open>Well-formed trees\<close>

definition wf_fs :: "filesystem \<Rightarrow> bool" where
  "wf_fs fs \<longleftrightarrow> distinct (map fst (nodes fs)) \<and>
     (\<forall>(p, n) \<in> set (nodes fs). p \<noteq> [] \<and> list_all plain p \<and> node_at fs (butlast p) = Some Dir)"

text \<open>No sockets and block devices, which \<open>stat\<close> takes for directories.\<close>

definition simple_nodes :: "filesystem \<Rightarrow> bool" where
  "simple_nodes fs \<longleftrightarrow> (\<forall>(p, n) \<in> set (nodes fs). n \<noteq> Socket \<and> n \<noteq> BlockDev)"

lemma node_at_set: "wf_fs fs \<Longrightarrow> p \<noteq> [] \<Longrightarrow> node_at fs p = Some n \<longleftrightarrow> (p, n) \<in> set (nodes fs)"
  by (simp add: wf_fs_def node_at_def)

lemma node_at_simple: "simple_nodes fs \<Longrightarrow> node_at fs p = Some n \<Longrightarrow> n \<noteq> Socket \<and> n \<noteq> BlockDev"
  by (auto simp: simple_nodes_def node_at_def dest: map_of_SomeD split: if_splits)

lemma node_parent: "wf_fs fs \<Longrightarrow> node_at fs (p @ [x]) = Some n \<Longrightarrow> node_at fs p = Some Dir"
  by (auto simp: wf_fs_def node_at_def [of fs "p @ [x]"] dest!: map_of_SomeD)

lemma node_plain: "wf_fs fs \<Longrightarrow> node_at fs (p @ [x]) = Some n \<Longrightarrow> plain x"
  by (auto simp: wf_fs_def node_at_def [of fs "p @ [x]"] dest!: map_of_SomeD)

lemma children_iff:
  assumes "wf_fs fs"
  shows "(x, n) \<in> set (children fs p) \<longleftrightarrow> node_at fs (p @ [x]) = Some n"
proof -
  have "(x, n) \<in> set (children fs p) \<longleftrightarrow> (\<exists>q. (q, n) \<in> set (nodes fs) \<and> q \<noteq> [] \<and> butlast q = p \<and> last q = x)"
    by (auto simp: children_def)
  also have "\<dots> \<longleftrightarrow> (p @ [x], n) \<in> set (nodes fs)"
    by (metis append_butlast_last_id butlast_snoc last_snoc snoc_eq_iff_butlast)
  also have "\<dots> \<longleftrightarrow> node_at fs (p @ [x]) = Some n" using node_at_set [OF assms, of "p @ [x]" n] by simp
  finally show ?thesis .
qed

lemma DirectoryNames_iff:
  assumes "wf_fs fs" "lookup_path fs dir = Some Dir" "allowed fs (components dir)"
  shows "x \<in> set (snd (DirectoryNamesInDirectory fs dir v)) \<longleftrightarrow>
    node_at fs (components dir @ [x]) = Some Dir \<and> hd (x @ ''a'') \<noteq> CHR ''.''"
proof -
  have hidden: "hidden \<lparr>entry_name = y, entry_type = k\<rparr> \<longleftrightarrow> hd (y @ ''a'') = CHR ''.''" for y k
    by (cases y) (auto simp: hidden_def)
  have dir: "d_type n = DIRECTORY \<longleftrightarrow> n = Dir" for n by (cases n) (simp_all add: d_type_def)
  have "x \<in> set (snd (DirectoryNamesInDirectory fs dir v)) \<longleftrightarrow>
      (\<exists>n. (x, n) \<in> set (children fs (components dir)) \<and> d_type n = DIRECTORY \<and> hd (x @ ''a'') \<noteq> CHR ''.'')"
    using assms(2,3) by (force simp: DirectoryNamesInDirectory_def DirectoriesInDirectory_def DirectoryEntries_def hidden)
  then show ?thesis by (auto simp: children_iff [OF assms(1)] dir)
qed

lemma FileNames_iff:
  assumes "wf_fs fs" "lookup_path fs dir = Some Dir" "allowed fs (components dir)"
  shows "x \<in> set (snd (FileNamesInDirectory fs dir)) \<longleftrightarrow>
    (\<exists>c. node_at fs (components dir @ [x]) = Some (Reg c))"
proof -
  have reg: "d_type n = REGULAR \<longleftrightarrow> (\<exists>c. n = Reg c)" for n by (cases n) (simp_all add: d_type_def)
  have "x \<in> set (snd (FileNamesInDirectory fs dir)) \<longleftrightarrow>
      (\<exists>n. (x, n) \<in> set (children fs (components dir)) \<and> d_type n = REGULAR)"
    using assms(2,3) by (force simp: FileNamesInDirectory_def FilesInDirectory_def DirectoryEntries_def)
  then show ?thesis by (auto simp: children_iff [OF assms(1)] reg)
qed

lemma listing_fails:
  assumes "lookup_path fs dir \<noteq> Some Dir"
  shows "snd (DirectoryNamesInDirectory fs dir v) = v" "snd (FileNamesInDirectory fs dir) = []"
  using assms
  by (simp_all add: DirectoryNamesInDirectory_def DirectoriesInDirectory_def FileNamesInDirectory_def
      FilesInDirectory_def DirectoryEntries_def)

lemma stat_Some:
  "stat fs path = Some st \<longleftrightarrow>
     (\<exists>n. lookup_path fs path = Some n \<and> size st = st_size fs n \<and>
       type st = (case n of Dir \<Rightarrow> DIRECTORY | Reg _ \<Rightarrow> REGULAR | Fifo \<Rightarrow> PIPE | CharDev \<Rightarrow> UNKNOWN
         | BlockDev \<Rightarrow> DIRECTORY | Socket \<Rightarrow> DIRECTORY))"
proof -
  have mode: "(if and (st_mode n) 0x4000 \<noteq> 0 then DIRECTORY else if and (st_mode n) 0x8000 \<noteq> 0 then REGULAR
       else if and (st_mode n) 0x1000 \<noteq> 0 then PIPE else UNKNOWN) =
      (case n of Dir \<Rightarrow> DIRECTORY | Reg _ \<Rightarrow> REGULAR | Fifo \<Rightarrow> PIPE | CharDev \<Rightarrow> UNKNOWN
         | BlockDev \<Rightarrow> DIRECTORY | Socket \<Rightarrow> DIRECTORY)" for n
    by (cases n) (simp_all add: st_mode_def)
  show ?thesis
    unfolding stat_def mode by (cases st) (auto split: option.split)
qed

lemma stat_None: "stat fs path = None \<longleftrightarrow> lookup_path fs path = None"
  by (simp add: stat_def split: option.split)

lemma PathIsDirectory_iff:
  assumes "simple_nodes fs" "u \<noteq> DIRECTORY"
  shows "PathIsDirectory u fs path \<longleftrightarrow> lookup_path fs path = Some Dir"
proof (cases "lookup_path fs path")
  case None
  then have "stat fs path = None" by (simp add: stat_None)
  with None assms show ?thesis by (simp add: PathIsDirectory_def)
next
  case (Some n)
  then obtain st where st: "stat fs path = Some st" using stat_None [of fs path] by auto
  moreover have "n \<noteq> Socket \<and> n \<noteq> BlockDev" using node_at_simple [OF assms(1)] Some by (simp add: lookup_path_def)
  ultimately show ?thesis
    using Some st [unfolded stat_Some] by (cases n) (auto simp: PathIsDirectory_def)
qed

lemma PathIsRegularFile_iff:
  assumes "u \<noteq> REGULAR"
  shows "PathIsRegularFile u fs path \<longleftrightarrow> (\<exists>c. lookup_path fs path = Some (Reg c))"
proof (cases "lookup_path fs path")
  case None
  then have "stat fs path = None" by (simp add: stat_None)
  with None assms show ?thesis by (simp add: PathIsRegularFile_def)
next
  case (Some n)
  then obtain st where st: "stat fs path = Some st" using stat_None [of fs path] by auto
  then show ?thesis
    using Some st [unfolded stat_Some] by (cases n) (auto simp: PathIsRegularFile_def)
qed

section \<open>Well-formedness under the operations\<close>

lemma wf_fs_add:
  assumes "wf_fs fs" "sys_creatable fs p" "list_all plain p"
  shows "wf_fs (add_node p n fs)"
proof -
  have p: "p \<noteq> []" "node_at fs p = None" "node_at fs (butlast p) = Some Dir"
    using assms(2) by (simp_all add: sys_creatable_def)
  have "p \<notin> fst ` set (nodes fs)" using p by (simp add: node_at_def map_of_eq_None_iff)
  moreover have "node_at (add_node p n fs) q = Some Dir" if "node_at fs q = Some Dir" for q
    using that by (simp add: node_at_add)
  ultimately show ?thesis
    using assms(1,3) p by (auto simp: wf_fs_def add_node_def)
qed

lemma wf_fs_append: "wf_fs fs \<Longrightarrow> wf_fs (sys_append p b fs)"
proof -
  assume wf: "wf_fs fs"
  have keys: "map fst (nodes (sys_append p b fs)) = map fst (nodes fs)"
    by (auto simp: sys_append_map comp_def case_prod_beta)
  have dir: "node_at (sys_append p b fs) q = Some Dir" if "node_at fs q = Some Dir" for q
    using that by (auto simp: node_at_append)
  show "wf_fs (sys_append p b fs)"
    unfolding wf_fs_def keys using wf dir
    by (auto simp: wf_fs_def sys_append_map split: if_splits)
qed

lemma simple_nodes_add: "simple_nodes fs \<Longrightarrow> n \<noteq> Socket \<Longrightarrow> n \<noteq> BlockDev \<Longrightarrow> simple_nodes (add_node p n fs)"
  by (auto simp: simple_nodes_def add_node_def)

lemma simple_nodes_append: "simple_nodes fs \<Longrightarrow> simple_nodes (sys_append p b fs)"
  by (auto simp: simple_nodes_def sys_append_map split: fnode.splits if_splits)

lemma MakeDirectory_cases:
  "MakeDirectory fs path =
     (if sys_creatable fs (components path) then (True, add_node (components path) Dir fs) else (False, fs))"
  by (simp add: MakeDirectory_def Let_def)

section \<open>Properties\<close>

text \<open>
  What \<open>PathIsDirectory\<close> and \<open>PathIsRegularFile\<close> really test. For a path that exists, a socket
  or a block device counts as a directory, since the mode is tested bit by bit; for a path that does
  not exist the answer is decided by what the uninitialised \<open>FileStat\<close> happens to hold.
\<close>

lemma path_tests:
  "(PathIsDirectory u fs path \<longleftrightarrow>
      (case lookup_path fs path of
         None \<Rightarrow> u = DIRECTORY
       | Some n \<Rightarrow> n = Dir \<or> n = Socket \<or> n = BlockDev)) \<and>
   (PathIsRegularFile u fs path \<longleftrightarrow>
      (case lookup_path fs path of
         None \<Rightarrow> u = REGULAR
       | Some n \<Rightarrow> (case n of Reg _ \<Rightarrow> True | _ \<Rightarrow> False)))"
proof (cases "lookup_path fs path")
  case None
  then have "stat fs path = None" by (simp add: stat_None)
  with None show ?thesis by (simp add: PathIsDirectory_def PathIsRegularFile_def)
next
  case (Some n)
  then obtain st where st: "stat fs path = Some st" using stat_None [of fs path] by auto
  then show ?thesis
    using Some st [unfolded stat_Some]
    by (cases n) (auto simp: PathIsDirectory_def PathIsRegularFile_def)
qed

end
