(* ===== verification/Store.thy ===== *)
theory Store
  imports Stream File_Tree Sorted_Map
begin

text \<open>
  The store (src/zippylog/store.cpp): the algorithms of the class \<open>Store\<close> over its virtual functions,
  and the one implementation of these, \<open>SimpleDirectoryStore\<close>, on the file tree. The virtual functions
  are the record \<open>store_ops\<close>, an argument of the base class algorithms; the locale \<open>store_contract\<close>
  states what they promise, and is interpreted on \<open>SimpleDirectoryStore\<close>.
\<close>

section \<open>State and virtual functions\<close>

record OpenOutputStream =
  os_stream :: OutputStream
  last_write_time :: int

text \<open>
  \<open>out_streams\<close> is the map of open streams by store path, in the order of its keys. \<open>input_streams\<close> holds
  the file paths of the readers the store has handed out and still owns. \<open>files\<close> is the file tree
  the store shares with the system, and \<open>uninit\<close> what an uninitialised \<open>FileStat\<close> holds.
\<close>

record Store =
  root_path :: string
  out_streams :: "(string \<times> OpenOutputStream) list"
  input_streams :: "string list"
  files :: filesystem
  uninit :: FileType

record store_ops =
  BucketNames :: "Store \<Rightarrow> bool \<times> string list"
  StreamSetNames :: "Store \<Rightarrow> string \<Rightarrow> bool \<times> string list"
  StreamNames :: "Store \<Rightarrow> string \<Rightarrow> string \<Rightarrow> bool \<times> string list"
  StreamLength :: "Store \<Rightarrow> string \<Rightarrow> int option"
  BucketExists :: "Store \<Rightarrow> string \<Rightarrow> bool"
  StreamSetExists :: "Store \<Rightarrow> string \<Rightarrow> string \<Rightarrow> bool"
  StreamExists :: "Store \<Rightarrow> string \<Rightarrow> string \<Rightarrow> string \<Rightarrow> bool"
  CreateBucket :: "string \<Rightarrow> (Store, bool) action"
  CreateStreamset :: "string \<Rightarrow> string \<Rightarrow> (Store, bool) action"
  OpenInputStream :: "string \<Rightarrow> string \<Rightarrow> string \<Rightarrow> (Store, InputStream) action"
  CreateOutputStream :: "string \<Rightarrow> string \<Rightarrow> string \<Rightarrow> (Store, OutputStream option) action"

section \<open>The base class\<close>

definition BucketPaths :: "store_ops \<Rightarrow> Store \<Rightarrow> string list \<Rightarrow> bool \<times> string list" where
  "BucketPaths V s paths = (True, paths @ map BucketPath (snd (BucketNames V s)))"

definition StreamsetPaths :: "store_ops \<Rightarrow> Store \<Rightarrow> bool \<times> string list" where
  "StreamsetPaths V s =
     (True, concat (map (\<lambda>b. map (StreamsetPath b) (snd (StreamSetNames V s b))) (snd (BucketNames V s))))"

definition StreamPaths :: "store_ops \<Rightarrow> Store \<Rightarrow> bool \<times> string list" where
  "StreamPaths V s =
     (True, concat (map (\<lambda>b. concat (map (\<lambda>t. map (StreamPath b t) (snd (StreamNames V s b t)))
                                        (snd (StreamSetNames V s b))))
                        (snd (BucketNames V s))))"

definition PathExists :: "store_ops \<Rightarrow> Store \<Rightarrow> string \<Rightarrow> bool" where
  "PathExists V s path =
     (case parse_path path of
        None \<Rightarrow> False
      | Some (bucket, sset, stream) \<Rightarrow>
          if stream \<noteq> [] then StreamExists V s bucket sset stream
          else if sset \<noteq> [] then StreamSetExists V s bucket sset
          else if bucket \<noteq> [] then BucketExists V s bucket
          else False)"

text \<open>The information messages: the message before the call is an argument, as fields are appended to it.\<close>

definition StreamInfo :: "store_ops \<Rightarrow> Store \<Rightarrow> string \<Rightarrow> string \<Rightarrow> string \<Rightarrow> StreamInfoV1 \<Rightarrow> bool \<times> StreamInfoV1" where
  "StreamInfo V s bucket stream_set stream info =
     (let info = info\<lparr>si_path := stream\<rparr> in
      case StreamLength V s (StreamPath bucket stream_set stream) of
        Some len \<Rightarrow> (True, info\<lparr>si_length := Some len\<rparr>)
      | None \<Rightarrow> (False, info))"

definition StreamInfo_path :: "store_ops \<Rightarrow> Store \<Rightarrow> string \<Rightarrow> StreamInfoV1 \<Rightarrow> bool \<times> StreamInfoV1" where
  "StreamInfo_path V s path info =
     (if \<not> ValidatePath path then (False, info)
      else case parse_path path of
        None \<Rightarrow> (False, info)
      | Some (bucket, sset, stream) \<Rightarrow> StreamInfo V s bucket sset stream info)"

definition new_StreamInfo :: StreamInfoV1 where
  "new_StreamInfo = \<lparr>si_path = [], si_length = None\<rparr>"

definition StreamsetInfo :: "store_ops \<Rightarrow> Store \<Rightarrow> string \<Rightarrow> string \<Rightarrow> StreamSetInfoV1 \<Rightarrow> bool \<times> StreamSetInfoV1" where
  "StreamsetInfo V s bucket stream_set info =
     (True, info\<lparr>ss_path := stream_set,
       ss_stream := ss_stream info @
         map (\<lambda>n. snd (StreamInfo V s bucket stream_set n new_StreamInfo)) (snd (StreamNames V s bucket stream_set))\<rparr>)"

definition StreamsetInfo_path :: "store_ops \<Rightarrow> Store \<Rightarrow> string \<Rightarrow> StreamSetInfoV1 \<Rightarrow> bool \<times> StreamSetInfoV1" where
  "StreamsetInfo_path V s path info =
     (if \<not> ValidatePath path then (False, info)
      else case parse_path path of
        None \<Rightarrow> (False, info)
      | Some (bucket, sset, _) \<Rightarrow> StreamsetInfo V s bucket sset info)"

definition new_StreamSetInfo :: StreamSetInfoV1 where
  "new_StreamSetInfo = \<lparr>ss_path = [], ss_stream = []\<rparr>"

definition BucketInfo :: "store_ops \<Rightarrow> Store \<Rightarrow> string \<Rightarrow> BucketInfoV1 \<Rightarrow> bool \<times> BucketInfoV1" where
  "BucketInfo V s bucket info =
     (True, info\<lparr>bi_path := bucket,
       bi_stream_set := bi_stream_set info @
         map (\<lambda>t. snd (StreamsetInfo V s bucket t new_StreamSetInfo)) (snd (StreamSetNames V s bucket))\<rparr>)"

definition new_BucketInfo :: BucketInfoV1 where
  "new_BucketInfo = \<lparr>bi_path = [], bi_stream_set = []\<rparr>"

definition StoreInfo :: "store_ops \<Rightarrow> Store \<Rightarrow> BucketInfoV1 list \<Rightarrow> bool \<times> BucketInfoV1 list" where
  "StoreInfo V s info =
     (True, info @ map (\<lambda>b. snd (BucketInfo V s b new_BucketInfo)) (snd (BucketNames V s)))"

definition GetInputStream :: "store_ops \<Rightarrow> string \<Rightarrow> (Store, InputStream option) action" where
  "GetInputStream V path =
     (case parse_path path of
        None \<Rightarrow> ret None
      | Some (bucket, sset, stream) \<Rightarrow>
          andThen (OpenInputStream V bucket sset stream) (\<lambda>i. ret (Some i)))"

text \<open>
  \<open>tv\<close> is what \<open>gettimeofday\<close> returns. The result is the key of the stream in the map, through which the
  callers write; \<open>None\<close> is the return value \<open>false\<close>.
\<close>

definition ObtainOutputStream ::
  "store_ops \<Rightarrow> int \<times> int \<Rightarrow> string \<Rightarrow> string \<Rightarrow> int \<Rightarrow> int \<Rightarrow> (Store, string option) action" where
  "ObtainOutputStream V tv bucket sset seconds_per_file time =
     (let t = (if time < 0 then TimeNow tv else UnixMicroTimeToZippyTime time) in
      andThen (lift_res (StreamNameForTime t seconds_per_file)) (\<lambda>stream.
        let store_path = StreamPath bucket sset stream in
        andThen (gets (\<lambda>s. map_of (out_streams s) store_path)) (\<lambda>found.
          case found of
            Some _ \<Rightarrow> ret (Some store_path)
          | None \<Rightarrow>
              andThen (CreateOutputStream V bucket sset stream) (\<lambda>created.
                case created of
                  None \<Rightarrow> ret None
                | Some os \<Rightarrow>
                    andThen (modify (\<lambda>s. s\<lparr>out_streams :=
                        map_put store_path \<lparr>os_stream = os, last_write_time = - 1\<rparr> (out_streams s)\<rparr>))
                      (\<lambda>_. ret (Some store_path))))))"

text \<open>A write through the pointer to the open stream under a key.\<close>

definition on_stream :: "string \<Rightarrow> (OutputStream \<Rightarrow> filesystem \<Rightarrow> bool \<times> OutputStream \<times> filesystem) \<Rightarrow> (Store, bool) action" where
  "on_stream k f s =
     (case map_of (out_streams s) k of
        None \<Rightarrow> (Inl (Undefined ''no such stream''), s)
      | Some os \<Rightarrow>
          let (ok, o', fs') = f (os_stream os) (files s) in
          (Inr ok, s\<lparr>out_streams := map (\<lambda>(q, x). if q = k then (q, x\<lparr>os_stream := o'\<rparr>) else (q, x)) (out_streams s),
                     files := fs'\<rparr>))"

definition Store_WriteEnvelope ::
  "store_ops \<Rightarrow> codec \<Rightarrow> int \<times> int \<Rightarrow> string \<Rightarrow> string \<Rightarrow> Envelope \<Rightarrow> int \<Rightarrow> (Store, bool) action" where
  "Store_WriteEnvelope V c tv bucket sset e time =
     andThen (ObtainOutputStream V tv bucket sset 3600 time) (\<lambda>r.
       case r of None \<Rightarrow> ret False | Some k \<Rightarrow> on_stream k (WriteEnvelope c e))"

definition Store_WriteEnvelope_data ::
  "store_ops \<Rightarrow> codec \<Rightarrow> int \<times> int \<Rightarrow> string \<Rightarrow> string \<Rightarrow> string \<Rightarrow> int \<Rightarrow> (Store, bool) action" where
  "Store_WriteEnvelope_data V c tv bucket sset data time =
     andThen (ObtainOutputStream V tv bucket sset 3600 time) (\<lambda>r.
       case r of None \<Rightarrow> ret False | Some k \<Rightarrow> on_stream k (WriteEnvelope_data c data))"

definition flush_key :: "string \<Rightarrow> (Store, unit) action" where
  "flush_key k = andThen (on_stream k OutputStream_Flush) (\<lambda>_. ret ())"

definition FlushOutputStreams :: "(Store, bool) action" where
  "FlushOutputStreams =
     andThen (\<lambda>s. for_each flush_key (map fst (out_streams s)) s) (\<lambda>_. ret True)"

text \<open>The destructor deletes the output streams, which writes what they have buffered.\<close>

definition delete_Store :: "Store \<Rightarrow> filesystem" where
  "delete_Store s = fold (\<lambda>(_, os). delete_FileOutputStream (os_stream os)) (out_streams s) (files s)"

section \<open>\<open>SimpleDirectoryStore\<close>\<close>

definition new_SimpleDirectoryStore :: "FileType \<Rightarrow> filesystem \<Rightarrow> string \<Rightarrow> Store res" where
  "new_SimpleDirectoryStore garbage fs path =
     (if \<not> PathIsDirectory garbage fs path then
        Inl (StorePathNotDirectoryException
              (''store path does not exist, could not be read, or is not a directory: '' @ path))
      else Inr \<lparr>root_path = path, out_streams = [], input_streams = [], files = fs, uninit = garbage\<rparr>)"

definition CreateStore :: "FileType \<Rightarrow> filesystem \<Rightarrow> string \<Rightarrow> Store res" where
  "CreateStore garbage fs s =
     (case find_first_of s ''://'' 0 of
        None \<Rightarrow> Inl (InvalidStoreUriException (''store path not in expected URI format: '' @ s))
      | Some i \<Rightarrow>
          rbind (substr s 0 i) (\<lambda>proto.
            if proto \<noteq> ''simpledirectory''
            then Inl (UnsupportedStoreUriException (''store protocol not understood: '' @ proto))
            else rbind (substr s (i + 3) (length s)) (new_SimpleDirectoryStore garbage fs)))"

definition PathToFilesystemPath :: "Store \<Rightarrow> string \<Rightarrow> string" where
  "PathToFilesystemPath s path = root_path s @ ''/'' @ path"

definition StreamFilesystemPath :: "Store \<Rightarrow> string \<Rightarrow> string" where
  "StreamFilesystemPath s path = PathToFilesystemPath s path @ extension"

definition sds_BucketNames :: "Store \<Rightarrow> bool \<times> string list" where
  "sds_BucketNames s = DirectoryNamesInDirectory (files s) (root_path s) []"

definition sds_StreamSetNames :: "Store \<Rightarrow> string \<Rightarrow> bool \<times> string list" where
  "sds_StreamSetNames s bucket =
     DirectoryNamesInDirectory (files s) (PathToFilesystemPath s (BucketPath bucket)) []"

text \<open>The loop that drops the files of other extensions and strips the extension of the rest.\<close>

fun strip_extensions :: "string list \<Rightarrow> string list" where
  "strip_extensions [] = []"
| "strip_extensions (i # is) =
     (if length i < 10 \<or> drop (length i - 9) i \<noteq> extension then strip_extensions is
      else take (length i - 9) i # strip_extensions is)"

definition sds_StreamNames :: "Store \<Rightarrow> string \<Rightarrow> string \<Rightarrow> bool \<times> string list" where
  "sds_StreamNames s bucket sset =
     (True, strip_extensions (snd (FileNamesInDirectory (files s) (PathToFilesystemPath s (StreamsetPath bucket sset)))))"

definition sds_StreamLength :: "Store \<Rightarrow> string \<Rightarrow> int option" where
  "sds_StreamLength s path =
     (if \<not> ValidatePath path then None
      else map_option size (stat (files s) (StreamFilesystemPath s path)))"

definition make_directory :: "(Store \<Rightarrow> string) \<Rightarrow> (Store, bool) action" where
  "make_directory f s =
     (let (ok, fs) = MakeDirectory (files s) (f s) in (Inr ok, s\<lparr>files := fs\<rparr>))"

definition sds_CreateBucket :: "string \<Rightarrow> (Store, bool) action" where
  "sds_CreateBucket bucket = make_directory (\<lambda>s. PathToFilesystemPath s (BucketPath bucket))"

definition sds_CreateStreamset :: "string \<Rightarrow> string \<Rightarrow> (Store, bool) action" where
  "sds_CreateStreamset bucket sset = make_directory (\<lambda>s. PathToFilesystemPath s (StreamsetPath bucket sset))"

definition sds_BucketExists :: "Store \<Rightarrow> string \<Rightarrow> bool" where
  "sds_BucketExists s bucket = PathIsDirectory (uninit s) (files s) (PathToFilesystemPath s (BucketPath bucket))"

definition sds_StreamSetExists :: "Store \<Rightarrow> string \<Rightarrow> string \<Rightarrow> bool" where
  "sds_StreamSetExists s bucket sset =
     PathIsDirectory (uninit s) (files s) (PathToFilesystemPath s (StreamsetPath bucket sset))"

definition sds_StreamExists :: "Store \<Rightarrow> string \<Rightarrow> string \<Rightarrow> string \<Rightarrow> bool" where
  "sds_StreamExists s bucket sset stream =
     PathIsRegularFile (uninit s) (files s) (StreamFilesystemPath s (StreamPath bucket sset stream))"

definition sds_OpenInputStream :: "string \<Rightarrow> string \<Rightarrow> string \<Rightarrow> (Store, InputStream) action" where
  "sds_OpenInputStream bucket sset stream s =
     (let path = StreamFilesystemPath s (StreamPath bucket sset stream) in
      case new_FileInputStream (files s) path 0 of
        Inl e \<Rightarrow> (Inl e, s)
      | Inr i \<Rightarrow> (Inr i, s\<lparr>input_streams := input_streams s @ [path]\<rparr>))"

definition open_output :: "codec \<Rightarrow> string \<Rightarrow> (Store, OutputStream option) action" where
  "open_output c path s =
     (case new_FileOutputStream c (files s) path True of
        Inl e \<Rightarrow> (Inl e, s)
      | Inr (os, fs) \<Rightarrow> (Inr (Some os), s\<lparr>files := fs\<rparr>))"

definition sds_CreateOutputStream :: "codec \<Rightarrow> string \<Rightarrow> string \<Rightarrow> string \<Rightarrow> (Store, OutputStream option) action" where
  "sds_CreateOutputStream c bucket sset stream =
     andThen (gets (\<lambda>s. sds_BucketExists s bucket)) (\<lambda>b.
     andThen (if b then ret True else sds_CreateBucket bucket) (\<lambda>ok.
     if \<not> ok then ret None else
     andThen (gets (\<lambda>s. sds_StreamSetExists s bucket sset)) (\<lambda>b.
     andThen (if b then ret True else sds_CreateStreamset bucket sset) (\<lambda>ok.
     if \<not> ok then ret None else
     andThen (gets (\<lambda>s. PathToFilesystemPath s (StreamPath bucket sset stream @ extension))) (open_output c)))))"

definition sds_ops :: "codec \<Rightarrow> store_ops" where
  "sds_ops c = \<lparr>BucketNames = sds_BucketNames, StreamSetNames = sds_StreamSetNames,
     StreamNames = sds_StreamNames, StreamLength = sds_StreamLength, BucketExists = sds_BucketExists,
     StreamSetExists = sds_StreamSetExists, StreamExists = sds_StreamExists,
     CreateBucket = sds_CreateBucket, CreateStreamset = sds_CreateStreamset,
     OpenInputStream = sds_OpenInputStream, CreateOutputStream = sds_CreateOutputStream c\<rparr>"

section \<open>The contract of the virtual functions\<close>

text \<open>
  What a store implementation promises of its virtual functions, on the states of an invariant: the
  listings and the existence tests agree on legal names, a stream exists only in an existing stream
  set and bucket, an existing stream has a length, and a listed name has no slash.
\<close>

locale store_contract =
  fixes V :: store_ops and inv :: "Store \<Rightarrow> bool"
  assumes bucket_listed: "\<lbrakk>inv s; is_name b\<rbrakk> \<Longrightarrow> b \<in> set (snd (BucketNames V s)) \<longleftrightarrow> BucketExists V s b"
    and set_listed: "\<lbrakk>inv s; is_name b; is_name t\<rbrakk> \<Longrightarrow>
      t \<in> set (snd (StreamSetNames V s b)) \<longleftrightarrow> StreamSetExists V s b t"
    and stream_listed: "\<lbrakk>inv s; is_name b; is_name t; is_name n\<rbrakk> \<Longrightarrow>
      n \<in> set (snd (StreamNames V s b t)) \<longleftrightarrow> StreamExists V s b t n"
    and set_in_bucket: "\<lbrakk>inv s; is_name b; is_name t; StreamSetExists V s b t\<rbrakk> \<Longrightarrow> BucketExists V s b"
    and stream_in_set: "\<lbrakk>inv s; is_name b; is_name t; is_name n; StreamExists V s b t n\<rbrakk> \<Longrightarrow>
      StreamSetExists V s b t"
    and length_exists: "\<lbrakk>inv s; is_name b; is_name t; is_name n; StreamExists V s b t n\<rbrakk> \<Longrightarrow>
      StreamLength V s (StreamPath b t n) \<noteq> None"
    and no_slash: "inv s \<Longrightarrow> b \<in> set (snd (BucketNames V s)) \<Longrightarrow> CHR ''/'' \<notin> set b"
      "inv s \<Longrightarrow> t \<in> set (snd (StreamSetNames V s b)) \<Longrightarrow> CHR ''/'' \<notin> set t"
begin

lemma listed_path_inject:
  assumes "StreamPath b t n = StreamPath b' t' n'" "CHR ''/'' \<notin> set b" "CHR ''/'' \<notin> set b'"
    "CHR ''/'' \<notin> set t" "CHR ''/'' \<notin> set t'"
  shows "b = b' \<and> t = t' \<and> n = n'"
proof -
  have cut: "x = y \<and> u = v" if "x @ CHR ''/'' # u = y @ CHR ''/'' # v" "CHR ''/'' \<notin> set x" "CHR ''/'' \<notin> set y"
    for x y u v :: string
    using that
  proof (induction x arbitrary: y)
    case Nil
    then show ?case by (cases y) auto
  next
    case (Cons c x)
    then show ?case by (cases y) auto
  qed
  from assms(1) have "b @ CHR ''/'' # (t @ CHR ''/'' # n) = b' @ CHR ''/'' # (t' @ CHR ''/'' # n')"
    by (simp add: path_defs)
  with cut assms(2-5) show ?thesis by blast
qed

lemma stream_paths_exist:
  assumes "inv s" "is_name b" "is_name t" "is_name n"
  shows "StreamPath b t n \<in> set (snd (StreamPaths V s)) \<longleftrightarrow> PathExists V s (StreamPath b t n)"
proof
  assume "StreamPath b t n \<in> set (snd (StreamPaths V s))"
  then obtain b' t' n' where l: "b' \<in> set (snd (BucketNames V s))" "t' \<in> set (snd (StreamSetNames V s b'))"
    "n' \<in> set (snd (StreamNames V s b' t'))" "StreamPath b t n = StreamPath b' t' n'"
    by (auto simp: StreamPaths_def)
  with listed_path_inject [OF l(4)] no_slash [OF assms(1)] is_name_noslash assms(2,3)
  have "n \<in> set (snd (StreamNames V s b t))" by blast
  with stream_listed assms path_denotes.stream [OF assms(2-4), folded parse_path_iff] is_name_nonempty [OF assms(4)]
  show "PathExists V s (StreamPath b t n)" by (simp add: PathExists_def)
next
  assume "PathExists V s (StreamPath b t n)"
  with path_denotes.stream [OF assms(2-4), folded parse_path_iff] is_name_nonempty [OF assms(4)]
  have e: "StreamExists V s b t n" by (simp add: PathExists_def)
  then have "StreamSetExists V s b t" "BucketExists V s b"
    using stream_in_set set_in_bucket assms by blast+
  with e assms bucket_listed set_listed stream_listed
  have "b \<in> set (snd (BucketNames V s))" "t \<in> set (snd (StreamSetNames V s b))" "n \<in> set (snd (StreamNames V s b t))"
    by blast+
  then show "StreamPath b t n \<in> set (snd (StreamPaths V s))" by (auto simp: StreamPaths_def)
qed

lemma store_info_stream:
  assumes "inv s" "is_name b" "is_name t" "is_name n" "StreamExists V s b t n"
  shows "\<exists>bi \<in> set (snd (StoreInfo V s [])). bi_path bi = b \<and> (\<exists>si \<in> set (bi_stream_set bi). ss_path si = t \<and>
    (\<exists>i \<in> set (ss_stream si). i = \<lparr>si_path = n, si_length = StreamLength V s (StreamPath b t n)\<rparr> \<and> si_length i \<noteq> None))"
proof -
  have ex: "StreamSetExists V s b t" "BucketExists V s b"
    using stream_in_set set_in_bucket assms by blast+
  have l: "b \<in> set (snd (BucketNames V s))" "t \<in> set (snd (StreamSetNames V s b))" "n \<in> set (snd (StreamNames V s b t))"
    using ex assms bucket_listed set_listed stream_listed by blast+
  obtain len where len: "StreamLength V s (StreamPath b t n) = Some len"
    using length_exists [OF assms] by blast
  have i: "snd (StreamInfo V s b t n new_StreamInfo) = \<lparr>si_path = n, si_length = Some len\<rparr>"
    using len by (simp add: StreamInfo_def new_StreamInfo_def)
  show ?thesis
    using l len imageI [OF l(3), of "\<lambda>n. snd (StreamInfo V s b t n new_StreamInfo)"]
    by (intro bexI [of _ "snd (BucketInfo V s b new_BucketInfo)"] conjI
          bexI [of _ "snd (StreamsetInfo V s b t new_StreamSetInfo)"]
          bexI [of _ "snd (StreamInfo V s b t n new_StreamInfo)"])
       (simp_all add: StoreInfo_def BucketInfo_def StreamsetInfo_def new_BucketInfo_def new_StreamSetInfo_def i)
qed

end

section \<open>\<open>SimpleDirectoryStore\<close> keeps the contract\<close>

definition sds_inv :: "Store \<Rightarrow> bool" where
  "sds_inv s \<longleftrightarrow> wf_fs (files s) \<and> simple_nodes (files s) \<and> denied (files s) = [] \<and>
     uninit s \<noteq> DIRECTORY \<and> uninit s \<noteq> REGULAR \<and> CHR 0x00 \<notin> set (root_path s)"

definition root_components :: "Store \<Rightarrow> string list" where
  "root_components s = components (root_path s)"

lemma name_char_not_null [simp]: "\<not> name_char CHR 0x00"
  by (simp add: name_char_def char_value_def)

lemma is_name_plain: "is_name b \<Longrightarrow> plain b"
  using is_name_noslash [of b] is_name_nodot [of b] is_name_nonempty [of b]
  by (auto simp: plain_def is_name_def list_all_iff)

lemma stream_file_plain: "is_name n \<Longrightarrow> plain (n @ extension)"
  using is_name_plain [of n] by (auto simp: plain_def extension_def append_eq_Cons_conv)

lemma no_null [simp]: "is_name b \<Longrightarrow> CHR 0x00 \<notin> set b"
  using is_name_plain by (simp add: plain_def)

lemma store_components:
  assumes "CHR 0x00 \<notin> set (root_path s)" "is_name b"
  shows "components (PathToFilesystemPath s (BucketPath b)) = root_components s @ [b]"
    "plain t \<Longrightarrow> components (PathToFilesystemPath s (StreamsetPath b t)) = root_components s @ [b, t]"
    "is_name t \<Longrightarrow> plain n \<Longrightarrow> components (PathToFilesystemPath s (StreamPath b t n)) = root_components s @ [b, t, n]"
proof -
  have r: "components (root_path s @ ''/'' @ ''/'' @ x) = root_components s @ components x" for x
    using components_slash [OF assms(1), of "CHR ''/'' # x"] components_slash [of "[]" x]
    by (simp add: root_components_def)
  show "components (PathToFilesystemPath s (BucketPath b)) = root_components s @ [b]"
    using r [of b] assms(2) by (simp add: PathToFilesystemPath_def path_defs components_plain is_name_plain)
  show "plain t \<Longrightarrow> components (PathToFilesystemPath s (StreamsetPath b t)) = root_components s @ [b, t]"
    using r [of "b @ CHR ''/'' # t"] assms(2) components_slash [of b t]
    by (simp add: PathToFilesystemPath_def path_defs components_plain is_name_plain)
  show "is_name t \<Longrightarrow> plain n \<Longrightarrow> components (PathToFilesystemPath s (StreamPath b t n)) = root_components s @ [b, t, n]"
    using r [of "b @ CHR ''/'' # t @ CHR ''/'' # n"] assms(2) components_slash [of b "t @ CHR ''/'' # n"] components_slash [of t n]
    by (simp add: PathToFilesystemPath_def path_defs components_plain is_name_plain)
qed

lemma StreamFilesystemPath_eq:
  "StreamFilesystemPath s (StreamPath b t n) = PathToFilesystemPath s (StreamPath b t (n @ extension))"
  by (simp add: StreamFilesystemPath_def PathToFilesystemPath_def path_defs)

lemma sds_exists:
  assumes "sds_inv s" "is_name b"
  shows "sds_BucketExists s b \<longleftrightarrow> node_at (files s) (root_components s @ [b]) = Some Dir"
    "is_name t \<Longrightarrow> sds_StreamSetExists s b t \<longleftrightarrow> node_at (files s) (root_components s @ [b, t]) = Some Dir"
    "is_name t \<Longrightarrow> is_name n \<Longrightarrow>
      sds_StreamExists s b t n \<longleftrightarrow> (\<exists>c. node_at (files s) (root_components s @ [b, t, n @ extension]) = Some (Reg c))"
  using assms store_components [of s b] is_name_plain stream_file_plain
  by (simp_all add: sds_inv_def sds_BucketExists_def sds_StreamSetExists_def sds_StreamExists_def
      PathIsDirectory_iff PathIsRegularFile_iff lookup_path_def StreamFilesystemPath_eq)

lemma strip_extensions_iff: "n \<in> set (strip_extensions xs) \<longleftrightarrow> n \<noteq> [] \<and> n @ extension \<in> set xs"
proof (induction xs)
  case (Cons x xs)
  have "\<not> (length x < 10 \<or> drop (length x - 9) x \<noteq> extension) \<longleftrightarrow> (\<exists>m. m \<noteq> [] \<and> x = m @ extension)"
  proof
    assume a: "\<not> (length x < 10 \<or> drop (length x - 9) x \<noteq> extension)"
    then have "x = take (length x - 9) x @ extension" by (metis append_take_drop_id)
    moreover have "take (length x - 9) x \<noteq> []" using a by auto
    ultimately show "\<exists>m. m \<noteq> [] \<and> x = m @ extension" by blast
  qed (auto simp: Suc_le_eq)
  with Cons.IH show ?case by (auto simp: Suc_le_eq)
qed simp

lemma name_not_hidden: "is_name b \<Longrightarrow> hd (b @ ''a'') \<noteq> CHR ''.''"
  using is_name_nodot [of b] is_name_nonempty [of b] by (cases b) auto

lemma dir_prefix:
  "wf_fs fs \<Longrightarrow> node_at fs (p @ [x, y]) = Some n \<Longrightarrow> node_at fs (p @ [x]) = Some Dir"
  using node_parent [of fs "p @ [x]" y n] by simp

lemma sds_listed:
  assumes "sds_inv s" "is_name b"
  shows "b \<in> set (snd (sds_BucketNames s)) \<longleftrightarrow> sds_BucketExists s b"
    "is_name t \<Longrightarrow> t \<in> set (snd (sds_StreamSetNames s b)) \<longleftrightarrow> sds_StreamSetExists s b t"
    "is_name t \<Longrightarrow> is_name n \<Longrightarrow> n \<in> set (snd (sds_StreamNames s b t)) \<longleftrightarrow> sds_StreamExists s b t n"
proof -
  have wf: "wf_fs (files s)" and all: "allowed (files s) p" and z: "CHR 0x00 \<notin> set (root_path s)" for p
    using assms(1) by (simp_all add: sds_inv_def allowed_def)
  note c = store_components [OF z assms(2)] and e = sds_exists [OF assms]
  show "b \<in> set (snd (sds_BucketNames s)) \<longleftrightarrow> sds_BucketExists s b"
  proof (cases "lookup_path (files s) (root_path s) = Some Dir")
    case True
    then show ?thesis
      using DirectoryNames_iff [OF wf True all] name_not_hidden [OF assms(2)] e(1)
      by (simp add: sds_BucketNames_def root_components_def)
  next
    case False
    then show ?thesis
      using listing_fails [OF False] e(1) node_parent [OF wf, of "root_components s" b]
      by (auto simp: sds_BucketNames_def lookup_path_def root_components_def)
  qed
  show "t \<in> set (snd (sds_StreamSetNames s b)) \<longleftrightarrow> sds_StreamSetExists s b t" if t: "is_name t"
  proof (cases "lookup_path (files s) (PathToFilesystemPath s (BucketPath b)) = Some Dir")
    case True
    then show ?thesis
      using DirectoryNames_iff [OF wf True all] name_not_hidden [OF t] e(2) [OF t] c(1)
      by (simp add: sds_StreamSetNames_def)
  next
    case False
    then show ?thesis
      using listing_fails [OF False] e(2) [OF t] c(1) dir_prefix [OF wf, of "root_components s" b t]
      by (auto simp: sds_StreamSetNames_def lookup_path_def)
  qed
  show "n \<in> set (snd (sds_StreamNames s b t)) \<longleftrightarrow> sds_StreamExists s b t n" if t: "is_name t" and n: "is_name n"
  proof (cases "lookup_path (files s) (PathToFilesystemPath s (StreamsetPath b t)) = Some Dir")
    case True
    then show ?thesis
      using FileNames_iff [OF wf True all, of "n @ extension"] e(3) [OF t n] c(2) [OF is_name_plain [OF t]] is_name_nonempty [OF n]
      by (simp add: sds_StreamNames_def strip_extensions_iff)
  next
    case False
    then show ?thesis
      using listing_fails [OF False] e(3) [OF t n] c(2) [OF is_name_plain [OF t]]
        dir_prefix [OF wf, of "root_components s @ [b]" t "n @ extension"]
      by (auto simp: sds_StreamNames_def lookup_path_def)
  qed
qed

lemma listed_plain:
  assumes "sds_inv s" "x \<in> set (snd (DirectoryNamesInDirectory (files s) dir []))"
  shows "CHR ''/'' \<notin> set x"
proof (cases "lookup_path (files s) dir = Some Dir")
  case True
  have wf: "wf_fs (files s)" and all: "allowed (files s) p" for p using assms(1) by (simp_all add: sds_inv_def allowed_def)
  have "node_at (files s) (components dir @ [x]) = Some Dir"
    using DirectoryNames_iff [OF wf True all] assms(2) by blast
  then show ?thesis using node_plain [OF wf] by (simp add: plain_def)
next
  case False
  then show ?thesis using listing_fails [OF False] assms(2) by simp
qed

lemma sds_length:
  assumes "sds_inv s" "is_name b" "is_name t" "is_name n" "node_at (files s) (root_components s @ [b, t, n @ extension]) = Some (Reg c)"
  shows "sds_StreamLength s (StreamPath b t n) = Some (int (length c))"
proof -
  have "lookup_path (files s) (StreamFilesystemPath s (StreamPath b t n)) = Some (Reg c)"
    using assms store_components(3) [of s b t "n @ extension"] stream_file_plain [OF assms(4)]
    by (simp add: lookup_path_def StreamFilesystemPath_eq sds_inv_def)
  then show ?thesis
    using denotes_valid [OF path_denotes.stream [OF assms(2-4)]]
    by (simp add: sds_StreamLength_def stat_def st_size_def)
qed

interpretation sds: store_contract "sds_ops c" sds_inv for c
proof unfold_locales
  fix s b t n
  assume i: "sds_inv s"
  note wf = i [unfolded sds_inv_def, THEN conjunct1]
  show "is_name b \<Longrightarrow> b \<in> set (snd (BucketNames (sds_ops c) s)) \<longleftrightarrow> BucketExists (sds_ops c) s b"
    using sds_listed [OF i] by (simp add: sds_ops_def)
  show "is_name b \<Longrightarrow> is_name t \<Longrightarrow> t \<in> set (snd (StreamSetNames (sds_ops c) s b)) \<longleftrightarrow> StreamSetExists (sds_ops c) s b t"
    using sds_listed [OF i] by (simp add: sds_ops_def)
  show "is_name b \<Longrightarrow> is_name t \<Longrightarrow> is_name n \<Longrightarrow>
      n \<in> set (snd (StreamNames (sds_ops c) s b t)) \<longleftrightarrow> StreamExists (sds_ops c) s b t n"
    using sds_listed [OF i] by (simp add: sds_ops_def)
  show "is_name b \<Longrightarrow> is_name t \<Longrightarrow> StreamSetExists (sds_ops c) s b t \<Longrightarrow> BucketExists (sds_ops c) s b"
    using sds_exists [OF i] dir_prefix [OF wf] by (simp add: sds_ops_def)
  show "is_name b \<Longrightarrow> is_name t \<Longrightarrow> is_name n \<Longrightarrow> StreamExists (sds_ops c) s b t n \<Longrightarrow> StreamSetExists (sds_ops c) s b t"
    using sds_exists [OF i] dir_prefix [OF wf, of "root_components s @ [b]" t "n @ extension"] by (auto simp: sds_ops_def)
  show "is_name b \<Longrightarrow> is_name t \<Longrightarrow> is_name n \<Longrightarrow> StreamExists (sds_ops c) s b t n \<Longrightarrow>
      StreamLength (sds_ops c) s (StreamPath b t n) \<noteq> None"
    using sds_exists(3) [OF i] sds_length [OF i] by (fastforce simp: sds_ops_def)
  show "b \<in> set (snd (BucketNames (sds_ops c) s)) \<Longrightarrow> CHR ''/'' \<notin> set b"
    using listed_plain [OF i] by (simp add: sds_ops_def sds_BucketNames_def)
  show "t \<in> set (snd (StreamSetNames (sds_ops c) s b)) \<Longrightarrow> CHR ''/'' \<notin> set t"
    using listed_plain [OF i] by (simp add: sds_ops_def sds_StreamSetNames_def)
qed

section \<open>Properties\<close>

text \<open>
  The store's listing, its existence test and its information message agree. On a well-formed
  file tree a stream of legal names is listed exactly when \<open>PathExists\<close> says it exists, and then
  \<open>StoreInfo\<close> describes it under its bucket and stream set with the length \<open>StreamLength\<close> reports.
\<close>

lemma store_listing:
  assumes "sds_inv s" "is_name b" "is_name t" "is_name n"
  shows "(StreamPath b t n \<in> set (snd (StreamPaths (sds_ops c) s)) \<longleftrightarrow> PathExists (sds_ops c) s (StreamPath b t n)) \<and>
    (PathExists (sds_ops c) s (StreamPath b t n) \<longrightarrow>
     (\<exists>bi \<in> set (snd (StoreInfo (sds_ops c) s [])). bi_path bi = b \<and>
       (\<exists>si \<in> set (bi_stream_set bi). ss_path si = t \<and>
         (\<exists>i \<in> set (ss_stream si). i = \<lparr>si_path = n, si_length = sds_StreamLength s (StreamPath b t n)\<rparr> \<and> si_length i \<noteq> None))))"
proof -
  have "PathExists (sds_ops c) s (StreamPath b t n) = StreamExists (sds_ops c) s b t n"
    using path_denotes.stream [OF assms(2-4), folded parse_path_iff] is_name_nonempty [OF assms(4)]
    by (simp add: PathExists_def)
  moreover have "StreamLength (sds_ops c) s p = sds_StreamLength s p" for p by (simp add: sds_ops_def)
  ultimately show ?thesis
    using sds.stream_paths_exist [OF assms, of c] sds.store_info_stream [OF assms, of c] by auto
qed

text \<open>A store with one stream, for the examples.\<close>

definition sample_store :: Store where
  "sample_store = \<lparr>root_path = ''/r'', out_streams = [], input_streams = [],
     files = \<lparr>nodes = [([''r''], Dir), ([''r'', ''b''], Dir), ([''r'', ''b'', ''s''], Dir),
                      ([''r'', ''b'', ''s'', ''n.zippylog''], Reg sample_stream)], denied = [], node_size = 0\<rparr>,
     uninit = UNKNOWN\<rparr>"

lemma sample_store_inv: "sds_inv sample_store"
  by (simp add: sds_inv_def sample_store_def wf_fs_def simple_nodes_def plain_def node_at_def)

lemma sample_names: "is_name ''b''" "is_name ''s''" "is_name ''n''"
  by (simp_all add: is_name_def name_char_def char_value_def)

lemma store_listing_witness:
  "PathExists (sds_ops sample_codec) sample_store ''/b/s/n'' \<and>
   ''/b/s/n'' \<in> set (snd (StreamPaths (sds_ops sample_codec) sample_store))"
proof -
  have "sds_StreamExists sample_store ''b'' ''s'' ''n''"
    using sds_exists(3) [OF sample_store_inv sample_names]
    by (simp add: sample_store_def root_components_def components_def c_str_def node_at_def extension_def)
  then have "PathExists (sds_ops sample_codec) sample_store (StreamPath ''b'' ''s'' ''n'')"
    using path_denotes.stream [OF sample_names, folded parse_path_iff] by (simp add: PathExists_def sds_ops_def)
  with store_listing [OF sample_store_inv sample_names, of sample_codec] show ?thesis by (simp add: path_defs)
qed

lemma find_first_of_colon:
  "find_first_of (''simpledirectory'' @ c # r) ''://'' 0 = Some 15" if "c = CHR '':'' \<or> c = CHR ''/''"
  using that by (auto simp: find_first_of_def)

text \<open>
  \<open>CreateStore\<close> looks for one of the characters of \<open>://\<close>, not for the separator: whatever three
  characters follow the protocol name, as long as the first is a colon or a slash, they are skipped,
  and a URI with fewer than two characters after it throws \<open>out_of_range\<close>.
\<close>

lemma CreateStore_separator:
  assumes "x = CHR '':'' \<or> x = CHR ''/''"
  shows "CreateStore u fs (''simpledirectory'' @ x # y # z # path) = new_SimpleDirectoryStore u fs path \<and>
    CreateStore u fs (''simpledirectory'' @ [x]) = Inl OutOfRange"
  using find_first_of_colon [OF assms, of "y # z # path"] find_first_of_colon [OF assms, of "[]"]
  by (simp add: CreateStore_def substr_def)

lemma CreateStore_separator_witness:
  "CreateStore UNKNOWN (files sample_store) ''simpledirectory/xyr'' = new_SimpleDirectoryStore UNKNOWN (files sample_store) ''r''"
  using CreateStore_separator [of "CHR ''/''" UNKNOWN "files sample_store" "CHR ''x''" "CHR ''y''" "''r''"] by simp

end
