(* ===== verification/Store_Write.thy ===== *)
theory Store_Write
  imports Store
begin

text \<open>
  What writing to a store does: \<open>Store::WriteEnvelope\<close> on a \<open>SimpleDirectoryStore\<close> creates the bucket, the
  stream set and the stream as needed and appends one record to the stream of the time, and to no
  other. The invariant \<open>streams_ok\<close> ties the map of open streams to the files.
\<close>

section \<open>Paths of the system\<close>

lemma split_slash_parts: "x \<in> set (split_slash acc s) \<Longrightarrow> CHR ''/'' \<notin> set acc \<Longrightarrow>
  CHR ''/'' \<notin> set x \<and> set x \<subseteq> set acc \<union> set s"
proof (induction s arbitrary: acc)
  case (Cons c s)
  show ?case
  proof (cases "c = CHR ''/''")
    case True
    with Cons.prems consider "x = rev acc" | "x \<in> set (split_slash [] s)" by auto
    then show ?thesis using Cons.IH [of "[]"] Cons.prems(2) by cases auto
  next
    case False
    with Cons.prems Cons.IH [of "c # acc"] show ?thesis by auto
  qed
qed auto

lemma components_all_plain: "list_all plain (components path)"
proof -
  have "CHR 0x00 \<notin> set (c_str path)" by (auto simp: c_str_def dest: set_takeWhileD)
  then show ?thesis
    unfolding list_all_iff components_def
    using split_slash_parts [of _ "[]" "c_str path"] by (auto simp: plain_def)
qed

section \<open>Creating directories and files\<close>

definition ensure :: "string list \<Rightarrow> fnode \<Rightarrow> filesystem \<Rightarrow> filesystem" where
  "ensure p n fs = (if node_at fs p = None then add_node p n fs else fs)"

definition fs_ok :: "filesystem \<Rightarrow> bool" where
  "fs_ok fs \<longleftrightarrow> wf_fs fs \<and> simple_nodes fs \<and> denied fs = []"

lemma sds_inv_fs: "sds_inv s \<longleftrightarrow> fs_ok (files s) \<and> uninit s \<noteq> DIRECTORY \<and> uninit s \<noteq> REGULAR \<and> CHR 0x00 \<notin> set (root_path s)"
  by (auto simp: sds_inv_def fs_ok_def)

lemma ensure_ok:
  assumes "fs_ok fs" "node_at fs p = Some Dir" "plain x" "n \<noteq> Socket" "n \<noteq> BlockDev"
  shows "fs_ok (ensure (p @ [x]) n fs)"
    "node_at (ensure (p @ [x]) n fs) q = (if q = p @ [x] \<and> node_at fs q = None then Some n else node_at fs q)"
    "node_at fs (p @ [x]) = None \<Longrightarrow> sys_creatable fs (p @ [x])"
proof -
  have "list_all plain (p @ [x])" if "node_at fs (p @ [x]) = None"
  proof (cases p rule: rev_cases)
    case Nil
    with assms show ?thesis by simp
  next
    case (snoc p' y)
    with assms(1,2) have "(p, Dir) \<in> set (nodes fs)" using node_at_set [of fs p Dir] by (simp add: fs_ok_def)
    with assms(1,3) show ?thesis by (auto simp: fs_ok_def wf_fs_def)
  qed
  moreover show c: "node_at fs (p @ [x]) = None \<Longrightarrow> sys_creatable fs (p @ [x])"
    using assms by (simp add: sys_creatable_def fs_ok_def allowed_def)
  ultimately show "fs_ok (ensure (p @ [x]) n fs)"
    using assms by (auto simp: ensure_def fs_ok_def intro: wf_fs_add simple_nodes_add)
  show "node_at (ensure (p @ [x]) n fs) q = (if q = p @ [x] \<and> node_at fs q = None then Some n else node_at fs q)"
    by (auto simp: ensure_def node_at_add)
qed

lemma fs_ok_append: "fs_ok fs \<Longrightarrow> fs_ok (sys_append p b fs)"
  by (simp add: fs_ok_def wf_fs_append simple_nodes_append)

text \<open>Opening the writer on a file that exists or can be created.\<close>

lemma new_FileOutputStream_ok:
  assumes "fs_ok fs" "components path = p @ [x]" "node_at fs p = Some Dir" "plain x"
    "node_at fs (p @ [x]) = None \<or> node_at fs (p @ [x]) = Some (Reg y)"
    "node_at fs (p @ [x]) = None \<longrightarrow> y = []"
  obtains os b where
    "new_FileOutputStream c fs path lock = Inr (os, sys_append (p @ [x]) b (ensure (p @ [x]) (Reg []) fs))"
    "os_fd os = p @ [x]" "buffered os = []" "y @ b = (if y = [] then [CHR 0x01] else y)"
proof -
  let ?q = "p @ [x]" and ?fs = "ensure (p @ [x]) (Reg []) fs"
  have e: "fs_ok ?fs" "node_at ?fs ?q = Some (Reg y)" "node_at fs ?q = None \<Longrightarrow> sys_creatable fs ?q"
    using ensure_ok [OF assms(1,3,4), of "Reg []"] assms(5,6) by auto
  have opened: "sys_open True True False fs ?q = Some (?fs, ?q)"
    using assms(5) e(3) assms(1)
    by (auto simp: sys_open_def ensure_def fs_ok_def allowed_def)
  have st: "stat ?fs path = Some \<lparr>type = REGULAR, size = int (length y)\<rparr>"
    using e(2) assms(2) by (simp add: stat_Some lookup_path_def st_size_def)
  define os0 where "os0 = \<lparr>os_fd = ?q, buffered = []\<rparr>"
  show thesis
  proof (cases "y = []")
    case False
    have "new_FileOutputStream c fs path lock = Inr (os0, sys_append ?q [] ?fs)"
      using opened st False assms(2)
      by (simp add: new_FileOutputStream_def File_Open_def os0_def sys_append_nil)
    with False show thesis by (intro that [of os0 "[]"]) (simp_all add: os0_def)
  next
    case True
    obtain os1 fs2 where raw: "WriteRaw c [CHR 0x01] os0 ?fs = (os1, fs2)" by fastforce
    have w: "writable os0 ?fs" using e(2) by (simp add: writable_def os0_def)
    note r = WriteRaw_written [OF w raw]
    have b: "buffered os1 = drop (Spill c [CHR 0x01]) [CHR 0x01]"
      using raw by (auto simp: WriteRaw_def os0_def Let_def)
    have "sys_append ?q (buffered os1) fs2 = sys_append ?q [CHR 0x01] ?fs"
      using r(3,4) b by (simp add: os0_def sys_append_append)
    then have "new_FileOutputStream c fs path lock = Inr (os1\<lparr>buffered := []\<rparr>, sys_append ?q [CHR 0x01] ?fs)"
      using opened st True assms(2) raw r(3)
      by (simp add: new_FileOutputStream_def File_Open_def os0_def [symmetric] WriteStreamHeader_def
          OutputStream_Flush_def) (simp add: os0_def)
    with True r(3) show thesis by (intro that [of "os1\<lparr>buffered := []\<rparr>" "[CHR 0x01]"]) (simp_all add: os0_def)
  qed
qed

section \<open>Creating an output stream\<close>

lemma sds_inv_files: "sds_inv s \<Longrightarrow> fs_ok F \<Longrightarrow> sds_inv (s\<lparr>files := F\<rparr>)"
  by (simp add: sds_inv_fs)

lemma root_components_update [simp]:
  "root_components (s\<lparr>files := F\<rparr>) = root_components s"
  "root_components (s\<lparr>out_streams := m\<rparr>) = root_components s"
  by (simp_all add: root_components_def)

lemma make_directory_step:
  assumes "fs_ok (files s)" "components (f s) = p @ [x]" "node_at (files s) p = Some Dir" "plain x"
    "node_at (files s) (p @ [x]) = None"
  shows "make_directory f s = (Inr True, s\<lparr>files := ensure (p @ [x]) Dir (files s)\<rparr>)"
  using ensure_ok(3) [OF assms(1,3,4), of Dir] assms(2,5)
  by (simp add: make_directory_def MakeDirectory_cases ensure_def)

lemma bucket_step:
  assumes "sds_inv s" "is_name b" "node_at (files s) (root_components s) = Some Dir"
    "node_at (files s) (root_components s @ [b]) \<in> {None, Some Dir}"
  shows "(if sds_BucketExists s b then ret True else sds_CreateBucket b) s =
    (Inr True, s\<lparr>files := ensure (root_components s @ [b]) Dir (files s)\<rparr>)"
proof (cases "sds_BucketExists s b")
  case True
  with sds_exists(1) [OF assms(1,2)] show ?thesis by (simp add: ensure_def)
next
  case False
  then have "node_at (files s) (root_components s @ [b]) = None"
    using sds_exists(1) [OF assms(1,2)] assms(4) by auto
  with False make_directory_step [of s "\<lambda>s. PathToFilesystemPath s (BucketPath b)" "root_components s" b]
    store_components(1) [of s b] assms is_name_plain show ?thesis
    by (simp add: sds_CreateBucket_def sds_inv_fs)
qed

lemma set_step:
  assumes "sds_inv s" "is_name b" "is_name t" "node_at (files s) (root_components s @ [b]) = Some Dir"
    "node_at (files s) (root_components s @ [b, t]) \<in> {None, Some Dir}"
  shows "(if sds_StreamSetExists s b t then ret True else sds_CreateStreamset b t) s =
    (Inr True, s\<lparr>files := ensure (root_components s @ [b, t]) Dir (files s)\<rparr>)"
proof (cases "sds_StreamSetExists s b t")
  case True
  with sds_exists(2) [OF assms(1,2,3)] show ?thesis by (simp add: ensure_def)
next
  case False
  then have "node_at (files s) ((root_components s @ [b]) @ [t]) = None"
    using sds_exists(2) [OF assms(1,2,3)] assms(5) by auto
  with False make_directory_step [of s "\<lambda>s. PathToFilesystemPath s (StreamsetPath b t)" "root_components s @ [b]" t]
    store_components(2) [of s b t] assms is_name_plain show ?thesis
    by (simp add: sds_CreateStreamset_def sds_inv_fs)
qed

text \<open>Where a stream may be written: its ancestors are directories or absent, and it is a file or absent.\<close>

definition stream_file :: "Store \<Rightarrow> string \<Rightarrow> string \<Rightarrow> string \<Rightarrow> string list" where
  "stream_file s b t n = root_components s @ [b, t, n @ extension]"

definition writable_place :: "Store \<Rightarrow> string \<Rightarrow> string \<Rightarrow> string \<Rightarrow> bool" where
  "writable_place s b t n \<longleftrightarrow>
     node_at (files s) (root_components s) = Some Dir \<and>
     node_at (files s) (root_components s @ [b]) \<in> {None, Some Dir} \<and>
     node_at (files s) (root_components s @ [b, t]) \<in> {None, Some Dir} \<and>
     (case node_at (files s) (stream_file s b t n) of None \<Rightarrow> True | Some (Reg _) \<Rightarrow> True | _ \<Rightarrow> False)"

lemma stream_file_update [simp]:
  "stream_file (s\<lparr>files := F\<rparr>) b t n = stream_file s b t n"
  "stream_file (s\<lparr>out_streams := m\<rparr>) b t n = stream_file s b t n"
  by (simp_all add: stream_file_def)

lemma CreateOutputStream_ok:
  assumes "sds_inv s" "is_name b" "is_name t" "is_name n" "writable_place s b t n"
  obtains os F where "sds_CreateOutputStream c b t n s = (Inr (Some os), s\<lparr>files := F\<rparr>)" "fs_ok F"
    "os_fd os = stream_file s b t n" "buffered os = []"
    "node_at F (stream_file s b t n) =
       Some (Reg (let y = file_content (files s) (stream_file s b t n) in if y = [] then [CHR 0x01] else y))"
    "\<And>q. q \<noteq> stream_file s b t n \<Longrightarrow> node_at (files s) q \<noteq> None \<Longrightarrow> node_at F q = node_at (files s) q"
    "\<And>q x. q \<noteq> stream_file s b t n \<Longrightarrow> node_at F q = Some (Reg x) \<Longrightarrow> node_at (files s) q = Some (Reg x)"
proof -
  let ?r = "root_components s" and ?fs = "files s" and ?n = "n @ extension"
  define q where "q = stream_file s b t n"
  have q: "q = (?r @ [b, t]) @ [?n]" by (simp add: q_def stream_file_def)
  have fs: "fs_ok ?fs" and z: "CHR 0x00 \<notin> set (root_path s)" using assms(1) by (simp_all add: sds_inv_fs)
  have wf: "wf_fs ?fs" using fs by (simp add: fs_ok_def)
  have place: "node_at ?fs ?r = Some Dir" "node_at ?fs (?r @ [b]) \<in> {None, Some Dir}"
    "node_at ?fs (?r @ [b, t]) \<in> {None, Some Dir}"
    using assms(5) by (simp_all add: writable_place_def)
  define F1 where "F1 = ensure (?r @ [b]) Dir ?fs"
  have e1: "fs_ok F1" "\<And>p. node_at F1 p = (if p = ?r @ [b] \<and> node_at ?fs p = None then Some Dir else node_at ?fs p)"
    using ensure_ok [OF fs place(1) is_name_plain [OF assms(2)], of Dir] by (simp_all add: F1_def)
  have d1: "node_at F1 (?r @ [b]) = Some Dir" using e1(2) place(2) by auto
  define F2 where "F2 = ensure (?r @ [b, t]) Dir F1"
  have e2: "fs_ok F2" "\<And>p. node_at F2 p = (if p = ?r @ [b, t] \<and> node_at F1 p = None then Some Dir else node_at F1 p)"
    using ensure_ok [OF e1(1) d1 is_name_plain [OF assms(3)], of Dir] by (simp_all add: F2_def)
  have n2: "node_at F1 (?r @ [b, t]) \<in> {None, Some Dir}" using e1(2) place(3) by auto
  have d2: "node_at F2 (?r @ [b, t]) = Some Dir" using e2(2) n2 by auto
  define y where "y = file_content ?fs q"
  have same: "node_at F2 q = node_at ?fs q" using e1(2) e2(2) by (simp add: q)
  have y: "node_at F2 q = None \<or> node_at F2 q = Some (Reg y)" "node_at F2 q = None \<longrightarrow> y = []"
    using assms(5) unfolding same
    by (auto simp: writable_place_def q_def y_def file_content_def split: option.splits fnode.splits)
  define s2 where "s2 = s\<lparr>files := F2\<rparr>"
  have comp: "components (PathToFilesystemPath s2 (StreamPath b t n @ extension)) = (?r @ [b, t]) @ [?n]"
    using store_components(3) [of s b t ?n] z assms(2,3) stream_file_plain [OF assms(4)]
    by (simp add: s2_def PathToFilesystemPath_def path_defs root_components_def)
  from y obtain os a where new: "new_FileOutputStream c F2 (PathToFilesystemPath s2 (StreamPath b t n @ extension)) True =
      Inr (os, sys_append q a (ensure q (Reg []) F2))" "os_fd os = q" "buffered os = []"
      "y @ a = (if y = [] then [CHR 0x01] else y)"
    unfolding q by (rule new_FileOutputStream_ok [OF e2(1) comp d2 stream_file_plain [OF assms(4)]])
  define F where "F = sys_append q a (ensure q (Reg []) F2)"
  have e3: "fs_ok (ensure q (Reg []) F2)"
    "\<And>p. node_at (ensure q (Reg []) F2) p = (if p = q \<and> node_at F2 p = None then Some (Reg []) else node_at F2 p)"
    using ensure_ok [OF e2(1) d2 stream_file_plain [OF assms(4)], of "Reg []"] by (simp_all add: q)
  have "(if sds_BucketExists s b then ret True else sds_CreateBucket b) s = (Inr True, s\<lparr>files := F1\<rparr>)"
    unfolding F1_def by (rule bucket_step [OF assms(1,2) place(1,2)])
  moreover have "(if sds_StreamSetExists (s\<lparr>files := F1\<rparr>) b t then ret True else sds_CreateStreamset b t) (s\<lparr>files := F1\<rparr>) =
      (Inr True, s2)"
    using set_step [OF sds_inv_files [OF assms(1) e1(1)] assms(2,3)] d1 n2 by (simp add: F2_def s2_def)
  ultimately have "sds_CreateOutputStream c b t n s = (Inr (Some os), s\<lparr>files := F\<rparr>)"
    using new(1)
    by (simp add: sds_CreateOutputStream_def andThen_Inr open_output_def s2_def F_def del: sds_inv_files)
  moreover have "fs_ok F" unfolding F_def using e3(1) by (rule fs_ok_append)
  moreover have "node_at F q = Some (Reg (if y = [] then [CHR 0x01] else y))"
    using e3(2) y new(4) q by (auto simp: F_def node_at_append)
  moreover have "node_at F p = node_at F2 p" if "p \<noteq> q" for p
    using that e3(2) by (simp add: F_def node_at_append)
  ultimately show thesis
    using new(2,3) e1(2) e2(2)
    by (intro that [of os F]) (auto simp: q_def [symmetric] y_def [symmetric] Let_def split: if_splits)
qed

section \<open>The open streams\<close>

definition open_ok :: "Store \<Rightarrow> string \<times> OpenOutputStream \<Rightarrow> bool" where
  "open_ok s x \<longleftrightarrow> (\<exists>b t n. is_name b \<and> is_name t \<and> is_name n \<and> fst x = StreamPath b t n \<and>
     os_fd (os_stream (snd x)) = stream_file s b t n \<and>
     (\<exists>y. y \<noteq> [] \<and> node_at (files s) (stream_file s b t n) = Some (Reg y)))"

definition streams_ok :: "Store \<Rightarrow> bool" where
  "streams_ok s \<longleftrightarrow> distinct (map fst (out_streams s)) \<and> (\<forall>x \<in> set (out_streams s). open_ok s x)"

text \<open>What a stream holds, with the bytes its writer has buffered.\<close>

definition content :: "Store \<Rightarrow> string \<Rightarrow> string \<Rightarrow> string \<Rightarrow> string" where
  "content s b t n = file_content (files s) (stream_file s b t n) @
     (case map_of (out_streams s) (StreamPath b t n) of None \<Rightarrow> [] | Some os \<Rightarrow> buffered (os_stream os))"

lemma stream_path_inject:
  assumes "StreamPath b t n = StreamPath b' t' n'" "is_name b" "is_name b'" "is_name t" "is_name t'"
  shows "b = b' \<and> t = t' \<and> n = n'"
  using sds.listed_path_inject [OF assms(1)] assms(2-5) is_name_noslash by blast

lemma stream_file_inject: "stream_file s b t n = stream_file s b' t' n' \<longleftrightarrow> b = b' \<and> t = t' \<and> n = n'"
  by (simp add: stream_file_def)

lemma open_stream:
  assumes "streams_ok s" "map_of (out_streams s) (StreamPath b t n) = Some os" "is_name b" "is_name t" "is_name n"
  obtains y where "os_fd (os_stream os) = stream_file s b t n" "y \<noteq> []"
    "node_at (files s) (stream_file s b t n) = Some (Reg y)"
proof -
  have "open_ok s (StreamPath b t n, os)" using assms(1,2) by (auto simp: streams_ok_def dest: map_of_SomeD)
  then obtain b' t' n' y where o: "is_name b'" "is_name t'" "is_name n'" "StreamPath b t n = StreamPath b' t' n'"
    "os_fd (os_stream os) = stream_file s b' t' n'" "y \<noteq> []"
    "node_at (files s) (stream_file s b' t' n') = Some (Reg y)"
    by (auto simp: open_ok_def)
  with stream_path_inject [OF o(4) assms(3) o(1) assms(4) o(2)] that show thesis by simp
qed

lemma map_of_update_at:
  "map_of (map (\<lambda>(q, x). if q = k then (q, f x) else (q, x)) m) k' =
     (if k' = k then map_option f (map_of m k) else map_of m k')"
  by (induction m) auto

text \<open>A write through the map: the file and the buffer of the stream together grow by the bytes.\<close>

lemma on_stream_write:
  assumes "sds_inv s" "streams_ok s" "is_name b" "is_name t" "is_name n"
    "map_of (out_streams s) (StreamPath b t n) = Some os"
    "f (os_stream os) (files s) = (True, o', sys_append (stream_file s b t n) a (files s))"
    "os_fd o' = stream_file s b t n" "a @ buffered o' = buffered (os_stream os) @ r"
  obtains s' where "on_stream (StreamPath b t n) f s = (Inr True, s')" "sds_inv s'" "streams_ok s'"
    "content s' b t n = content s b t n @ r" "root_components s' = root_components s"
    "map fst (out_streams s') = map fst (out_streams s)"
    "map_of (out_streams s') (StreamPath b t n) = Some (os\<lparr>os_stream := o'\<rparr>)"
    "\<And>k. k \<noteq> StreamPath b t n \<Longrightarrow> map_of (out_streams s') k = map_of (out_streams s) k"
    "\<And>b' t' n'. \<lbrakk>is_name b'; is_name t'; is_name n'; (b', t', n') \<noteq> (b, t, n)\<rbrakk> \<Longrightarrow> content s' b' t' n' = content s b' t' n'"
proof -
  let ?k = "StreamPath b t n" and ?q = "stream_file s b t n"
  obtain y where y: "y \<noteq> []" "node_at (files s) ?q = Some (Reg y)"
    using open_stream [OF assms(2,6,3,4,5)] by blast
  define m where "m = map (\<lambda>(q, x). if q = ?k then (q, x\<lparr>os_stream := o'\<rparr>) else (q, x)) (out_streams s)"
  define s' where "s' = s\<lparr>out_streams := m, files := sys_append ?q a (files s)\<rparr>"
  have q: "?q \<noteq> []" by (simp add: stream_file_def)
  have run: "on_stream ?k f s = (Inr True, s')"
    using assms(6,7) by (simp add: on_stream_def s'_def m_def)
  have inv: "sds_inv s'" using assms(1) by (simp add: sds_inv_fs s'_def fs_ok_append)
  have keys: "map fst m = map fst (out_streams s)" by (simp add: m_def comp_def case_prod_beta)
  have sf: "stream_file s' x z w = stream_file s x z w" for x z w by (simp add: s'_def stream_file_def root_components_def)
  have fs': "node_at (files s') p = (if p = ?q then Some (Reg (y @ a)) else node_at (files s) p)" for p
    using y q by (simp add: s'_def node_at_append)
  have mo: "map_of m k = (if k = ?k then Some (os\<lparr>os_stream := o'\<rparr>) else map_of (out_streams s) k)" for k
    using assms(6) by (simp add: m_def map_of_update_at)
  have ok: "open_ok s' x" if "x \<in> set m" for x
  proof -
    from that obtain z where z0: "z \<in> set (out_streams s)"
      "x = (\<lambda>(q, x). if q = ?k then (q, x\<lparr>os_stream := o'\<rparr>) else (q, x)) z"
      unfolding m_def by (metis (no_types, lifting) imageE set_map)
    then have z: "z \<in> set (out_streams s)" "fst x = fst z"
      "snd x = (if fst z = ?k then (snd z)\<lparr>os_stream := o'\<rparr> else snd z)"
      by (simp_all add: case_prod_beta)
    then have "open_ok s z" using assms(2) by (simp add: streams_ok_def)
    then obtain b' t' n' w where w: "is_name b'" "is_name t'" "is_name n'" "fst z = StreamPath b' t' n'"
      "os_fd (os_stream (snd z)) = stream_file s b' t' n'" "w \<noteq> []"
      "node_at (files s) (stream_file s b' t' n') = Some (Reg w)"
      unfolding open_ok_def by blast
    have fd: "os_fd (os_stream (snd x)) = stream_file s b' t' n'"
    proof (cases "fst z = ?k")
      case True
      with w(4) have "StreamPath b' t' n' = ?k" by simp
      from stream_path_inject [OF this w(1) assms(3) w(2) assms(4)] True z(3) assms(8) show ?thesis by simp
    next
      case False
      with z(3) w(5) show ?thesis by simp
    qed
    have "\<exists>v. v \<noteq> [] \<and> node_at (files s') (stream_file s b' t' n') = Some (Reg v)"
      using fs' [of "stream_file s b' t' n'"] w(6,7) y(1) sf [of b' t' n'] by (cases "stream_file s b' t' n' = ?q") simp_all
    with w(1-4) z(2) fd show ?thesis unfolding open_ok_def sf by metis
  qed
  have streams: "streams_ok s'"
    using ok assms(2) keys by (simp add: streams_ok_def s'_def)
  have here: "content s' b t n = content s b t n @ r"
    using fs' mo y assms(6,9) sf by (simp add: content_def file_content_def s'_def)
  have there: "content s' b' t' n' = content s b' t' n'"
    if "is_name b'" "is_name t'" "is_name n'" "(b', t', n') \<noteq> (b, t, n)" for b' t' n'
  proof -
    have "StreamPath b' t' n' \<noteq> ?k" using stream_path_inject [of b' t' n' b t n] that assms(3,4) by auto
    moreover have "stream_file s b' t' n' \<noteq> ?q" using that(4) by (simp add: stream_file_inject)
    ultimately show ?thesis using fs' mo sf by (simp add: content_def file_content_def s'_def)
  qed
  show thesis
    using that [OF run inv streams here] keys mo there by (simp add: s'_def root_components_def)
qed

section \<open>Obtaining the stream of a time\<close>

definition stream_time :: "int \<times> int \<Rightarrow> int \<Rightarrow> Time" where
  "stream_time tv time = (if time < 0 then TimeNow tv else UnixMicroTimeToZippyTime time)"

lemma stream_time_good: "good_time (stream_time tv time)"
  by (simp add: stream_time_def time_now_good unix_time_good)

definition hour_stream :: "int \<times> int \<Rightarrow> int \<Rightarrow> string" where
  "hour_stream tv time = stream_name (stream_time tv time) 3600"

lemma hour_stream_name: "is_name (hour_stream tv time)"
  unfolding hour_stream_def using stream_time_good by (rule stream_name_is_name) (simp add: valid_period_def)

lemma ObtainOutputStream_ok:
  assumes "sds_inv s" "streams_ok s" "is_name b" "is_name t" "n = hour_stream tv time" "writable_place s b t n"
  obtains s' os where "ObtainOutputStream (sds_ops c) tv b t 3600 time s = (Inr (Some (StreamPath b t n)), s')"
    "sds_inv s'" "streams_ok s'" "map_of (out_streams s') (StreamPath b t n) = Some os"
    "content s' b t n = (if content s b t n = [] then [CHR 0x01] else content s b t n)"
    "root_components s' = root_components s"
    "\<And>b' t' n'. \<lbrakk>is_name b'; is_name t'; is_name n'; (b', t', n') \<noteq> (b, t, n)\<rbrakk> \<Longrightarrow> content s' b' t' n' = content s b' t' n'"
proof -
  let ?k = "StreamPath b t n" and ?q = "stream_file s b t n"
  have n: "is_name n" using assms(5) hour_stream_name by simp
  have name: "StreamNameForTime (stream_time tv time) 3600 = Inr n"
    unfolding assms(5) hour_stream_def
    using StreamNameForTime_valid [OF stream_time_good] by (simp add: valid_period_def)
  show thesis
  proof (cases "map_of (out_streams s) ?k")
    case (Some os)
    obtain y where "y \<noteq> []" "node_at (files s) ?q = Some (Reg y)"
      using open_stream [OF assms(2) Some assms(3,4) n] by blast
    then have "content s b t n \<noteq> []" by (simp add: content_def file_content_def)
    moreover have "ObtainOutputStream (sds_ops c) tv b t 3600 time s = (Inr (Some ?k), s)"
      using name Some by (simp add: ObtainOutputStream_def stream_time_def [symmetric] Let_def)
    ultimately show thesis using that assms(1,2) Some by simp
  next
    case None
    obtain os F where c: "sds_CreateOutputStream c b t n s = (Inr (Some os), s\<lparr>files := F\<rparr>)" "fs_ok F"
      "os_fd os = ?q" "buffered os = []"
      "node_at F ?q = Some (Reg (let y = file_content (files s) ?q in if y = [] then [CHR 0x01] else y))"
      "\<And>q. q \<noteq> ?q \<Longrightarrow> node_at (files s) q \<noteq> None \<Longrightarrow> node_at F q = node_at (files s) q"
      "\<And>q x. q \<noteq> ?q \<Longrightarrow> node_at F q = Some (Reg x) \<Longrightarrow> node_at (files s) q = Some (Reg x)"
      using CreateOutputStream_ok [OF assms(1,3,4) n assms(6)] by blast
    define m where "m = map_put ?k \<lparr>os_stream = os, last_write_time = - 1\<rparr> (out_streams s)"
    define s' where "s' = s\<lparr>files := F, out_streams := m\<rparr>"
    have run: "ObtainOutputStream (sds_ops c) tv b t 3600 time s = (Inr (Some ?k), s')"
      using name None c(1)
      by (simp add: ObtainOutputStream_def stream_time_def [symmetric] Let_def sds_ops_def andThen_Inr s'_def m_def)
    have inv: "sds_inv s'" using assms(1) c(2) by (simp add: sds_inv_fs s'_def)
    have sf: "stream_file s' x z w = stream_file s x z w" for x z w by (simp add: s'_def stream_file_def root_components_def)
    have elsewhere: "file_content F q = file_content (files s) q" if "q \<noteq> ?q" for q
    proof (cases "node_at (files s) q")
      case None
      then have "node_at F q \<noteq> Some (Reg x)" for x using c(7) [OF that] by fastforce
      with None show ?thesis by (auto simp: file_content_def split: option.split fnode.split)
    next
      case (Some x)
      with c(6) [OF that] show ?thesis by (simp add: file_content_def)
    qed
    have "open_ok s' x" if x: "x \<in> set m" for x
    proof (cases "x = (?k, \<lparr>os_stream = os, last_write_time = - 1\<rparr>)")
      case True
      have "(let y = file_content (files s) ?q in if y = [] then [CHR 0x01] else y) \<noteq> []" by (simp add: Let_def)
      with True c(3,5) assms(3,4) n show ?thesis
        unfolding open_ok_def sf by (intro exI [of _ b] exI [of _ t] exI [of _ n]) (auto simp: s'_def)
    next
      case False
      then have "x \<in> set (out_streams s)" "fst x \<noteq> ?k" using x unfolding m_def set_put by auto
      then have "open_ok s x" using assms(2) by (simp add: streams_ok_def)
      then obtain b' t' n' y where o: "is_name b'" "is_name t'" "is_name n'" "fst x = StreamPath b' t' n'"
        "os_fd (os_stream (snd x)) = stream_file s b' t' n'" "y \<noteq> []"
        "node_at (files s) (stream_file s b' t' n') = Some (Reg y)"
        unfolding open_ok_def by blast
      have "stream_file s b' t' n' \<noteq> ?q" using o(4) \<open>fst x \<noteq> ?k\<close> by (auto simp: stream_file_inject)
      with c(6) o(7) have "node_at F (stream_file s b' t' n') = Some (Reg y)" by simp
      with o show ?thesis unfolding open_ok_def sf by (auto simp: s'_def)
    qed
    then have streams: "streams_ok s'"
      using assms(2) by (simp add: distinct_put streams_ok_def s'_def m_def)
    have here: "content s' b t n = (if content s b t n = [] then [CHR 0x01] else content s b t n)"
      using c(4,5) None sf by (simp add: content_def file_content_def [of F] s'_def m_def Let_def)
    have there: "content s' b' t' n' = content s b' t' n'"
      if "is_name b'" "is_name t'" "is_name n'" "(b', t', n') \<noteq> (b, t, n)" for b' t' n'
    proof -
      have "StreamPath b' t' n' \<noteq> ?k" using stream_path_inject [of b' t' n' b t n] that assms(3,4) by blast
      moreover have "stream_file s b' t' n' \<noteq> ?q" using that(4) by (simp add: stream_file_inject)
      ultimately show ?thesis using elsewhere sf by (simp add: content_def s'_def m_def)
    qed
    show thesis
      using that [OF run inv streams _ here] there by (simp add: s'_def m_def root_components_def)
  qed
qed

section \<open>Writing and flushing\<close>

lemma WriteEnvelope_step:
  obtains a o' where "WriteEnvelope c e os fs = (True, o', sys_append (os_fd os) a fs)" "os_fd o' = os_fd os"
    "a @ buffered o' = buffered os @ record_bytes c (envelope e)"
proof -
  let ?v = "WriteVarint32 c (word_of_nat (length (EnvelopeBytes c (envelope e))))"
  let ?b1 = "buffered os @ ?v"
  let ?b2 = "drop (Spill c ?b1) ?b1 @ EnvelopeBytes c (envelope e)"
  have "WriteEnvelope c e os fs = (True, os\<lparr>buffered := drop (Spill c ?b2) ?b2\<rparr>,
      sys_append (os_fd os) (take (Spill c ?b1) ?b1 @ take (Spill c ?b2) ?b2) fs)"
    by (simp add: WriteEnvelope_def WriteRaw_def Let_def sys_append_append del: take_append drop_append)
  moreover have "(take (Spill c ?b1) ?b1 @ take (Spill c ?b2) ?b2) @ drop (Spill c ?b2) ?b2 =
      buffered os @ record_bytes c (envelope e)"
    by (simp add: record_bytes_def del: take_append drop_append)
  ultimately show thesis
    using that [of "os\<lparr>buffered := drop (Spill c ?b2) ?b2\<rparr>"] by simp
qed

lemma flush_step:
  assumes "sds_inv s" "streams_ok s" "k \<in> fst ` set (out_streams s)"
  obtains s' where "on_stream k OutputStream_Flush s = (Inr True, s')" "sds_inv s'" "streams_ok s'"
    "map fst (out_streams s') = map fst (out_streams s)" "root_components s' = root_components s"
    "\<And>b t n. \<lbrakk>is_name b; is_name t; is_name n\<rbrakk> \<Longrightarrow> content s' b t n = content s b t n"
    "\<And>os. map_of (out_streams s') k = Some os \<Longrightarrow> buffered (os_stream os) = []"
    "\<And>k'. k' \<noteq> k \<Longrightarrow> map_of (out_streams s') k' = map_of (out_streams s) k'"
proof -
  from assms(3) obtain os where os: "map_of (out_streams s) k = Some os"
    by (metis map_of_eq_None_iff option.exhaust)
  then have "open_ok s (k, os)" using assms(2) by (auto simp: streams_ok_def dest: map_of_SomeD)
  then obtain b t n where k: "k = StreamPath b t n" "is_name b" "is_name t" "is_name n"
    "os_fd (os_stream os) = stream_file s b t n"
    by (auto simp: open_ok_def)
  have step: "OutputStream_Flush (os_stream os) (files s) =
      (True, (os_stream os)\<lparr>buffered := []\<rparr>, sys_append (stream_file s b t n) (buffered (os_stream os)) (files s))"
    by (simp add: OutputStream_Flush_def k(5))
  obtain s' where s': "on_stream k OutputStream_Flush s = (Inr True, s')" "sds_inv s'" "streams_ok s'"
    "content s' b t n = content s b t n @ []" "root_components s' = root_components s"
    "map fst (out_streams s') = map fst (out_streams s)"
    "map_of (out_streams s') k = Some (os\<lparr>os_stream := (os_stream os)\<lparr>buffered := []\<rparr>\<rparr>)"
    "\<And>k'. k' \<noteq> k \<Longrightarrow> map_of (out_streams s') k' = map_of (out_streams s) k'"
    "\<And>b' t' n'. \<lbrakk>is_name b'; is_name t'; is_name n'; (b', t', n') \<noteq> (b, t, n)\<rbrakk> \<Longrightarrow> content s' b' t' n' = content s b' t' n'"
    using on_stream_write [where f = OutputStream_Flush and r = "[]", OF assms(1,2) k(2-4) os [unfolded k(1)] step] k(1,5) by auto
  show thesis
  proof (rule that [OF s'(1-3) s'(6,5)])
    show "content s' b' t' n' = content s b' t' n'" if "is_name b'" "is_name t'" "is_name n'" for b' t' n'
      using s'(4,9) that by (cases "(b', t', n') = (b, t, n)") auto
    show "buffered (os_stream x) = []" if "map_of (out_streams s') k = Some x" for x
      using that s'(7) by auto
    show "map_of (out_streams s') k' = map_of (out_streams s) k'" if "k' \<noteq> k" for k'
      using s'(8) [OF that] .
  qed
qed

lemma flush_all:
  assumes "sds_inv s" "streams_ok s" "set ks \<subseteq> fst ` set (out_streams s)"
  shows "\<exists>s'. for_each flush_key ks s = (Inr (), s') \<and>
    sds_inv s' \<and> streams_ok s' \<and> map fst (out_streams s') = map fst (out_streams s) \<and>
    root_components s' = root_components s \<and>
    (\<forall>b t n. is_name b \<and> is_name t \<and> is_name n \<longrightarrow> content s' b t n = content s b t n) \<and>
    (\<forall>k os. map_of (out_streams s') k = Some os \<longrightarrow>
       (k \<in> set ks \<or> (\<exists>o'. map_of (out_streams s) k = Some o' \<and> buffered (os_stream o') = [])) \<longrightarrow> buffered (os_stream os) = [])"
  using assms
proof (induction ks arbitrary: s)
  case Nil
  then show ?case by auto
next
  case (Cons k ks)
  have "k \<in> fst ` set (out_streams s)" using Cons.prems(3) by simp
  from flush_step [OF Cons.prems(1,2) this] obtain s1 where s1:
    "on_stream k OutputStream_Flush s = (Inr True, s1)" "sds_inv s1" "streams_ok s1"
    "map fst (out_streams s1) = map fst (out_streams s)" "root_components s1 = root_components s"
    "\<And>b t n. \<lbrakk>is_name b; is_name t; is_name n\<rbrakk> \<Longrightarrow> content s1 b t n = content s b t n"
    "\<And>os. map_of (out_streams s1) k = Some os \<Longrightarrow> buffered (os_stream os) = []"
    "\<And>k'. k' \<noteq> k \<Longrightarrow> map_of (out_streams s1) k' = map_of (out_streams s) k'"
    by metis
  have keys: "fst ` set (out_streams s1) = fst ` set (out_streams s)" using s1(4) by (metis set_map)
  have "set ks \<subseteq> fst ` set (out_streams s1)" using Cons.prems(3) keys by simp
  from Cons.IH [OF s1(2,3) this] obtain s2 where s2:
    "for_each flush_key ks s1 = (Inr (), s2)"
    "sds_inv s2" "streams_ok s2" "map fst (out_streams s2) = map fst (out_streams s1)"
    "root_components s2 = root_components s1"
    "\<forall>b t n. is_name b \<and> is_name t \<and> is_name n \<longrightarrow> content s2 b t n = content s1 b t n"
    "\<forall>k os. map_of (out_streams s2) k = Some os \<longrightarrow>
       (k \<in> set ks \<or> (\<exists>o'. map_of (out_streams s1) k = Some o' \<and> buffered (os_stream o') = [])) \<longrightarrow> buffered (os_stream os) = []"
    by blast
  have "buffered (os_stream os) = []"
    if "map_of (out_streams s2) k' = Some os"
      "k' \<in> set (k # ks) \<or> (\<exists>o'. map_of (out_streams s) k' = Some o' \<and> buffered (os_stream o') = [])" for k' os
  proof (cases "k' = k")
    case True
    have "k \<in> fst ` set (out_streams s1)" using Cons.prems(3) keys by simp
    then obtain o1 where "map_of (out_streams s1) k = Some o1" by (metis map_of_eq_None_iff option.exhaust)
    with s1(7) s2(7) that(1) True show ?thesis by blast
  next
    case False
    with s1(8) [OF False] s2(7) that show ?thesis by auto
  qed
  moreover have "flush_key k s = (Inr (), s1)" using s1(1) by (simp add: flush_key_def andThen_def)
  ultimately show ?case using s1(4-6) s2 by (intro exI [of _ s2]) (simp add: andThen_Inr)
qed

section \<open>Properties\<close>

text \<open>
  C3: a write to a store appends exactly one record to the stream of the hour of its time, after the
  version byte if the stream is new, creating the bucket, the stream set and the file as needed; every
  other stream keeps its contents, and the invariants of the store are kept.
\<close>

theorem store_write_appends:
  assumes "sds_inv s" "streams_ok s" "is_name b" "is_name t"
    "writable_place s b t (hour_stream tv time)"
  shows "\<exists>s'. Store_WriteEnvelope (sds_ops c) c tv b t e time s = (Inr True, s') \<and> sds_inv s' \<and> streams_ok s' \<and>
    content s' b t (hour_stream tv time) =
      (if content s b t (hour_stream tv time) = [] then [CHR 0x01] else content s b t (hour_stream tv time))
        @ record_bytes c (envelope e) \<and>
    (\<forall>b' t' n'. is_name b' \<and> is_name t' \<and> is_name n' \<and> (b', t', n') \<noteq> (b, t, hour_stream tv time) \<longrightarrow>
       content s' b' t' n' = content s b' t' n')"
proof -
  define n where "n = hour_stream tv time"
  have n: "is_name n" by (simp add: n_def hour_stream_name)
  obtain s1 os where o: "ObtainOutputStream (sds_ops c) tv b t 3600 time s = (Inr (Some (StreamPath b t n)), s1)"
    "sds_inv s1" "streams_ok s1" "map_of (out_streams s1) (StreamPath b t n) = Some os"
    "content s1 b t n = (if content s b t n = [] then [CHR 0x01] else content s b t n)"
    "\<And>b' t' n'. \<lbrakk>is_name b'; is_name t'; is_name n'; (b', t', n') \<noteq> (b, t, n)\<rbrakk> \<Longrightarrow> content s1 b' t' n' = content s b' t' n'"
    using ObtainOutputStream_ok [OF assms(1-4) n_def assms(5) [folded n_def], of c] by metis
  obtain y where fd: "os_fd (os_stream os) = stream_file s1 b t n"
    using open_stream [OF o(3,4) assms(3,4) n] by blast
  obtain a o' where w: "WriteEnvelope c e (os_stream os) (files s1) =
      (True, o', sys_append (stream_file s1 b t n) a (files s1))" "os_fd o' = stream_file s1 b t n"
      "a @ buffered o' = buffered (os_stream os) @ record_bytes c (envelope e)"
    using WriteEnvelope_step [of c e "os_stream os" "files s1"] fd by metis
  obtain s2 where s2: "on_stream (StreamPath b t n) (WriteEnvelope c e) s1 = (Inr True, s2)" "sds_inv s2" "streams_ok s2"
    "content s2 b t n = content s1 b t n @ record_bytes c (envelope e)"
    "\<And>b' t' n'. \<lbrakk>is_name b'; is_name t'; is_name n'; (b', t', n') \<noteq> (b, t, n)\<rbrakk> \<Longrightarrow> content s2 b' t' n' = content s1 b' t' n'"
    using on_stream_write [where f = "WriteEnvelope c e", OF o(2,3) assms(3,4) n o(4) w] by metis
  have "Store_WriteEnvelope (sds_ops c) c tv b t e time s = (Inr True, s2)"
    using o(1) s2(1) by (simp add: Store_WriteEnvelope_def andThen_Inr)
  with o s2 show ?thesis by (simp add: n_def)
qed

text \<open>
  \<open>FlushOutputStreams\<close> puts all that was written into the files: afterwards the contents of every
  stream is what its file holds, and nothing of it has changed.
\<close>

lemma store_flush:
  assumes "sds_inv s" "streams_ok s"
  shows "\<exists>s'. FlushOutputStreams s = (Inr True, s') \<and> sds_inv s' \<and> streams_ok s' \<and>
    (\<forall>b t n. is_name b \<and> is_name t \<and> is_name n \<longrightarrow>
       file_content (files s') (stream_file s' b t n) = content s b t n \<and> content s' b t n = content s b t n)"
proof -
  from flush_all [OF assms, of "map fst (out_streams s)"] obtain s' where s':
    "for_each flush_key (map fst (out_streams s)) s = (Inr (), s')" "sds_inv s'" "streams_ok s'"
    "map fst (out_streams s') = map fst (out_streams s)"
    "\<forall>b t n. is_name b \<and> is_name t \<and> is_name n \<longrightarrow> content s' b t n = content s b t n"
    "\<forall>k os. map_of (out_streams s') k = Some os \<longrightarrow>
       (k \<in> set (map fst (out_streams s)) \<or> (\<exists>o'. map_of (out_streams s) k = Some o' \<and> buffered (os_stream o') = []))
       \<longrightarrow> buffered (os_stream os) = []"
    by auto
  have flushed: "buffered (os_stream os) = []" if "map_of (out_streams s') k = Some os" for k os
  proof -
    have "k \<in> set (map fst (out_streams s'))" using map_of_SomeD [OF that] by force
    with s'(4,6) that show ?thesis by metis
  qed
  have "FlushOutputStreams s = (Inr True, s')"
    using s'(1) by (simp add: FlushOutputStreams_def andThen_def)
  moreover have "file_content (files s') (stream_file s' b t n) = content s' b t n" for b t n
    using flushed [of "StreamPath b t n"] by (simp add: content_def split: option.split)
  ultimately show ?thesis using s' by auto
qed

lemma sample_streams_ok: "streams_ok sample_store"
  by (simp add: streams_ok_def sample_store_def)

lemma sample_place: "is_name n \<Longrightarrow> writable_place sample_store ''b'' ''s'' n"
  by (auto simp: writable_place_def stream_file_def sample_store_def root_components_def components_def c_str_def node_at_def
      split: option.splits fnode.splits)

lemma store_write_appends_witness:
  "\<exists>s'. Store_WriteEnvelope (sds_ops sample_codec) sample_codec (0, 0) ''b'' ''s''
      (of_pb (empty_envelope\<lparr>message := [''a''], message_ns := [1], message_ty := [91]\<rparr>)) 0 sample_store = (Inr True, s') \<and>
    content s' ''b'' ''s'' ''1970-01-01-00'' = [CHR 0x01, CHR 0x02, CHR 0x5B, CHR ''a''] \<and>
    content s' ''b'' ''s'' ''n'' = sample_stream"
proof -
  have hs: "hour_stream (0, 0) 0 = ''1970-01-01-00''"
    by (simp add: hour_stream_def stream_time_def stream_name_def evaluate_name, simp add: char_of_def bit_0)
  have digits: "char_of (91::nat) = CHR 0x5B" "char_of (2::nat) = CHR 0x02"
    by (simp_all add: char_of_def bit_0)
  have c: "content sample_store ''b'' ''s'' ''1970-01-01-00'' = []" "content sample_store ''b'' ''s'' ''n'' = sample_stream"
    by (simp_all add: content_def file_content_def stream_file_def sample_store_def root_components_def components_def
        c_str_def node_at_def extension_def)
  have b: "record_bytes sample_codec (envelope (of_pb (empty_envelope\<lparr>message := [''a''], message_ns := [1], message_ty := [91]\<rparr>))) =
      [CHR 0x02, CHR 0x5B, CHR ''a'']"
    by (simp add: record_bytes_def of_pb_def digits)
  from store_write_appends [where tv = "(0, 0)" and time = 0 and c = sample_codec
      and e = "of_pb (empty_envelope\<lparr>message := [''a''], message_ns := [1], message_ty := [91]\<rparr>)",
      OF sample_store_inv sample_streams_ok sample_names(1,2) sample_place [OF hour_stream_name], unfolded hs c b] sample_names c
  show ?thesis by auto
qed

lemma store_flush_witness:
  "\<exists>s'. FlushOutputStreams sample_store = (Inr True, s') \<and>
     file_content (files s') (stream_file s' ''b'' ''s'' ''n'') = content sample_store ''b'' ''s'' ''n''"
  using store_flush [OF sample_store_inv sample_streams_ok] sample_names by blast

end
