(* ===== verification/Zeromq.thy ===== *)
theory Zeromq
  imports Envelope
begin

text \<open>
  The 0MQ helpers (src/zippylog/zeromq.cpp, zeromq.hpp): sending envelopes as multi-part messages,
  receiving them into a \<open>MessageContainer\<close>, and moving a message from one socket to another.

  0MQ itself is not part of the repository. A socket here is what the code sees of it: the frames
  it has accepted for sending with their \<open>SNDMORE\<close> flag, the results of the coming sends (a missing
  one is a success), and the frames that have arrived with their \<open>RCVMORE\<close> flag.
\<close>

section \<open>Sockets\<close>

record socket =
  sent :: "(string \<times> bool) list"
  send_results :: "bool list"
  inbox :: "(string \<times> bool) list"

record send_flags =
  SNDMORE :: bool
  DONTWAIT :: bool

definition no_flags :: send_flags where
  "no_flags = \<lparr>SNDMORE = False, DONTWAIT = False\<rparr>"

definition more_flag :: send_flags where
  "more_flag = \<lparr>SNDMORE = True, DONTWAIT = False\<rparr>"

definition send :: "string \<Rightarrow> send_flags \<Rightarrow> socket \<Rightarrow> bool \<times> socket" where
  "send bytes flags sock =
     (case send_results sock of
        [] \<Rightarrow> (True, sock\<lparr>sent := sent sock @ [(bytes, SNDMORE flags)]\<rparr>)
      | r # rs \<Rightarrow>
          if r then (True, sock\<lparr>send_results := rs, sent := sent sock @ [(bytes, SNDMORE flags)]\<rparr>)
          else (False, sock\<lparr>send_results := rs\<rparr>))"

section \<open>Sending envelopes\<close>

text \<open>
  The results are \<open>-1\<close> for a serialisation failure, \<open>0\<close> for a send that has to be tried again, and \<open>1\<close>.
\<close>

definition serialize_for :: "codec \<Rightarrow> Envelope \<Rightarrow> bool \<Rightarrow> string option" where
  "serialize_for c e is_protocol = (if is_protocol then ToProtocolZmqMessage c e else ToZmqMessage c e)"

definition SendEnvelope :: "codec \<Rightarrow> Envelope \<Rightarrow> bool \<Rightarrow> send_flags \<Rightarrow> socket \<Rightarrow> int \<times> socket" where
  "SendEnvelope c e is_protocol flags sock =
     (case serialize_for c e is_protocol of
        None \<Rightarrow> (- 1, sock)
      | Some msg \<Rightarrow> (let (ok, sock) = send msg flags sock in (if ok then 1 else 0, sock)))"

fun send_all :: "string list \<Rightarrow> send_flags \<Rightarrow> socket \<Rightarrow> bool \<times> socket" where
  "send_all [] flags sock = (True, sock)"
| "send_all (i # is) flags sock =
     (let (ok, sock) = send i flags sock in if \<not> ok then (False, sock) else send_all is flags sock)"

definition SendEnvelope_to :: "codec \<Rightarrow> string list \<Rightarrow> Envelope \<Rightarrow> bool \<Rightarrow> send_flags \<Rightarrow> socket \<Rightarrow> int \<times> socket" where
  "SendEnvelope_to c identities e is_protocol flags sock =
     (let initial_flags = \<lparr>SNDMORE = True, DONTWAIT = DONTWAIT flags\<rparr> in
      case serialize_for c e is_protocol of
        None \<Rightarrow> (- 1, sock)
      | Some e_msg \<Rightarrow>
          let (ok, sock) = send_all identities initial_flags sock in
          if \<not> ok then (0, sock)
          else
            let (ok, sock) = send [] initial_flags sock in
            if \<not> ok then (0, sock)
            else let (ok, sock) = send e_msg flags sock in (if ok then 1 else 0, sock))"

text \<open>The overload on a socket pointer sends the empty delimiter as well.\<close>

definition SendEnvelope_pointer :: "codec \<Rightarrow> Envelope \<Rightarrow> bool \<Rightarrow> send_flags \<Rightarrow> socket \<Rightarrow> int \<times> socket" where
  "SendEnvelope_pointer c e is_protocol flags sock = SendEnvelope_to c [] e is_protocol flags sock"

fun send_envelopes :: "codec \<Rightarrow> Envelope list \<Rightarrow> bool \<Rightarrow> send_flags \<Rightarrow> socket \<Rightarrow> int \<times> socket" where
  "send_envelopes c [] is_protocol flags sock = (1, sock)"
| "send_envelopes c (e # es) is_protocol flags sock =
     (case serialize_for c e is_protocol of
        None \<Rightarrow> (- 1, sock)
      | Some msg \<Rightarrow>
          let (ok, sock) = send msg flags sock in
          if \<not> ok then (0, sock) else send_envelopes c es is_protocol flags sock)"

definition SendEnvelopes :: "codec \<Rightarrow> string list \<Rightarrow> Envelope list \<Rightarrow> bool \<Rightarrow> send_flags \<Rightarrow> socket \<Rightarrow> int \<times> socket" where
  "SendEnvelopes c identities es is_protocol flags sock =
     (let initial_flags = \<lparr>SNDMORE = True, DONTWAIT = DONTWAIT flags\<rparr>;
          (ok, sock) = send_all identities initial_flags sock in
      if \<not> ok then (0, sock)
      else
        let (ok, sock) = send [] initial_flags sock in
        if \<not> ok then (- 1, sock) else send_envelopes c es is_protocol flags sock)"

section \<open>Receiving\<close>

record MessageContainer =
  identities :: "string list"
  mc_messages :: "string list"

definition empty_container :: MessageContainer where
  "empty_container = \<lparr>identities = [], mc_messages = []\<rparr>"

definition AddIdentity :: "string \<Rightarrow> MessageContainer \<Rightarrow> MessageContainer" where
  "AddIdentity msg mc = mc\<lparr>identities := identities mc @ [msg]\<rparr>"

definition AddMessage_part :: "string \<Rightarrow> MessageContainer \<Rightarrow> MessageContainer" where
  "AddMessage_part msg mc = mc\<lparr>mc_messages := mc_messages mc @ [msg]\<rparr>"

text \<open>
  The loop of \<open>ReceiveMessage\<close> over the arrived frames. \<open>recv\<close> fails when there is none: that is what it does
  without waiting (\<open>ZMQ_DONTWAIT\<close>, as the client calls it); where the flag is not given, the callers take the
  failure for the wait for a frame that it then is. An empty frame only ends the identities: whether
  more frames follow it is not asked.
\<close>

fun receive_loop :: "bool \<Rightarrow> MessageContainer \<Rightarrow> (string \<times> bool) list \<Rightarrow> bool \<times> MessageContainer \<times> (string \<times> bool) list" where
  "receive_loop in_identity mc [] = (False, mc, [])"
| "receive_loop in_identity mc ((msg, rcvmore) # fs) =
     (if length msg = 0 then receive_loop False mc fs
      else
        let mc = (if in_identity then AddIdentity msg mc else AddMessage_part msg mc) in
        if \<not> rcvmore then (True, mc, fs) else receive_loop in_identity mc fs)"

definition ReceiveMessage :: "socket \<Rightarrow> bool \<times> MessageContainer \<times> socket" where
  "ReceiveMessage sock =
     (let (ok, mc, rest) = receive_loop True empty_container (inbox sock) in (ok, mc, sock\<lparr>inbox := rest\<rparr>))"

fun transfer_loop :: "(string \<times> bool) list \<Rightarrow> socket \<Rightarrow> bool \<times> (string \<times> bool) list \<times> socket" where
  "transfer_loop [] sender = (False, [], sender)"
| "transfer_loop ((msg, rcvmore) # fs) sender =
     (let (ok, sender) = send msg (if rcvmore then more_flag else no_flags) sender in
      if \<not> ok then (False, fs, sender)
      else if \<not> rcvmore then (True, fs, sender)
      else transfer_loop fs sender)"

definition TransferMessage :: "socket \<Rightarrow> socket \<Rightarrow> bool \<times> socket \<times> socket" where
  "TransferMessage receiver sender =
     (let (ok, rest, sender) = transfer_loop (inbox receiver) sender in (ok, receiver\<lparr>inbox := rest\<rparr>, sender))"

section \<open>Frames of a message\<close>

text \<open>The frames of a multi-part message: every part but the last is followed by another one.\<close>

fun frames :: "string list \<Rightarrow> (string \<times> bool) list" where
  "frames [] = []"
| "frames [x] = [(x, False)]"
| "frames (x # y # xs) = (x, True) # frames (y # xs)"

lemma frames_snoc: "frames (xs @ [x]) = map (\<lambda>y. (y, True)) xs @ [(x, False)]"
proof (induction xs)
  case (Cons y xs)
  then show ?case by (cases "xs @ [x]") auto
qed simp

lemma send_ok [simp]:
  "send_results sock = [] \<Longrightarrow> send b f sock = (True, sock\<lparr>sent := sent sock @ [(b, SNDMORE f)]\<rparr>)"
  by (simp add: send_def)

lemma send_all_ok:
  "send_results sock = [] \<Longrightarrow>
   send_all is f sock = (True, sock\<lparr>sent := sent sock @ map (\<lambda>i. (i, SNDMORE f)) is\<rparr>)"
  by (induction "is" arbitrary: sock) auto

lemma SendEnvelope_ok:
  "send_results sock = [] \<Longrightarrow> serialize_for c e p = Some m \<Longrightarrow>
   SendEnvelope c e p f sock = (1, sock\<lparr>sent := sent sock @ [(m, SNDMORE f)]\<rparr>)"
  by (simp add: SendEnvelope_def)

lemma SendEnvelope_to_ok:
  "send_results sock = [] \<Longrightarrow> serialize_for c e p = Some m \<Longrightarrow>
   SendEnvelope_to c is e p f sock =
     (1, sock\<lparr>sent := sent sock @ map (\<lambda>i. (i, True)) is @ [([], True), (m, SNDMORE f)]\<rparr>)"
  by (simp add: SendEnvelope_to_def send_all_ok)

lemma receive_identities:
  "list_all (\<lambda>i. i \<noteq> []) is \<Longrightarrow>
   receive_loop True mc (map (\<lambda>i. (i, True)) is @ ([], m) # fs) =
     receive_loop False (mc\<lparr>identities := identities mc @ is\<rparr>) fs"
  by (induction "is" arbitrary: mc) (auto simp: AddIdentity_def)

lemma receive_messages:
  "list_all (\<lambda>m. m \<noteq> []) (ms @ [x]) \<Longrightarrow>
   receive_loop False mc (map (\<lambda>m. (m, True)) ms @ (x, False) # fs) =
     (True, mc\<lparr>mc_messages := mc_messages mc @ ms @ [x]\<rparr>, fs)"
  by (induction ms arbitrary: mc) (auto simp: AddMessage_part_def)

lemma receive_no_delimiter:
  "list_all (\<lambda>i. i \<noteq> []) (is @ [x]) \<Longrightarrow>
   receive_loop True mc (map (\<lambda>i. (i, True)) is @ (x, False) # fs) =
     (True, mc\<lparr>identities := identities mc @ is @ [x]\<rparr>, fs)"
  by (induction "is" arbitrary: mc) (auto simp: AddIdentity_def)

section \<open>Properties\<close>

text \<open>
  C39: an envelope that \<open>SendEnvelope\<close> sends with identities is received by \<open>ReceiveMessage\<close> with the
  same identities and the serialised envelope as the one payload, whatever frames follow it.
\<close>

theorem send_receive:
  assumes "send_results sock = []" "list_all (\<lambda>i. i \<noteq> []) is" "serialize_for c e p = Some m" "m \<noteq> []"
    "SendEnvelope_to c is e p no_flags sock = (r, sock')" "inbox peer = drop (length (sent sock)) (sent sock') @ later"
  shows "r = 1 \<and> ReceiveMessage peer =
    (True, \<lparr>identities = is, mc_messages = [m]\<rparr>, peer\<lparr>inbox := later\<rparr>)"
proof -
  have s: "r = 1" "sent sock' = sent sock @ map (\<lambda>i. (i, True)) is @ [([], True), (m, False)]"
    using assms(5) SendEnvelope_to_ok [OF assms(1,3), of "is" no_flags] by (auto simp: no_flags_def)
  then have "inbox peer = map (\<lambda>i. (i, True)) is @ ([], True) # (m, False) # later" using assms(6) by simp
  with s(1) receive_identities [OF assms(2)] receive_messages [of "[]" m] assms(4) show ?thesis
    by (simp add: ReceiveMessage_def empty_container_def)
qed

lemma send_receive_witness:
  "ReceiveMessage \<lparr>sent = [], send_results = [], inbox = [(''client'', True), ('''', True), ([CHR 0x01, CHR 0x5B], False)]\<rparr> =
    (True, \<lparr>identities = [''client''], mc_messages = [[CHR 0x01, CHR 0x5B]]\<rparr>, \<lparr>sent = [], send_results = [], inbox = []\<rparr>)"
proof -
  let ?e = "of_pb (empty_envelope\<lparr>message := [''''], message_ns := [1], message_ty := [91]\<rparr>)"
  let ?s = "\<lparr>sent = [], send_results = [], inbox = []\<rparr> :: socket"
  let ?p = "\<lparr>sent = [], send_results = [], inbox = [(''client'', True), ('''', True), ([CHR 0x01, CHR 0x5B], False)]\<rparr> :: socket"
  have m: "serialize_for sample_codec ?e True = Some [CHR 0x01, CHR 0x5B]"
    by (simp add: serialize_for_def ToProtocolZmqMessage_def of_pb_def) (simp add: char_of_def bit_0)
  obtain r s' where run: "SendEnvelope_to sample_codec [''client''] ?e True no_flags ?s = (r, s')" by fastforce
  have "inbox ?p = drop (length (sent ?s)) (sent s') @ []"
    using run SendEnvelope_to_ok [of ?s sample_codec ?e True, OF _ m, of "[''client'']" no_flags]
    by (auto simp: no_flags_def)
  from send_receive [OF _ _ m _ run this] show ?thesis by simp
qed

text \<open>
  The overload of \<open>SendEnvelope\<close> on a socket reference sends no empty delimiter, so the receiver
  takes the envelope for an identity and sees no payload at all.
\<close>

lemma send_without_delimiter:
  assumes "send_results sock = []" "serialize_for c e p = Some m" "m \<noteq> []"
    "SendEnvelope c e p no_flags sock = (r, sock')" "inbox peer = drop (length (sent sock)) (sent sock') @ later"
  shows "r = 1 \<and> ReceiveMessage peer = (True, \<lparr>identities = [m], mc_messages = []\<rparr>, peer\<lparr>inbox := later\<rparr>)"
proof -
  have "r = 1" "inbox peer = (m, False) # later"
    using assms SendEnvelope_ok [OF assms(1,2), of no_flags] by (auto simp: no_flags_def)
  with assms(3) show ?thesis by (simp add: ReceiveMessage_def empty_container_def AddIdentity_def)
qed

lemma send_without_delimiter_witness:
  "fst (snd (ReceiveMessage \<lparr>sent = [], send_results = [], inbox = [([CHR 0x5B], False)]\<rparr>)) = \<lparr>identities = [[CHR 0x5B]], mc_messages = []\<rparr>"
proof -
  let ?e = "of_pb (empty_envelope\<lparr>message := [''''], message_ns := [1], message_ty := [91]\<rparr>)"
  let ?s = "\<lparr>sent = [], send_results = [], inbox = []\<rparr> :: socket"
  let ?p = "\<lparr>sent = [], send_results = [], inbox = [([CHR 0x5B], False)]\<rparr> :: socket"
  have m: "serialize_for sample_codec ?e False = Some [CHR 0x5B]"
    by (simp add: serialize_for_def ToZmqMessage_def of_pb_def) (simp add: char_of_def bit_0)
  obtain r s' where run: "SendEnvelope sample_codec ?e False no_flags ?s = (r, s')" by fastforce
  have "inbox ?p = drop (length (sent ?s)) (sent s') @ []"
    using run SendEnvelope_ok [of ?s sample_codec ?e False, OF _ m, of no_flags] by (auto simp: no_flags_def)
  from send_without_delimiter [OF _ m _ run this] show ?thesis by simp
qed

text \<open>
  \<open>TransferMessage\<close> moves one whole multi-part message, empty parts included, unchanged and with
  its frame boundaries, and nothing behind it; when a send fails it stops with a part of it moved.
\<close>

lemma transfer_moves_message:
  assumes "inbox receiver = frames (ms @ [m]) @ later" "send_results sender = []"
  shows "TransferMessage receiver sender =
    (True, receiver\<lparr>inbox := later\<rparr>, sender\<lparr>sent := sent sender @ frames (ms @ [m])\<rparr>)"
proof -
  have "transfer_loop (map (\<lambda>y. (y, True)) ms @ (m, False) # later) sender =
      (True, later, sender\<lparr>sent := sent sender @ map (\<lambda>y. (y, True)) ms @ [(m, False)]\<rparr>)"
    using assms(2)
    by (induction ms arbitrary: sender) (auto simp: more_flag_def no_flags_def)
  with assms(1) show ?thesis by (simp add: TransferMessage_def frames_snoc)
qed

lemma transfer_moves_message_witness:
  "TransferMessage \<lparr>sent = [], send_results = [], inbox = [(''a'', True), ('''', True), (''b'', False), (''c'', False)]\<rparr>
      \<lparr>sent = [], send_results = [], inbox = []\<rparr> =
    (True, \<lparr>sent = [], send_results = [], inbox = [(''c'', False)]\<rparr>,
      \<lparr>sent = [(''a'', True), ('''', True), (''b'', False)], send_results = [], inbox = []\<rparr>)"
proof -
  let ?r = "\<lparr>sent = [], send_results = [], inbox = [(''a'', True), ('''', True), (''b'', False), (''c'', False)]\<rparr> :: socket"
  let ?s = "\<lparr>sent = [], send_results = [], inbox = []\<rparr> :: socket"
  have "inbox ?r = frames ([''a'', ''''] @ [''b'']) @ [(''c'', False)]" by simp
  from transfer_moves_message [OF this, of ?s] show ?thesis by simp
qed

end
