(* ===== verification/Device.thy ===== *)
theory Device
  imports Prelude
begin

text \<open>
  The result of a device's \<open>Pump\<close> (src/zippylog/device/device.cpp). The class has one bit, so that the
  results for work done and for no work done are the same object.
\<close>

record PumpResult =
  is_error :: bool

definition MakeError_pump :: PumpResult where
  "MakeError_pump = \<lparr>is_error = True\<rparr>"

definition MakeWorkDone :: PumpResult where
  "MakeWorkDone = \<lparr>is_error = False\<rparr>"

definition MakeNoWorkDone :: PumpResult where
  "MakeNoWorkDone = \<lparr>is_error = False\<rparr>"

end
