(* ===== verification/Store_Writer.thy ===== *)
theory Store_Writer
  imports Store_Write Zeromq Device
begin

text \<open>
  The store writer (src/zippylog/device/store_writer.cpp), a device that writes the envelopes it receives
  on two sockets to a store, and its client, the store writer sender (store_writer_sender.cpp).
\<close>

section \<open>Sockets of requests and replies\<close>

text \<open>
  A reply socket is a socket with a turn: it sends only when it owes the reply to a request, and receives
  only when it owes none; out of turn the library throws.
\<close>

record rep_socket =
  rep_sock :: socket
  owes :: bool

definition state_error :: exn where
  "state_error = RuntimeException ''Operation cannot be accomplished in current state''"

definition rep_send :: "string \<Rightarrow> (rep_socket, bool) action" where
  "rep_send bytes s =
     (if \<not> owes s then throw state_error s
      else (let (ok, sock) = send bytes no_flags (rep_sock s) in ret ok (s\<lparr>rep_sock := sock, owes := \<not> ok\<rparr>)))"

section \<open>The store writer\<close>

datatype ReceiveResult = OK | NO_MESSAGES | RECEIVE_ERROR

record store_writer =
  sw_store :: Store
  envelope_pull_sock :: "socket option"
  envelope_rep_sock :: "rep_socket option"

record store_writer_params =
  sw_active :: bool
  sw_store_path :: string
  envelope_pull_endpoint :: string
  envelope_rep_endpoint :: string

text \<open>\<open>new_sock\<close> is a socket just bound.\<close>

definition new_StoreWriter :: "FileType \<Rightarrow> filesystem \<Rightarrow> socket \<Rightarrow> store_writer_params \<Rightarrow> store_writer res" where
  "new_StoreWriter garbage fs new_sock p =
     (if \<not> sw_active p then Inl (InvalidArgument ''ConditionalWait parameter not defined'')
      else
        rbind (CreateStore garbage fs (sw_store_path p)) (\<lambda>store.
          Inr \<lparr>sw_store = store,
            envelope_pull_sock = (if length (envelope_pull_endpoint p) \<noteq> 0 then Some new_sock else None),
            envelope_rep_sock =
              (if length (envelope_rep_endpoint p) \<noteq> 0 then Some \<lparr>rep_sock = new_sock, owes = False\<rparr> else None)\<rparr>))"

definition delete_StoreWriter :: "store_writer \<Rightarrow> filesystem" where
  "delete_StoreWriter w = delete_Store (sw_store w)"

text \<open>A string made from a pointer into a frame ends at the first zero byte, which may lie behind the frame.\<close>

definition read_c_string :: "string \<Rightarrow> string res" where
  "read_c_string s = (if CHR 0x00 \<in> set s then Inr (c_str s) else Inl (Undefined ''read past the end of a frame''))"

fun write_payloads :: "store_ops \<Rightarrow> codec \<Rightarrow> int \<times> int \<Rightarrow> string \<Rightarrow> string \<Rightarrow> string list \<Rightarrow> (Store, bool) action" where
  "write_payloads V c tv bucket sset [] = ret True"
| "write_payloads V c tv bucket sset (data # ds) =
     andThen (Store_WriteEnvelope_data V c tv bucket sset data (- 1)) (\<lambda>ok.
       if ok then write_payloads V c tv bucket sset ds else ret False)"

definition write_message :: "store_ops \<Rightarrow> codec \<Rightarrow> int \<times> int \<Rightarrow> string list \<Rightarrow> (Store, ReceiveResult) action" where
  "write_message V c tv ms =
     (if length ms < 2 then ret RECEIVE_ERROR
      else if length (ms ! 0) < 1 then ret RECEIVE_ERROR
      else
        andThen (lift_res (read_c_string (ms ! 0))) (\<lambda>path.
          case parse_path path of
            None \<Rightarrow> ret RECEIVE_ERROR
          | Some (bucket, sset, stream) \<Rightarrow>
              if sset = [] then ret RECEIVE_ERROR
              else andThen (write_payloads V c tv bucket sset (tl ms)) (\<lambda>ok. ret (if ok then OK else RECEIVE_ERROR))))"

definition ReceiveAndWrite :: "store_ops \<Rightarrow> codec \<Rightarrow> int \<times> int \<Rightarrow> (Store \<times> socket, ReceiveResult) action" where
  "ReceiveAndWrite V c tv x =
     (case x of (s, sock) \<Rightarrow>
        let (ok, mc, sock) = ReceiveMessage sock in
        if \<not> ok then (Inr NO_MESSAGES, (s, sock))
        else (let (r, s) = write_message V c tv (mc_messages mc) s in (r, (s, sock))))"

lemma receive_loop_shorter:
  "receive_loop b mc fs = (True, mc', later) \<Longrightarrow> length later < length fs"
proof (induction b mc fs rule: receive_loop.induct)
  case (2 b mc msg more fs)
  then show ?case by (cases b; cases more; cases "length msg = 0") (auto simp: Let_def)
qed simp

lemma ReceiveAndWrite_shorter:
  assumes "ReceiveAndWrite V c tv (s, sock) = (Inr r, (s', sock'))" "r \<noteq> NO_MESSAGES"
  shows "length (inbox sock') < length (inbox sock)"
proof -
  obtain ok mc later where l: "receive_loop True empty_container (inbox sock) = (ok, mc, later)"
    by (cases "receive_loop True empty_container (inbox sock)")
  then have "ReceiveMessage sock = (ok, mc, sock\<lparr>inbox := later\<rparr>)" by (simp add: ReceiveMessage_def)
  with assms have "ok \<and> sock' = sock\<lparr>inbox := later\<rparr>"
    by (cases ok; cases "write_message V c tv (mc_messages mc) s") (auto simp: ReceiveAndWrite_def)
  with l receive_loop_shorter show ?thesis by auto
qed

text \<open>The loop over the waiting messages of the pull socket; every round takes frames from it.\<close>

function pull_loop :: "store_ops \<Rightarrow> codec \<Rightarrow> int \<times> int \<Rightarrow> Store \<times> socket \<Rightarrow> bool res \<times> Store \<times> socket" where
  "pull_loop V c tv x =
     (case ReceiveAndWrite V c tv x of
        (Inl e, y) \<Rightarrow> (Inl e, y)
      | (Inr OK, y) \<Rightarrow> pull_loop V c tv y
      | (Inr RECEIVE_ERROR, y) \<Rightarrow> (Inr False, y)
      | (Inr NO_MESSAGES, y) \<Rightarrow> (Inr True, y))"
  by pat_completeness auto
termination
  by (relation "measure (\<lambda>(V, c, tv, s, sock). length (inbox sock))") (auto dest!: sym [of "(Inr OK, _)"] ReceiveAndWrite_shorter)

declare pull_loop.simps [simp del]

definition ProcessEnvelopePull :: "store_ops \<Rightarrow> codec \<Rightarrow> int \<times> int \<Rightarrow> socket \<Rightarrow> (store_writer, bool) action" where
  "ProcessEnvelopePull V c tv sock w =
     (let (r, s, sock) = pull_loop V c tv (sw_store w, sock) in
      (r, w\<lparr>sw_store := s, envelope_pull_sock := Some sock\<rparr>))"

text \<open>The same loop for requests, which also answers each: an empty reply, or the error.\<close>

definition rep_receive :: "store_ops \<Rightarrow> codec \<Rightarrow> int \<times> int \<Rightarrow> (Store \<times> rep_socket, ReceiveResult) action" where
  "rep_receive V c tv x =
     (case x of (s, rs) \<Rightarrow>
        if owes rs then throw state_error x
        else
          (case ReceiveAndWrite V c tv (s, rep_sock rs) of
             (r, (s, sock)) \<Rightarrow> (r, (s, rs\<lparr>rep_sock := sock, owes := r \<noteq> Inr NO_MESSAGES\<rparr>))))"

definition send_reply :: "string \<Rightarrow> (Store \<times> rep_socket, unit) action" where
  "send_reply bytes x = (case x of (s, rs) \<Rightarrow> (case rep_send bytes rs of (Inl e, rs) \<Rightarrow> (Inl e, (s, rs)) | (Inr _, rs) \<Rightarrow> (Inr (), (s, rs))))"

lemma rep_receive_shorter:
  assumes "rep_receive V c tv (s, rs) = (Inr r, (s', rs'))" "r \<noteq> NO_MESSAGES"
  shows "length (inbox (rep_sock rs')) < length (inbox (rep_sock rs))"
proof -
  obtain z t sock where r: "ReceiveAndWrite V c tv (s, rep_sock rs) = (z, (t, sock))" by (cases "ReceiveAndWrite V c tv (s, rep_sock rs)")
  with assms have "z = Inr r \<and> rep_sock rs' = sock" by (auto simp: rep_receive_def split: if_splits)
  with ReceiveAndWrite_shorter [of V c tv s "rep_sock rs" r t sock] r assms(2) show ?thesis by simp
qed

lemma send_reply_keeps: "send_reply b (s, rs) = (r, (s', rs')) \<Longrightarrow> inbox (rep_sock rs') = inbox (rep_sock rs)"
  by (auto simp: send_reply_def rep_send_def send_def split: if_splits list.splits prod.splits sum.splits)

lemma rep_decreases:
  assumes "rep_receive V c tv (s, rs) = (Inr OK, (s', rs'))" "send_reply [] (s', rs') = (Inr u, (s'', rs''))"
  shows "length (inbox (rep_sock rs'')) < length (inbox (rep_sock rs))"
  using rep_receive_shorter [OF assms(1)] send_reply_keeps [OF assms(2)] by simp

text \<open>The reply is sent after every round but an erroneous one, so also after the round that found nothing.\<close>

function rep_loop :: "store_ops \<Rightarrow> codec \<Rightarrow> int \<times> int \<Rightarrow> Store \<times> rep_socket \<Rightarrow> bool res \<times> Store \<times> rep_socket" where
  "rep_loop V c tv x =
     (case rep_receive V c tv x of
        (Inl e, y) \<Rightarrow> (Inl e, y)
      | (Inr RECEIVE_ERROR, y) \<Rightarrow>
          (case send_reply ''unknown error'' y of (Inl e, y) \<Rightarrow> (Inl e, y) | (Inr _, y) \<Rightarrow> (Inr False, y))
      | (Inr OK, y) \<Rightarrow>
          (case send_reply [] y of (Inl e, y) \<Rightarrow> (Inl e, y) | (Inr _, y) \<Rightarrow> rep_loop V c tv y)
      | (Inr NO_MESSAGES, y) \<Rightarrow>
          (case send_reply [] y of (Inl e, y) \<Rightarrow> (Inl e, y) | (Inr _, y) \<Rightarrow> (Inr True, y)))"
  by pat_completeness auto
termination
  by (relation "measure (\<lambda>(V, c, tv, s, rs). length (inbox (rep_sock rs)))") (auto intro: rep_decreases [OF sym sym])

declare rep_loop.simps [simp del]

definition ProcessEnvelopeRep :: "store_ops \<Rightarrow> codec \<Rightarrow> int \<times> int \<Rightarrow> rep_socket \<Rightarrow> (store_writer, bool) action" where
  "ProcessEnvelopeRep V c tv rs w =
     (let (r, s, rs) = rep_loop V c tv (sw_store w, rs) in
      (r, w\<lparr>sw_store := s, envelope_rep_sock := Some rs\<rparr>))"

text \<open>What \<open>poll\<close> reports: a pull socket with frames, a reply socket with a request it may receive.\<close>

definition pull_ready :: "store_writer \<Rightarrow> socket option" where
  "pull_ready w = (case envelope_pull_sock w of None \<Rightarrow> None | Some s \<Rightarrow> if inbox s = [] then None else Some s)"

definition rep_ready :: "store_writer \<Rightarrow> rep_socket option" where
  "rep_ready w =
     (case envelope_rep_sock w of None \<Rightarrow> None | Some rs \<Rightarrow> if inbox (rep_sock rs) = [] \<or> owes rs then None else Some rs)"

definition process_ready :: "('s \<Rightarrow> (store_writer, bool) action) \<Rightarrow> 's option \<Rightarrow> (store_writer, PumpResult) action \<Rightarrow> (store_writer, PumpResult) action" where
  "process_ready f ready next =
     (case ready of
        None \<Rightarrow> next
      | Some s \<Rightarrow> andThen (f s) (\<lambda>ok. if \<not> ok then ret MakeError_pump else next))"

definition StoreWriter_Pump :: "store_ops \<Rightarrow> codec \<Rightarrow> int \<times> int \<Rightarrow> (store_writer, PumpResult) action" where
  "StoreWriter_Pump V c tv w =
     (if pull_ready w = None \<and> rep_ready w = None then ret MakeNoWorkDone w
      else
        process_ready (ProcessEnvelopePull V c tv) (pull_ready w)
        (process_ready (ProcessEnvelopeRep V c tv) (rep_ready w)
        (ret MakeWorkDone)) w)"

section \<open>The sender\<close>

record store_writer_sender =
  sender_pull_sock :: "socket option"
  sender_rep_sock :: "socket option"

definition new_StoreWriterSender :: "socket \<Rightarrow> string \<Rightarrow> string \<Rightarrow> store_writer_sender" where
  "new_StoreWriterSender new_sock pull_endpoint rep_endpoint =
     \<lparr>sender_pull_sock = (if length pull_endpoint \<noteq> 0 then Some new_sock else None),
      sender_rep_sock = (if length rep_endpoint \<noteq> 0 then Some new_sock else None)\<rparr>"

definition DeliverEnvelope :: "codec \<Rightarrow> string \<Rightarrow> string \<Rightarrow> Envelope \<Rightarrow> (store_writer_sender, bool) action" where
  "DeliverEnvelope c bucket sset e w =
     (case sender_pull_sock w of
        None \<Rightarrow> throw (RuntimeException ''can not deliver envelopes since the pull socket is not configured'') w
      | Some sock \<Rightarrow>
          let (ok, sock) = send (StreamsetPath bucket sset) more_flag sock in
          if \<not> ok then ret False (w\<lparr>sender_pull_sock := Some sock\<rparr>)
          else
            let (r, sock) = SendEnvelope c e False no_flags sock in
            ret (r \<noteq> 0) (w\<lparr>sender_pull_sock := Some sock\<rparr>))"

text \<open>
  The request socket: \<open>answer\<close> gives the frames that come back for the frames sent. When the envelope is
  not sent because it cannot be serialised, the request is not complete and receiving is out of turn.
  Without an answer the receive waits for ever; when the answer ends with an empty frame, which does not
  end the loop of \<open>ReceiveMessage\<close>, the next receive is out of turn.
\<close>

definition WriteEnvelope_request ::
  "codec \<Rightarrow> ((string \<times> bool) list \<Rightarrow> (string \<times> bool) list) \<Rightarrow> string \<Rightarrow> string \<Rightarrow> Envelope \<Rightarrow> (store_writer_sender, bool) action" where
  "WriteEnvelope_request c answer bucket sset e w =
     (case sender_rep_sock w of
        None \<Rightarrow> throw (RuntimeException ''can not deliver envelopes since the rep sock is not configured'') w
      | Some sock \<Rightarrow>
          let before = length (sent sock); (ok, sock) = send (StreamsetPath bucket sset) more_flag sock in
          if \<not> ok then ret False (w\<lparr>sender_rep_sock := Some sock\<rparr>)
          else
            let (r, sock) = SendEnvelope c e False no_flags sock in
            if r = 0 then ret False (w\<lparr>sender_rep_sock := Some sock\<rparr>)
            else if r < 0 then throw state_error (w\<lparr>sender_rep_sock := Some sock\<rparr>)
            else
              let sock = sock\<lparr>inbox := inbox sock @ answer (drop before (sent sock))\<rparr>; answered = (inbox sock \<noteq> []);
                  (ok, mc, sock) = ReceiveMessage sock; w = w\<lparr>sender_rep_sock := Some sock\<rparr> in
              if \<not> ok then throw (if answered then state_error else Blocked) w
              else if length (mc_messages mc) < 1 \<or> length (mc_messages mc ! 0) \<noteq> 0 \<or> length (mc_messages mc) > 1
              then ret False w
              else ret True w)"

section \<open>Writing the payloads of a message\<close>

definition data_record :: "codec \<Rightarrow> string \<Rightarrow> string" where
  "data_record c data = WriteVarint32 c (word_of_nat (length data)) @ data"

text \<open>The contents of a stream after a write to it: a new stream begins with the version.\<close>

definition begun :: "string \<Rightarrow> string" where
  "begun x = (if x = [] then [CHR 0x01] else x)"

lemma begun_simps [simp]: "begun x \<noteq> []" "begun (begun x @ y) = begun x @ y"
  by (simp_all add: begun_def)

lemma WriteEnvelope_data_step:
  obtains a o' where "WriteEnvelope_data c data os fs = (True, o', sys_append (os_fd os) a fs)" "os_fd o' = os_fd os"
    "a @ buffered o' = buffered os @ data_record c data"
proof -
  let ?b1 = "buffered os @ WriteVarint32 c (word_of_nat (length data))"
  let ?b2 = "drop (Spill c ?b1) ?b1 @ data"
  have "WriteEnvelope_data c data os fs = (True, os\<lparr>buffered := drop (Spill c ?b2) ?b2\<rparr>,
      sys_append (os_fd os) (take (Spill c ?b1) ?b1 @ take (Spill c ?b2) ?b2) fs)"
    by (simp add: WriteEnvelope_data_def WriteRaw_def Let_def sys_append_append del: take_append drop_append)
  moreover have "(take (Spill c ?b1) ?b1 @ take (Spill c ?b2) ?b2) @ drop (Spill c ?b2) ?b2 = buffered os @ data_record c data"
    by (simp add: data_record_def del: take_append drop_append)
  ultimately show thesis using that [of "os\<lparr>buffered := drop (Spill c ?b2) ?b2\<rparr>"] by simp
qed

lemma open_place:
  assumes "sds_inv s" "node_at (files s) (stream_file s b t n) = Some (Reg y)"
  shows "writable_place s b t n"
proof -
  have wf: "wf_fs (files s)" using assms(1) by (simp add: sds_inv_def)
  have "node_at (files s) (root_components s @ [b, t]) = Some Dir"
    using node_parent [OF wf, of "root_components s @ [b, t]" "n @ extension"] assms(2) by (simp add: stream_file_def)
  moreover from this have "node_at (files s) (root_components s @ [b]) = Some Dir"
    using node_parent [OF wf, of "root_components s @ [b]" t] by simp
  moreover from this have "node_at (files s) (root_components s) = Some Dir"
    using node_parent [OF wf] by simp
  ultimately show ?thesis using assms(2) by (simp add: writable_place_def)
qed

text \<open>What a store is to a writer of the stream \<open>n\<close> of \<open>b\<close> and \<open>t\<close>, and the effect of writing \<open>x\<close> to it.\<close>

definition writer_ready :: "Store \<Rightarrow> string \<Rightarrow> string \<Rightarrow> string \<Rightarrow> bool" where
  "writer_ready s b t n \<longleftrightarrow> sds_inv s \<and> streams_ok s \<and> writable_place s b t n"

definition extends_stream :: "string \<Rightarrow> string \<Rightarrow> string \<Rightarrow> string \<Rightarrow> Store \<Rightarrow> Store \<Rightarrow> bool" where
  "extends_stream b t n x s s' \<longleftrightarrow> content s' b t n = begun (content s b t n) @ x \<and>
     (\<forall>b' t' n'. is_name b' \<and> is_name t' \<and> is_name n' \<and> (b', t', n') \<noteq> (b, t, n) \<longrightarrow> content s' b' t' n' = content s b' t' n')"

lemma extends_trans: "extends_stream b t n x s s1 \<Longrightarrow> extends_stream b t n y s1 s2 \<Longrightarrow> extends_stream b t n (x @ y) s s2"
  by (auto simp: extends_stream_def)

lemma data_written:
  assumes "writer_ready s b t n" "is_name b" "is_name t" "n = hour_stream tv (- 1)"
  obtains s' where "Store_WriteEnvelope_data (sds_ops c) c tv b t data (- 1) s = (Inr True, s')" "writer_ready s' b t n"
    "extends_stream b t n (data_record c data) s s'"
proof -
  have r: "sds_inv s" "streams_ok s" "writable_place s b t n" using assms(1) by (simp_all add: writer_ready_def)
  have n: "is_name n" using assms(4) hour_stream_name by simp
  obtain s1 os where o: "ObtainOutputStream (sds_ops c) tv b t 3600 (- 1) s = (Inr (Some (StreamPath b t n)), s1)"
    "sds_inv s1" "streams_ok s1" "map_of (out_streams s1) (StreamPath b t n) = Some os"
    "content s1 b t n = begun (content s b t n)"
    "\<And>b' t' n'. \<lbrakk>is_name b'; is_name t'; is_name n'; (b', t', n') \<noteq> (b, t, n)\<rbrakk> \<Longrightarrow> content s1 b' t' n' = content s b' t' n'"
    using ObtainOutputStream_ok [OF r(1,2) assms(2-4) r(3), of c] unfolding begun_def by metis
  obtain y where fd: "os_fd (os_stream os) = stream_file s1 b t n"
    using open_stream [OF o(3,4) assms(2,3) n] by blast
  obtain a o' where w: "WriteEnvelope_data c data (os_stream os) (files s1) =
      (True, o', sys_append (stream_file s1 b t n) a (files s1))" "os_fd o' = stream_file s1 b t n"
      "a @ buffered o' = buffered (os_stream os) @ data_record c data"
    using WriteEnvelope_data_step [of c data "os_stream os" "files s1"] fd by metis
  obtain s2 where s2: "on_stream (StreamPath b t n) (WriteEnvelope_data c data) s1 = (Inr True, s2)" "sds_inv s2" "streams_ok s2"
    "content s2 b t n = content s1 b t n @ data_record c data" "map_of (out_streams s2) (StreamPath b t n) = Some (os\<lparr>os_stream := o'\<rparr>)"
    "\<And>b' t' n'. \<lbrakk>is_name b'; is_name t'; is_name n'; (b', t', n') \<noteq> (b, t, n)\<rbrakk> \<Longrightarrow> content s2 b' t' n' = content s1 b' t' n'"
    using on_stream_write [where f = "WriteEnvelope_data c data", OF o(2,3) assms(2,3) n o(4) w] by metis
  obtain z where "node_at (files s2) (stream_file s2 b t n) = Some (Reg z)"
    using open_stream [OF s2(3,5) assms(2,3) n] by blast
  with s2 have "writer_ready s2 b t n" using open_place by (simp add: writer_ready_def)
  moreover have "Store_WriteEnvelope_data (sds_ops c) c tv b t data (- 1) s = (Inr True, s2)"
    using o(1) s2(1) by (simp add: Store_WriteEnvelope_data_def andThen_Inr)
  ultimately show thesis using o s2 by (intro that [of s2]) (simp_all add: extends_stream_def)
qed

lemma payloads_written:
  assumes "is_name b" "is_name t" "n = hour_stream tv (- 1)"
  shows "writer_ready s b t n \<Longrightarrow> ds \<noteq> [] \<Longrightarrow> \<exists>s'. write_payloads (sds_ops c) c tv b t ds s = (Inr True, s') \<and>
    writer_ready s' b t n \<and> extends_stream b t n (concat (map (data_record c) ds)) s s'"
proof (induction ds arbitrary: s)
  case (Cons d ds)
  obtain s1 where s1: "Store_WriteEnvelope_data (sds_ops c) c tv b t d (- 1) s = (Inr True, s1)" "writer_ready s1 b t n"
    "extends_stream b t n (data_record c d) s s1" using data_written [OF Cons.prems(1) assms] by metis
  show ?case
  proof (cases "ds = []")
    case True
    with s1 show ?thesis by (simp add: andThen_Inr)
  next
    case False
    from Cons.IH [OF s1(2) False] obtain s' where "write_payloads (sds_ops c) c tv b t ds s1 = (Inr True, s')"
      "writer_ready s' b t n" "extends_stream b t n (concat (map (data_record c) ds)) s1 s'" by blast
    with s1 extends_trans [OF s1(3)] show ?thesis by (simp add: andThen_Inr)
  qed
qed simp

lemma parse_streamset: "is_name b \<Longrightarrow> is_name t \<Longrightarrow> parse_path (StreamsetPath b t) = Some (b, t, [])"
  using path_denotes.sset by (simp add: parse_path_iff)

lemma name_no_zero: "is_name x \<Longrightarrow> CHR 0x00 \<notin> set x"
  by (auto simp: is_name_def list_all_iff name_char_def char_value_def)

lemma streamset_c_str:
  assumes "is_name b" "is_name t"
  shows "c_str (StreamsetPath b t @ CHR 0x00 # junk) = StreamsetPath b t"
proof -
  have "\<forall>x \<in> set (StreamsetPath b t). x \<noteq> CHR 0x00"
    using name_no_zero [OF assms(1)] name_no_zero [OF assms(2)] by (auto simp: StreamsetPath_def BucketPath_def)
  then show ?thesis by (simp add: c_str_def)
qed

lemma message_written:
  assumes "writer_ready s b t n" "is_name b" "is_name t" "n = hour_stream tv (- 1)" "ds \<noteq> []"
  shows "\<exists>s'. write_message (sds_ops c) c tv ((StreamsetPath b t @ CHR 0x00 # junk) # ds) s = (Inr OK, s') \<and>
    writer_ready s' b t n \<and> extends_stream b t n (concat (map (data_record c) ds)) s s'"
proof -
  obtain s' where s': "write_payloads (sds_ops c) c tv b t ds s = (Inr True, s')" "writer_ready s' b t n"
    "extends_stream b t n (concat (map (data_record c) ds)) s s'" using payloads_written [OF assms(2-4,1,5)] by blast
  have "read_c_string (StreamsetPath b t @ CHR 0x00 # junk) = Inr (StreamsetPath b t)"
    using streamset_c_str [OF assms(2,3)] by (simp add: read_c_string_def)
  moreover have "length ds \<noteq> 0" using assms(5) by simp
  ultimately show ?thesis
    using s' parse_streamset [OF assms(2,3)] is_name_nonempty [OF assms(3)]
    by (simp add: write_message_def andThen_Inr Suc_le_eq flip: length_greater_0_conv)
qed

text \<open>The frames of a message for the writer: identities, the delimiter, the path and the payloads.\<close>

definition write_frames :: "string list \<Rightarrow> string \<Rightarrow> string list \<Rightarrow> (string \<times> bool) list" where
  "write_frames ids path ds = map (\<lambda>i. (i, True)) ids @ ([], True) # frames (path # ds)"

lemma frames_cons: "ds \<noteq> [] \<Longrightarrow> frames (p # ds) = (p, True) # frames ds"
  by (cases ds) simp_all

lemma receive_frames:
  assumes "list_all (\<lambda>m. m \<noteq> []) ms" "ms \<noteq> []"
  shows "receive_loop False mc (frames ms) = (True, mc\<lparr>mc_messages := mc_messages mc @ ms\<rparr>, [])"
proof -
  obtain xs x where ms: "ms = xs @ [x]" using assms(2) by (metis append_butlast_last_id)
  from receive_messages [of xs x mc "[]"] assms(1) show ?thesis by (simp add: ms frames_snoc)
qed

lemma receive_write_frames:
  assumes "list_all (\<lambda>i. i \<noteq> []) ids" "list_all (\<lambda>d. d \<noteq> []) (path # ds)" "inbox sock = write_frames ids path ds"
  shows "ReceiveMessage sock = (True, \<lparr>identities = ids, mc_messages = path # ds\<rparr>, sock\<lparr>inbox := []\<rparr>)"
  using receive_identities [OF assms(1)] receive_frames [OF assms(2)] assms(3)
  by (simp add: ReceiveMessage_def write_frames_def empty_container_def)

lemma ReceiveMessage_none: "inbox sock = [] \<Longrightarrow> ReceiveMessage sock = (False, empty_container, sock)"
  by (simp add: ReceiveMessage_def)

lemma ReceiveAndWrite_none: "inbox sock = [] \<Longrightarrow> ReceiveAndWrite V c tv (s, sock) = (Inr NO_MESSAGES, (s, sock))"
  by (simp add: ReceiveAndWrite_def ReceiveMessage_none)

section \<open>Properties\<close>

text \<open>
  C4: a well-formed message on the pull socket, with a delimiter and with the path of a stream set that
  ends in a zero byte, appends its payloads in order, each with its size, to the current stream of that
  stream set, which is begun if it is new; no other stream changes. On the socket of requests the same
  is written, the request is answered, and then the device throws, because it answers a second time.
\<close>

theorem store_writer_writes:
  assumes "writer_ready (sw_store w) b t (hour_stream tv (- 1))" "is_name b" "is_name t"
    "list_all (\<lambda>i. i \<noteq> []) ids" "list_all (\<lambda>d. d \<noteq> []) ds" "ds \<noteq> []"
    "inbox sock = write_frames ids (StreamsetPath b t @ CHR 0x00 # junk) ds" "send_results sock = []"
  shows "\<exists>s. writer_ready s b t (hour_stream tv (- 1)) \<and>
    extends_stream b t (hour_stream tv (- 1)) (concat (map (data_record c) ds)) (sw_store w) s \<and>
    ProcessEnvelopePull (sds_ops c) c tv sock w =
      (Inr True, w\<lparr>sw_store := s, envelope_pull_sock := Some (sock\<lparr>inbox := []\<rparr>)\<rparr>) \<and>
    ProcessEnvelopeRep (sds_ops c) c tv \<lparr>rep_sock = sock, owes = False\<rparr> w =
      (Inl state_error, w\<lparr>sw_store := s,
         envelope_rep_sock := Some \<lparr>rep_sock = sock\<lparr>inbox := [], sent := sent sock @ [([], False)]\<rparr>, owes = False\<rparr>\<rparr>)"
proof -
  let ?n = "hour_stream tv (- 1)" and ?sock = "sock\<lparr>inbox := []\<rparr>" and ?p = "StreamsetPath b t @ CHR 0x00 # junk"
  obtain s where s: "write_message (sds_ops c) c tv (?p # ds) (sw_store w) = (Inr OK, s)" "writer_ready s b t ?n"
    "extends_stream b t ?n (concat (map (data_record c) ds)) (sw_store w) s"
    using message_written [OF assms(1-3) refl assms(6)] by blast
  have "ReceiveMessage sock = (True, \<lparr>identities = ids, mc_messages = ?p # ds\<rparr>, ?sock)"
    using receive_write_frames [OF assms(4) _ assms(7)] assms(5) by simp
  then have once: "ReceiveAndWrite (sds_ops c) c tv (sw_store w, sock) = (Inr OK, (s, ?sock))"
    using s(1) by (simp add: ReceiveAndWrite_def)
  have "pull_loop (sds_ops c) c tv (sw_store w, sock) = (Inr True, s, ?sock)"
    using once ReceiveAndWrite_none [of ?sock "sds_ops c" c tv s] by (subst pull_loop.simps, simp, subst pull_loop.simps, simp)
  then have pull: "ProcessEnvelopePull (sds_ops c) c tv sock w = (Inr True, w\<lparr>sw_store := s, envelope_pull_sock := Some ?sock\<rparr>)"
    by (simp add: ProcessEnvelopePull_def)
  let ?rs = "\<lparr>rep_sock = ?sock\<lparr>sent := sent sock @ [([], False)]\<rparr>, owes = False\<rparr>"
  have r1: "rep_receive (sds_ops c) c tv (sw_store w, \<lparr>rep_sock = sock, owes = False\<rparr>) = (Inr OK, (s, \<lparr>rep_sock = ?sock, owes = True\<rparr>))"
    using once by (simp add: rep_receive_def)
  have r2: "send_reply [] (s, \<lparr>rep_sock = ?sock, owes = True\<rparr>) = (Inr (), (s, ?rs))"
    using assms(8) by (simp add: send_reply_def rep_send_def send_def no_flags_def)
  have r3: "rep_receive (sds_ops c) c tv (s, ?rs) = (Inr NO_MESSAGES, (s, ?rs))"
    using ReceiveAndWrite_none [of "rep_sock ?rs" "sds_ops c" c tv s] by (simp add: rep_receive_def)
  have r4: "send_reply [] (s, ?rs) = (Inl state_error, (s, ?rs))" by (simp add: send_reply_def rep_send_def)
  have "rep_loop (sds_ops c) c tv (sw_store w, \<lparr>rep_sock = sock, owes = False\<rparr>) = (Inl state_error, s, ?rs)"
    by (subst rep_loop.simps, simp add: r1 r2, subst rep_loop.simps, simp add: r3 r4)
  then have "ProcessEnvelopeRep (sds_ops c) c tv \<lparr>rep_sock = sock, owes = False\<rparr> w =
      (Inl state_error, w\<lparr>sw_store := s, envelope_rep_sock := Some ?rs\<rparr>)"
    by (simp add: ProcessEnvelopeRep_def)
  with pull s show ?thesis by auto
qed

lemma sample_writer_ready: "writer_ready sample_store ''b'' ''s'' (hour_stream (0, 0) (- 1))"
  using sample_store_inv sample_streams_ok sample_place [OF hour_stream_name] by (simp add: writer_ready_def)

definition sample_writer :: store_writer where
  "sample_writer = \<lparr>sw_store = sample_store, envelope_pull_sock = None, envelope_rep_sock = None\<rparr>"

lemma store_writer_writes_witness:
  "\<exists>s. ProcessEnvelopePull (sds_ops sample_codec) sample_codec (0, 0)
       \<lparr>sent = [], send_results = [], inbox = write_frames [] (''/b/s'' @ [CHR 0x00]) [''a'', ''bc'']\<rparr> sample_writer =
     (Inr True, sample_writer\<lparr>sw_store := s, envelope_pull_sock := Some \<lparr>sent = [], send_results = [], inbox = []\<rparr>\<rparr>) \<and>
     content s ''b'' ''s'' (hour_stream (0, 0) (- 1)) =
       begun (content sample_store ''b'' ''s'' (hour_stream (0, 0) (- 1))) @ [char_of (1 :: nat), CHR ''a'', char_of (2 :: nat), CHR ''b'', CHR ''c'']"
proof -
  let ?sock = "\<lparr>sent = [], send_results = [], inbox = write_frames [] (''/b/s'' @ [CHR 0x00]) [''a'', ''bc'']\<rparr>"
  have p: "StreamsetPath ''b'' ''s'' @ [CHR 0x00] = ''/b/s'' @ [CHR 0x00]" by (simp add: StreamsetPath_def BucketPath_def)
  have ready: "writer_ready (sw_store sample_writer) ''b'' ''s'' (hour_stream (0, 0) (- 1))"
    using sample_writer_ready by (simp add: sample_writer_def)
  have d: "concat (map (data_record sample_codec) [''a'', ''bc'']) =
      [char_of (1 :: nat), CHR ''a'', char_of (2 :: nat), CHR ''b'', CHR ''c'']"
    by (simp add: data_record_def sample_codec_def)
  have h: "list_all (\<lambda>i. i \<noteq> []) []" "list_all (\<lambda>d. d \<noteq> []) [''a'', ''bc'']" "[''a'', ''bc''] \<noteq> []" by simp_all
  have i: "inbox ?sock = write_frames [] (StreamsetPath ''b'' ''s'' @ [CHR 0x00]) [''a'', ''bc'']" "send_results ?sock = []"
    unfolding p by simp_all
  obtain s where s: "extends_stream ''b'' ''s'' (hour_stream (0, 0) (- 1)) (concat (map (data_record sample_codec) [''a'', ''bc''])) (sw_store sample_writer) s"
    "ProcessEnvelopePull (sds_ops sample_codec) sample_codec (0, 0) ?sock sample_writer =
      (Inr True, sample_writer\<lparr>sw_store := s, envelope_pull_sock := Some (?sock\<lparr>inbox := []\<rparr>)\<rparr>)"
    using store_writer_writes [OF ready sample_names(1,2) h i, of sample_codec] by blast
  from s show ?thesis unfolding d by (intro exI [of _ s]) (simp add: extends_stream_def sample_writer_def)
qed

text \<open>The frames the sender has put on a socket.\<close>

definition frames_put :: "socket \<Rightarrow> socket \<Rightarrow> (string \<times> bool) list" where
  "frames_put before after = drop (length (sent before)) (sent after)"

text \<open>What the writer answers on its socket of requests to the given frames.\<close>

definition writer_answer ::
  "store_ops \<Rightarrow> codec \<Rightarrow> int \<times> int \<Rightarrow> store_writer \<Rightarrow> rep_socket \<Rightarrow> (string \<times> bool) list \<Rightarrow> (string \<times> bool) list" where
  "writer_answer V c tv w rs fs =
     (case envelope_rep_sock (snd (ProcessEnvelopeRep V c tv (rs\<lparr>rep_sock := (rep_sock rs)\<lparr>inbox := fs\<rparr>\<rparr>) w)) of
        None \<Rightarrow> []
      | Some rs' \<Rightarrow> frames_put (rep_sock rs) (rep_sock rs'))"

lemma identities_only:
  assumes "p \<noteq> []" "m \<noteq> []" "inbox sock = [(p, True), (m, False)]"
  shows "ReceiveAndWrite V c tv (s, sock) = (Inr RECEIVE_ERROR, (s, sock\<lparr>inbox := []\<rparr>))"
  using assms by (simp add: ReceiveAndWrite_def ReceiveMessage_def empty_container_def AddIdentity_def write_message_def Let_def)

lemma streamset_path_nonempty: "StreamsetPath b t \<noteq> []"
  by (simp add: StreamsetPath_def BucketPath_def)

text \<open>
  C24: the sender and the writer do not understand each other: what the sender puts on either socket has
  no delimiter, so that the writer takes the path and the envelope for identities and writes nothing.
  On the pull socket the writer's pump reports an error while the sender has reported success; on the
  socket of requests the answer is the error, which the sender in turn takes for an identity.
\<close>

theorem sender_not_understood:
  assumes "send_results sock = []" "serialize_for c e False = Some m" "m \<noteq> []" "send_results (rep_sock rs) = []" "\<not> owes rs"
    "inbox sock = []"
  shows "\<exists>sock'. DeliverEnvelope c b t e \<lparr>sender_pull_sock = Some sock, sender_rep_sock = x\<rparr> =
       (Inr True, \<lparr>sender_pull_sock = Some sock', sender_rep_sock = x\<rparr>) \<and>
     (\<forall>pull. inbox pull = frames_put sock sock' \<longrightarrow> envelope_rep_sock w = None \<longrightarrow>
        StoreWriter_Pump V c tv (w\<lparr>envelope_pull_sock := Some pull\<rparr>) =
          (Inr MakeError_pump, w\<lparr>envelope_pull_sock := Some (pull\<lparr>inbox := []\<rparr>)\<rparr>)) \<and>
     fst (WriteEnvelope_request c (writer_answer V c tv w rs) b t e \<lparr>sender_pull_sock = y, sender_rep_sock = Some sock\<rparr>) = Inr False \<and>
     sw_store (snd (ProcessEnvelopeRep V c tv (rs\<lparr>rep_sock := (rep_sock rs)\<lparr>inbox := frames_put sock sock'\<rparr>\<rparr>) w)) = sw_store w"
proof -
  let ?p = "StreamsetPath b t"
  let ?sock = "sock\<lparr>sent := sent sock @ [(?p, True), (m, False)]\<rparr>" and ?fs = "[(?p, True), (m, False)]"
  have send: "send ?p more_flag sock = (True, sock\<lparr>sent := sent sock @ [(?p, True)]\<rparr>)"
    using assms(1) by (simp add: send_def more_flag_def)
  have env: "SendEnvelope c e False no_flags (sock\<lparr>sent := sent sock @ [(?p, True)]\<rparr>) = (1, ?sock)"
    using SendEnvelope_ok [OF _ assms(2), of "sock\<lparr>sent := sent sock @ [(?p, True)]\<rparr>"] assms(1) by (simp add: no_flags_def)
  have fs: "frames_put sock ?sock = ?fs" by (simp add: frames_put_def)
  have deliver: "DeliverEnvelope c b t e \<lparr>sender_pull_sock = Some sock, sender_rep_sock = x\<rparr> =
      (Inr True, \<lparr>sender_pull_sock = Some ?sock, sender_rep_sock = x\<rparr>)"
    by (simp add: DeliverEnvelope_def send env)
  have pump: "StoreWriter_Pump V c tv (w\<lparr>envelope_pull_sock := Some pull\<rparr>) =
      (Inr MakeError_pump, w\<lparr>envelope_pull_sock := Some (pull\<lparr>inbox := []\<rparr>)\<rparr>)"
    if "inbox pull = ?fs" "envelope_rep_sock w = None" for pull
  proof -
    have "pull_loop V c tv (sw_store w, pull) = (Inr False, sw_store w, pull\<lparr>inbox := []\<rparr>)"
      using identities_only [OF streamset_path_nonempty assms(3) that(1)] by (subst pull_loop.simps) simp
    then show ?thesis using that
      by (simp add: StoreWriter_Pump_def pull_ready_def rep_ready_def process_ready_def ProcessEnvelopePull_def andThen_def)
  qed
  let ?rs = "rs\<lparr>rep_sock := (rep_sock rs)\<lparr>inbox := ?fs\<rparr>\<rparr>"
  let ?rs' = "rs\<lparr>rep_sock := (rep_sock rs)\<lparr>inbox := [], sent := sent (rep_sock rs) @ [(''unknown error'', False)]\<rparr>\<rparr>"
  have r1: "rep_receive V c tv (sw_store w, ?rs) = (Inr RECEIVE_ERROR, (sw_store w, rs\<lparr>rep_sock := (rep_sock rs)\<lparr>inbox := []\<rparr>, owes := True\<rparr>))"
    using identities_only [OF streamset_path_nonempty assms(3), of "rep_sock ?rs" b t V c tv "sw_store w"] assms(5)
    by (simp add: rep_receive_def)
  have "rep_loop V c tv (sw_store w, ?rs) = (Inr False, sw_store w, ?rs')"
    using assms(4,5) by (subst rep_loop.simps) (simp add: r1 send_reply_def rep_send_def send_def no_flags_def)
  then have rep: "ProcessEnvelopeRep V c tv ?rs w = (Inr False, w\<lparr>envelope_rep_sock := Some ?rs'\<rparr>)"
    by (simp add: ProcessEnvelopeRep_def)
  then have "writer_answer V c tv w rs ?fs = [(''unknown error'', False)]"
    by (simp add: writer_answer_def frames_put_def)
  then have "fst (WriteEnvelope_request c (writer_answer V c tv w rs) b t e \<lparr>sender_pull_sock = y, sender_rep_sock = Some sock\<rparr>) = Inr False"
    using assms(6) by (simp add: WriteEnvelope_request_def send env ReceiveMessage_def empty_container_def AddIdentity_def Let_def)
  with deliver pump rep show ?thesis by (intro exI [of _ ?sock]) (simp add: fs)
qed

lemma sender_not_understood_witness:
  "fst (WriteEnvelope_request sample_codec
      (writer_answer (sds_ops sample_codec) sample_codec (0, 0) sample_writer \<lparr>rep_sock = \<lparr>sent = [], send_results = [], inbox = []\<rparr>, owes = False\<rparr>)
      ''b'' ''s'' (of_pb (empty_envelope\<lparr>message := [''''], message_ns := [1], message_ty := [91]\<rparr>))
      \<lparr>sender_pull_sock = None, sender_rep_sock = Some \<lparr>sent = [], send_results = [], inbox = []\<rparr>\<rparr>) = Inr False"
proof -
  let ?e = "of_pb (empty_envelope\<lparr>message := [''''], message_ns := [1], message_ty := [91]\<rparr>)"
  let ?s = "\<lparr>sent = [], send_results = [], inbox = []\<rparr> :: socket"
  have m: "serialize_for sample_codec ?e False = Some [CHR 0x5B]"
    by (simp add: serialize_for_def ToZmqMessage_def of_pb_def) (simp add: char_of_def bit_0)
  have h: "send_results ?s = []" "inbox ?s = []" "send_results (rep_sock \<lparr>rep_sock = ?s, owes = False\<rparr>) = []"
    "\<not> owes \<lparr>rep_sock = ?s, owes = False\<rparr>" by simp_all
  show ?thesis
    using sender_not_understood [OF h(1) m _ h(3,4,2), of "''b''" "''s''" None sample_writer "sds_ops sample_codec" "(0, 0)" None] by blast
qed

end
