(* ===== verification/Client_State.thy ===== *)
theory Client_State
  imports Sorted_Map Store_Path Zeromq
begin

text \<open>
  The client (src/zippylog/client.cpp, client.hpp): its state, the callbacks it may call, and the building
  blocks of its operations. The responses and the requests are in the theories \<open>Client_Response\<close> and
  \<open>Client_Request\<close>.
\<close>

section \<open>Callbacks\<close>

text \<open>
  A callback is one of the client's own static functions, which copy the response to the address that
  is given as data, or a function of the application. An address is one of the caller's or of a local
  variable of the client's functions.
\<close>

datatype callback = Own | App nat

datatype addr = Caller nat | Local nat

record StreamSegment =
  seg_path :: string
  seg_start :: u64
  seg_end :: u64
  seg_bytes :: u32
  seg_count :: u32
  seg_envelopes :: "Envelope list"

datatype client_event =
    OnPong | OnFeatures FeatureSpecification | OnStoreInfo "BucketInfoV1 list" | OnBucketInfo BucketInfoV1
  | OnStreamSetInfo StreamSetInfoV1 | OnStreamInfo StreamInfoV1 | OnSegment string u64 StreamSegment
  | OnSubscription string u32 | OnChange string Message | OnEnvelope string Envelope

record SubscriptionCallbackInfo =
  StreamAdded :: "nat option"
  StreamDeleted :: "nat option"
  StreamAppended :: "nat option"
  BucketAdded :: "nat option"
  BucketDeleted :: "nat option"
  StreamSetAdded :: "nat option"
  StreamSetDeleted :: "nat option"
  EnvelopeReceived :: "nat option"

definition new_callbacks :: SubscriptionCallbackInfo where
  "new_callbacks = \<lparr>StreamAdded = None, StreamDeleted = None, StreamAppended = None, BucketAdded = None,
     BucketDeleted = None, StreamSetAdded = None, StreamSetDeleted = None, EnvelopeReceived = None\<rparr>"

datatype SubscriptionOutcome = ACCEPTED | REJECTED | UNKNOWN_OUTCOME

record SubscriptionRequestResult =
  result_of :: SubscriptionOutcome
  result_id :: string
  result_ttl :: u32

section \<open>The state\<close>

record OutstandingRequest =
  or_id :: string
  cb_ping :: "callback option"
  cb_features :: "callback option"
  cb_store_info :: "callback option"
  cb_bucket_info :: "callback option"
  cb_stream_set_info :: "callback option"
  cb_stream_info :: "callback option"
  cb_stream_segment :: "callback option"
  cb_subscription :: "callback option"
  or_callbacks :: SubscriptionCallbackInfo
  or_data :: addr

definition new_OutstandingRequest :: OutstandingRequest where
  "new_OutstandingRequest = \<lparr>or_id = [], cb_ping = None, cb_features = None, cb_store_info = None,
     cb_bucket_info = None, cb_stream_set_info = None, cb_stream_info = None, cb_stream_segment = None,
     cb_subscription = None, or_callbacks = new_callbacks, or_data = Caller 0\<rparr>"

text \<open>
  A subscription of the client. The map holds a copy of a local object, and the destructor of that
  object deletes the system's timer, which the copy still names: \<open>cs_deleted\<close>.
\<close>

record client_subscription =
  cs_id :: string
  cs_timer :: Timer
  cs_deleted :: bool
  cs_cb :: SubscriptionCallbackInfo
  cs_data :: addr

record memory =
  mem_features :: "addr \<Rightarrow> FeatureSpecification"
  mem_store_info :: "addr \<Rightarrow> BucketInfoV1 list"
  mem_bucket_info :: "addr \<Rightarrow> BucketInfoV1"
  mem_stream_set_info :: "addr \<Rightarrow> StreamSetInfoV1"
  mem_stream_info :: "addr \<Rightarrow> StreamInfoV1"
  mem_segment :: "addr \<Rightarrow> StreamSegment"
  mem_result :: "addr \<Rightarrow> SubscriptionRequestResult"

text \<open>
  The client with the memory its own callbacks write, the state \<open>'a\<close> of the application, the monotonic
  clock in microseconds, and counters for the envelopes created, the polls made and the local variables
  allocated.
\<close>

record 'a client =
  cl_sock :: socket
  cl_subscriptions :: "(string \<times> client_subscription) list"
  outstanding :: "(string \<times> OutstandingRequest) list"
  subscription_renewal_offset :: u32
  has_thread :: bool
  memory :: memory
  application :: 'a
  clock :: nat
  cl_created :: nat
  polls :: nat
  locals :: nat

text \<open>
  What the client works with: serialisation, the registered messages, the identifiers and the times new
  envelopes get, the values of uninitialised members, the application's callbacks, and the outside world:
  the frames that arrive and the microseconds that pass while a poll waits for up to the given time.
\<close>

record 'a client_env =
  cl_codec :: codec
  cl_types :: registrar
  cl_uuid :: "nat \<Rightarrow> string"
  cl_wall :: "nat \<Rightarrow> u64"
  uninitialised :: StreamSegment
  uninit_micros :: u32
  callback_of :: "nat \<Rightarrow> client_event \<Rightarrow> addr \<Rightarrow> ('a client, unit) action"
  arrivals :: "int \<Rightarrow> 'a client \<Rightarrow> (string \<times> bool) list"
  elapsed :: "int \<Rightarrow> 'a client \<Rightarrow> nat"

text \<open>The constructor; \<open>new_sock\<close> is a socket just connected.\<close>

definition new_Client :: "bool \<Rightarrow> socket \<Rightarrow> memory \<Rightarrow> 'a \<Rightarrow> nat \<Rightarrow> 'a client res" where
  "new_Client has_context new_sock mem app now =
     (if \<not> has_context then Inl (InvalidArgument ''ctx parameter cannot be NULL'')
      else Inr \<lparr>cl_sock = new_sock, cl_subscriptions = [], outstanding = [], subscription_renewal_offset = 5000000,
        has_thread = False, memory = mem, application = app, clock = now, cl_created = 0, polls = 0, locals = 0\<rparr>)"

definition client_HasSubscription :: "string \<Rightarrow> 'a client \<Rightarrow> bool" where
  "client_HasSubscription i s \<longleftrightarrow> map_of (cl_subscriptions s) i \<noteq> None"

definition HaveOutstandingRequest :: "string \<Rightarrow> 'a client \<Rightarrow> bool" where
  "HaveOutstandingRequest i s \<longleftrightarrow> map_of (outstanding s) i \<noteq> None"

definition CancelSubscription :: "string \<Rightarrow> ('a client, bool) action" where
  "CancelSubscription i = ret False"

definition CancelAllSubscriptions :: "('a client, bool) action" where
  "CancelAllSubscriptions =
     andThen (gets cl_subscriptions) (\<lambda>subs.
     andThen (for_each (\<lambda>x. andThen (CancelSubscription (fst x)) (\<lambda>_. ret ())) subs) (\<lambda>_. ret True))"

text \<open>The destructor, which cancels nothing.\<close>

definition delete_Client :: "('a client, unit) action" where
  "delete_Client = andThen (modify (\<lambda>s. s\<lparr>has_thread := False\<rparr>)) (\<lambda>_. andThen CancelAllSubscriptions (\<lambda>_. ret ()))"

section \<open>The client's own callbacks\<close>

definition CallbackFeatures :: "FeatureSpecification \<Rightarrow> addr \<Rightarrow> ('a client, unit) action" where
  "CallbackFeatures x a = modify (\<lambda>s. s\<lparr>memory := (memory s)\<lparr>mem_features := (mem_features (memory s))(a := x)\<rparr>\<rparr>)"

definition CallbackStoreInfo :: "BucketInfoV1 list \<Rightarrow> addr \<Rightarrow> ('a client, unit) action" where
  "CallbackStoreInfo x a = modify (\<lambda>s. s\<lparr>memory := (memory s)\<lparr>mem_store_info := (mem_store_info (memory s))(a := x)\<rparr>\<rparr>)"

definition CallbackBucketInfo :: "BucketInfoV1 \<Rightarrow> addr \<Rightarrow> ('a client, unit) action" where
  "CallbackBucketInfo x a = modify (\<lambda>s. s\<lparr>memory := (memory s)\<lparr>mem_bucket_info := (mem_bucket_info (memory s))(a := x)\<rparr>\<rparr>)"

definition CallbackStreamSetInfo :: "StreamSetInfoV1 \<Rightarrow> addr \<Rightarrow> ('a client, unit) action" where
  "CallbackStreamSetInfo x a =
     modify (\<lambda>s. s\<lparr>memory := (memory s)\<lparr>mem_stream_set_info := (mem_stream_set_info (memory s))(a := x)\<rparr>\<rparr>)"

definition CallbackStreamInfo :: "StreamInfoV1 \<Rightarrow> addr \<Rightarrow> ('a client, unit) action" where
  "CallbackStreamInfo x a = modify (\<lambda>s. s\<lparr>memory := (memory s)\<lparr>mem_stream_info := (mem_stream_info (memory s))(a := x)\<rparr>\<rparr>)"

definition CallbackStreamSegment :: "StreamSegment \<Rightarrow> addr \<Rightarrow> ('a client, unit) action" where
  "CallbackStreamSegment x a = modify (\<lambda>s. s\<lparr>memory := (memory s)\<lparr>mem_segment := (mem_segment (memory s))(a := x)\<rparr>\<rparr>)"

definition CallbackSubscription :: "string \<Rightarrow> u32 \<Rightarrow> addr \<Rightarrow> ('a client, unit) action" where
  "CallbackSubscription i ttl a =
     modify (\<lambda>s. s\<lparr>memory := (memory s)\<lparr>mem_result := (mem_result (memory s))
       (a := (mem_result (memory s) a)\<lparr>result_id := i, result_ttl := ttl, result_of := ACCEPTED\<rparr>)\<rparr>\<rparr>)"

definition run_own :: "client_event \<Rightarrow> addr \<Rightarrow> ('a client, unit) action" where
  "run_own ev a =
     (case ev of
        OnFeatures x \<Rightarrow> CallbackFeatures x a
      | OnStoreInfo x \<Rightarrow> CallbackStoreInfo x a
      | OnBucketInfo x \<Rightarrow> CallbackBucketInfo x a
      | OnStreamSetInfo x \<Rightarrow> CallbackStreamSetInfo x a
      | OnStreamInfo x \<Rightarrow> CallbackStreamInfo x a
      | OnSegment _ _ x \<Rightarrow> CallbackStreamSegment x a
      | OnSubscription i ttl \<Rightarrow> CallbackSubscription i ttl a
      | _ \<Rightarrow> ret ())"

definition run_callback :: "'a client_env \<Rightarrow> callback \<Rightarrow> client_event \<Rightarrow> addr \<Rightarrow> ('a client, unit) action" where
  "run_callback E cb ev a = (case cb of Own \<Rightarrow> run_own ev a | App n \<Rightarrow> callback_of E n ev a)"

text \<open>\<open>assert(cb); cb(...)\<close>.\<close>

definition asserted :: "'a client_env \<Rightarrow> callback option \<Rightarrow> client_event \<Rightarrow> addr \<Rightarrow> ('a client, bool) action" where
  "asserted E cb ev a =
     (case cb of
        None \<Rightarrow> throw AssertionFailure
      | Some f \<Rightarrow> andThen (run_callback E f ev a) (\<lambda>_. ret True))"

section \<open>Segments of a stream\<close>

definition new_StreamSegment :: "StreamSegment \<Rightarrow> StreamSegment" where
  "new_StreamSegment uninit = uninit\<lparr>seg_path := [], seg_envelopes := []\<rparr>"

definition SetPath :: "string \<Rightarrow> StreamSegment \<Rightarrow> StreamSegment" where
  "SetPath path seg = seg\<lparr>seg_path := path\<rparr>"

definition SetStartOffset :: "u64 \<Rightarrow> StreamSegment \<Rightarrow> StreamSegment" where
  "SetStartOffset off seg = seg\<lparr>seg_start := off\<rparr>"

definition SetEndOffset :: "u64 \<Rightarrow> StreamSegment \<Rightarrow> StreamSegment" where
  "SetEndOffset off seg = seg\<lparr>seg_end := off\<rparr>"

definition SetBytesSent :: "u32 \<Rightarrow> StreamSegment \<Rightarrow> StreamSegment" where
  "SetBytesSent n seg = seg\<lparr>seg_bytes := n\<rparr>"

definition SetEnvelopesSent :: "u32 \<Rightarrow> StreamSegment \<Rightarrow> StreamSegment" where
  "SetEnvelopesSent n seg = seg\<lparr>seg_count := n\<rparr>"

definition segment_AddEnvelope :: "Envelope \<Rightarrow> StreamSegment \<Rightarrow> StreamSegment" where
  "segment_AddEnvelope e seg = seg\<lparr>seg_envelopes := seg_envelopes seg @ [copy_Envelope e]\<rparr>"

section \<open>The timer of a subscription\<close>

text \<open>With its system timer deleted, a running timer can neither be asked nor be started again.\<close>

definition subscription_signaled :: "nat \<Rightarrow> client_subscription \<Rightarrow> bool res \<times> client_subscription" where
  "subscription_signaled now sub =
     (if cs_deleted sub \<and> \<not> signaled (cs_timer sub) \<and> running (cs_timer sub)
      then (Inl (RuntimeException ''could not obtain timer result''), sub)
      else (let (r, t) = Timer_Signaled now (cs_timer sub) in (Inr r, sub\<lparr>cs_timer := t\<rparr>)))"

definition subscription_restart :: "nat \<Rightarrow> client_subscription \<Rightarrow> client_subscription" where
  "subscription_restart now sub =
     (if cs_deleted sub \<and> running (cs_timer sub) then sub\<lparr>cs_timer := (cs_timer sub)\<lparr>signaled := False\<rparr>\<rparr>
      else sub\<lparr>cs_timer := snd (Timer_Start now 0 (cs_timer sub))\<rparr>)"

end
