(* ===== verification/Client_Response.thy ===== *)
theory Client_Response
  imports Client_State
begin

text \<open>
  How the client processes what arrives on its socket (src/zippylog/client.cpp, \<open>Pump\<close> to
  \<open>HandleRequestResponse\<close>).
\<close>

section \<open>Reading a response\<close>

definition null_message :: "('s, 'b) action" where
  "null_message = throw (Undefined ''null message'')"

definition other_class :: "('s, 'b) action" where
  "other_class = throw (Undefined ''message of another class'')"

text \<open>An element of a repeated field; the accessors do not check the index.\<close>

definition field_at :: "'x list \<Rightarrow> nat \<Rightarrow> 'x res" where
  "field_at xs i = (if i < length xs then Inr (xs ! i) else Inl (Undefined ''repeated field index''))"

text \<open>The message at an index, which the code dereferences without asking whether there is one.\<close>

definition get_message :: "'a client_env \<Rightarrow> nat \<Rightarrow> Envelope \<Rightarrow> ('a client, Message \<times> Envelope) action" where
  "get_message E i e =
     (case GetMessage (cl_codec E) (cl_types E) (int i) e of
        (Inl x, e) \<Rightarrow> throw x
      | (Inr None, e) \<Rightarrow> null_message
      | (Inr (Some m), e) \<Rightarrow> ret (m, e))"

section \<open>Responses to subscriptions\<close>

text \<open>The callback of a subscription for a type of change.\<close>

definition change_callback :: "SubscriptionCallbackInfo \<Rightarrow> u32 \<Rightarrow> nat option" where
  "change_callback cb ty =
     (if ty = 100 then BucketAdded cb
      else if ty = 101 then BucketDeleted cb
      else if ty = 102 then StreamSetAdded cb
      else if ty = 103 then StreamSetDeleted cb
      else if ty = 97 then StreamAdded cb
      else if ty = 98 then StreamDeleted cb
      else if ty = 99 then StreamAppended cb
      else None)"

text \<open>\<open>iter->second.data\<close>; the iterator stays valid while the subscription is in the map.\<close>

definition data_of :: "string \<Rightarrow> ('a client, addr) action" where
  "data_of i s =
     (case map_of (cl_subscriptions s) i of None \<Rightarrow> (Inl (Undefined ''erased iterator''), s) | Some sub \<Rightarrow> (Inr (cs_data sub), s))"

definition call_change :: "'a client_env \<Rightarrow> SubscriptionCallbackInfo \<Rightarrow> string \<Rightarrow> nat \<Rightarrow> Envelope \<Rightarrow> ('a client, Envelope) action" where
  "call_change E cb sid i e =
     andThen (lift_res (field_at (message_ty (envelope e)) i)) (\<lambda>ty.
       case change_callback cb ty of
         None \<Rightarrow> ret e
       | Some f \<Rightarrow>
           andThen (get_message E i e) (\<lambda>(m, e).
           if message_enumeration m \<noteq> (message_namespace, ty) then other_class
           else
             andThen (data_of sid) (\<lambda>a.
             andThen (callback_of E f (OnChange sid m) a) (\<lambda>_. ret e))))"

fun call_changes :: "'a client_env \<Rightarrow> SubscriptionCallbackInfo \<Rightarrow> string \<Rightarrow> nat list \<Rightarrow> Envelope \<Rightarrow> ('a client, unit) action" where
  "call_changes E cb sid [] e = ret ()"
| "call_changes E cb sid (i # is) e = andThen (call_change E cb sid i e) (call_changes E cb sid is)"

text \<open>The messages behind the first, each taken for an envelope from its first byte on.\<close>

definition call_envelope :: "'a client_env \<Rightarrow> nat \<Rightarrow> string \<Rightarrow> string \<Rightarrow> ('a client, unit) action" where
  "call_envelope E f sid msg =
     andThen (lift_res (Envelope_of_data (cl_codec E) msg)) (\<lambda>env.
     andThen (data_of sid) (\<lambda>a. callback_of E f (OnEnvelope sid env) a))"

definition HandleSubscriptionResponse :: "'a client_env \<Rightarrow> Envelope \<Rightarrow> string \<Rightarrow> string list \<Rightarrow> ('a client, bool) action" where
  "HandleSubscriptionResponse E e sid msgs =
     andThen (gets (\<lambda>s. map_of (cl_subscriptions s) sid)) (\<lambda>found.
       case found of
         None \<Rightarrow> ret False
       | Some sub \<Rightarrow>
           andThen (call_changes E (cs_cb sub) sid [1..<MessageCount e] e) (\<lambda>_.
             case EnvelopeReceived (cs_cb sub) of
               None \<Rightarrow> ret True
             | Some f \<Rightarrow> andThen (for_each (call_envelope E f sid) msgs) (\<lambda>_. ret True)))"

definition ValidateSubscriptionStart :: "string \<Rightarrow> ('a client, bool) action" where
  "ValidateSubscriptionStart i = gets (client_HasSubscription i)"

section \<open>Responses to requests\<close>

fun parse_payloads :: "codec \<Rightarrow> string list \<Rightarrow> StreamSegment \<Rightarrow> StreamSegment res" where
  "parse_payloads c [] seg = Inr seg"
| "parse_payloads c (m # ms) seg =
     rbind (Envelope_of_zmq c m 1) (\<lambda>payload. parse_payloads c ms (segment_AddEnvelope payload seg))"

text \<open>
  The segment of a response; \<open>i < messages.size() - 2\<close> is an unsigned comparison, so that a response of
  one message would read behind the vector.
\<close>

definition read_segment :: "'a client_env \<Rightarrow> string \<Rightarrow> u64 \<Rightarrow> string list \<Rightarrow> ('a client, StreamSegment) action" where
  "read_segment E path off ms =
     (let seg = SetStartOffset off (SetPath path (new_StreamSegment (uninitialised E))) in
      andThen (lift_res (Envelope_of_zmq (cl_codec E) (ms ! (length ms - 1)) 1)) (\<lambda>footer.
      andThen (get_message E 0 footer) (\<lambda>(m, _).
        case m of
          StreamSegmentEndV1 end_offset bytes count \<Rightarrow>
            let seg = SetEnvelopesSent count (SetBytesSent bytes (SetEndOffset end_offset seg)) in
            if length ms < 2 then throw (Undefined ''read past the messages'')
            else lift_res (parse_payloads (cl_codec E) (take (length ms - 3) (drop 1 ms)) seg)
        | _ \<Rightarrow> other_class)))"

text \<open>
  An accepted subscription. Its lifetime in milliseconds is multiplied in 32 bits, and the renewal
  offset is subtracted from it.
\<close>

definition accept_subscription :: "'a client_env \<Rightarrow> string \<Rightarrow> u32 \<Rightarrow> OutstandingRequest \<Rightarrow> ('a client, unit) action" where
  "accept_subscription E i ack_ttl req =
     (let ttl = ack_ttl * 1000 in
      andThen (gets subscription_renewal_offset) (\<lambda>off.
      if ttl < off then throw (RuntimeException ''subscription TTL less than configured time offset'')
      else
        modify (\<lambda>s.
          let t = snd (Timer_Start (clock s) (ttl - off) (new_Timer (uninit_micros E)));
              sub = \<lparr>cs_id = i, cs_timer = t, cs_deleted = initialized t, cs_cb = or_callbacks req, cs_data = or_data req\<rparr>
          in s\<lparr>cl_subscriptions := map_put i sub (cl_subscriptions s)\<rparr>)))"

definition HandleRequestResponse :: "'a client_env \<Rightarrow> Envelope \<Rightarrow> string list \<Rightarrow> ('a client, bool) action" where
  "HandleRequestResponse E e ms =
     (if tag (envelope e) = [] then throw (RuntimeException ''received response with no tag to match to request'')
      else
        let i = tag (envelope e) ! 0; ty = message_ty (envelope e) ! 0 in
        andThen (gets (\<lambda>s. map_of (outstanding s) i)) (\<lambda>found.
          case found of
            None \<Rightarrow> throw (RuntimeException ''received a response to an unknown outstanding request'')
          | Some req \<Rightarrow>
              andThen (modify (\<lambda>s. s\<lparr>outstanding := map_erase i (outstanding s)\<rparr>)) (\<lambda>_.
                if ty = 70 then asserted E (cb_ping req) OnPong (or_data req)
                else if ty = 96 then
                  (if cb_store_info req = None then throw AssertionFailure
                   else andThen (get_message E 0 e) (\<lambda>(m, _).
                     case m of StoreInfoMsg x \<Rightarrow> asserted E (cb_store_info req) (OnStoreInfo x) (or_data req) | _ \<Rightarrow> other_class))
                else if ty = 95 then
                  (if cb_bucket_info req = None then throw AssertionFailure
                   else andThen (get_message E 0 e) (\<lambda>(m, _).
                     case m of BucketInfoMsg x \<Rightarrow> asserted E (cb_bucket_info req) (OnBucketInfo x) (or_data req) | _ \<Rightarrow> other_class))
                else if ty = 94 then
                  (if cb_stream_set_info req = None then throw AssertionFailure
                   else andThen (get_message E 0 e) (\<lambda>(m, _).
                     case m of StreamSetInfoMsg x \<Rightarrow> asserted E (cb_stream_set_info req) (OnStreamSetInfo x) (or_data req) | _ \<Rightarrow> other_class))
                else if ty = 93 then
                  (if cb_stream_info req = None then throw AssertionFailure
                   else andThen (get_message E 0 e) (\<lambda>(m, _).
                     case m of StreamInfoMsg x \<Rightarrow> asserted E (cb_stream_info req) (OnStreamInfo x) (or_data req) | _ \<Rightarrow> other_class))
                else if ty = 104 then
                  (if cb_stream_segment req = None then throw AssertionFailure
                   else andThen (get_message E 0 e) (\<lambda>(m, _).
                     case m of
                       StreamSegmentStartV1 path off \<Rightarrow>
                         andThen (read_segment E path off ms) (\<lambda>seg.
                         asserted E (cb_stream_segment req) (OnSegment path off seg) (or_data req))
                     | _ \<Rightarrow> other_class))
                else if ty = 109 then
                  andThen (get_message E 0 e) (\<lambda>(m, _).
                    case m of
                      SubscriptionAcceptAckV1 sid ack_ttl \<Rightarrow>
                        andThen (accept_subscription E sid ack_ttl req) (\<lambda>_.
                        asserted E (cb_subscription req) (OnSubscription sid ack_ttl) (or_data req))
                    | _ \<Rightarrow> other_class)
                else ret False)))"

section \<open>The dispatch\<close>

text \<open>Only four of the seven types that \<open>HandleRequestResponse\<close> knows are passed on to it.\<close>

definition handled_types :: "u32 list" where
  "handled_types = [70, 96, 104, 109]"

definition ProcessResponseMessage :: "'a client_env \<Rightarrow> string list \<Rightarrow> ('a client, bool) action" where
  "ProcessResponseMessage E ms =
     (if ms = [] then throw AssertionFailure
      else
        andThen (lift_res (Envelope_of_zmq (cl_codec E) (ms ! 0) 1)) (\<lambda>e.
        if MessageCount e < 1 then ret False
        else
          andThen (lift_res (field_at (message_ns (envelope e)) 0)) (\<lambda>ns.
          if ns \<noteq> 1 then ret False
          else
            andThen (lift_res (field_at (message_ty (envelope e)) 0)) (\<lambda>ty.
            if ty = 107 then
              andThen (get_message E 0 e) (\<lambda>(m, e).
                case m of
                  SubscriptionStartV1 i \<Rightarrow>
                    andThen (ValidateSubscriptionStart i) (\<lambda>ok.
                    if \<not> ok then ret False else HandleSubscriptionResponse E e i (drop 1 ms))
                | _ \<Rightarrow> other_class)
            else if ty \<in> set handled_types then HandleRequestResponse E e ms
            else ret False))))"

definition ProcessPendingMessage :: "'a client_env \<Rightarrow> ('a client, bool) action" where
  "ProcessPendingMessage E =
     andThen (gets cl_sock) (\<lambda>sock.
       let (ok, mc, sock) = ReceiveMessage sock in
       andThen (modify (\<lambda>s. s\<lparr>cl_sock := sock\<rparr>)) (\<lambda>_.
       if \<not> ok then ret False else ProcessResponseMessage E (mc_messages mc)))"

section \<open>Pumping\<close>

text \<open>Waiting for a message for up to \<open>timeout\<close> milliseconds.\<close>

definition client_poll :: "'a client_env \<Rightarrow> int \<Rightarrow> ('a client, bool) action" where
  "client_poll E timeout s =
     (let s' = s\<lparr>cl_sock := (cl_sock s)\<lparr>inbox := inbox (cl_sock s) @ arrivals E timeout s\<rparr>,
                 clock := clock s + elapsed E timeout s, polls := polls s + 1\<rparr>
      in (Inr (inbox (cl_sock s') \<noteq> []), s'))"

definition client_Pump :: "'a client_env \<Rightarrow> int \<Rightarrow> ('a client, int) action" where
  "client_Pump E timeout =
     andThen (client_poll E timeout) (\<lambda>ready.
       if ready then andThen (ProcessPendingMessage E) (\<lambda>ok. ret (if ok then 1 else - 1))
       else ret 0)"

text \<open>\<open>Run\<close>: the flag is what another thread or a callback has made of it, so a function of the state.\<close>

partial_function (option) client_run :: "'a client_env \<Rightarrow> ('a client \<Rightarrow> bool) \<Rightarrow> 'a client \<Rightarrow> (unit res \<times> 'a client) option" where
  "client_run E active s =
     (if \<not> active s then Some (Inr (), s)
      else (case client_Pump E 100 s of (Inl x, s) \<Rightarrow> Some (Inl x, s) | (Inr _, s) \<Rightarrow> client_run E active s))"

definition client_Run :: "'a client_env \<Rightarrow> ('a client \<Rightarrow> bool) option \<Rightarrow> 'a client \<Rightarrow> (unit res \<times> 'a client) option" where
  "client_Run E flag s =
     (case flag of
        None \<Rightarrow> Some (Inl (InvalidArgument ''parameter cannot be NULL''), s)
      | Some active \<Rightarrow> client_run E active s)"

text \<open>\<open>RunAsync\<close>, and what the thread it starts does and returns: whether \<open>Run\<close> has thrown.\<close>

definition client_RunAsync :: "('a client, unit) action" where
  "client_RunAsync s =
     (if has_thread s then (Inl (RuntimeException ''client thread already running''), s)
      else (Inr (), s\<lparr>has_thread := True\<rparr>))"

definition client_AsyncStart :: "'a client_env \<Rightarrow> ('a client \<Rightarrow> bool) option \<Rightarrow> 'a client \<Rightarrow> (int res \<times> 'a client) option" where
  "client_AsyncStart E flag s =
     (case client_Run E flag s of
        None \<Rightarrow> None
      | Some (Inl x, s) \<Rightarrow> Some (if catchable x then Inr 1 else Inl x, s)
      | Some (Inr _, s) \<Rightarrow> Some (Inr 0, s))"

end
