(* ===== verification/Client_Request.thy ===== *)
theory Client_Request
  imports Client_Response
begin

text \<open>
  The requests of the client (src/zippylog/client.cpp): for each an asynchronous function, whose callback
  is called when the response is processed, and a synchronous one, which pumps until then. A synchronous
  function may wait forever; its result is \<open>None\<close> then.
\<close>

section \<open>Sending a request\<close>

definition request_envelope :: "'a client_env \<Rightarrow> Message \<Rightarrow> ('a client, Envelope) action" where
  "request_envelope E m s =
     (Inr (add_to_envelope (cl_codec E) m (new_Envelope (cl_wall E (cl_created s)))), s\<lparr>cl_created := cl_created s + 1\<rparr>)"

text \<open>
  Both kinds of request tag the envelope with a new identifier and send it behind a delimiter. A send that
  fails to serialise the envelope returns \<open>-1\<close>, which is taken for a success.
\<close>

definition SendRequest_id :: "'a client_env \<Rightarrow> Envelope \<Rightarrow> OutstandingRequest \<Rightarrow> ('a client, string option) action" where
  "SendRequest_id E e req s =
     (let i = cl_uuid E (cl_created s);
          (r, sock) = SendEnvelope_to (cl_codec E) [] (AddTag i e) True no_flags (cl_sock s);
          s = s\<lparr>cl_created := cl_created s + 1, cl_sock := sock\<rparr> in
      if r = 0 then (Inr None, s)
      else (Inr (Some i), s\<lparr>outstanding := map_put i (req\<lparr>or_id := i\<rparr>) (outstanding s)\<rparr>))"

definition SendRequest :: "'a client_env \<Rightarrow> Envelope \<Rightarrow> OutstandingRequest \<Rightarrow> ('a client, bool) action" where
  "SendRequest E e req = andThen (SendRequest_id E e req) (\<lambda>i. ret (i \<noteq> None))"

definition send_message :: "'a client_env \<Rightarrow> Message \<Rightarrow> OutstandingRequest \<Rightarrow> ('a client, bool) action" where
  "send_message E m req = andThen (request_envelope E m) (\<lambda>e. SendRequest E e req)"

text \<open>The loop that pumps until the request is not outstanding any more.\<close>

partial_function (option) wait_loop :: "'a client_env \<Rightarrow> string \<Rightarrow> bool \<Rightarrow> Timer \<Rightarrow> 'a client \<Rightarrow> (bool res \<times> 'a client) option" where
  "wait_loop E i have_timer t s =
     (case client_Pump E 25 s of
        (Inl x, s) \<Rightarrow> Some (Inl x, s)
      | (Inr _, s) \<Rightarrow>
          if \<not> HaveOutstandingRequest i s then Some (Inr True, s)
          else if have_timer \<and> fst (Timer_Signaled (clock s) t) then Some (Inr False, s)
          else wait_loop E i have_timer (if have_timer then snd (Timer_Signaled (clock s) t) else t) s)"

text \<open>\<open>timeout * 1000\<close> is a product of two \<open>int\<close>s, which wraps when it overflows, converted to \<open>uint32\<close>.\<close>

definition timeout_micros :: "int \<Rightarrow> u32" where
  "timeout_micros timeout = word_of_int (to_int32 (timeout * 1000))"

definition SendAndProcessSynchronousRequest ::
  "'a client_env \<Rightarrow> Envelope \<Rightarrow> OutstandingRequest \<Rightarrow> int \<Rightarrow> 'a client \<Rightarrow> (bool res \<times> 'a client) option" where
  "SendAndProcessSynchronousRequest E e req timeout s =
     (case SendRequest_id E e req s of
        (Inl x, s) \<Rightarrow> Some (Inl x, s)
      | (Inr None, s) \<Rightarrow> Some (Inr False, s)
      | (Inr (Some i), s) \<Rightarrow>
          wait_loop E i (timeout > 0) (snd (Timer_Start (clock s) 0 (new_Timer (timeout_micros timeout)))) s)"

definition synchronous ::
  "'a client_env \<Rightarrow> Message \<Rightarrow> OutstandingRequest \<Rightarrow> int \<Rightarrow> 'a client \<Rightarrow> (bool res \<times> 'a client) option" where
  "synchronous E m req timeout s =
     (case request_envelope E m s of
        (Inl x, s) \<Rightarrow> Some (Inl x, s)
      | (Inr e, s) \<Rightarrow> SendAndProcessSynchronousRequest E e req timeout s)"

section \<open>Requests for information\<close>

definition no_callback :: "('a client, 'b) action" where
  "no_callback = throw (InvalidArgument ''callback parameter not defined'')"

definition Ping_async :: "'a client_env \<Rightarrow> nat option \<Rightarrow> addr \<Rightarrow> ('a client, bool) action" where
  "Ping_async E cb data =
     (if cb = None then no_callback
      else send_message E PingV1 (new_OutstandingRequest\<lparr>cb_ping := map_option App cb, or_data := data\<rparr>))"

definition Ping :: "'a client_env \<Rightarrow> int \<Rightarrow> 'a client \<Rightarrow> (bool res \<times> 'a client) option" where
  "Ping E timeout = synchronous E PingV1 (new_OutstandingRequest\<lparr>cb_ping := Some Own\<rparr>) timeout"

definition GetFeatures_async :: "'a client_env \<Rightarrow> nat option \<Rightarrow> addr \<Rightarrow> ('a client, bool) action" where
  "GetFeatures_async E cb data =
     (if cb = None then no_callback
      else send_message E GetFeaturesV1 (new_OutstandingRequest\<lparr>cb_features := map_option App cb, or_data := data\<rparr>))"

definition GetFeatures :: "'a client_env \<Rightarrow> addr \<Rightarrow> int \<Rightarrow> 'a client \<Rightarrow> (bool res \<times> 'a client) option" where
  "GetFeatures E out timeout =
     synchronous E GetFeaturesV1 (new_OutstandingRequest\<lparr>cb_features := Some Own, or_data := out\<rparr>) timeout"

definition GetStoreInfo_async :: "'a client_env \<Rightarrow> nat option \<Rightarrow> addr \<Rightarrow> ('a client, bool) action" where
  "GetStoreInfo_async E cb data =
     (if cb = None then no_callback
      else send_message E GetStoreInfoV1 (new_OutstandingRequest\<lparr>cb_store_info := map_option App cb, or_data := data\<rparr>))"

definition GetStoreInfo :: "'a client_env \<Rightarrow> addr \<Rightarrow> int \<Rightarrow> 'a client \<Rightarrow> (bool res \<times> 'a client) option" where
  "GetStoreInfo E out timeout =
     synchronous E GetStoreInfoV1 (new_OutstandingRequest\<lparr>cb_store_info := Some Own, or_data := out\<rparr>) timeout"

definition GetBucketInfo_async :: "'a client_env \<Rightarrow> string \<Rightarrow> nat option \<Rightarrow> addr \<Rightarrow> ('a client, bool) action" where
  "GetBucketInfo_async E path cb data =
     (if cb = None then no_callback
      else if \<not> IsBucketPath path then throw (InvalidArgument ''path is not a valid bucket path'')
      else send_message E (GetBucketInfoV1 (Some path))
        (new_OutstandingRequest\<lparr>cb_bucket_info := map_option App cb, or_data := data\<rparr>))"

definition GetBucketInfo :: "'a client_env \<Rightarrow> string \<Rightarrow> addr \<Rightarrow> int \<Rightarrow> 'a client \<Rightarrow> (bool res \<times> 'a client) option" where
  "GetBucketInfo E path out timeout s =
     (if \<not> IsBucketPath path then Some (Inl (InvalidArgument ''path is not a valid bucket path''), s)
      else synchronous E (GetBucketInfoV1 (Some path)) (new_OutstandingRequest\<lparr>cb_bucket_info := Some Own, or_data := out\<rparr>) timeout s)"

definition GetStreamSetInfo_async :: "'a client_env \<Rightarrow> string \<Rightarrow> nat option \<Rightarrow> addr \<Rightarrow> ('a client, bool) action" where
  "GetStreamSetInfo_async E path cb data =
     (if cb = None then throw (InvalidArgument ''callback is not defined'')
      else if \<not> IsStreamSetPath path then throw (InvalidArgument ''path is not a path to a stream set'')
      else send_message E (GetStreamSetInfoV1 (Some path))
        (new_OutstandingRequest\<lparr>cb_stream_set_info := map_option App cb, or_data := data\<rparr>))"

definition GetStreamSetInfo :: "'a client_env \<Rightarrow> string \<Rightarrow> addr \<Rightarrow> int \<Rightarrow> 'a client \<Rightarrow> (bool res \<times> 'a client) option" where
  "GetStreamSetInfo E path out timeout s =
     (if \<not> IsStreamSetPath path then Some (Inl (InvalidArgument ''path is not a valid path to stream set''), s)
      else synchronous E (GetStreamSetInfoV1 (Some path))
        (new_OutstandingRequest\<lparr>cb_stream_set_info := Some Own, or_data := out\<rparr>) timeout s)"

definition GetStreamInfo_async :: "'a client_env \<Rightarrow> string \<Rightarrow> nat option \<Rightarrow> addr \<Rightarrow> ('a client, bool) action" where
  "GetStreamInfo_async E path cb data =
     (if cb = None then throw (InvalidArgument ''callback is not defined'')
      else if \<not> IsStreamPath path then throw (InvalidArgument ''path is not a path to a stream'')
      else send_message E (GetStreamInfoV1 (Some path))
        (new_OutstandingRequest\<lparr>cb_stream_info := map_option App cb, or_data := data\<rparr>))"

text \<open>The synchronous function does not check the path.\<close>

definition GetStreamInfo :: "'a client_env \<Rightarrow> string \<Rightarrow> addr \<Rightarrow> int \<Rightarrow> 'a client \<Rightarrow> (bool res \<times> 'a client) option" where
  "GetStreamInfo E path out timeout =
     synchronous E (GetStreamInfoV1 (Some path)) (new_OutstandingRequest\<lparr>cb_stream_info := Some Own, or_data := out\<rparr>) timeout"

section \<open>Segments and streams\<close>

definition GetStreamSegment_async :: "'a client_env \<Rightarrow> string \<Rightarrow> u64 \<Rightarrow> nat option \<Rightarrow> addr \<Rightarrow> ('a client, bool) action" where
  "GetStreamSegment_async E path start cb data =
     (if cb = None then no_callback
      else send_message E (GetStreamSegmentV1 (Some path) (Some start) None None)
        (new_OutstandingRequest\<lparr>cb_stream_segment := map_option App cb, or_data := data\<rparr>))"

definition GetStreamSegment_max :: "'a client_env \<Rightarrow> string \<Rightarrow> u64 \<Rightarrow> u32 \<Rightarrow> nat option \<Rightarrow> addr \<Rightarrow> ('a client, bool) action" where
  "GetStreamSegment_max E path start max_bytes cb data =
     (if cb = None then no_callback
      else send_message E (GetStreamSegmentV1 (Some path) (Some start) (Some max_bytes) None)
        (new_OutstandingRequest\<lparr>cb_stream_segment := map_option App cb, or_data := data\<rparr>))"

text \<open>The bytes between two offsets, in the 32 bits that are left of them.\<close>

definition GetStreamSegment_stop :: "'a client_env \<Rightarrow> string \<Rightarrow> u64 \<Rightarrow> u64 \<Rightarrow> nat option \<Rightarrow> addr \<Rightarrow> ('a client, bool) action" where
  "GetStreamSegment_stop E path start stop cb data = GetStreamSegment_max E path start (ucast (stop - start)) cb data"

definition GetStreamSegment :: "'a client_env \<Rightarrow> string \<Rightarrow> u64 \<Rightarrow> addr \<Rightarrow> int \<Rightarrow> 'a client \<Rightarrow> (bool res \<times> 'a client) option" where
  "GetStreamSegment E path start out timeout =
     synchronous E (GetStreamSegmentV1 (Some path) (Some start) None None)
       (new_OutstandingRequest\<lparr>cb_stream_segment := Some Own, or_data := out\<rparr>) timeout"

text \<open>A local variable of the function that runs.\<close>

definition new_local :: "'a client \<Rightarrow> addr \<times> 'a client" where
  "new_local s = (Local (locals s), s\<lparr>locals := locals s + 1\<rparr>)"

text \<open>
  One round of the loop of \<open>GetStream\<close>: how the loop ends, with the offset reached or with \<open>None\<close> when the
  segment could not be obtained, or the offset to go on from. The callback gets the segment by
  reference, so that it is read again after the callback.
\<close>

definition stream_round ::
  "'a client_env \<Rightarrow> string \<Rightarrow> nat \<Rightarrow> addr \<Rightarrow> u64 \<Rightarrow> u64 \<Rightarrow> 'a client \<Rightarrow> ((u64 option res \<times> 'a client) + (u64 \<times> 'a client)) option" where
  "stream_round E path cb data end_offset start s =
     (let (a, s) = new_local s; s = s\<lparr>memory := (memory s)\<lparr>mem_segment := (mem_segment (memory s))(a := new_StreamSegment (uninitialised E))\<rparr>\<rparr> in
      case GetStreamSegment E path start a (- 1) s of
        None \<Rightarrow> None
      | Some (Inl x, s) \<Rightarrow> Some (Inl (Inl x, s))
      | Some (Inr False, s) \<Rightarrow> Some (Inl (Inr None, s))
      | Some (Inr True, s) \<Rightarrow>
          let seg = mem_segment (memory s) a in
          if seg_bytes seg = 0 then Some (Inl (Inr (Some start), s))
          else
            (case callback_of E cb (OnSegment path start seg) data s of
               (Inl x, s) \<Rightarrow> Some (Inl (Inl x, s))
             | (Inr _, s) \<Rightarrow>
                 let start = seg_end (mem_segment (memory s) a) in
                 Some (if start \<ge> end_offset then Inl (Inr (Some start), s) else Inr (start, s))))"

partial_function (option) stream_loop ::
  "'a client_env \<Rightarrow> string \<Rightarrow> nat \<Rightarrow> addr \<Rightarrow> u64 \<Rightarrow> u64 \<Rightarrow> 'a client \<Rightarrow> (u64 option res \<times> 'a client) option" where
  "stream_loop E path cb data end_offset start s =
     Option.bind (stream_round E path cb data end_offset start s) (\<lambda>r.
       case r of Inl y \<Rightarrow> Some y | Inr z \<Rightarrow> stream_loop E path cb data end_offset (fst z) (snd z))"

text \<open>
  \<open>fetched\<close> is the offset in the caller's \<open>StreamFetchState\<close>; the result has its new value. The end offset
  zero stands for the length the server reports.
\<close>

definition fetch_until ::
  "'a client_env \<Rightarrow> string \<Rightarrow> nat \<Rightarrow> addr \<Rightarrow> u64 \<Rightarrow> u64 \<Rightarrow> 'a client \<Rightarrow> (bool res \<times> u64 \<times> 'a client) option" where
  "fetch_until E path cb data end_offset fetched s =
     (if fetched \<ge> end_offset then Some (Inr True, fetched, s)
      else
        (case stream_loop E path cb data end_offset fetched s of
           None \<Rightarrow> None
         | Some (Inl x, s) \<Rightarrow> Some (Inl x, fetched, s)
         | Some (Inr None, s) \<Rightarrow> Some (Inr False, fetched, s)
         | Some (Inr (Some off), s) \<Rightarrow> Some (Inr True, off, s)))"

definition GetStream ::
  "'a client_env \<Rightarrow> string \<Rightarrow> u64 \<Rightarrow> nat option \<Rightarrow> addr \<Rightarrow> u64 \<Rightarrow> 'a client \<Rightarrow> (bool res \<times> u64 \<times> 'a client) option" where
  "GetStream E path fetched cb data end_offset s =
     (case cb of
        None \<Rightarrow> Some (Inl (InvalidArgument ''callback parameter not defined''), fetched, s)
      | Some f \<Rightarrow>
          if end_offset = 0 then
            (let (a, s) = new_local s in
             case GetStreamInfo E path a (- 1) s of
               None \<Rightarrow> None
             | Some (Inl x, s) \<Rightarrow> Some (Inl x, fetched, s)
             | Some (Inr False, s) \<Rightarrow> Some (Inr False, fetched, s)
             | Some (Inr True, s) \<Rightarrow>
                 fetch_until E path f data
                   (case si_length (mem_stream_info (memory s) a) of None \<Rightarrow> 0 | Some n \<Rightarrow> word_of_int n) fetched s)
          else fetch_until E path f data end_offset fetched s)"

text \<open>The paths and the lengths of the streams of a store, in the order of the three loops of \<open>Mirror\<close>.\<close>

definition listed_streams :: "BucketInfoV1 list \<Rightarrow> (string \<times> u64) list" where
  "listed_streams info =
     concat (map (\<lambda>bi. concat (map (\<lambda>ssi. map (\<lambda>si.
       (StreamPath (bi_path bi) (ss_path ssi) (si_path si), case si_length si of None \<Rightarrow> 0 | Some n \<Rightarrow> word_of_int n))
       (ss_stream ssi)) (bi_stream_set bi))) info)"

fun mirror_streams ::
  "'a client_env \<Rightarrow> nat \<Rightarrow> addr \<Rightarrow> (string \<times> u64) list \<Rightarrow> (string \<times> u64) list \<Rightarrow> 'a client
    \<Rightarrow> (bool res \<times> (string \<times> u64) list \<times> 'a client) option" where
  "mirror_streams E cb data [] states s = Some (Inr True, states, s)"
| "mirror_streams E cb data ((path, len) # xs) states s =
     (let states = (if map_of states path = None then map_put path 0 states else states) in
      case GetStream E path (the (map_of states path)) (Some cb) data len s of
        None \<Rightarrow> None
      | Some (Inl x, off, s) \<Rightarrow> Some (Inl x, map_put path off states, s)
      | Some (Inr False, off, s) \<Rightarrow> Some (Inr False, map_put path off states, s)
      | Some (Inr True, off, s) \<Rightarrow> mirror_streams E cb data xs (map_put path off states) s)"

definition Mirror ::
  "'a client_env \<Rightarrow> (string \<times> u64) list \<Rightarrow> nat option \<Rightarrow> addr \<Rightarrow> 'a client \<Rightarrow> (bool res \<times> (string \<times> u64) list \<times> 'a client) option" where
  "Mirror E states cb data s =
     (case cb of
        None \<Rightarrow> Some (Inl (InvalidArgument ''callback parameter not defined''), states, s)
      | Some f \<Rightarrow>
          (let (a, s) = new_local s in
           case GetStoreInfo E a (- 1) s of
             None \<Rightarrow> None
           | Some (Inl x, s) \<Rightarrow> Some (Inl x, states, s)
           | Some (Inr False, s) \<Rightarrow> Some (Inr False, states, s)
           | Some (Inr True, s) \<Rightarrow> mirror_streams E f data (listed_streams (mem_store_info (memory s) a)) states s))"

section \<open>Subscriptions\<close>

definition SubscribeStoreChanges ::
  "'a client_env \<Rightarrow> string list \<Rightarrow> SubscriptionCallbackInfo \<Rightarrow> addr \<Rightarrow> int \<Rightarrow> 'a client \<Rightarrow> (bool res \<times> 'a client) option" where
  "SubscribeStoreChanges E paths callbacks out timeout s =
     (if \<not> list_all ValidatePath paths then Some (Inl (InvalidArgument ''path is not valid''), s)
      else synchronous E (SubscribeStoreChangesV1 paths)
        (new_OutstandingRequest\<lparr>or_callbacks := callbacks, or_data := out, cb_subscription := Some Own\<rparr>) timeout s)"

definition SubscribeStoreChanges_path ::
  "'a client_env \<Rightarrow> string \<Rightarrow> SubscriptionCallbackInfo \<Rightarrow> addr \<Rightarrow> int \<Rightarrow> 'a client \<Rightarrow> (bool res \<times> 'a client) option" where
  "SubscribeStoreChanges_path E path callbacks out timeout = SubscribeStoreChanges E [path] callbacks out timeout"

definition SubscribeStoreChanges_all ::
  "'a client_env \<Rightarrow> SubscriptionCallbackInfo \<Rightarrow> addr \<Rightarrow> int \<Rightarrow> 'a client \<Rightarrow> (bool res \<times> 'a client) option" where
  "SubscribeStoreChanges_all E callbacks out timeout = SubscribeStoreChanges E [] callbacks out timeout"

text \<open>The request for envelopes has no callback for the acknowledgement.\<close>

definition SubscribeEnvelopes_lua ::
  "'a client_env \<Rightarrow> string \<Rightarrow> string \<Rightarrow> SubscriptionCallbackInfo \<Rightarrow> addr \<Rightarrow> ('a client, bool) action" where
  "SubscribeEnvelopes_lua E path lua cb data =
     send_message E (SubscribeEnvelopesV1 [path] (if lua \<noteq> [] then Some lua else None) [] [] [])
       (new_OutstandingRequest\<lparr>or_data := data, or_callbacks := cb\<rparr>)"

definition SubscribeEnvelopes :: "'a client_env \<Rightarrow> string \<Rightarrow> SubscriptionCallbackInfo \<Rightarrow> addr \<Rightarrow> ('a client, bool) action" where
  "SubscribeEnvelopes E path cb data = SubscribeEnvelopes_lua E path [] cb data"

text \<open>
  The loop over the subscriptions whose renewal is due: the map with the timers started again, and the
  identifiers to renew. An exception of a timer leaves the loop with the timers started so far.
\<close>

fun renew_due :: "bool \<Rightarrow> nat \<Rightarrow> (string \<times> client_subscription) list \<Rightarrow> string list res \<times> (string \<times> client_subscription) list" where
  "renew_due force now [] = (Inr [], [])"
| "renew_due force now ((i, sub) # subs) =
     (case (if force then (Inr True, sub) else subscription_signaled now sub) of
        (Inl x, sub) \<Rightarrow> (Inl x, (i, sub) # subs)
      | (Inr due, sub) \<Rightarrow>
          let sub = (if due then subscription_restart now sub else sub); (r, subs) = renew_due force now subs in
          (rbind r (\<lambda>is. Inr (if due then i # is else is)), (i, sub) # subs))"

definition client_RenewSubscriptions :: "'a client_env \<Rightarrow> bool \<Rightarrow> ('a client, bool) action" where
  "client_RenewSubscriptions E force s =
     (case renew_due force (clock s) (cl_subscriptions s) of
        (Inl x, subs) \<Rightarrow> (Inl x, s\<lparr>cl_subscriptions := subs\<rparr>)
      | (Inr is, subs) \<Rightarrow>
          let s = s\<lparr>cl_subscriptions := subs\<rparr>;
              e = add_to_envelope (cl_codec E) (SubscribeKeepaliveV1 is) (new_Envelope (cl_wall E (cl_created s)));
              (r, sock) = SendEnvelope (cl_codec E) e True no_flags (cl_sock s) in
          (Inr (r \<noteq> 0), s\<lparr>cl_created := cl_created s + 1, cl_sock := sock\<rparr>))"

end
