(* ===== verification/Client.thy ===== *)
theory Client
  imports Client_Request
begin

text \<open>
  Properties of the client on its own (src/zippylog/client.cpp): what processing a message keeps, how long
  a synchronous request waits and for what, and the lifetimes of the subscriptions it holds.
\<close>

section \<open>What processing a message keeps\<close>

text \<open>A subscription whose timer runs, although the system's timer behind it is gone.\<close>

definition stale :: "client_subscription \<Rightarrow> bool" where
  "stale sub \<longleftrightarrow> cs_deleted sub \<and> running (cs_timer sub) \<and> \<not> signaled (cs_timer sub)"

text \<open>
  A relation between states that the application's callbacks keep and that allows the updates of the
  client's own code is kept by the processing of any message.
\<close>

definition allowed_relation :: "'a client_env \<Rightarrow> ('a client \<Rightarrow> 'a client \<Rightarrow> bool) \<Rightarrow> bool" where
  "allowed_relation E P \<longleftrightarrow> reflp P \<and> transp P \<and> (\<forall>n ev a. keeps P (callback_of E n ev a)) \<and>
     (\<forall>s m. P s (s\<lparr>memory := m\<rparr>)) \<and> (\<forall>s k. P s (s\<lparr>cl_sock := k\<rparr>)) \<and>
     (\<forall>s i. P s (s\<lparr>outstanding := map_erase i (outstanding s)\<rparr>)) \<and>
     (\<forall>s i sub. stale sub \<longrightarrow> cs_id sub = i \<longrightarrow> P s (s\<lparr>cl_subscriptions := map_put i sub (cl_subscriptions s)\<rparr>))"

lemma allowedD:
  assumes "allowed_relation E P"
  shows "reflp P" "transp P" "keeps P (callback_of E n ev a)" "P s (s\<lparr>memory := m\<rparr>)" "P s (s\<lparr>cl_sock := k\<rparr>)"
    "P s (s\<lparr>outstanding := map_erase i (outstanding s)\<rparr>)"
    "stale sub \<Longrightarrow> cs_id sub = i \<Longrightarrow> P s (s\<lparr>cl_subscriptions := map_put i sub (cl_subscriptions s)\<rparr>)"
  using assms by (auto simp: allowed_relation_def)

lemma keeps_prod [keeps_intros]: "(\<And>x y. keeps P (f x y)) \<Longrightarrow> keeps P (case z of (x, y) \<Rightarrow> f x y)"
  by (cases z) auto

lemma keeps_sum [keeps_intros]:
  "(\<And>x. keeps P (f x)) \<Longrightarrow> (\<And>y. keeps P (g y)) \<Longrightarrow> keeps P (case z of Inl x \<Rightarrow> f x | Inr y \<Rightarrow> g y)"
  by (cases z) auto

lemma keeps_let [keeps_intros]: "(\<And>x. keeps P (f x)) \<Longrightarrow> keeps P (let x = z in f x)"
  by simp

lemma keeps_own:
  assumes "allowed_relation E P"
  shows "keeps P (run_own ev a)"
  using allowedD(4) [OF assms] keeps_pure(1) [OF allowedD(1) [OF assms]]
  by (cases ev) (auto simp: run_own_def CallbackFeatures_def CallbackStoreInfo_def CallbackBucketInfo_def CallbackStreamSetInfo_def
      CallbackStreamInfo_def CallbackStreamSegment_def CallbackSubscription_def keeps_def)

lemma keeps_asserted:
  assumes "allowed_relation E P"
  shows "keeps P (asserted E cb ev a)"
  unfolding asserted_def run_callback_def
  using allowedD(1-3) [OF assms] keeps_own [OF assms]
  by (cases cb) (auto intro!: keeps_intros split: callback.split)

lemma keeps_get_message: "reflp P \<Longrightarrow> keeps P (get_message E i e)"
  unfolding get_message_def null_message_def by (intro keeps_intros)

lemma keeps_data_of: "reflp P \<Longrightarrow> keeps P (data_of i)"
  by (simp add: keeps_def data_of_def reflp_def split: option.split)

lemma keeps_call_change:
  assumes "allowed_relation E P"
  shows "keeps P (call_change E cb sid i e)"
  unfolding call_change_def other_class_def
  by (intro keeps_intros keeps_get_message keeps_data_of allowedD [OF assms])

lemma keeps_call_changes:
  assumes "allowed_relation E P"
  shows "keeps P (call_changes E cb sid is e)"
proof (induction "is" arbitrary: e)
  case Nil
  show ?case unfolding call_changes.simps using allowedD(1) [OF assms] by (rule keeps_pure)
next
  case (Cons i "is")
  show ?case unfolding call_changes.simps
    by (intro keeps_intros keeps_call_change [OF assms] allowedD(2) [OF assms] Cons.IH)
qed

lemma keeps_subscription_response:
  assumes "allowed_relation E P"
  shows "keeps P (HandleSubscriptionResponse E e sid msgs)"
  unfolding HandleSubscriptionResponse_def call_envelope_def
  by (intro keeps_intros keeps_call_changes keeps_data_of allowedD [OF assms] assms)

lemma keeps_case_message:
  assumes "reflp P"
  shows "(\<And>x y z. keeps P (f1 x y z)) \<Longrightarrow> keeps P (case m of StreamSegmentEndV1 x y z \<Rightarrow> f1 x y z | _ \<Rightarrow> other_class)"
    "(\<And>x y. keeps P (f2 x y)) \<Longrightarrow> keeps P (case m of StreamSegmentStartV1 x y \<Rightarrow> f2 x y | _ \<Rightarrow> other_class)"
    "(\<And>x y. keeps P (f3 x y)) \<Longrightarrow> keeps P (case m of SubscriptionAcceptAckV1 x y \<Rightarrow> f3 x y | _ \<Rightarrow> other_class)"
    "(\<And>x. keeps P (f4 x)) \<Longrightarrow> keeps P (case m of SubscriptionStartV1 x \<Rightarrow> f4 x | _ \<Rightarrow> other_class)"
    "(\<And>x. keeps P (f5 x)) \<Longrightarrow> keeps P (case m of StoreInfoMsg x \<Rightarrow> f5 x | _ \<Rightarrow> other_class)"
    "(\<And>x. keeps P (f6 x)) \<Longrightarrow> keeps P (case m of BucketInfoMsg x \<Rightarrow> f6 x | _ \<Rightarrow> other_class)"
    "(\<And>x. keeps P (f7 x)) \<Longrightarrow> keeps P (case m of StreamSetInfoMsg x \<Rightarrow> f7 x | _ \<Rightarrow> other_class)"
    "(\<And>x. keeps P (f8 x)) \<Longrightarrow> keeps P (case m of StreamInfoMsg x \<Rightarrow> f8 x | _ \<Rightarrow> other_class)"
proof -
  have o: "keeps P other_class" unfolding other_class_def using assms by (rule keeps_pure)
  show "(\<And>x y z. keeps P (f1 x y z)) \<Longrightarrow> keeps P (case m of StreamSegmentEndV1 x y z \<Rightarrow> f1 x y z | _ \<Rightarrow> other_class)"
    using o by (cases m) simp_all
  show "(\<And>x y. keeps P (f2 x y)) \<Longrightarrow> keeps P (case m of StreamSegmentStartV1 x y \<Rightarrow> f2 x y | _ \<Rightarrow> other_class)"
    using o by (cases m) simp_all
  show "(\<And>x y. keeps P (f3 x y)) \<Longrightarrow> keeps P (case m of SubscriptionAcceptAckV1 x y \<Rightarrow> f3 x y | _ \<Rightarrow> other_class)"
    using o by (cases m) simp_all
  show "(\<And>x. keeps P (f4 x)) \<Longrightarrow> keeps P (case m of SubscriptionStartV1 x \<Rightarrow> f4 x | _ \<Rightarrow> other_class)"
    using o by (cases m) simp_all
  show "(\<And>x. keeps P (f5 x)) \<Longrightarrow> keeps P (case m of StoreInfoMsg x \<Rightarrow> f5 x | _ \<Rightarrow> other_class)"
    using o by (cases m) simp_all
  show "(\<And>x. keeps P (f6 x)) \<Longrightarrow> keeps P (case m of BucketInfoMsg x \<Rightarrow> f6 x | _ \<Rightarrow> other_class)"
    using o by (cases m) simp_all
  show "(\<And>x. keeps P (f7 x)) \<Longrightarrow> keeps P (case m of StreamSetInfoMsg x \<Rightarrow> f7 x | _ \<Rightarrow> other_class)"
    using o by (cases m) simp_all
  show "(\<And>x. keeps P (f8 x)) \<Longrightarrow> keeps P (case m of StreamInfoMsg x \<Rightarrow> f8 x | _ \<Rightarrow> other_class)"
    using o by (cases m) simp_all
qed

lemma keeps_read_segment:
  assumes "allowed_relation E P"
  shows "keeps P (read_segment E path off ms)"
  unfolding read_segment_def Let_def
  by (intro keeps_intros keeps_case_message keeps_get_message allowedD [OF assms])

lemma new_subscription_stale:
  "stale \<lparr>cs_id = i, cs_timer = snd (Timer_Start now us (new_Timer u)),
     cs_deleted = initialized (snd (Timer_Start now us (new_Timer u))), cs_cb = cb, cs_data = d\<rparr>"
  by (simp add: stale_def Timer_Start_def new_Timer_def Timer_Initialize_def Let_def)

lemma keeps_accept:
  assumes "allowed_relation E P"
  shows "keeps P (accept_subscription E i ttl req)"
  unfolding accept_subscription_def Let_def
  by (intro keeps_intros keeps_modify allowedD [OF assms] new_subscription_stale) simp


lemma keeps_request_response:
  assumes "allowed_relation E P"
  shows "keeps P (HandleRequestResponse E e ms)"
  unfolding HandleRequestResponse_def Let_def
  by (intro keeps_intros keeps_modify keeps_case_message keeps_get_message keeps_asserted keeps_read_segment keeps_accept
      allowedD [OF assms] assms)

lemma keeps_response:
  assumes "allowed_relation E P"
  shows "keeps P (ProcessResponseMessage E ms)"
  unfolding ProcessResponseMessage_def ValidateSubscriptionStart_def
  by (intro keeps_intros keeps_case_message keeps_get_message keeps_subscription_response keeps_request_response
      allowedD [OF assms] assms)

lemma keeps_pending:
  assumes "allowed_relation E P"
  shows "keeps P (ProcessPendingMessage E)"
  unfolding ProcessPendingMessage_def
  by (intro keeps_intros keeps_modify keeps_response allowedD [OF assms] assms)

section \<open>Waiting for a response\<close>

definition clock_advances :: "'a client_env \<Rightarrow> bool" where
  "clock_advances E \<longleftrightarrow> (\<forall>s. 0 < elapsed E 25 s) \<and> (\<forall>n ev a s. clock s \<le> clock (snd (callback_of E n ev a s)))"

lemma clock_allowed:
  assumes "clock_advances E"
  shows "allowed_relation E (\<lambda>s s'. clock s \<le> clock s')"
  using assms by (auto simp: allowed_relation_def clock_advances_def keeps_def reflp_def intro!: transpI)

lemma client_Pump_run:
  "client_Pump E timeout s =
     (if inbox (cl_sock s) @ arrivals E timeout s = [] then (Inr 0, snd (client_poll E timeout s))
      else case ProcessPendingMessage E (snd (client_poll E timeout s)) of (Inl x, t) \<Rightarrow> (Inl x, t) | (Inr ok, t) \<Rightarrow> (Inr (if ok then 1 else - 1), t))"
  by (simp add: client_Pump_def client_poll_def andThen_def split: prod.split sum.split)

lemma client_Pump_clock:
  assumes "clock_advances E"
  shows "clock s < clock (snd (client_Pump E 25 s))"
proof -
  let ?s = "snd (client_poll E 25 s)"
  have "clock s < clock ?s" using assms by (simp add: client_poll_def clock_advances_def)
  moreover have "clock ?s \<le> clock (snd (ProcessPendingMessage E ?s))"
    using keeps_pending [OF clock_allowed [OF assms]] by (simp add: keeps_def)
  ultimately show ?thesis
    by (auto simp: client_Pump_run split: prod.split sum.split)
qed

lemma started_timer:
  assumes "0 < us"
  shows "deadline (snd (Timer_Start now 0 (new_Timer us))) = Some (now + unat us)"
    "running (snd (Timer_Start now 0 (new_Timer us)))" "\<not> signaled (snd (Timer_Start now 0 (new_Timer us)))"
proof -
  have "\<not> (us div 1000000 = 0 \<and> (us mod 1000000) * 1000 = 0)"
  proof
    assume "us div 1000000 = 0 \<and> (us mod 1000000) * 1000 = 0"
    with micros_split [of us] have "unat us = 0" by simp
    with assms show False by (simp add: unat_eq_0)
  qed
  then show "deadline (snd (Timer_Start now 0 (new_Timer us))) = Some (now + unat us)"
    "running (snd (Timer_Start now 0 (new_Timer us)))" "\<not> signaled (snd (Timer_Start now 0 (new_Timer us)))"
    using micros_split [of us]
    by (auto simp: Timer_Start_def new_Timer_def Timer_Initialize_def Let_def add.assoc)
qed

lemma start_interval: "0 < us \<Longrightarrow> Timer_Start now us (new_Timer u) = Timer_Start now 0 (new_Timer us)"
  by (simp add: Timer_Start_def new_Timer_def Timer_Initialize_def Let_def)

text \<open>How a wait ends: with the request taken, at the deadline \<open>d\<close> with the request outstanding, or in an exception.\<close>

definition waited :: "string \<Rightarrow> nat \<Rightarrow> bool res \<Rightarrow> 'a client \<Rightarrow> bool" where
  "waited i d r s \<longleftrightarrow> (r = Inr True \<longrightarrow> \<not> HaveOutstandingRequest i s) \<and> (r = Inr False \<longrightarrow> HaveOutstandingRequest i s \<and> d \<le> clock s)"

lemma wait_loop_returns:
  assumes "clock_advances E" "deadline t = Some d" "running t" "\<not> signaled t"
  shows "\<exists>r s'. wait_loop E i True t s = Some (r, s') \<and> clock s < clock s' \<and> waited i d r s'"
proof (induction "d - clock s" arbitrary: s rule: less_induct)
  case less
  obtain r s1 where p: "client_Pump E 25 s = (r, s1)" by (cases "client_Pump E 25 s")
  have step: "clock s < clock s1" using client_Pump_clock [OF assms(1), of s] p by simp
  show ?case
  proof (cases "(\<exists>x. r = Inl x) \<or> \<not> HaveOutstandingRequest i s1 \<or> d \<le> clock s1")
    case True
    then show ?thesis
      using p step assms(2-4) by (subst wait_loop.simps) (cases r; auto simp: waited_def Timer_Signaled_def)
  next
    case False
    then have "wait_loop E i True t s = wait_loop E i True t s1"
      using p assms(2-4) by (subst wait_loop.simps) (cases r; auto simp: Timer_Signaled_def)
    moreover have "d - clock s1 < d - clock s" using False step by auto
    ultimately show ?thesis using less.hyps [of s1] step by fastforce
  qed
qed

text \<open>The identifier the next request gets, and what sending it makes of the state.\<close>

definition next_request :: "'a client_env \<Rightarrow> 'a client \<Rightarrow> string" where
  "next_request E s = cl_uuid E (cl_created s + 1)"

lemma SendRequest_id_sent:
  assumes "send_results (cl_sock s) = []"
  shows "\<exists>k. SendRequest_id E e req s =
    (Inr (Some (cl_uuid E (cl_created s))), s\<lparr>cl_created := cl_created s + 1, cl_sock := k,
      outstanding := map_put (cl_uuid E (cl_created s)) (req\<lparr>or_id := cl_uuid E (cl_created s)\<rparr>) (outstanding s)\<rparr>) \<and>
    inbox k = inbox (cl_sock s) \<and> send_results k = []"
proof -
  let ?e = "AddTag (cl_uuid E (cl_created s)) e"
  obtain r k where k: "SendEnvelope_to (cl_codec E) [] ?e True no_flags (cl_sock s) = (r, k)" by fastforce
  have "r \<noteq> 0 \<and> inbox k = inbox (cl_sock s) \<and> send_results k = []"
    using k assms by (cases "serialize_for (cl_codec E) ?e True") (auto simp: SendEnvelope_to_def)
  with k show ?thesis by (auto simp: SendRequest_id_def Let_def)
qed

lemma SendRequest_id_fails:
  "SendRequest_id E e req s = (Inr None, s') \<Longrightarrow> send_results (cl_sock s) \<noteq> [] \<and> outstanding s' = outstanding s \<and> clock s' = clock s"
  using SendRequest_id_sent [of s E e req] by (auto simp: SendRequest_id_def Let_def split: prod.splits if_splits)

lemma SendRequest_id_Some:
  "SendRequest_id E e req s = (Inr (Some i), s') \<Longrightarrow> i = cl_uuid E (cl_created s) \<and> clock s' = clock s"
  by (auto simp: SendRequest_id_def Let_def split: prod.splits if_splits)

lemma SendRequest_id_throws: "SendRequest_id E e req s \<noteq> (Inl x, s')"
  by (auto simp: SendRequest_id_def Let_def split: prod.splits if_splits)

lemma synchronous_returns:
  assumes "0 < timeout" "0 < timeout_micros timeout" "clock_advances E"
  shows "\<exists>r s'. synchronous E m req timeout s = Some (r, s') \<and> clock s \<le> clock s' \<and>
    (waited (next_request E s) (clock s + unat (timeout_micros timeout)) r s' \<or>
     r = Inr False \<and> send_results (cl_sock s) \<noteq> [] \<and> outstanding s' = outstanding s)"
proof -
  let ?us = "timeout_micros timeout"
  obtain e s1 where e: "request_envelope E m s = (Inr e, s1)" "s1 = s\<lparr>cl_created := cl_created s + 1\<rparr>"
    by (simp add: request_envelope_def)
  obtain z s2 where z: "SendRequest_id E e req s1 = (z, s2)" by (cases "SendRequest_id E e req s1")
  have run: "synchronous E m req timeout s = (case z of Inl x \<Rightarrow> Some (Inl x, s2) | Inr None \<Rightarrow> Some (Inr False, s2)
      | Inr (Some i) \<Rightarrow> wait_loop E i True (snd (Timer_Start (clock s2) 0 (new_Timer ?us))) s2)"
    using e(1) z assms(1) by (simp add: synchronous_def SendAndProcessSynchronousRequest_def split: sum.split option.split)
  show ?thesis
  proof (cases z)
    case (Inl x)
    with z SendRequest_id_throws show ?thesis by blast
  next
    case (Inr y)
    show ?thesis
    proof (cases y)
      case None
      with z Inr have "send_results (cl_sock s1) \<noteq> [] \<and> outstanding s2 = outstanding s1 \<and> clock s2 = clock s1"
        using SendRequest_id_fails by blast
      with run Inr None e(2) show ?thesis by (intro exI [of _ "Inr False"] exI [of _ s2]) simp
    next
      case (Some i)
      with z Inr have i: "i = cl_uuid E (cl_created s1) \<and> clock s2 = clock s1" using SendRequest_id_Some by blast
      have "clock s2 + unat ?us = clock s + unat ?us" using i e(2) by simp
      then show ?thesis
        using wait_loop_returns [OF assms(3) started_timer [OF assms(2)], of i "clock s2" s2] run Inr Some i e(2)
        by (fastforce simp: next_request_def)
    qed
  qed
qed

section \<open>Properties\<close>

text \<open>
  C7: a synchronous request with a positive timeout returns when time passes: either the request is not
  outstanding any more and the result is true, or it still is, at least the timeout has passed and the
  result is false (or the request was not sent), or an exception is passed on.
\<close>

theorem request_returns:
  assumes "0 < timeout" "timeout * 1000 < 2 ^ 31" "clock_advances E"
  shows "\<exists>r s'. synchronous E m req timeout s = Some (r, s') \<and> clock s \<le> clock s' \<and>
    (waited (next_request E s) (clock s + nat (timeout * 1000)) r s' \<or>
     r = Inr False \<and> send_results (cl_sock s) \<noteq> [] \<and> outstanding s' = outstanding s)"
proof -
  have "timeout * 1000 < 2 ^ 32" using assms(2) by simp
  then have "unat (timeout_micros timeout) = nat (timeout * 1000)"
    using assms(1,2) unat_word_of_nat [of "nat (timeout * 1000)"]
    by (simp add: timeout_micros_def word_of_to_int32 nat_less_iff del: of_int_mult)
  moreover from this have "0 < timeout_micros timeout" using assms(1) by (simp add: word_less_nat_alt)
  ultimately show ?thesis using synchronous_returns [OF assms(1) _ assms(3), of m req s] by simp
qed

definition sample_memory :: memory where
  "sample_memory = \<lparr>mem_features = (\<lambda>_. \<lparr>supported_message_formats = [], supported_request_types = [],
       supported_request_names = [], max_stream_segment_bytes = 0, max_stream_segment_envelopes = 0\<rparr>),
     mem_store_info = (\<lambda>_. []), mem_bucket_info = (\<lambda>_. \<lparr>bi_path = [], bi_stream_set = []\<rparr>),
     mem_stream_set_info = (\<lambda>_. \<lparr>ss_path = [], ss_stream = []\<rparr>), mem_stream_info = (\<lambda>_. \<lparr>si_path = [], si_length = None\<rparr>),
     mem_segment = (\<lambda>_. \<lparr>seg_path = [], seg_start = 0, seg_end = 0, seg_bytes = 0, seg_count = 0, seg_envelopes = []\<rparr>),
     mem_result = (\<lambda>_. \<lparr>result_of = UNKNOWN_OUTCOME, result_id = [], result_ttl = 0\<rparr>)\<rparr>"

text \<open>A client without an application, and a world in which nothing arrives and every poll takes its time.\<close>

definition sample_client :: "unit client" where
  "sample_client = \<lparr>cl_sock = \<lparr>sent = [], send_results = [], inbox = []\<rparr>, cl_subscriptions = [], outstanding = [],
     subscription_renewal_offset = 5000000, has_thread = False, memory = sample_memory, application = (),
     clock = 0, cl_created = 0, polls = 0, locals = 0\<rparr>"

definition sample_client_env :: "unit client_env" where
  "sample_client_env = \<lparr>cl_codec = sample_codec, cl_types = [((1, 93), StreamInfoMsg \<lparr>si_path = ''n'', si_length = Some 3\<rparr>)],
     cl_uuid = (\<lambda>n. [char_of n]), cl_wall = (\<lambda>_. 7), uninitialised = mem_segment sample_memory (Caller 0), uninit_micros = 0,
     callback_of = (\<lambda>_ _ _. ret ()), arrivals = (\<lambda>_ _. []), elapsed = (\<lambda>_ _. 25000)\<rparr>"

lemma sample_client_clock: "clock_advances sample_client_env"
  by (simp add: clock_advances_def sample_client_env_def)

lemma request_returns_witness:
  "\<exists>r s'. synchronous sample_client_env PingV1 (new_OutstandingRequest\<lparr>cb_ping := Some Own\<rparr>) 100 sample_client = Some (r, s') \<and>
     waited [CHR 0x01] 100000 r s'"
  using request_returns [of 100, OF _ _ sample_client_clock, of PingV1 "new_OutstandingRequest\<lparr>cb_ping := Some Own\<rparr>" sample_client]
  by (auto simp: next_request_def sample_client_env_def sample_client_def char_of_def bit_0)

section \<open>Responses that are not dispatched\<close>

text \<open>A message whose first type is one that \<open>ProcessResponseMessage\<close> drops, and frames of such messages.\<close>

definition says :: "u32 \<Rightarrow> EnvelopePB \<Rightarrow> bool" where
  "says ty pb \<longleftrightarrow> message pb \<noteq> [] \<and> message_ns pb \<noteq> [] \<and> message_ty pb \<noteq> [] \<and> message_ns pb ! 0 = 1 \<and> message_ty pb ! 0 = ty"

definition carries :: "codec \<Rightarrow> EnvelopePB \<Rightarrow> string \<Rightarrow> bool" where
  "carries c pb m \<longleftrightarrow> 2 < length m \<and> ParseEnvelope c (tl m) = Some pb"

definition unheeded_message :: "codec \<Rightarrow> string \<Rightarrow> bool" where
  "unheeded_message c m \<longleftrightarrow> (\<exists>pb ty. carries c pb m \<and> says ty pb \<and> ty \<noteq> 107 \<and> ty \<notin> set handled_types)"

fun unheeded :: "codec \<Rightarrow> (string \<times> bool) list \<Rightarrow> bool" where
  "unheeded c [] = True"
| "unheeded c [f] = False"
| "unheeded c (f # g # fs) = (fst f = [] \<and> unheeded_message c (fst g) \<and> \<not> snd g \<and> unheeded c fs)"

lemma unheeded_append: "unheeded c fs \<Longrightarrow> unheeded c gs \<Longrightarrow> unheeded c (fs @ gs)"
  by (induction c fs rule: unheeded.induct) auto

lemma ReceiveMessage_one:
  assumes "inbox sock = ([], b) # (m, False) # fs" "m \<noteq> []"
  shows "ReceiveMessage sock = (True, \<lparr>identities = [], mc_messages = [m]\<rparr>, sock\<lparr>inbox := fs\<rparr>)"
  using assms by (simp add: ReceiveMessage_def empty_container_def AddMessage_part_def)

lemma carried:
  assumes "carries c pb m"
  shows "Envelope_of_zmq c m 1 = Inr (of_pb pb)" "m \<noteq> []"
  using assms by (auto simp: carries_def Envelope_of_zmq_def InitializeFromBuffer_def drop_Suc)

lemma response_says:
  assumes "carries (cl_codec E) pb m" "says ty pb" "ty \<noteq> 107"
  shows "ProcessResponseMessage E (m # ms) s =
    (if ty \<in> set handled_types then HandleRequestResponse E (of_pb pb) (m # ms) s else (Inr False, s))"
proof -
  have pb: "\<not> MessageCount (of_pb pb) < 1" "field_at (message_ns (envelope (of_pb pb))) 0 = Inr 1" "field_at (message_ty (envelope (of_pb pb))) 0 = Inr ty"
    using assms(2) by (auto simp: says_def MessageCount_def of_pb_def field_at_def Suc_le_eq)
  have m: "Envelope_of_zmq (cl_codec E) ((m # ms) ! 0) 1 = Inr (of_pb pb)" using carried(1) [OF assms(1)] by simp
  show ?thesis unfolding ProcessResponseMessage_def m using pb assms(3) by simp
qed

lemma unheeded_pump:
  assumes "unheeded (cl_codec E) (inbox (cl_sock s))" "\<forall>s. unheeded (cl_codec E) (arrivals E 25 s)"
  shows "\<exists>r k d. client_Pump E 25 s = (Inr r, s\<lparr>cl_sock := k, clock := clock s + d, polls := polls s + 1\<rparr>) \<and>
    unheeded (cl_codec E) (inbox k) \<and> send_results k = send_results (cl_sock s)"
proof -
  let ?fs = "inbox (cl_sock s) @ arrivals E 25 s"
  let ?s = "s\<lparr>cl_sock := (cl_sock s)\<lparr>inbox := ?fs\<rparr>, clock := clock s + elapsed E 25 s, polls := polls s + 1\<rparr>"
  have poll: "snd (client_poll E 25 s) = ?s" by (simp add: client_poll_def)
  have fs: "unheeded (cl_codec E) ?fs" using assms by (blast intro: unheeded_append)
  show ?thesis
  proof (cases "(cl_codec E, ?fs)" rule: unheeded.cases)
    case 1
    then have "client_Pump E 25 s = (Inr 0, ?s)" by (simp add: client_Pump_run poll)
    with fs show ?thesis by (intro exI [of _ 0] exI [of _ "(cl_sock s)\<lparr>inbox := ?fs\<rparr>"] exI [of _ "elapsed E 25 s"]) simp
  next
    case (2 c f)
    with fs show ?thesis by simp
  next
    case (3 c f g later)
    then obtain b m where fg: "f = ([], b)" "g = (m, False)" and u: "unheeded_message (cl_codec E) m" and later: "unheeded (cl_codec E) later"
      using fs by (cases f; cases g) auto
    from u obtain pb ty where m: "carries (cl_codec E) pb m" "says ty pb" "ty \<noteq> 107" "ty \<notin> set handled_types"
      by (auto simp: unheeded_message_def)
    have "ReceiveMessage (cl_sock ?s) = (True, \<lparr>identities = [], mc_messages = [m]\<rparr>, (cl_sock ?s)\<lparr>inbox := later\<rparr>)"
      using ReceiveMessage_one [of "cl_sock ?s" b m later] 3 fg carried(2) [OF m(1)] by simp
    then have "ProcessPendingMessage E ?s = (Inr False, ?s\<lparr>cl_sock := (cl_sock ?s)\<lparr>inbox := later\<rparr>\<rparr>)"
      using response_says [OF m(1-3), of "[]"] m(4) by (simp add: ProcessPendingMessage_def Let_def)
    then have "client_Pump E 25 s = (Inr (- 1), ?s\<lparr>cl_sock := (cl_sock ?s)\<lparr>inbox := later\<rparr>\<rparr>)"
      using 3 by (simp add: client_Pump_run poll)
    with later show ?thesis by (intro exI [of _ "- 1"] exI [of _ "(cl_sock ?s)\<lparr>inbox := later\<rparr>"] exI [of _ "elapsed E 25 s"]) simp
  qed
qed

lemma wait_unheeded:
  assumes "\<forall>s. unheeded (cl_codec E) (arrivals E 25 s)" "wait_loop E i ht t s = Some y"
    "unheeded (cl_codec E) (inbox (cl_sock s))" "HaveOutstandingRequest i s"
  shows "ht \<and> (\<exists>s'. y = (Inr False, s'))"
proof -
  let ?P = "\<lambda>F i ht t s (y :: bool res \<times> 'a client). F = E \<longrightarrow> unheeded (cl_codec E) (inbox (cl_sock s)) \<longrightarrow>
    HaveOutstandingRequest i s \<longrightarrow> ht \<and> (\<exists>s'. y = (Inr False, s'))"
  have "?P E i ht t s y"
  proof (rule wait_loop.raw_induct [of ?P, OF _ assms(2)])
    fix loop :: "'a client_env \<Rightarrow> string \<Rightarrow> bool \<Rightarrow> Timer \<Rightarrow> 'a client \<Rightarrow> (bool res \<times> 'a client) option"
    fix F i ht t s y
    assume IH: "\<And>F i ht t s y. loop F i ht t s = Some y \<Longrightarrow> ?P F i ht t s y"
      and body: "(case client_Pump F 25 s of (Inl x, s) \<Rightarrow> Some (Inl x, s)
        | (Inr _, s) \<Rightarrow>
            if \<not> HaveOutstandingRequest i s then Some (Inr True, s)
            else if ht \<and> fst (Timer_Signaled (clock s) t) then Some (Inr False, s)
            else loop F i ht (if ht then snd (Timer_Signaled (clock s) t) else t) s) = Some y"
    show "?P F i ht t s y"
    proof (intro impI)
      assume F: "F = E" and u: "unheeded (cl_codec E) (inbox (cl_sock s))" and o: "HaveOutstandingRequest i s"
      from unheeded_pump [OF u assms(1)] obtain r k d where
        p: "client_Pump E 25 s = (Inr r, s\<lparr>cl_sock := k, clock := clock s + d, polls := polls s + 1\<rparr>)" and k: "unheeded (cl_codec E) (inbox k)"
        by blast
      let ?s = "s\<lparr>cl_sock := k, clock := clock s + d, polls := polls s + 1\<rparr>"
      have o': "HaveOutstandingRequest i ?s" using o by (simp add: HaveOutstandingRequest_def)
      show "ht \<and> (\<exists>s'. y = (Inr False, s'))"
      proof (cases "ht \<and> fst (Timer_Signaled (clock ?s) t)")
        case True
        with body p o' F show ?thesis by auto
      next
        case False
        then have "loop F i ht (if ht then snd (Timer_Signaled (clock ?s) t) else t) ?s = Some y"
          using body p o' F by (simp split: if_splits)
        from IH [OF this] F k o' show ?thesis by simp
      qed
    qed
  qed
  with assms(3,4) show ?thesis by simp
qed

lemma synchronous_unheeded:
  assumes "\<forall>s. unheeded (cl_codec E) (arrivals E 25 s)" "unheeded (cl_codec E) (inbox (cl_sock s))"
    "send_results (cl_sock s) = []" "timeout * 1000 < 2 ^ 31" "- (2 ^ 31) \<le> timeout * 1000"
    "synchronous E m req timeout s = Some y"
  shows "0 < timeout \<and> (\<exists>s'. y = (Inr False, s'))"
proof -
  let ?s = "s\<lparr>cl_created := cl_created s + 1\<rparr>"
  obtain e where e: "request_envelope E m s = (Inr e, ?s)" by (simp add: request_envelope_def)
  from SendRequest_id_sent [of ?s E e req] assms(3) obtain i k q where
    z: "SendRequest_id E e req ?s = (Inr (Some i), ?s\<lparr>cl_created := cl_created ?s + 1, cl_sock := k, outstanding := map_put i q (outstanding ?s)\<rparr>)"
    and k: "inbox k = inbox (cl_sock s)" by auto
  let ?s2 = "?s\<lparr>cl_created := cl_created ?s + 1, cl_sock := k, outstanding := map_put i q (outstanding ?s)\<rparr>"
  have "wait_loop E i (0 < timeout) (snd (Timer_Start (clock ?s2) 0 (new_Timer (timeout_micros timeout)))) ?s2 = Some y"
    using assms(6) e z by (simp add: synchronous_def SendAndProcessSynchronousRequest_def)
  from wait_unheeded [OF assms(1) this] show ?thesis using k assms(2) by (simp add: HaveOutstandingRequest_def)
qed

lemma synchronous_forever:
  assumes "\<forall>s. unheeded (cl_codec E) (arrivals E 25 s)" "unheeded (cl_codec E) (inbox (cl_sock s))"
    "send_results (cl_sock s) = []"
  shows "synchronous E m req (- 1) s = None"
  using synchronous_unheeded [OF assms, of "- 1"] by (cases "synchronous E m req (- 1) s") auto

text \<open>
  C20: when the server's responses are all of types that the client does not dispatch - the features, the
  buckets, stream sets and streams it describes, errors - a synchronous request never succeeds: with a
  timeout it returns false, without one it never returns. \<open>GetStream\<close> without an end offset, which asks
  for the length of the stream first, never returns.
\<close>

theorem unheeded_never_succeeds:
  assumes "\<forall>s. unheeded (cl_codec E) (arrivals E 25 s)" "unheeded (cl_codec E) (inbox (cl_sock s))"
    "send_results (cl_sock s) = []" "- (2 ^ 31) \<le> timeout * 1000" "timeout * 1000 < 2 ^ 31"
    "IsBucketPath bpath" "IsStreamSetPath tpath"
    "f \<in> {GetFeatures E out timeout, GetBucketInfo E bpath out timeout, GetStreamSetInfo E tpath out timeout, GetStreamInfo E stream out timeout}"
  shows "(f s = None \<or> 0 < timeout \<and> (\<exists>s'. f s = Some (Inr False, s'))) \<and> (timeout \<le> 0 \<longrightarrow> f s = None) \<and>
    GetStream E stream fetched (Some cb) data 0 s = None"
proof -
  have f: "\<exists>m req. f s = synchronous E m req timeout s"
    using assms(6-8) by (auto simp: GetFeatures_def GetBucketInfo_def GetStreamSetInfo_def GetStreamInfo_def; blast)
  then obtain m req where f: "f s = synchronous E m req timeout s" by blast
  have "f s = None \<or> 0 < timeout \<and> (\<exists>s'. f s = Some (Inr False, s'))"
    using synchronous_unheeded [OF assms(1-3,5,4), of m req] f by (cases "synchronous E m req timeout s") auto
  moreover have "GetStreamInfo E stream (Local (locals s)) (- 1) (s\<lparr>locals := locals s + 1\<rparr>) = None"
    unfolding GetStreamInfo_def using assms(1-3) by (intro synchronous_forever) simp_all
  then have "GetStream E stream fetched (Some cb) data 0 s = None"
    by (simp add: GetStream_def new_local_def)
  ultimately show ?thesis by auto
qed

text \<open>The server's answer with the description of a stream arrives with the first poll.\<close>

definition described_env :: "unit client_env" where
  "described_env = sample_client_env\<lparr>arrivals := (\<lambda>_ s. if polls s = 0 then [([], True), ([CHR 0x01, CHR 0x5D, CHR ''n''], False)] else [])\<rparr>"

lemma unheeded_never_succeeds_witness:
  "GetStreamInfo described_env ''/b/s/n'' (Caller 1) 0 sample_client = None \<and>
   GetStream described_env ''/b/s/n'' 0 (Some 1) (Caller 1) 0 sample_client = None"
proof -
  have "unheeded_message sample_codec [CHR 0x01, CHR 0x5D, CHR ''n'']"
    unfolding unheeded_message_def carries_def
    by (rule exI [of _ "empty_envelope\<lparr>message := [''n''], message_ns := [1], message_ty := [93]\<rparr>"], rule exI [of _ 93])
      (simp add: says_def handled_types_def)
  then have u: "\<forall>s. unheeded (cl_codec described_env) (arrivals described_env 25 s)"
    "unheeded (cl_codec described_env) (inbox (cl_sock sample_client))" "send_results (cl_sock sample_client) = []"
    by (simp_all add: described_env_def sample_client_env_def sample_client_def)
  have p: "IsBucketPath ''/b''" "IsStreamSetPath ''/b/s''" by code_simp+
  show ?thesis
    using unheeded_never_succeeds [OF u _ _ p, of 0 "GetStreamInfo described_env ''/b/s/n'' (Caller 1) 0" "Caller 1" "''/b/s/n''" 0 1 "Caller 1"] by simp
qed

section \<open>Subscriptions\<close>

lemma get_message_parsed:
  assumes "parsed (cl_codec E) (cl_types E) pb i = Some m"
  obtains e where "get_message E i (of_pb pb) s = (Inr (m, e), s)" "envelope e = pb"
proof -
  have "0 \<le> int i" by simp
  from GetMessage_parsed [OF cache_ok_of_pb this, of "cl_codec E" "cl_types E" pb] obtain e where
    "GetMessage (cl_codec E) (cl_types E) (int i) (of_pb pb) = (Inr (Some m), e)" "envelope e = pb"
    using assms by (auto simp: of_pb_def)
  with that show ?thesis by (simp add: get_message_def)
qed

text \<open>The lifetime in microseconds, in 32 bits.\<close>

definition ack_lifetime :: "u32 \<Rightarrow> nat" where
  "ack_lifetime ttl = (unat ttl * 1000) mod 2 ^ 32"

lemma ack_lifetime_word: "unat (ttl * 1000 :: u32) = ack_lifetime ttl"
  by (simp add: ack_lifetime_def unat_word_ariths)

lemma acknowledged_run:
  assumes "carries (cl_codec E) pb m" "says 109 pb" "tag pb = i # tags" "map_of (outstanding s) i = Some req"
    "parsed (cl_codec E) (cl_types E) pb 0 = Some (SubscriptionAcceptAckV1 sid ttl)"
    "t = snd (Timer_Start (clock s) (ttl * 1000 - subscription_renewal_offset s) (new_Timer (uninit_micros E)))"
    "sub = \<lparr>cs_id = sid, cs_timer = t, cs_deleted = initialized t, cs_cb = or_callbacks req, cs_data = or_data req\<rparr>"
    "s1 = s\<lparr>outstanding := map_erase i (outstanding s)\<rparr>"
  shows "ProcessResponseMessage E (m # ms) s =
      (if ack_lifetime ttl < unat (subscription_renewal_offset s) then (Inl (RuntimeException ''subscription TTL less than configured time offset''), s1)
       else asserted E (cb_subscription req) (OnSubscription sid ttl) (or_data req) (s1\<lparr>cl_subscriptions := map_put sid sub (cl_subscriptions s)\<rparr>))"
proof -
  obtain e where g: "get_message E 0 (of_pb pb) s1 = (Inr (SubscriptionAcceptAckV1 sid ttl, e), s1)"
    using get_message_parsed [OF assms(5)] by blast
  have less: "ttl * 1000 < subscription_renewal_offset s \<longleftrightarrow> ack_lifetime ttl < unat (subscription_renewal_offset s)"
    by (simp add: word_less_nat_alt ack_lifetime_word)
  have "accept_subscription E sid ttl req s1 =
      (if ack_lifetime ttl < unat (subscription_renewal_offset s) then (Inl (RuntimeException ''subscription TTL less than configured time offset''), s1)
       else (Inr (), s1\<lparr>cl_subscriptions := map_put sid sub (cl_subscriptions s)\<rparr>))"
    by (simp add: accept_subscription_def Let_def less assms(6-8))
  with response_says [OF assms(1,2), of ms s] assms(2-4,8) g show ?thesis
    by (simp add: handled_types_def HandleRequestResponse_def says_def of_pb_def andThen_Inr andThen_Inl)
qed

text \<open>
  C22: what an acknowledged subscription becomes. The request is not outstanding any more. Unless the lifetime in
  milliseconds, times 1000 modulo \<open>2 ^ 32\<close>, reaches the renewal offset, the client throws and keeps no
  subscription; otherwise it holds one with the callbacks of the request, to be renewed that offset
  before its end. A request for envelopes, which has no callback for the acknowledgement, ends the process.
\<close>

theorem subscription_acknowledged:
  assumes "carries (cl_codec E) pb m" "says 109 pb" "tag pb = i # tags" "map_of (outstanding s) i = Some req"
    "parsed (cl_codec E) (cl_types E) pb 0 = Some (SubscriptionAcceptAckV1 sid ttl)" "cb_subscription req \<in> {None, Some Own}"
  shows "\<exists>r s'. ProcessResponseMessage E (m # ms) s = (r, s') \<and> outstanding s' = map_erase i (outstanding s) \<and>
    (if ack_lifetime ttl < unat (subscription_renewal_offset s) then
       r = Inl (RuntimeException ''subscription TTL less than configured time offset'') \<and> cl_subscriptions s' = cl_subscriptions s
     else
       r = (if cb_subscription req = None then Inl AssertionFailure else Inr True) \<and>
       (\<exists>sub. cl_subscriptions s' = map_put sid sub (cl_subscriptions s) \<and> cs_cb sub = or_callbacks req \<and> stale sub \<and>
         (unat (subscription_renewal_offset s) < ack_lifetime ttl \<longrightarrow>
           deadline (cs_timer sub) = Some (clock s + (ack_lifetime ttl - unat (subscription_renewal_offset s))))) \<and>
       (r = Inr True \<longrightarrow> result_of (mem_result (memory s') (or_data req)) = ACCEPTED \<and> result_id (mem_result (memory s') (or_data req)) = sid))"
proof -
  let ?s = "s\<lparr>outstanding := map_erase i (outstanding s)\<rparr>"
  let ?us = "ttl * 1000 - subscription_renewal_offset s"
  let ?t = "snd (Timer_Start (clock s) ?us (new_Timer (uninit_micros E)))"
  let ?sub = "\<lparr>cs_id = sid, cs_timer = ?t, cs_deleted = initialized ?t, cs_cb = or_callbacks req, cs_data = or_data req\<rparr>"
  note run = acknowledged_run [OF assms(1-5) refl refl refl, of ms]
  show ?thesis
  proof (cases "ack_lifetime ttl < unat (subscription_renewal_offset s)")
    case True
    with run show ?thesis by simp
  next
    case False
    have st: "stale ?sub" by (rule new_subscription_stale)
    have dl: "deadline ?t = Some (clock s + (ack_lifetime ttl - unat (subscription_renewal_offset s)))"
      if "unat (subscription_renewal_offset s) < ack_lifetime ttl"
    proof -
      have us: "unat ?us = ack_lifetime ttl - unat (subscription_renewal_offset s)"
        using that unat_sub [of "subscription_renewal_offset s" "ttl * 1000"] by (simp add: word_le_nat_alt ack_lifetime_word)
      then have "0 < ?us" using that by (simp add: word_less_nat_alt)
      then have "deadline ?t = Some (clock s + unat ?us)"
        unfolding start_interval [OF \<open>0 < ?us\<close>] by (rule started_timer(1))
      with us show ?thesis by simp
    qed
    from False run st dl assms(6) show ?thesis
      by (auto simp: asserted_def run_callback_def run_own_def CallbackSubscription_def intro!: exI [of _ ?sub])
  qed
qed

text \<open>The codec of the examples, with a tag in every envelope.\<close>

definition tagged_codec :: codec where
  "tagged_codec = sample_codec\<lparr>ParseEnvelope := (\<lambda>s. case s of [] \<Rightarrow> None
     | c # m \<Rightarrow> Some (empty_envelope\<lparr>message := [m], message_ns := [1], message_ty := [of_char c], tag := [''t'']\<rparr>))\<rparr>"

definition acked_env :: "unit client_env" where
  "acked_env = sample_client_env\<lparr>cl_codec := tagged_codec, cl_types := [((1, 109), SubscriptionAcceptAckV1 ''id'' 60000)]\<rparr>"

definition acked_pb :: EnvelopePB where
  "acked_pb = empty_envelope\<lparr>message := [''xy''], message_ns := [1], message_ty := [109], tag := [''t'']\<rparr>"

definition waiting_client :: "callback option \<Rightarrow> unit client" where
  "waiting_client cb = sample_client\<lparr>outstanding := [(''t'', new_OutstandingRequest\<lparr>cb_subscription := cb\<rparr>)]\<rparr>"

lemma acked_carries: "carries (cl_codec acked_env) acked_pb [CHR 0x01, CHR 0x6D, CHR ''x'', CHR ''y'']" "says 109 acked_pb"
  "tag acked_pb = [''t'']" "parsed (cl_codec acked_env) (cl_types acked_env) acked_pb 0 = Some (SubscriptionAcceptAckV1 ''id'' 60000)"
  by (simp_all add: carries_def acked_env_def tagged_codec_def acked_pb_def says_def parsed_def registered_def)

lemma subscription_acknowledged_witness:
  "\<exists>s' sub. ProcessResponseMessage acked_env [[CHR 0x01, CHR 0x6D, CHR ''x'', CHR ''y'']] (waiting_client (Some Own)) = (Inr True, s') \<and>
     cl_subscriptions s' = [(''id'', sub)] \<and> deadline (cs_timer sub) = Some 55000000"
proof -
  let ?s = "waiting_client (Some Own)"
  have h: "map_of (outstanding ?s) ''t'' = Some (new_OutstandingRequest\<lparr>cb_subscription := Some Own\<rparr>)"
    "cb_subscription (new_OutstandingRequest\<lparr>cb_subscription := Some Own\<rparr>) \<in> {None, Some Own}"
    "subscription_renewal_offset ?s = 5000000" "cl_subscriptions ?s = []" "clock ?s = 0"
    by (simp_all add: waiting_client_def sample_client_def)
  have l: "ack_lifetime 60000 = 60000000" by (simp add: ack_lifetime_def)
  show ?thesis
    using subscription_acknowledged [OF acked_carries(1-3) h(1) acked_carries(4) h(2), of "[]"] unfolding h l
    by (auto simp: map_put_def)
qed

section \<open>Renewing subscriptions\<close>

definition timers_deleted :: "'a client \<Rightarrow> bool" where
  "timers_deleted s \<longleftrightarrow> list_all (\<lambda>x. stale (snd x)) (cl_subscriptions s)"

lemma timers_allowed:
  assumes "\<forall>n ev a s. timers_deleted s \<longrightarrow> timers_deleted (snd (callback_of E n ev a s))"
  shows "allowed_relation E (\<lambda>s s'. timers_deleted s \<longrightarrow> timers_deleted s')"
  using assms
  by (auto simp: allowed_relation_def keeps_def reflp_def timers_deleted_def list_all_iff set_put intro!: transpI)

text \<open>A relation that also allows the frames, time and requests to go on is kept by whole requests.\<close>

definition request_relation :: "'a client_env \<Rightarrow> ('a client \<Rightarrow> 'a client \<Rightarrow> bool) \<Rightarrow> bool" where
  "request_relation E P \<longleftrightarrow> allowed_relation E P \<and>
     (\<forall>s k t p n. P s (s\<lparr>cl_sock := k, clock := t, polls := p, cl_created := n\<rparr>)) \<and>
     (\<forall>s i req. P s (s\<lparr>outstanding := map_put i (req\<lparr>or_id := i\<rparr>) (outstanding s)\<rparr>))"

lemma request_relationD:
  assumes "request_relation E P"
  shows "allowed_relation E P" "transp P" "P s (s\<lparr>cl_sock := k, clock := t, polls := p, cl_created := n\<rparr>)"
    "P s (s\<lparr>outstanding := map_put i (req\<lparr>or_id := i\<rparr>) (outstanding s)\<rparr>)"
  using assms by (auto simp: request_relation_def dest: allowedD(2))

lemma Pump_keeps:
  assumes "request_relation E P"
  shows "P s (snd (client_Pump E timeout s))"
proof -
  let ?s = "snd (client_poll E timeout s)"
  have "P s ?s"
    using request_relationD(3) [OF assms, where s = s and k = "cl_sock ?s" and t = "clock ?s" and p = "polls ?s" and n = "cl_created s"]
    by (simp add: client_poll_def)
  moreover have "P ?s (snd (ProcessPendingMessage E ?s))"
    using keeps_pending [OF request_relationD(1) [OF assms]] by (simp add: keeps_def)
  ultimately show ?thesis
    using request_relationD(2) [OF assms] by (auto simp: client_Pump_run split: prod.split sum.split dest: transpD)
qed

lemma wait_loop_keeps:
  assumes "request_relation E P" "wait_loop E i ht t s = Some (r, s')"
  shows "P s s'"
proof -
  let ?P = "\<lambda>F i ht t s (y :: bool res \<times> 'a client). F = E \<longrightarrow> P s (snd y)"
  have "?P E i ht t s (r, s')"
  proof (rule wait_loop.raw_induct [of ?P, OF _ assms(2)])
    fix loop :: "'a client_env \<Rightarrow> string \<Rightarrow> bool \<Rightarrow> Timer \<Rightarrow> 'a client \<Rightarrow> (bool res \<times> 'a client) option"
    fix F i ht t s y
    assume IH: "\<And>F i ht t s y. loop F i ht t s = Some y \<Longrightarrow> ?P F i ht t s y"
      and body: "(case client_Pump F 25 s of (Inl x, s) \<Rightarrow> Some (Inl x, s)
        | (Inr _, s) \<Rightarrow>
            if \<not> HaveOutstandingRequest i s then Some (Inr True, s)
            else if ht \<and> fst (Timer_Signaled (clock s) t) then Some (Inr False, s)
            else loop F i ht (if ht then snd (Timer_Signaled (clock s) t) else t) s) = Some y"
    show "?P F i ht t s y"
    proof
      assume F: "F = E"
      obtain z s1 where p: "client_Pump E 25 s = (z, s1)" by (cases "client_Pump E 25 s")
      have step: "P s s1" using Pump_keeps [OF assms(1), of s 25] p by simp
      from body p F consider "snd y = s1" | "loop F i ht (if ht then snd (Timer_Signaled (clock s1) t) else t) s1 = Some y"
        by (cases z) (auto split: if_splits)
      then show "P s (snd y)"
      proof cases
        case 1
        with step show ?thesis by simp
      next
        case 2
        with IH F have "P s1 (snd y)" by blast
        with step request_relationD(2) [OF assms(1)] show ?thesis by (blast dest: transpD)
      qed
    qed
  qed
  then show ?thesis by simp
qed

lemma synchronous_keeps:
  assumes "request_relation E P" "synchronous E m req timeout s = Some (r, s')"
  shows "P s s'"
proof -
  let ?s = "s\<lparr>cl_created := cl_created s + 1\<rparr>"
  obtain e where e: "request_envelope E m s = (Inr e, ?s)" by (simp add: request_envelope_def)
  obtain z s2 where z: "SendRequest_id E e req ?s = (z, s2)" by (cases "SendRequest_id E e req ?s")
  let ?k = "s\<lparr>cl_sock := cl_sock s2, clock := clock s, polls := polls s, cl_created := cl_created s2\<rparr>"
  have "s2 = ?k \<or> (\<exists>i. s2 = ?k\<lparr>outstanding := map_put i (req\<lparr>or_id := i\<rparr>) (outstanding ?k)\<rparr>)"
    using z by (cases s) (auto simp: SendRequest_id_def Let_def split: prod.splits if_splits)
  then have "P s s2"
  proof
    assume s2: "s2 = ?k"
    show ?thesis by (subst s2) (rule request_relationD(3) [OF assms(1)])
  next
    assume "\<exists>i. s2 = ?k\<lparr>outstanding := map_put i (req\<lparr>or_id := i\<rparr>) (outstanding ?k)\<rparr>"
    then obtain i where s2: "s2 = ?k\<lparr>outstanding := map_put i (req\<lparr>or_id := i\<rparr>) (outstanding ?k)\<rparr>" ..
    have "P s ?k" "P ?k (?k\<lparr>outstanding := map_put i (req\<lparr>or_id := i\<rparr>) (outstanding ?k)\<rparr>)"
      by (rule request_relationD(3,4) [OF assms(1)])+
    then show ?thesis using request_relationD(2) [OF assms(1)] s2 by (metis transpD)
  qed
  moreover have "s' = s2 \<or> P s2 s'"
    using assms(2) e z wait_loop_keeps [OF assms(1)]
    by (auto simp: synchronous_def SendAndProcessSynchronousRequest_def split: sum.splits option.splits)
  ultimately show ?thesis using request_relationD(2) [OF assms(1)] by (blast dest: transpD)
qed

lemma renew_due_stale:
  assumes "list_all (\<lambda>x. stale (snd x)) subs"
  shows "renew_due True now subs = (Inr (map fst subs), subs)"
    "subs \<noteq> [] \<Longrightarrow> renew_due False now subs = (Inl (RuntimeException ''could not obtain timer result''), subs)"
proof -
  show "renew_due True now subs = (Inr (map fst subs), subs)" using assms
  proof (induction subs)
    case (Cons x subs)
    obtain i sub where x: "x = (i, sub)" by (cases x)
    have "subscription_restart now sub = sub"
      using Cons.prems x by (cases sub; cases "cs_timer sub") (simp add: subscription_restart_def stale_def)
    with Cons x show ?case by (simp add: Let_def)
  qed simp
  show "subs \<noteq> [] \<Longrightarrow> renew_due False now subs = (Inl (RuntimeException ''could not obtain timer result''), subs)"
    using assms by (cases subs) (auto simp: subscription_signaled_def stale_def)
qed

lemma RenewSubscriptions_stale:
  assumes "timers_deleted s"
  shows "cl_subscriptions (snd (client_RenewSubscriptions E force s)) = cl_subscriptions s"
    "cl_subscriptions s \<noteq> [] \<Longrightarrow> client_RenewSubscriptions E False s = (Inl (RuntimeException ''could not obtain timer result''), s)"
  using renew_due_stale [OF assms [unfolded timers_deleted_def], of "clock s"]
  by (cases force; cases "cl_subscriptions s"; auto simp: client_RenewSubscriptions_def Let_def split: prod.split)+

text \<open>
  C23: every subscription the client holds has lost its system timer, because the object it was
  copied from has deleted it; no operation changes that. Renewing the subscriptions that are due therefore
  throws as soon as there is one, whether or not it is due.
\<close>

theorem renewal_throws:
  assumes "\<forall>n ev a s. timers_deleted s \<longrightarrow> timers_deleted (snd (callback_of E n ev a s))" "timers_deleted s"
  shows "timers_deleted (snd (client_Pump E timeout s)) \<and>
    (\<forall>m req limit r s'. synchronous E m req limit s = Some (r, s') \<longrightarrow> timers_deleted s') \<and>
    (\<forall>force. timers_deleted (snd (client_RenewSubscriptions E force s))) \<and>
    (cl_subscriptions s \<noteq> [] \<longrightarrow> client_RenewSubscriptions E False s = (Inl (RuntimeException ''could not obtain timer result''), s))"
proof -
  have rel: "request_relation E (\<lambda>s s'. timers_deleted s \<longrightarrow> timers_deleted s')"
    using timers_allowed [OF assms(1)] by (simp add: request_relation_def timers_deleted_def)
  have "timers_deleted (snd (client_Pump E timeout s))" using Pump_keeps [OF rel, of s timeout] assms(2) by simp
  moreover have "timers_deleted s'" if "synchronous E m req limit s = Some (r, s')" for m req limit r s'
    using synchronous_keeps [OF rel that] assms(2) by simp
  moreover have "timers_deleted (snd (client_RenewSubscriptions E force s))" for force
    using RenewSubscriptions_stale(1) [OF assms(2), of E force] assms(2) by (simp add: timers_deleted_def)
  ultimately show ?thesis using RenewSubscriptions_stale(2) [OF assms(2), of E] by blast
qed

definition subscribed_client :: "unit client" where
  "subscribed_client = sample_client\<lparr>cl_subscriptions := [(''id'', \<lparr>cs_id = ''id'',
     cs_timer = \<lparr>signaled = False, running = True, initialized = True, microseconds = 55000000, deadline = Some 55000000\<rparr>,
     cs_deleted = True, cs_cb = new_callbacks, cs_data = Caller 0\<rparr>)]\<rparr>"

lemma subscribed: "timers_deleted subscribed_client" "cl_subscriptions subscribed_client \<noteq> []"
  by (simp_all add: subscribed_client_def timers_deleted_def stale_def)

lemma renewal_throws_witness:
  "client_RenewSubscriptions acked_env False subscribed_client =
     (Inl (RuntimeException ''could not obtain timer result''), subscribed_client)"
proof -
  have "\<forall>n ev a s. timers_deleted s \<longrightarrow> timers_deleted (snd (callback_of acked_env n ev a s))"
    by (simp add: acked_env_def sample_client_env_def)
  from renewal_throws [OF this subscribed(1)] subscribed(2) show ?thesis by blast
qed


section \<open>Well-formed maps\<close>

text \<open>The client's maps are ordered, and every entry is filed under its own identifier.\<close>

definition filed :: "('v \<Rightarrow> string) \<Rightarrow> (string \<times> 'v) list \<Rightarrow> bool" where
  "filed ident m \<longleftrightarrow> ordered m \<and> list_all (\<lambda>x. ident (snd x) = fst x) m"

definition client_ok :: "'a client \<Rightarrow> bool" where
  "client_ok s \<longleftrightarrow> filed or_id (outstanding s) \<and> filed cs_id (cl_subscriptions s)"

lemma filed_put: "filed ident m \<Longrightarrow> ident v = k \<Longrightarrow> filed ident (map_put k v m)"
  by (auto simp: filed_def list_all_iff set_put)

lemma filed_erase: "filed ident m \<Longrightarrow> filed ident (map_erase k m)"
  using ordered_erase [of m k] by (auto simp: filed_def list_all_iff map_erase_def)

lemma client_ok_relation:
  assumes "\<forall>n ev a s. client_ok s \<longrightarrow> client_ok (snd (callback_of E n ev a s))"
  shows "request_relation E (\<lambda>s s'. client_ok s \<longrightarrow> client_ok s')"
  using assms
  by (auto simp: request_relation_def allowed_relation_def keeps_def reflp_def client_ok_def intro!: transpI filed_put filed_erase)

lemma renew_due_keys: "map (\<lambda>x. (fst x, cs_id (snd x))) (snd (renew_due force now subs)) = map (\<lambda>x. (fst x, cs_id (snd x))) subs"
  by (induction force now subs rule: renew_due.induct)
    (auto simp: subscription_signaled_def subscription_restart_def Let_def split: sum.split prod.split)

lemma filed_keys:
  assumes "map (\<lambda>x. (fst x, ident (snd x))) m = map (\<lambda>x. (fst x, ident (snd x))) m'" "filed ident m'"
  shows "filed ident m"
proof -
  have "map fst m = map fst m'" using arg_cong [OF assms(1), of "map fst"] by (simp add: comp_def)
  moreover have "list_all (\<lambda>y. snd y = fst y) (map (\<lambda>x. (fst x, ident (snd x))) m)"
    using assms(2) unfolding assms(1) by (simp add: filed_def list_all_iff)
  ultimately show ?thesis using assms(2) by (simp add: filed_def ordered_def list_all_iff)
qed

text \<open>
  C21: the maps of the client stay well-formed: requests, synchronous ones and the messages processed while
  they wait included, pumping and renewing keep every outstanding request and every subscription under its
  own identifier, in the order of the keys and at most once.
\<close>

theorem client_maps:
  assumes "\<forall>n ev a s. client_ok s \<longrightarrow> client_ok (snd (callback_of E n ev a s))" "client_ok s"
  shows "client_ok (snd (client_Pump E timeout s)) \<and> client_ok (snd (send_message E m req s)) \<and>
    (\<forall>r s'. synchronous E m req limit s = Some (r, s') \<longrightarrow> client_ok s') \<and>
    client_ok (snd (client_RenewSubscriptions E force s))"
proof -
  note rel = client_ok_relation [OF assms(1)]
  have "client_ok (snd (send_message E m req s))"
    using assms(2) by (auto simp: send_message_def request_envelope_def SendRequest_def SendRequest_id_def andThen_def Let_def client_ok_def
        intro!: filed_put split: prod.split)
  moreover have "filed cs_id (snd (renew_due force (clock s) (cl_subscriptions s)))"
    using assms(2) filed_keys [OF renew_due_keys [of force "clock s" "cl_subscriptions s"]] by (simp add: client_ok_def)
  then have "client_ok (snd (client_RenewSubscriptions E force s))"
    using assms(2) by (auto simp: client_RenewSubscriptions_def client_ok_def Let_def split: prod.split sum.split)
  ultimately show ?thesis
    using Pump_keeps [OF rel, of s timeout] synchronous_keeps [OF rel] assms(2) by blast
qed

lemma client_maps_witness:
  "client_ok (snd (client_Pump acked_env 25 (waiting_client None\<lparr>outstanding := [(''t'', new_OutstandingRequest\<lparr>or_id := ''t''\<rparr>)]\<rparr>)))"
proof -
  let ?s = "waiting_client None\<lparr>outstanding := [(''t'', new_OutstandingRequest\<lparr>or_id := ''t''\<rparr>)]\<rparr>"
  have a: "\<forall>n ev a s. client_ok s \<longrightarrow> client_ok (snd (callback_of acked_env n ev a s))"
    by (simp add: acked_env_def sample_client_env_def)
  have b: "client_ok ?s" by (simp add: client_ok_def filed_def ordered_def waiting_client_def sample_client_def)
  show ?thesis using client_maps [OF a b, of 25] by blast
qed

end
