(* ===== verification/Subscription.thy ===== *)
theory Subscription
  imports Zeromq Store_Path
begin

text \<open>
  What the request processor, the persisted state manager and the server share about subscriptions
  (src/zippylog/request_processor.hpp and the first part of request_processor.cpp): the record
  \<open>SubscriptionInfo\<close> and its message, the results of implementation handlers, the state of an envelope
  subscription response, and the static functions that send subscription responses.
\<close>

section \<open>\<open>SubscriptionInfo\<close>\<close>

record SubscriptionInfo =
  si_type :: SubscriptionType
  si_id :: string
  si_paths :: "string list"
  si_lua_code :: string
  si_socket_identifiers :: "string list"
  si_filter_namespaces :: "u32 list"
  si_filter_enumerations :: "(u32 \<times> u32) list"

definition new_SubscriptionInfo :: SubscriptionInfo where
  "new_SubscriptionInfo = \<lparr>si_type = UNKNOWN_TYPE, si_id = [], si_paths = [], si_lua_code = [],
     si_socket_identifiers = [], si_filter_namespaces = [], si_filter_enumerations = []\<rparr>"

definition ToProtocolBuffer :: "SubscriptionInfo \<Rightarrow> SubscriptionRecord res" where
  "ToProtocolBuffer s =
     (if si_type s = UNKNOWN_TYPE then Inl (RuntimeException ''unhandled subscription type'')
      else Inr \<lparr>sr_id = None, sr_type = Some (si_type s), sr_path = si_paths s,
        sr_lua_code = (if si_lua_code s = [] then None else Some (si_lua_code s)),
        sr_socket_identifier = si_socket_identifiers s,
        sr_filter_namespace = si_filter_namespaces s,
        sr_enumeration_namespace = map fst (si_filter_enumerations s),
        sr_enumeration_type = map snd (si_filter_enumerations s)\<rparr>)"

definition SubscriptionInfo_of_record :: "SubscriptionRecord \<Rightarrow> SubscriptionInfo res" where
  "SubscriptionInfo_of_record m =
     (if sr_type m = Some UNKNOWN_TYPE then Inl (RuntimeException ''Unhandled subscription type enumeration'')
      else if length (sr_enumeration_namespace m) \<noteq> length (sr_enumeration_type m)
      then Inl (RuntimeException ''length of envelope_filter_enumeration and envelope_filter_type do not agree'')
      else Inr \<lparr>si_type = (case sr_type m of None \<Rightarrow> UNKNOWN_TYPE | Some t \<Rightarrow> t),
        si_id = (case sr_id m of None \<Rightarrow> [] | Some i \<Rightarrow> i),
        si_paths = sr_path m,
        si_lua_code = (case sr_lua_code m of None \<Rightarrow> [] | Some l \<Rightarrow> l),
        si_socket_identifiers = sr_socket_identifier m,
        si_filter_namespaces = sr_filter_namespace m,
        si_filter_enumerations = zip (sr_enumeration_namespace m) (sr_enumeration_type m)\<rparr>)"

section \<open>Results of the implementation's handlers\<close>

text \<open>The fields that a constructor leaves uninitialised are \<open>None\<close>.\<close>

record HandlerResult =
  deferred :: bool
  have_error :: bool
  error_code :: "ErrorCode option"
  error_message :: string
  is_subscription :: bool
  is_write :: bool
  subscription_id :: string
  hr_subscription_ttl :: "u32 option"
  envelopes_written :: "u32 option"

definition new_HandlerResult :: HandlerResult where
  "new_HandlerResult = \<lparr>deferred = False, have_error = False, error_code = None, error_message = [],
     is_subscription = False, is_write = False, subscription_id = [], hr_subscription_ttl = None,
     envelopes_written = None\<rparr>"

definition MakeSynchronous :: HandlerResult where
  "MakeSynchronous = new_HandlerResult\<lparr>deferred := False\<rparr>"

definition MakeError :: "ErrorCode \<Rightarrow> string \<Rightarrow> HandlerResult" where
  "MakeError code msg = new_HandlerResult\<lparr>have_error := True, error_code := Some code, error_message := msg\<rparr>"

definition MakeDeferred :: HandlerResult where
  "MakeDeferred = new_HandlerResult\<lparr>deferred := True\<rparr>"

definition MakeSubscriptionAccepted :: "string \<Rightarrow> u32 \<Rightarrow> HandlerResult" where
  "MakeSubscriptionAccepted i ttl =
     new_HandlerResult\<lparr>is_subscription := True, subscription_id := i, hr_subscription_ttl := Some ttl\<rparr>"

definition MakeSubscriptionRejected :: "string \<Rightarrow> HandlerResult" where
  "MakeSubscriptionRejected reason = new_HandlerResult\<lparr>is_subscription := True, error_message := reason\<rparr>"

definition MakeWriteResult :: "u32 \<Rightarrow> HandlerResult" where
  "MakeWriteResult n = new_HandlerResult\<lparr>is_write := True, envelopes_written := Some n\<rparr>"

section \<open>The state of an envelope subscription response\<close>

record ResponseState =
  finalized :: bool
  rs_id :: string
  rs_identities :: "string list"
  current_size :: u32
  rs_messages :: "string list"

definition max_size :: u32 where "max_size = 1048576"
definition max_envelopes :: nat where "max_envelopes = 1024"

definition new_ResponseState :: "SubscriptionInfo \<Rightarrow> ResponseState" where
  "new_ResponseState s = \<lparr>finalized = False, rs_id = si_id s, rs_identities = si_socket_identifiers s,
     current_size = 0, rs_messages = []\<rparr>"

definition AddEnvelope :: "codec \<Rightarrow> Envelope \<Rightarrow> ResponseState \<Rightarrow> ResponseState" where
  "AddEnvelope c e r =
     (case ToProtocolZmqMessage c e of
        None \<Rightarrow> r
      | Some msg \<Rightarrow> r\<lparr>rs_messages := rs_messages r @ [msg], current_size := current_size r + word_of_nat (length msg)\<rparr>)"

definition Finalize :: "ResponseState \<Rightarrow> ResponseState" where
  "Finalize r = r\<lparr>finalized := True\<rparr>"

definition RegisterError :: "ErrorCode \<Rightarrow> string \<Rightarrow> (ResponseState, unit) action" where
  "RegisterError code msg = throw (ThrownPointer ''not yet implemented'')"

section \<open>Sending subscription responses\<close>

text \<open>
  The functions run on the socket they send to; \<open>now\<close> is the time of the new envelope. Their result
  converts the \<open>int\<close> of \<open>SendEnvelope\<close> to \<open>bool\<close>, so that a serialisation failure is \<open>true\<close>.
\<close>

definition send_response :: "codec \<Rightarrow> SubscriptionInfo \<Rightarrow> Envelope \<Rightarrow> (socket, bool) action" where
  "send_response c subscription response sock =
     (let (r, sock) = SendEnvelope_to c (si_socket_identifiers subscription) response True no_flags sock
      in (Inr (r \<noteq> 0), sock))"

definition SendPathAdded :: "codec \<Rightarrow> u64 \<Rightarrow> SubscriptionInfo \<Rightarrow> string \<Rightarrow> (socket, bool) action" where
  "SendPathAdded c now subscription path =
     (let response = add_to_envelope c (SubscriptionStartV1 (si_id subscription)) (new_Envelope now) in
      case parse_path path of
        None \<Rightarrow> throw (RuntimeException ''invalid store path supplied'')
      | Some (bucket, stream_set, stream) \<Rightarrow>
          let m = (if stream \<noteq> [] then StoreChangeStreamAddedV1 bucket stream_set stream
                   else if stream_set \<noteq> [] then StoreChangeStreamSetAddedV1 bucket stream_set
                   else StoreChangeBucketAddedV1 bucket)
          in send_response c subscription (add_to_envelope c m response))"

definition SendPathDeleted :: "codec \<Rightarrow> u64 \<Rightarrow> SubscriptionInfo \<Rightarrow> string \<Rightarrow> (socket, bool) action" where
  "SendPathDeleted c now subscription path =
     (let response = add_to_envelope c (SubscriptionStartV1 (si_id subscription)) (new_Envelope now) in
      case parse_path path of
        None \<Rightarrow> throw (RuntimeException ''invalid store path supplied'')
      | Some (bucket, stream_set, stream) \<Rightarrow>
          let m = (if stream \<noteq> [] then StoreChangeStreamDeletedV1 bucket stream_set stream
                   else if stream_set \<noteq> [] then StoreChangeStreamSetDeletedV1 bucket stream_set
                   else StoreChangeBucketDeletedV1 bucket)
          in send_response c subscription (add_to_envelope c m response))"

text \<open>
  The loop over the collected messages asks \<open>i != state.messages.end()\<close> for the \<open>SNDMORE\<close> flag, which
  holds for every message. The results of its sends are not looked at.
\<close>

fun send_messages :: "string list \<Rightarrow> socket \<Rightarrow> socket" where
  "send_messages [] sock = sock"
| "send_messages (m # ms) sock = send_messages ms (snd (send m more_flag sock))"

definition SendSubscriptionEnvelopeResponse ::
  "codec \<Rightarrow> u64 \<Rightarrow> ResponseState \<Rightarrow> socket \<Rightarrow> bool \<times> ResponseState \<times> socket" where
  "SendSubscriptionEnvelopeResponse c now r sock =
     (if \<not> finalized r \<and> \<not> (current_size r > max_size \<or> length (rs_messages r) > max_envelopes) then (True, r, sock)
      else if length (rs_messages r) = 0 then (True, r, sock)
      else
        let response = add_to_envelope c (SubscriptionStartV1 (rs_id r)) (new_Envelope now);
            (result, sock) = SendEnvelope_to c (rs_identities r) response True more_flag sock in
        if result = 0 then (False, r, sock)
        else (True, r\<lparr>rs_messages := [], current_size := 0\<rparr>, send_messages (rs_messages r) sock))"

section \<open>Properties\<close>

text \<open>The envelope of a response: the start message and, after it, one other.\<close>

definition start_pb :: "codec \<Rightarrow> u64 \<Rightarrow> string \<Rightarrow> Message list \<Rightarrow> EnvelopePB" where
  "start_pb c now i ms =
     envelope (fold (add_to_envelope c) ms (add_to_envelope c (SubscriptionStartV1 i) (new_Envelope now)))"

definition protocol_frame :: "EnvelopePB \<Rightarrow> codec \<Rightarrow> string" where
  "protocol_frame pb c = CHR 0x01 # EnvelopeBytes c pb"

text \<open>What a message to these identities looks like on the wire.\<close>

definition routed :: "string list \<Rightarrow> (string \<times> bool) list \<Rightarrow> (string \<times> bool) list" where
  "routed is fs = map (\<lambda>i. (i, True)) is @ ([], True) # fs"

lemma send_messages_sent:
  "send_results sock = [] \<Longrightarrow>
   send_messages ms sock = sock\<lparr>sent := sent sock @ map (\<lambda>m. (m, True)) ms\<rparr>"
  by (induction ms arbitrary: sock) (simp_all add: more_flag_def)

definition response_sent :: "codec \<Rightarrow> u64 \<Rightarrow> SubscriptionInfo \<Rightarrow> Message \<Rightarrow> socket \<Rightarrow> socket" where
  "response_sent c now sub m sock =
     (let pb = start_pb c now (si_id sub) [m] in
      if Serializable c pb
      then sock\<lparr>sent := sent sock @ routed (si_socket_identifiers sub) [(protocol_frame pb c, False)]\<rparr>
      else sock)"

lemma send_response_sent:
  assumes "send_results sock = []"
  shows "send_response c sub (add_to_envelope c m (add_to_envelope c (SubscriptionStartV1 (si_id sub)) (new_Envelope now))) sock =
    (Inr True, response_sent c now sub m sock)"
proof (cases "Serializable c (start_pb c now (si_id sub) [m])")
  case True
  then have "serialize_for c (add_to_envelope c m (add_to_envelope c (SubscriptionStartV1 (si_id sub)) (new_Envelope now))) True =
      Some (protocol_frame (start_pb c now (si_id sub) [m]) c)"
    by (simp add: serialize_for_def ToProtocolZmqMessage_def start_pb_def protocol_frame_def)
  with True SendEnvelope_to_ok [OF assms this] show ?thesis
    by (simp add: send_response_def response_sent_def routed_def no_flags_def)
next
  case False
  then show ?thesis
    by (simp add: send_response_def response_sent_def SendEnvelope_to_def serialize_for_def ToProtocolZmqMessage_def start_pb_def)
qed

text \<open>
  A subscription converted to its message and back is the same subscription, with the id that
  was set on the message; the conversion itself drops the id, and throws exactly for a subscription
  without a type.
\<close>

lemma subscription_record_roundtrip:
  "case ToProtocolBuffer s of
     Inl _ \<Rightarrow> si_type s = UNKNOWN_TYPE
   | Inr m \<Rightarrow> si_type s \<noteq> UNKNOWN_TYPE \<and> sr_id m = None \<and>
       SubscriptionInfo_of_record m = Inr (s\<lparr>si_id := []\<rparr>) \<and>
       (\<forall>i. SubscriptionInfo_of_record (m\<lparr>sr_id := Some i\<rparr>) = Inr (s\<lparr>si_id := i\<rparr>))"
  by (simp add: ToProtocolBuffer_def SubscriptionInfo_of_record_def zip_map_fst_snd)

text \<open>
  The responses for an added and for a deleted store path. The notice names exactly the stream,
  stream set or bucket of the path, and goes with the subscription start in one envelope, behind the
  subscriber's identities and the empty frame. The functions return \<open>true\<close> also when the envelope does
  not serialise and nothing is sent. A path outside the grammar throws, and nothing is sent.
\<close>

lemma path_change_responses:
  assumes "send_results sock = []" "is_name b" "is_name t" "is_name n"
  shows "SendPathAdded c now sub (StreamPath b t n) sock =
      (Inr True, response_sent c now sub (StoreChangeStreamAddedV1 b t n) sock) \<and>
    SendPathAdded c now sub (StreamsetPath b t) sock =
      (Inr True, response_sent c now sub (StoreChangeStreamSetAddedV1 b t) sock) \<and>
    SendPathAdded c now sub (BucketPath b) sock =
      (Inr True, response_sent c now sub (StoreChangeBucketAddedV1 b) sock) \<and>
    SendPathDeleted c now sub (StreamPath b t n) sock =
      (Inr True, response_sent c now sub (StoreChangeStreamDeletedV1 b t n) sock) \<and>
    SendPathDeleted c now sub (StreamsetPath b t) sock =
      (Inr True, response_sent c now sub (StoreChangeStreamSetDeletedV1 b t) sock) \<and>
    SendPathDeleted c now sub (BucketPath b) sock =
      (Inr True, response_sent c now sub (StoreChangeBucketDeletedV1 b) sock) \<and>
    ((\<nexists>d. path_denotes path d) \<longrightarrow>
      SendPathAdded c now sub path sock = (Inl (RuntimeException ''invalid store path supplied''), sock) \<and>
      SendPathDeleted c now sub path sock = (Inl (RuntimeException ''invalid store path supplied''), sock))"
proof -
  have p: "parse_path (StreamPath b t n) = Some (b, t, n)" "parse_path (StreamsetPath b t) = Some (b, t, [])"
    "parse_path (BucketPath b) = Some (b, [], [])"
    using assms(2-4) path_denotes.intros by (simp_all add: parse_path_iff)
  have none: "parse_path path = None" if "\<nexists>d. path_denotes path d"
    using that parse_path_iff by (cases "parse_path path") auto
  show ?thesis
    using assms none
    by (auto simp: SendPathAdded_def SendPathDeleted_def p is_name_nonempty send_response_sent [OF assms(1)])
qed

lemma path_change_responses_witness:
  "SendPathAdded sample_codec 7 new_SubscriptionInfo ''/a/b'' \<lparr>sent = [], send_results = [], inbox = []\<rparr> =
     (Inr True, \<lparr>sent = [('''', True), ([CHR 0x01, CHR 0x6B, CHR ''m'', CHR 0x66, CHR ''m''], False)],
       send_results = [], inbox = []\<rparr>)"
proof -
  let ?s = "\<lparr>sent = [], send_results = [], inbox = []\<rparr> :: socket"
  have n: "is_name ''a''" "is_name ''b''" "is_name ''c''"
    by (simp_all add: is_name_def name_char_def char_value_def)
  have "SendPathAdded sample_codec 7 new_SubscriptionInfo (StreamsetPath ''a'' ''b'') ?s =
      (Inr True, response_sent sample_codec 7 new_SubscriptionInfo (StoreChangeStreamSetAddedV1 ''a'' ''b'') ?s)"
    using path_change_responses [OF _ n, of ?s sample_codec "7" new_SubscriptionInfo "''/''"] by simp
  then show ?thesis
    by (simp add: path_defs response_sent_def start_pb_def routed_def protocol_frame_def new_SubscriptionInfo_def
        add_to_envelope_def AddMessage_def new_Envelope_def of_pb_def message_namespace_def empty_envelope_def)
      (simp add: char_of_def bit_0)
qed

text \<open>
  The response that delivers collected envelopes is sent only when the state is final or over one
  of its limits, and only when there is something to send. Then it is the routing frames, the
  subscription start and every collected message in order, and the state is emptied. Every frame
  carries \<open>SNDMORE\<close>, the last one too: the message is never ended.
\<close>

lemma envelope_response_open_ended:
  assumes "send_results sock = []" "Serializable c (start_pb c now (rs_id r) [])"
    "SendSubscriptionEnvelopeResponse c now r sock = (ok, r', sock')"
  shows "ok \<and>
    (if rs_messages r \<noteq> [] \<and> (finalized r \<or> current_size r > max_size \<or> length (rs_messages r) > max_envelopes)
     then r' = r\<lparr>rs_messages := [], current_size := 0\<rparr> \<and>
       sent sock' = sent sock @ routed (rs_identities r)
         (map (\<lambda>m. (m, True)) (protocol_frame (start_pb c now (rs_id r) []) c # rs_messages r))
     else r' = r \<and> sock' = sock)"
proof (cases "rs_messages r \<noteq> [] \<and> (finalized r \<or> current_size r > max_size \<or> length (rs_messages r) > max_envelopes)")
  case False
  then show ?thesis using assms(3) by (auto simp: SendSubscriptionEnvelopeResponse_def split: if_splits)
next
  case True
  let ?e = "add_to_envelope c (SubscriptionStartV1 (rs_id r)) (new_Envelope now)"
  let ?f = "protocol_frame (start_pb c now (rs_id r) []) c"
  have "serialize_for c ?e True = Some ?f"
    using assms(2) by (simp add: serialize_for_def ToProtocolZmqMessage_def start_pb_def protocol_frame_def)
  from SendEnvelope_to_ok [OF assms(1) this, of "rs_identities r" more_flag] True assms(1,3)
  have "ok" "r' = r\<lparr>rs_messages := [], current_size := 0\<rparr>"
    "sock' = send_messages (rs_messages r) (sock\<lparr>sent := sent sock @ routed (rs_identities r) [(?f, True)]\<rparr>)"
    by (auto simp: SendSubscriptionEnvelopeResponse_def more_flag_def routed_def)
  with True assms(1) show ?thesis by (simp add: send_messages_sent routed_def)
qed

lemma envelope_response_open_ended_witness:
  "SendSubscriptionEnvelopeResponse sample_codec 7
      \<lparr>finalized = True, rs_id = ''i'', rs_identities = [], current_size = 2, rs_messages = [''xy'']\<rparr>
      \<lparr>sent = [], send_results = [], inbox = []\<rparr> =
    (True, \<lparr>finalized = True, rs_id = ''i'', rs_identities = [], current_size = 0, rs_messages = []\<rparr>,
      \<lparr>sent = [('''', True), ([CHR 0x01, CHR 0x6B, CHR ''m''], True), (''xy'', True)], send_results = [], inbox = []\<rparr>)"
proof -
  let ?r = "\<lparr>finalized = True, rs_id = ''i'', rs_identities = [], current_size = 2, rs_messages = [''xy'']\<rparr> :: ResponseState"
  let ?s = "\<lparr>sent = [], send_results = [], inbox = []\<rparr> :: socket"
  obtain ok r' s' where run: "SendSubscriptionEnvelopeResponse sample_codec 7 ?r ?s = (ok, r', s')"
    by (rule prod_cases3)
  have kept: "send_results s' = []" "inbox s' = []"
    using run by (auto simp: SendSubscriptionEnvelopeResponse_def SendEnvelope_to_def serialize_for_def
        ToProtocolZmqMessage_def more_flag_def Let_def)
  have "ok \<and> r' = ?r\<lparr>rs_messages := [], current_size := 0\<rparr> \<and>
      sent s' = [('''', True), (protocol_frame (start_pb sample_codec 7 ''i'' []) sample_codec, True), (''xy'', True)]"
    using envelope_response_open_ended [OF _ _ run] by (simp add: routed_def)
  moreover have "protocol_frame (start_pb sample_codec 7 ''i'' []) sample_codec = [CHR 0x01, CHR 0x6B, CHR ''m'']"
    by (simp add: start_pb_def protocol_frame_def add_to_envelope_def AddMessage_def new_Envelope_def of_pb_def
        message_namespace_def empty_envelope_def) (simp add: char_of_def bit_0)
  ultimately show ?thesis using run kept by simp
qed

end
