(* ===== verification/Request_State.thy ===== *)
theory Request_State
  imports Subscription Store Device
begin

text \<open>
  The request processor's state and its building blocks (src/zippylog/request_processor.cpp):
  logging, the vector of response envelopes, error responses, obtaining the request's message and
  checking a path, with the relation \<open>pushes\<close> in which the lemmas say what a handler does.
\<close>

section \<open>State\<close>

text \<open>
  An object of class \<open>RequestProcessor\<close>, with the state \<open>'i\<close> of its implementation, the vector of
  response envelopes that is passed along as \<open>output\<close>, and the clock: \<open>now_at k\<close> is the time that the
  system reports to the \<open>k\<close>-th envelope constructed.
\<close>

record 'i rp =
  rp_id :: string
  impl_state :: 'i
  rp_store :: Store
  client_sock :: socket
  logger_sock :: socket
  current_request_identities :: "string list"
  response_vector :: "Envelope list"
  get_stream_max_bytes :: u32
  get_stream_max_envelopes :: u32
  lua_memory_max :: u32
  subscription_ttl :: u32
  now_at :: "nat \<Rightarrow> u64"
  ticks :: nat

text \<open>
  \<open>RequestProcessorImplementation\<close>: its pure virtual functions, on its own state; the keepalive handler
  is given the vector of response envelopes too.
\<close>

record 'i rp_impl =
  HandleSubscriptionRequest :: "SubscriptionInfo \<Rightarrow> ('i, HandlerResult) action"
  HandleSubscribeKeepalive :: "Envelope \<Rightarrow> ('i \<times> Envelope list, HandlerResult) action"
  HandleWriteEnvelopes :: "string \<Rightarrow> Envelope list \<Rightarrow> bool \<Rightarrow> ('i, HandlerResult) action"

text \<open>
  What the processor works with: serialisation, the registered messages, the store's virtual
  functions, its implementation, and the loader of Lua code under a memory ceiling, which runs the code:
  it returns the error message of code that does not load, or \<open>None\<close>; it waits for ever in code that does
  not end (\<open>Blocked\<close>), and code can make the interpreter crash (\<open>Undefined\<close>).
\<close>

record 'i rp_env =
  cdc :: codec
  types :: registrar
  vstore :: store_ops
  impl :: "'i rp_impl"
  LoadLuaCode :: "u32 \<Rightarrow> string \<Rightarrow> string option res"

datatype ResponseStatus = AUTHORITATIVE | DEFERRED

abbreviation seq :: "('s, unit) action \<Rightarrow> ('s, 'a) action \<Rightarrow> ('s, 'a) action" where
  "seq m n \<equiv> andThen m (\<lambda>_. n)"

section \<open>Envelopes, logging and error responses\<close>

text \<open>The default constructor of \<open>Envelope\<close> reads the clock.\<close>

definition fresh :: "('i rp, Envelope) action" where
  "fresh s = (Inr (new_Envelope (now_at s (ticks s))), s\<lparr>ticks := ticks s + 1\<rparr>)"

definition push_back :: "Envelope \<Rightarrow> ('i rp, unit) action" where
  "push_back e = modify (\<lambda>s. s\<lparr>response_vector := response_vector s @ [copy_Envelope e]\<rparr>)"

definition send_log :: "'i rp_env \<Rightarrow> Envelope \<Rightarrow> ('i rp, unit) action" where
  "send_log E e s = (Inr (), s\<lparr>logger_sock := snd (SendEnvelope (cdc E) e False no_flags (logger_sock s))\<rparr>)"

definition LOG_MESSAGE :: "'i rp_env \<Rightarrow> rp_log \<Rightarrow> ('i rp, unit) action" where
  "LOG_MESSAGE E log =
     andThen (gets rp_id) (\<lambda>i.
     andThen fresh (\<lambda>e.
       send_log E (add_to_envelope (cdc E) (RequestProcessorLog log i) e)))"

definition respond :: "'i rp_env \<Rightarrow> Message \<Rightarrow> ('i rp, unit) action" where
  "respond E m = andThen fresh (\<lambda>e. push_back (add_to_envelope (cdc E) m e))"

definition PopulateErrorResponse :: "'i rp_env \<Rightarrow> ErrorCode \<Rightarrow> string \<Rightarrow> ('i rp, unit) action" where
  "PopulateErrorResponse E code msg =
     seq (LOG_MESSAGE E (LogSendErrorResponse msg)) (respond E (Error code msg))"

text \<open>
  The first message of the request with the envelope and its cache after the call, or an error
  response when there is none. A handler reads the object through a pointer of its own class.
\<close>

definition get_request :: "'i rp_env \<Rightarrow> Envelope \<Rightarrow> ('i rp, Message option \<times> Envelope) action" where
  "get_request E e =
     (let (r, e') = GetMessage (cdc E) (types E) 0 e in andThen (lift_res r) (\<lambda>m. ret (m, e')))"

definition OBTAIN_MESSAGE :: "'i rp_env \<Rightarrow> Envelope \<Rightarrow> ('i rp, Message option \<times> Envelope) action" where
  "OBTAIN_MESSAGE E e =
     andThen (get_request E e) (\<lambda>(m, e').
       case m of
         None \<Rightarrow>
           seq (LOG_MESSAGE E LogEmbeddedMessageParseFailure)
           (seq (PopulateErrorResponse E UNKNOWN_REQUEST_TYPE ''error parsing message in envelope'')
             (ret (None, e')))
       | Some m \<Rightarrow> ret (Some m, e'))"

definition wrong_class :: "('i rp, 'a) action" where
  "wrong_class = throw (Undefined ''message of another class'')"

section \<open>Checks\<close>

definition CheckPath :: "'i rp_env \<Rightarrow> string \<Rightarrow> bool \<Rightarrow> bool \<Rightarrow> bool \<Rightarrow> ('i rp, bool) action" where
  "CheckPath E path require_bucket require_set require_stream =
     (let fail = (\<lambda>code msg. seq (PopulateErrorResponse E code msg) (ret False)) in
      case parse_path path of
        None \<Rightarrow> fail INVALID_PATH ''supplied path does not parse''
      | Some (bucket, sset, stream) \<Rightarrow>
          if require_bucket \<and> bucket = [] then fail INVALID_PATH ''path does not contain a bucket component''
          else if require_set \<and> sset = [] then fail INVALID_PATH ''path does not contain a stream set component''
          else if require_stream \<and> stream = [] then fail INVALID_PATH ''path does not contain a stream component''
          else
            andThen (gets rp_store) (\<lambda>st.
              if require_bucket \<and> \<not> BucketExists (vstore E) st bucket then fail PATH_NOT_FOUND ''bucket does not exist''
              else if require_set \<and> \<not> StreamSetExists (vstore E) st bucket sset
              then fail PATH_NOT_FOUND ''stream set does not exist''
              else if require_stream \<and> \<not> StreamExists (vstore E) st bucket sset stream
              then fail PATH_NOT_FOUND ''stream does not exist''
              else ret True))"

definition CheckMessageVersion :: "'i rp_env \<Rightarrow> u32 \<Rightarrow> u32 \<Rightarrow> ('i rp, bool) action" where
  "CheckMessageVersion E seen_version supported_version =
     (if seen_version \<noteq> supported_version then
        seq (PopulateErrorResponse E UNSUPPORTED_OPERATION_MESSAGE_VERSION
              ''the version of the message operation is not supported by the server'') (ret False)
      else ret True)"

section \<open>What an action pushes\<close>

text \<open>
  \<open>quiet s s'\<close>: only the logger's socket, the clock ticks and the response vector may differ.
  \<open>pushes fs s s'\<close>: moreover the vector has grown by one envelope for each entry of \<open>fs\<close>, which gives
  its contents as a function of its creation time. \<open>does m s r fs\<close>: from \<open>s\<close> the action has the result
  \<open>r\<close> and pushes \<open>fs\<close>.
\<close>

type_synonym response = "u64 \<Rightarrow> EnvelopePB"

definition quiet :: "'i rp \<Rightarrow> 'i rp \<Rightarrow> bool" where
  "quiet s s' \<longleftrightarrow> s' = s\<lparr>logger_sock := logger_sock s', ticks := ticks s', response_vector := response_vector s'\<rparr>"

definition made :: "response list \<Rightarrow> u64 list \<Rightarrow> Envelope list" where
  "made fs ts = map2 (\<lambda>f t. of_pb (f t)) fs ts"

definition pushes :: "response list \<Rightarrow> 'i rp \<Rightarrow> 'i rp \<Rightarrow> bool" where
  "pushes fs s s' \<longleftrightarrow> quiet s s' \<and> (\<exists>ts. length ts = length fs \<and> response_vector s' = response_vector s @ made fs ts)"

definition does :: "('i rp, 'a) action \<Rightarrow> 'i rp \<Rightarrow> 'a res \<Rightarrow> response list \<Rightarrow> bool" where
  "does m s r fs \<longleftrightarrow> (\<exists>s'. m s = (r, s') \<and> pushes fs s s')"

text \<open>A response that the processor makes of one message, with tags.\<close>

definition reply :: "codec \<Rightarrow> string list \<Rightarrow> Message \<Rightarrow> response" where
  "reply c tags m now = (envelope (add_to_envelope c m (new_Envelope now)))\<lparr>tag := tags\<rparr>"

definition raw :: "EnvelopePB \<Rightarrow> response" where
  "raw pb now = pb"

named_theorems does_intros \<open>what actions push\<close>

lemma quiet_refl [simp]: "quiet s s"
  by (simp add: quiet_def)

lemma quiet_trans: "quiet s t \<Longrightarrow> quiet t u \<Longrightarrow> quiet s u"
  unfolding quiet_def by (cases s, cases t, cases u) simp

lemma quiet_keeps:
  assumes "quiet s s'"
  shows "rp_id s' = rp_id s" "impl_state s' = impl_state s" "rp_store s' = rp_store s"
    "client_sock s' = client_sock s" "current_request_identities s' = current_request_identities s"
    "get_stream_max_bytes s' = get_stream_max_bytes s" "get_stream_max_envelopes s' = get_stream_max_envelopes s"
    "lua_memory_max s' = lua_memory_max s" "subscription_ttl s' = subscription_ttl s" "now_at s' = now_at s"
proof -
  obtain l k o' where "s' = s\<lparr>logger_sock := l, ticks := k, response_vector := o'\<rparr>"
    using assms unfolding quiet_def by blast
  then show "rp_id s' = rp_id s" "impl_state s' = impl_state s" "rp_store s' = rp_store s"
    "client_sock s' = client_sock s" "current_request_identities s' = current_request_identities s"
    "get_stream_max_bytes s' = get_stream_max_bytes s" "get_stream_max_envelopes s' = get_stream_max_envelopes s"
    "lua_memory_max s' = lua_memory_max s" "subscription_ttl s' = subscription_ttl s" "now_at s' = now_at s"
    by simp_all
qed

lemma made_append: "length fs = length ts \<Longrightarrow> made (fs @ gs) (ts @ us) = made fs ts @ made gs us"
  by (simp add: made_def)

lemma pushes_Nil: "quiet s s' \<Longrightarrow> response_vector s' = response_vector s \<Longrightarrow> pushes [] s s'"
  by (simp add: pushes_def made_def)

lemma pushes_trans: "pushes fs s t \<Longrightarrow> pushes gs t u \<Longrightarrow> pushes (fs @ gs) s u"
  unfolding pushes_def
proof (elim conjE exE)
  fix ts us
  assume q: "quiet s t" "quiet t u" and l: "length ts = length fs" "length us = length gs"
    and o: "response_vector t = response_vector s @ made fs ts" "response_vector u = response_vector t @ made gs us"
  have "response_vector u = response_vector s @ made (fs @ gs) (ts @ us)" using o l by (simp add: made_append)
  with quiet_trans [OF q] l show "quiet s u \<and> (\<exists>ts. length ts = length (fs @ gs) \<and> response_vector u = response_vector s @ made (fs @ gs) ts)"
    by (metis length_append)
qed

lemma pushes_quiet: "pushes fs s s' \<Longrightarrow> quiet s s'"
  by (simp add: pushes_def)

lemma does_andThen:
  assumes "does m s (Inr x) fs" "\<And>s'. quiet s s' \<Longrightarrow> does (f x) s' r gs"
  shows "does (andThen m f) s r (fs @ gs)"
proof -
  obtain s' where m: "m s = (Inr x, s')" "pushes fs s s'" using assms(1) by (auto simp: does_def)
  obtain s'' where f: "f x s' = (r, s'')" "pushes gs s' s''"
    using assms(2) [OF pushes_quiet [OF m(2)]] by (auto simp: does_def)
  show ?thesis using m f pushes_trans [OF m(2) f(2)] by (auto simp: does_def andThen_def)
qed

lemma does_andThen_Inl: "does m s (Inl e) fs \<Longrightarrow> does (andThen m f) s (Inl e) fs"
  by (auto simp: does_def andThen_def)

lemma does_quiet: "does m s (Inr x) [] \<Longrightarrow> (\<And>s'. quiet s s' \<Longrightarrow> does (f x) s' r gs) \<Longrightarrow> does (andThen m f) s r gs"
  using does_andThen [of m s x "[]" f r gs] by simp

lemma does_ret [simp]: "does (ret x) s (Inr x) []"
  by (simp add: does_def pushes_Nil)

lemma does_throw [simp]: "does (throw e) s (Inl e) []"
  by (simp add: does_def pushes_Nil)

lemma does_lift: "does (lift_res r) s r []"
  by (simp add: does_def pushes_Nil)

lemma does_gets: "(\<And>s'. quiet s s' \<Longrightarrow> does (f (g s)) s' r fs) \<Longrightarrow> does (andThen (gets g) f) s r fs"
  by (simp add: does_def)

lemma does_fresh: "(\<And>t s'. quiet s s' \<Longrightarrow> does (f (new_Envelope t)) s' r fs) \<Longrightarrow> does (andThen fresh f) s r fs"
  by (rule does_quiet [where x = "new_Envelope (now_at s (ticks s))"])
    (auto simp: does_def fresh_def quiet_def intro!: pushes_Nil)

lemma add_to_envelope_tag [simp]: "tag (envelope (add_to_envelope c m e)) = tag (envelope e)"
  by (simp add: add_to_envelope_def AddMessage_def split: option.split)

lemma new_Envelope_tag [simp]: "tag (envelope (new_Envelope now)) = []"
  by (simp add: new_Envelope_def of_pb_def empty_envelope_def)

lemma does_LOG: "does (LOG_MESSAGE E log) s (Inr ()) []"
  by (auto simp: does_def LOG_MESSAGE_def fresh_def send_log_def andThen_def quiet_def intro!: pushes_Nil)

lemma does_push: "does (push_back e) s (Inr ()) [raw (envelope e)]"
  by (simp add: does_def push_back_def pushes_def quiet_def made_def raw_def copy_Envelope_def)
    (rule exI [of _ "[0]"], simp add: raw_def)

lemma does_respond: "does (respond E m) s (Inr ()) [reply (cdc E) [] m]"
proof -
  let ?t = "now_at s (ticks s)"
  have "envelope (add_to_envelope (cdc E) m (new_Envelope ?t)) = reply (cdc E) [] m ?t"
    by (simp add: reply_def)
  then show ?thesis
    by (auto simp: does_def respond_def fresh_def push_back_def andThen_def pushes_def quiet_def made_def copy_Envelope_def
        intro!: exI [of _ "[?t]"])
qed

lemma does_error: "does (PopulateErrorResponse E code msg) s (Inr ()) [reply (cdc E) [] (Error code msg)]"
  unfolding PopulateErrorResponse_def by (rule does_quiet [OF does_LOG does_respond])

text \<open>From here on actions are reasoned about by what they do, not run.\<close>

declare ret_run [simp del] throw_run [simp del]

lemma does_seq:
  "does m s (Inr ()) fs \<Longrightarrow> (\<And>s'. quiet s s' \<Longrightarrow> does n s' r gs) \<Longrightarrow> does (seq m n) s r (fs @ gs)"
  by (rule does_andThen)

end
