(* ===== verification/Request_Processor.thy ===== *)
theory Request_Processor
  imports Request_State
begin

text \<open>
  The class \<open>RequestProcessor\<close> (src/zippylog/request_processor.cpp): one action per handler, the
  dispatch of a request, the processing of a received message and \<open>Pump\<close>. A \<open>goto LOG_END\<close> of the code
  leaves the body of a handler; the label's code follows the body.
\<close>

section \<open>Construction\<close>

record rp_params =
  store_path :: string
  has_ctx :: bool
  has_implementation :: bool
  p_stream_max_bytes :: u32
  p_stream_max_envelopes :: u32
  p_lua_memory_max :: u32
  p_subscription_ttl :: u32

definition default_params :: rp_params where
  "default_params = \<lparr>store_path = [], has_ctx = False, has_implementation = False,
     p_stream_max_bytes = 256000, p_stream_max_envelopes = 10000, p_lua_memory_max = 65535,
     p_subscription_ttl = 60000\<rparr>"

text \<open>
  The constructor, on the system's files and what an uninitialised \<open>FileStat\<close> holds, with the id that
  \<open>CreateUUID\<close> returns, the implementation's state and the two connected sockets.
\<close>

definition new_RequestProcessor ::
  "'i rp_env \<Rightarrow> rp_params \<Rightarrow> FileType \<Rightarrow> filesystem \<Rightarrow> string \<Rightarrow> 'i \<Rightarrow> socket \<Rightarrow> socket \<Rightarrow> (nat \<Rightarrow> u64) \<Rightarrow> 'i rp res" where
  "new_RequestProcessor E p garbage fs uuid i client logger now =
     (if \<not> has_ctx p then Inl (InvalidArgument ''ctx parameter cannot be NULL'')
      else if \<not> has_implementation p then Inl (InvalidArgument ''implementation parameter cannot be NULL'')
      else rbind (CreateStore garbage fs (store_path p)) (\<lambda>st.
        let s = \<lparr>rp_id = uuid, impl_state = i, rp_store = st, client_sock = client, logger_sock = logger,
                 current_request_identities = [], response_vector = [],
                 get_stream_max_bytes = p_stream_max_bytes p,
                 get_stream_max_envelopes = p_stream_max_envelopes p,
                 lua_memory_max = p_lua_memory_max p, subscription_ttl = p_subscription_ttl p,
                 now_at = now, ticks = 0\<rparr>
        in Inr (snd (LOG_MESSAGE E LogCreate s))))"

definition delete_RequestProcessor :: "'i rp_env \<Rightarrow> ('i rp, unit) action" where
  "delete_RequestProcessor E = LOG_MESSAGE E LogDestroy"

definition OnRunStart :: "'i rp_env \<Rightarrow> ('i rp, unit) action" where
  "OnRunStart E = LOG_MESSAGE E LogRunStart"

definition OnRunFinish :: "'i rp_env \<Rightarrow> ('i rp, unit) action" where
  "OnRunFinish E = LOG_MESSAGE E LogRunStop"

section \<open>Ping and features\<close>

definition ProcessPing :: "'i rp_env \<Rightarrow> ('i rp, ResponseStatus) action" where
  "ProcessPing E = seq (respond E PongV1) (ret AUTHORITATIVE)"

definition advertised :: "(u32 \<times> string) list" where
  "advertised =
     [(91, ''PingV1''), (72, ''GetFeaturesV1''), (73, ''GetStoreInfoV1''), (74, ''GetBucketInfoV1''),
      (75, ''GetStreamSetInfoV1''), (76, ''GetStreamInfoV1''), (92, ''GetStreamSegmentV1''),
      (78, ''WriteEnvelopeV1''), (79, ''WriteEnvelopeFromMessagesV1''), (80, ''SubscribeStoreChangesV1''),
      (81, ''SubscribeEnvelopesV1''), (82, ''SubscribeKeepaliveV1''), (83, ''SubscribeCancelV1'')]"

definition features :: "u32 \<Rightarrow> u32 \<Rightarrow> FeatureSpecification" where
  "features max_bytes max_envs =
     \<lparr>supported_message_formats = [1], supported_request_types = map fst advertised,
      supported_request_names = map snd advertised,
      max_stream_segment_bytes = max_bytes, max_stream_segment_envelopes = max_envs\<rparr>"

definition ProcessFeatures :: "'i rp_env \<Rightarrow> ('i rp, ResponseStatus) action" where
  "ProcessFeatures E =
     andThen (gets (\<lambda>s. features (get_stream_max_bytes s) (get_stream_max_envelopes s))) (\<lambda>response.
       seq (respond E (FeatureSpecificationV1 response)) (ret AUTHORITATIVE))"

section \<open>Store information\<close>

text \<open>
  The names that \<open>ParsePath\<close>, \<open>ParseStreamSetPath\<close> and \<open>ParseBucketPath\<close> store in their reference
  arguments, which the handlers read without looking at the result.
\<close>

definition path_parts :: "string \<Rightarrow> string \<times> string \<times> string" where
  "path_parts path = (case parse_path path of None \<Rightarrow> ([], [], []) | Some t \<Rightarrow> t)"

definition ProcessStoreInfo :: "'i rp_env \<Rightarrow> Envelope \<Rightarrow> ('i rp, ResponseStatus) action" where
  "ProcessStoreInfo E e =
     seq (LOG_MESSAGE E LogBeginStoreInfo)
     (seq (andThen (OBTAIN_MESSAGE E e) (\<lambda>(m, _).
        case m of
          None \<Rightarrow> ret ()
        | Some _ \<Rightarrow>
            andThen (gets (\<lambda>s. snd (StoreInfo (vstore E) (rp_store s) []))) (\<lambda>info.
              respond E (StoreInfoMsg info))))
     (seq (LOG_MESSAGE E LogEndStoreInfo) (ret AUTHORITATIVE)))"

definition bucket_info_body :: "'i rp_env \<Rightarrow> Message option \<Rightarrow> Envelope \<Rightarrow> ('i rp, unit) action" where
  "bucket_info_body E m response =
    (case m of
      None \<Rightarrow> ret ()
    | Some (GetBucketInfoV1 None) \<Rightarrow> PopulateErrorResponse E EMPTY_FIELD ''required field 'path' missing''
    | Some (GetBucketInfoV1 (Some path)) \<Rightarrow>
        andThen (CheckPath E path True False False) (\<lambda>ok.
          if \<not> ok then ret ()
          else
            let (bucket, _, _) = path_parts path in
            andThen (gets (\<lambda>s. snd (BucketInfo (vstore E) (rp_store s) bucket new_BucketInfo))) (\<lambda>info.
              push_back (add_to_envelope (cdc E) (BucketInfoMsg info) response)))
    | Some _ \<Rightarrow> wrong_class)"

definition ProcessBucketInfo :: "'i rp_env \<Rightarrow> Envelope \<Rightarrow> ('i rp, ResponseStatus) action" where
  "ProcessBucketInfo E e =
     seq (LOG_MESSAGE E LogBeginBucketInfo)
     (andThen fresh (\<lambda>response.
      seq (andThen (OBTAIN_MESSAGE E e) (\<lambda>(m, _). bucket_info_body E m response))
      (seq (LOG_MESSAGE E LogEndBucketInfo) (ret AUTHORITATIVE))))"

definition stream_set_info_body :: "'i rp_env \<Rightarrow> Message option \<Rightarrow> Envelope \<Rightarrow> ('i rp, unit) action" where
  "stream_set_info_body E m response =
    (case m of
      None \<Rightarrow> ret ()
    | Some (GetStreamSetInfoV1 None) \<Rightarrow> PopulateErrorResponse E EMPTY_FIELD ''required field 'path' missing''
    | Some (GetStreamSetInfoV1 (Some path)) \<Rightarrow>
        andThen (CheckPath E path True True False) (\<lambda>ok.
          if \<not> ok then ret ()
          else
            let (bucket, sset, _) = path_parts path in
            andThen (gets (\<lambda>s. snd (StreamsetInfo (vstore E) (rp_store s) bucket sset new_StreamSetInfo))) (\<lambda>info.
              push_back (add_to_envelope (cdc E) (StreamSetInfoMsg info) response)))
    | Some _ \<Rightarrow> wrong_class)"

definition ProcessStreamSetInfo :: "'i rp_env \<Rightarrow> Envelope \<Rightarrow> ('i rp, ResponseStatus) action" where
  "ProcessStreamSetInfo E e =
     seq (LOG_MESSAGE E LogBeginStreamSetInfo)
     (andThen fresh (\<lambda>response.
      seq (andThen (OBTAIN_MESSAGE E e) (\<lambda>(m, _). stream_set_info_body E m response))
      (seq (LOG_MESSAGE E LogEndStreamSetInfo) (ret AUTHORITATIVE))))"

definition stream_info_body :: "'i rp_env \<Rightarrow> Message option \<Rightarrow> Envelope \<Rightarrow> ('i rp, unit) action" where
  "stream_info_body E m response =
    (case m of
      None \<Rightarrow> ret ()
    | Some (GetStreamInfoV1 None) \<Rightarrow> PopulateErrorResponse E EMPTY_FIELD ''required field 'path' missing''
    | Some (GetStreamInfoV1 (Some path)) \<Rightarrow>
        andThen (CheckPath E path True True True) (\<lambda>ok.
          if \<not> ok then ret ()
          else
            let (bucket, sset, stream) = path_parts path in
            andThen (gets (\<lambda>s. snd (StreamInfo (vstore E) (rp_store s) bucket sset stream new_StreamInfo))) (\<lambda>info.
              push_back (add_to_envelope (cdc E) (StreamInfoMsg info) response)))
    | Some _ \<Rightarrow> wrong_class)"

definition ProcessStreamInfo :: "'i rp_env \<Rightarrow> Envelope \<Rightarrow> ('i rp, ResponseStatus) action" where
  "ProcessStreamInfo E e =
     seq (LOG_MESSAGE E LogBeginStreamInfo)
     (andThen fresh (\<lambda>response.
      seq (andThen (OBTAIN_MESSAGE E e) (\<lambda>(m, _). stream_info_body E m response))
      (seq (LOG_MESSAGE E LogEndStreamInfo) (ret AUTHORITATIVE))))"

section \<open>Stream segments\<close>

text \<open>The measure of the loop below: the counter of envelopes, which wraps when it starts at zero.\<close>

definition loop_fuel :: "u32 \<Rightarrow> nat" where
  "loop_fuel n = (if n = 0 then 2 ^ 32 else unat n)"

lemma loop_fuel_less: "n \<noteq> 1 \<Longrightarrow> loop_fuel (n - 1) < loop_fuel n"
proof -
  assume n: "n \<noteq> 1"
  show ?thesis
  proof (cases "n = 0")
    case True
    then show ?thesis by (simp add: loop_fuel_def unsigned_minus_1_eq_mask mask_eq_exp_minus_1)
  next
    case False
    then have "0 < unat n" by (simp add: unat_gt_0)
    then have "1 \<le> unat n" by simp
    with n False have "unat (n - 1) < unat n" "n - 1 \<noteq> 0" by (auto simp: unat_sub_if')
    with False show ?thesis by (simp add: loop_fuel_def)
  qed
qed

text \<open>
  The loop that sends further envelopes: it ends when the stream has no more, after an envelope that
  is larger than what is left of the bytes, and when one envelope was left. \<open>acc\<close> is the vector of
  responses.
\<close>

function segment_loop ::
  "codec \<Rightarrow> InputStream \<Rightarrow> Envelope \<Rightarrow> u32 \<Rightarrow> u32 \<Rightarrow> u32 \<Rightarrow> u32 \<Rightarrow> Envelope list \<Rightarrow> InputStream \<times> u32 \<times> u32 \<times> Envelope list" where
  "segment_loop c stream env bytes_left envelopes_left bytes_read envelopes_read acc =
     (let (envelope_size, stream) = NextEnvelopeSize c stream in
      if envelope_size = 0 then (stream, bytes_read, envelopes_read, acc)
      else
        let ((ok, env, envelope_size), stream) = ReadEnvelope c env stream in
        if \<not> ok then (stream, bytes_read, envelopes_read, acc)
        else
          let acc = acc @ [copy_Envelope env];
              bytes_read = bytes_read + envelope_size;
              envelopes_read = envelopes_read + 1
          in if envelope_size > bytes_left then (stream, bytes_read, envelopes_read, acc)
             else if envelopes_left = 1 then (stream, bytes_read, envelopes_read, acc)
             else segment_loop c stream env (bytes_left - envelope_size) (envelopes_left - 1)
                    bytes_read envelopes_read acc)"
  by pat_completeness auto

termination
  by (relation "measure (\<lambda>(_, _, _, _, n, _). loop_fuel n)") (simp_all add: loop_fuel_less)

declare segment_loop.simps [simp del]

definition on_store :: "(Store, 'a) action \<Rightarrow> ('i rp, 'a) action" where
  "on_store m s = (let (r, st) = m (rp_store s) in (r, s\<lparr>rp_store := st\<rparr>))"

definition add_tags :: "string list \<Rightarrow> Envelope \<Rightarrow> Envelope" where
  "add_tags ts e = fold AddTag ts e"

text \<open>The sequence that is sent once there is an envelope at the offset: start, envelopes, end.\<close>

definition send_sequence ::
  "'i rp_env \<Rightarrow> string list \<Rightarrow> string \<Rightarrow> u64 \<Rightarrow> u32 \<Rightarrow> u32 \<Rightarrow> Envelope \<Rightarrow> u32 \<Rightarrow> InputStream \<Rightarrow> ('i rp, unit) action" where
  "send_sequence E tags path start_offset bytes_left envelopes_left env envelope_size stream =
     andThen fresh (\<lambda>start_envelope.
     seq (push_back (add_tags tags (add_to_envelope (cdc E) (StreamSegmentStartV1 path start_offset) start_envelope)))
     (seq (push_back env)
     (andThen (gets response_vector) (\<lambda>acc.
       let envelopes_left = envelopes_left - 1;
           (stream, bytes_read, envelopes_read, acc) =
             (if envelope_size < bytes_left \<and> envelopes_left \<noteq> 0
              then segment_loop (cdc E) stream env (bytes_left - envelope_size) envelopes_left envelope_size 1 acc
              else (stream, envelope_size, 1, acc)) in
       seq (modify (\<lambda>s. s\<lparr>response_vector := acc\<rparr>))
         (respond E (StreamSegmentEndV1 (word_of_int (offset stream)) bytes_read envelopes_read))))))"

text \<open>The part of \<open>ProcessGetStream\<close> that reads the stream, once the request has been checked.\<close>

definition send_segment ::
  "'i rp_env \<Rightarrow> string list \<Rightarrow> string \<Rightarrow> u64 \<Rightarrow> u32 option \<Rightarrow> u32 option \<Rightarrow> InputStream \<Rightarrow> ('i rp, unit) action" where
  "send_segment E tags path start_offset max_bytes max_envs stream =
     andThen (lift_res (if start_offset = 0 then Inr (True, stream)
       else (case SetAbsoluteOffset (to_int64 (uint start_offset)) stream of
               (Inl x, _) \<Rightarrow> Inl x | (Inr ok, stream) \<Rightarrow> Inr (ok, stream)))) (\<lambda>(ok, stream).
     if \<not> ok then throw (RuntimeException ''TODO handle error setting offset properly'')
     else
       andThen (gets (\<lambda>s. (get_stream_max_bytes s, get_stream_max_envelopes s))) (\<lambda>(bytes_left, envelopes_left).
       let bytes_left = (case max_bytes of Some n \<Rightarrow> if n < bytes_left then n else bytes_left | None \<Rightarrow> bytes_left);
           envelopes_left = (case max_envs of Some n \<Rightarrow> if n < envelopes_left then n else envelopes_left | None \<Rightarrow> envelopes_left) in
       andThen fresh (\<lambda>_.
       let (envelope_size, stream) = NextEnvelopeSize (cdc E) stream in
       andThen fresh (\<lambda>env.
       let ((ok, env, envelope_size), stream) =
             (if envelope_size = 0 then ((False, env, 0), stream) else ReadEnvelope (cdc E) env stream) in
       if \<not> ok then
         seq (LOG_MESSAGE E LogGetInvalidOffset)
           (PopulateErrorResponse E INVALID_STREAM_OFFSET ''no envelopes found at requested stream offset'')
       else
         send_sequence E tags path start_offset bytes_left envelopes_left env envelope_size stream))))"

definition ProcessGetStream :: "'i rp_env \<Rightarrow> Envelope \<Rightarrow> ('i rp, ResponseStatus) action" where
  "ProcessGetStream E e =
     seq (LOG_MESSAGE E LogBeginGetStream)
     (seq (andThen (get_request E e) (\<lambda>(m, _).
        let invalid = (\<lambda>code msg. seq (LOG_MESSAGE E LogReceiveInvalidGet) (PopulateErrorResponse E code msg)) in
        case m of
          None \<Rightarrow> invalid UNKNOWN_REQUEST_TYPE ''error parsing get message... weird''
        | Some (GetStreamSegmentV1 None _ _ _) \<Rightarrow> invalid EMPTY_FIELD ''required field 'path' is not set''
        | Some (GetStreamSegmentV1 (Some path) start max_bytes max_envs) \<Rightarrow>
            andThen (CheckPath E path True True True) (\<lambda>ok.
              if \<not> ok then ret ()
              else case start of
                None \<Rightarrow> invalid EMPTY_FIELD ''required field 'start_offset' is not set''
              | Some start_offset \<Rightarrow>
                  andThen (on_store (GetInputStream (vstore E) path)) (\<lambda>stream.
                    case stream of
                      None \<Rightarrow>
                        seq (LOG_MESSAGE E LogGetInvalidStream)
                          (PopulateErrorResponse E PATH_NOT_FOUND ''requested stream could not be found'')
                    | Some stream \<Rightarrow> send_segment E (tag (envelope e)) path start_offset max_bytes max_envs stream))
        | Some _ \<Rightarrow> wrong_class))
      (seq (LOG_MESSAGE E LogEndGetStream) (ret AUTHORITATIVE)))"

section \<open>Subscriptions\<close>

definition on_impl :: "('i, 'a) action \<Rightarrow> ('i rp, 'a) action" where
  "on_impl m s = (let (r, i) = m (impl_state s) in (r, s\<lparr>impl_state := i\<rparr>))"

definition on_impl_output :: "('i \<times> Envelope list, 'a) action \<Rightarrow> ('i rp, 'a) action" where
  "on_impl_output m s =
     (let (r, i, out) = m (impl_state s, response_vector s) in (r, s\<lparr>impl_state := i, response_vector := out\<rparr>))"

definition CallHandleSubscriptionRequest :: "'i rp_env \<Rightarrow> SubscriptionInfo \<Rightarrow> ('i rp, unit) action" where
  "CallHandleSubscriptionRequest E subscription =
     andThen (gets current_request_identities) (\<lambda>ids.
     let subscription = subscription\<lparr>si_socket_identifiers := (if length ids > 0 then tl ids else ids)\<rparr> in
     andThen (on_impl (HandleSubscriptionRequest (impl E) subscription)) (\<lambda>result.
       if deferred result then ret ()
       else if have_error result then
         (case error_code result of
            None \<Rightarrow> throw (Undefined ''uninitialised error_code'')
          | Some code \<Rightarrow> PopulateErrorResponse E code (error_message result))
       else if \<not> is_subscription result then
         throw (RuntimeException ''invalid response seen from request processor implementation'')
       else if subscription_id result \<noteq> [] then
         (case hr_subscription_ttl result of
            None \<Rightarrow> throw (Undefined ''uninitialised subscription_ttl'')
          | Some ttl \<Rightarrow> respond E (SubscriptionAcceptAckV1 (subscription_id result) ttl))
       else PopulateErrorResponse E SUBSCRIPTION_REJECTED (error_message result)))"

definition whole_store_if_empty :: "string list \<Rightarrow> string list" where
  "whole_store_if_empty paths = (if length paths = 0 then [''/''] else paths)"

definition ProcessSubscribeStoreChanges :: "'i rp_env \<Rightarrow> Envelope \<Rightarrow> ('i rp, ResponseStatus) action" where
  "ProcessSubscribeStoreChanges E e =
     seq (andThen (OBTAIN_MESSAGE E e) (\<lambda>(m, _).
        case m of
          None \<Rightarrow> ret ()
        | Some (SubscribeStoreChangesV1 paths) \<Rightarrow>
            if \<not> list_all ValidatePath paths then PopulateErrorResponse E INVALID_PATH ''path not valid''
            else CallHandleSubscriptionRequest E
              (new_SubscriptionInfo\<lparr>si_type := STORE_CHANGE, si_paths := whole_store_if_empty paths\<rparr>)
        | Some _ \<Rightarrow> wrong_class))
      (ret AUTHORITATIVE)"

definition ProcessSubscribeEnvelopes :: "'i rp_env \<Rightarrow> Envelope \<Rightarrow> ('i rp, ResponseStatus) action" where
  "ProcessSubscribeEnvelopes E e =
     seq (andThen (OBTAIN_MESSAGE E e) (\<lambda>(m, _).
        case m of
          None \<Rightarrow> ret ()
        | Some (SubscribeEnvelopesV1 paths lua namespaces enum_namespaces enum_types) \<Rightarrow>
            if length enum_namespaces \<noteq> length enum_types then
              PopulateErrorResponse E FIELD_LENGTHS_DIFFERENT
                ''lengths of filter_enumeration_namespace and filter_enumeration_type are not identical''
            else
              (case lua of
                 Some code \<Rightarrow>
                   andThen (gets lua_memory_max) (\<lambda>ceiling.
                   andThen (lift_res (LoadLuaCode E ceiling code)) (\<lambda>loaded.
                     case loaded of
                       Some msg \<Rightarrow> PopulateErrorResponse E LUA_ERROR msg
                     | None \<Rightarrow> ret ()))
               | None \<Rightarrow>
                   if \<not> list_all ValidatePath paths then PopulateErrorResponse E INVALID_PATH ''path not valid''
                   else CallHandleSubscriptionRequest E
                     (new_SubscriptionInfo\<lparr>si_type := ENVELOPE,
                        si_filter_enumerations := zip enum_namespaces enum_types,
                        si_filter_namespaces := namespaces,
                        si_paths := whole_store_if_empty paths\<rparr>))
        | Some _ \<Rightarrow> wrong_class))
      (ret AUTHORITATIVE)"

definition ProcessSubscribeKeepalive :: "'i rp_env \<Rightarrow> Envelope \<Rightarrow> ('i rp, ResponseStatus) action" where
  "ProcessSubscribeKeepalive E e =
     andThen (OBTAIN_MESSAGE E e) (\<lambda>(m, e').
     seq (case m of
            None \<Rightarrow> ret ()
          | Some (SubscribeKeepaliveV1 ids) \<Rightarrow>
              if ids = [] then throw (Undefined ''id 0 of no ids'')
              else LOG_MESSAGE E (LogForwardSubscribeKeepalive (hd ids))
          | Some _ \<Rightarrow> wrong_class)
     (andThen (on_impl_output (HandleSubscribeKeepalive (impl E) e')) (\<lambda>result.
        ret (if deferred result then DEFERRED else AUTHORITATIVE))))"

definition ProcessSubscribeCancel :: "('i rp, ResponseStatus) action" where
  "ProcessSubscribeCancel = throw (RuntimeException ''not implemented'')"

section \<open>Writing\<close>

text \<open>The loop that parses the envelopes of the request; one that does not parse is logged and left out.\<close>

fun parse_envelopes :: "'i rp_env \<Rightarrow> string list \<Rightarrow> Envelope list \<Rightarrow> ('i rp, Envelope list) action" where
  "parse_envelopes E [] envs = ret envs"
| "parse_envelopes E (s # ss) envs =
     (case Envelope_of_data (cdc E) s of
        Inr e \<Rightarrow> parse_envelopes E ss (envs @ [e])
      | Inl DeserializeException \<Rightarrow>
          seq (LOG_MESSAGE E (LogEnvelopeParseFailure (Some s))) (parse_envelopes E ss envs)
      | Inl x \<Rightarrow> throw x)"

definition write_envelopes :: "'i rp_env \<Rightarrow> string \<Rightarrow> string list \<Rightarrow> bool \<Rightarrow> bool \<Rightarrow> ('i rp, unit) action" where
  "write_envelopes E path datas acknowledge synchronous =
     (let send_ack = (if synchronous then True else acknowledge) in
      andThen (parse_envelopes E datas []) (\<lambda>envs.
      andThen (if length envs > 0 then on_impl (HandleWriteEnvelopes (impl E) path envs synchronous)
               else ret new_HandlerResult) (\<lambda>result.
        if send_ack \<and> \<not> deferred result then
          if have_error result then throw (RuntimeException ''not implemented'')
          else if \<not> is_write result then
            throw (RuntimeException ''return from request processor write envelopes implementation not sane'')
          else
            (case envelopes_written result of
               None \<Rightarrow> throw (Undefined ''uninitialised envelopes_written'')
             | Some n \<Rightarrow> respond E (WriteAckV1 n))
        else ret ())))"

definition write_checked :: "'i rp_env \<Rightarrow> string \<Rightarrow> string list \<Rightarrow> bool \<Rightarrow> bool \<Rightarrow> ('i rp, unit) action" where
  "write_checked E path datas acknowledge synchronous =
     (if length datas < 1 then PopulateErrorResponse E EMPTY_FIELD ''no envelopes specified in request''
      else write_envelopes E path datas acknowledge synchronous)"

definition write_body :: "'i rp_env \<Rightarrow> Message option \<Rightarrow> ('i rp, unit) action" where
  "write_body E m =
     (case m of
        None \<Rightarrow> ret ()
      | Some (WriteEnvelopeV1 None _ _ _) \<Rightarrow> PopulateErrorResponse E EMPTY_FIELD ''required field 'path' missing''
      | Some (WriteEnvelopeV1 (Some path) datas acknowledge synchronous) \<Rightarrow>
          (case parse_path path of
             None \<Rightarrow> PopulateErrorResponse E INVALID_PATH (''invalid path: '' @ path)
           | Some (bucket, sset, stream) \<Rightarrow>
               andThen
                 (if length stream = 0 then
                    if length sset = 0 then
                      seq (PopulateErrorResponse E INVALID_PATH (''path not to a stream set or stream: '' @ path))
                        (ret False)
                    else CheckPath E path True True False
                  else ret True) (\<lambda>ok.
               if \<not> ok then ret () else write_checked E path datas acknowledge synchronous))
      | Some _ \<Rightarrow> wrong_class)"

definition ProcessWriteEnvelope :: "'i rp_env \<Rightarrow> Envelope \<Rightarrow> ('i rp, ResponseStatus) action" where
  "ProcessWriteEnvelope E e =
     seq (LOG_MESSAGE E LogBeginWriteEnvelope)
     (seq (andThen (OBTAIN_MESSAGE E e) (\<lambda>(m, _). write_body E m))
     (seq (LOG_MESSAGE E LogEndWriteEnvelope)
       (andThen (gets response_vector) (\<lambda>out. ret (if length out > 0 then AUTHORITATIVE else DEFERRED)))))"

definition ProcessRegisterPlugin :: "'i rp_env \<Rightarrow> Envelope \<Rightarrow> ('i rp, ResponseStatus) action" where
  "ProcessRegisterPlugin E e =
     andThen (OBTAIN_MESSAGE E e) (\<lambda>(m, _).
       case m of None \<Rightarrow> ret DEFERRED | Some _ \<Rightarrow> throw (RuntimeException ''not implemented''))"

definition ProcessUnregisterPlugin :: "('i rp, ResponseStatus) action" where
  "ProcessUnregisterPlugin = throw (RuntimeException ''not implemented'')"

definition ProcessPluginStatus :: "('i rp, ResponseStatus) action" where
  "ProcessPluginStatus = throw (RuntimeException ''not implemented'')"

section \<open>Dispatch\<close>

definition dispatch :: "'i rp_env \<Rightarrow> Envelope \<Rightarrow> u32 \<Rightarrow> ('i rp, ResponseStatus) action" where
  "dispatch E e request_type =
     (if request_type = 91 then ProcessPing E
      else if request_type = 72 then ProcessFeatures E
      else if request_type = 73 then ProcessStoreInfo E e
      else if request_type = 74 then ProcessBucketInfo E e
      else if request_type = 75 then ProcessStreamSetInfo E e
      else if request_type = 76 then ProcessStreamInfo E e
      else if request_type = 92 then ProcessGetStream E e
      else if request_type = 80 then ProcessSubscribeStoreChanges E e
      else if request_type = 81 then ProcessSubscribeEnvelopes E e
      else if request_type = 82 then ProcessSubscribeKeepalive E e
      else if request_type = 83 then ProcessSubscribeCancel
      else if request_type = 78 then ProcessWriteEnvelope E e
      else if request_type = 111 then ProcessRegisterPlugin E e
      else if request_type = 112 then ProcessUnregisterPlugin
      else if request_type = 116 then ProcessPluginStatus
      else
        seq (LOG_MESSAGE E (LogUnknownRequestType request_type))
        (seq (PopulateErrorResponse E UNKNOWN_REQUEST_TYPE ''server does not know how to process the request'')
          (ret AUTHORITATIVE)))"

text \<open>The tags of the request are added to the first response.\<close>

definition tag_first :: "string list \<Rightarrow> Envelope list \<Rightarrow> Envelope list" where
  "tag_first ts out = (case out of [] \<Rightarrow> [] | e # es \<Rightarrow> add_tags ts e # es)"

definition check_and_dispatch :: "'i rp_env \<Rightarrow> Envelope \<Rightarrow> ('i rp, ResponseStatus) action" where
  "check_and_dispatch E e =
     (if MessageCount e < 1 then
        seq (LOG_MESSAGE E LogEmptyEnvelope)
        (seq (PopulateErrorResponse E EMPTY_ENVELOPE ''envelope contains no messages'') (ret AUTHORITATIVE))
      else if length (message_ns (envelope e)) < 1 \<or> length (message_ty (envelope e)) < 1 then
        seq (LOG_MESSAGE E LogInvalidMessageEnumeration)
        (seq (PopulateErrorResponse E MISSING_ENUMERATIONS ''message received without namespace or type enumerations'')
          (ret AUTHORITATIVE))
      else if message_ns (envelope e) ! 0 \<noteq> message_namespace then
        seq (LOG_MESSAGE E LogInvalidMessageEnumeration)
        (seq (PopulateErrorResponse E INVALID_MESSAGE_NAMESPACE ''message namespace is not zippylog's'')
          (ret AUTHORITATIVE))
      else dispatch E e (message_ty (envelope e) ! 0))"

text \<open>The code behind the label \<open>SEND_RESPONSE\<close>.\<close>

definition finish_response :: "string list \<Rightarrow> ResponseStatus \<Rightarrow> ('i rp, ResponseStatus) action" where
  "finish_response tags result =
     (if result = AUTHORITATIVE then
        andThen (gets response_vector) (\<lambda>out.
          if out = [] then throw AssertionFailure
          else seq (modify (\<lambda>s. s\<lparr>response_vector := tag_first tags out\<rparr>)) (ret result))
      else ret result)"

definition ProcessRequest :: "'i rp_env \<Rightarrow> Envelope \<Rightarrow> ('i rp, ResponseStatus) action" where
  "ProcessRequest E e = andThen (check_and_dispatch E e) (finish_response (tag (envelope e)))"

text \<open>
  The outcomes of the first half of \<open>ProcessMessages\<close>: an error without a request envelope, or the
  request envelope with the status of its processing, \<open>None\<close> when that has thrown.
\<close>

definition reject :: "'i rp_env \<Rightarrow> ErrorCode \<Rightarrow> string \<Rightarrow> ('i rp, (Envelope \<times> ResponseStatus option) option) action" where
  "reject E code msg = seq (PopulateErrorResponse E code msg) (ret None)"

definition open_and_process :: "'i rp_env \<Rightarrow> string \<Rightarrow> ('i rp, (Envelope \<times> ResponseStatus option) option) action" where
  "open_and_process E initial =
     (if length initial = 0 then
        seq (LOG_MESSAGE E LogReceiveEmptyMessage) (reject E EMPTY_MESSAGE ''empty 0MQ message received'')
      else if hd initial \<noteq> CHR 0x01 then
        seq (LOG_MESSAGE E LogUnknownMessageVersion)
          (reject E UNKNOWN_MESSAGE_FORMAT_VERSION
            ''protocol message version not understood. server only supports version 1'')
      else if length initial < 2 then
        reject E PROTOCOL_NO_ENVELOPE ''protocol version 1 0MQ message received without an envelope''
      else
        (case Envelope_of_zmq (cdc E) initial 1 of
           Inl x \<Rightarrow>
             if catchable x then
               seq (LOG_MESSAGE E (LogEnvelopeParseFailure None))
                 (reject E ENVELOPE_PARSE_FAILURE ''error parsing envelope'')
             else throw x
         | Inr e \<Rightarrow>
             andThen
               (try_catch (andThen (ProcessRequest E e) (\<lambda>result. ret (Some result)))
                 (\<lambda>_. seq (PopulateErrorResponse E GENERAL_ERROR_PROCESSING ''exception when processing request'')
                        (ret None)))
               (\<lambda>result. ret (Some (e, result)))))"

definition ProcessMessages :: "'i rp_env \<Rightarrow> MessageContainer \<Rightarrow> ('i rp, unit) action" where
  "ProcessMessages E container =
     seq (modify (\<lambda>s. s\<lparr>response_vector := []\<rparr>))
     (andThen fresh (\<lambda>_.
      if length (mc_messages container) = 0 then ret ()
      else
        andThen (open_and_process E (mc_messages container ! 0)) (\<lambda>r.
          case r of
            None \<Rightarrow> ret ()
          | Some (e, None) \<Rightarrow> modify (\<lambda>s. s\<lparr>response_vector := tag_first (tag (envelope e)) (response_vector s)\<rparr>)
          | Some (e, Some result) \<Rightarrow>
              if result = AUTHORITATIVE then
                andThen (gets response_vector) (\<lambda>out. if out = [] then throw AssertionFailure else ret ())
              else ret ())))"

section \<open>\<open>Pump\<close>\<close>

definition on_client :: "(socket \<Rightarrow> 'a \<times> socket) \<Rightarrow> ('i rp, 'a) action" where
  "on_client f s = (let (r, sock) = f (client_sock s) in (Inr r, s\<lparr>client_sock := sock\<rparr>))"

definition check_sent :: "int \<Rightarrow> string \<Rightarrow> ('i rp, unit) action" where
  "check_sent result msg =
     (if result = - 1 then throw (RuntimeException ''Serialization error in response envelope'')
      else if result = 0 then throw (RuntimeException msg)
      else ret ())"

text \<open>The loop over the response envelopes, from the iterator to the end.\<close>

fun send_rest :: "'i rp_env \<Rightarrow> Envelope list \<Rightarrow> ('i rp, unit) action" where
  "send_rest E [] = ret ()"
| "send_rest E (e # es) =
     andThen (on_client (SendEnvelope (cdc E) e True (if es = [] then no_flags else more_flag))) (\<lambda>result.
       seq (check_sent result ''Send failure for response envelope'') (send_rest E es))"

text \<open>
  The initialiser \<open>response_envelopes.begin()++\<close> of the loop's iterator is the position before the
  increment, the first envelope.
\<close>

definition send_responses :: "'i rp_env \<Rightarrow> string list \<Rightarrow> ('i rp, unit) action" where
  "send_responses E ids =
     andThen (gets response_vector) (\<lambda>out.
       case out of
         [] \<Rightarrow> ret ()
       | e # es \<Rightarrow>
           andThen (on_client (SendEnvelope_to (cdc E) ids e True (if length out > 1 then more_flag else no_flags))) (\<lambda>result.
           seq (check_sent result ''Send failure for response'')
             (if length out > 1 then send_rest E out else ret ())))"

definition receive :: "socket \<Rightarrow> (bool \<times> MessageContainer) \<times> socket" where
  "receive sock = (let (ok, mc, sock) = ReceiveMessage sock in ((ok, mc), sock))"

text \<open>
  The receive waits for what is missing of a message, so that the branch for its failure is never taken.
\<close>

definition Pump :: "'i rp_env \<Rightarrow> ('i rp, PumpResult) action" where
  "Pump E =
     andThen (gets client_sock) (\<lambda>sock.
     if inbox sock = [] then ret MakeNoWorkDone
     else
       seq (modify (\<lambda>s. s\<lparr>current_request_identities := []\<rparr>))
       (andThen (on_client receive) (\<lambda>(ok, messages).
        if \<not> ok then throw Blocked
        else
          seq (modify (\<lambda>s. s\<lparr>current_request_identities := identities messages\<rparr>))
          (seq (ProcessMessages E messages)
          (seq (send_responses E (identities messages)) (ret MakeWorkDone))))))"

end
