(* ===== verification/Request_Info.thy ===== *)
theory Request_Info
  imports Request_Processor
begin

text \<open>
  The request processor's answers as functions of the request and the store: which error a malformed
  message gets, what the information requests return, and the form of an answer in the vector of
  responses. \<open>answers E mc s fs\<close> is the conclusion of the properties: \<open>ProcessMessages\<close> returns, with
  exactly the responses \<open>fs\<close>.
\<close>

section \<open>The message of a request\<close>

text \<open>
  What the processor relies on in the library: the class that is registered for an enumeration of the
  zippylog namespace parses to objects of its own. (An \<open>ApplicationMessage\<close> stands for the classes
  that are not zippylog's.)
\<close>

definition own_class :: "u32 \<Rightarrow> Message \<Rightarrow> bool" where
  "own_class ty m \<longleftrightarrow> message_enumeration m = (message_namespace, ty) \<and> (\<forall>a b x. m \<noteq> ApplicationMessage a b x)"

definition classes_ok :: "codec \<Rightarrow> registrar \<Rightarrow> bool" where
  "classes_ok c reg \<longleftrightarrow>
     (\<forall>ty p b m. registered reg message_namespace ty = Some p \<longrightarrow> ParseMessage c p b = Some m \<longrightarrow> own_class ty m)"

definition request_of :: "'i rp_env \<Rightarrow> EnvelopePB \<Rightarrow> Message option" where
  "request_of E pb = parsed (cdc E) (types E) pb 0"

definition asks :: "u32 \<Rightarrow> EnvelopePB \<Rightarrow> bool" where
  "asks ty pb \<longleftrightarrow> message pb \<noteq> [] \<and> message_ns pb \<noteq> [] \<and> message_ty pb \<noteq> [] \<and>
     message_ns pb ! 0 = message_namespace \<and> message_ty pb ! 0 = ty"

lemma request_class:
  "classes_ok (cdc E) (types E) \<Longrightarrow> asks ty pb \<Longrightarrow> request_of E pb = Some m \<Longrightarrow> own_class ty m"
  by (auto simp: request_of_def parsed_def asks_def classes_ok_def split: if_splits option.splits)

lemma log_enumeration_small: "unat (log_enumeration l) < 30"
  by (cases l) auto

lemma log_enumeration_other: "30 \<le> unat ty \<Longrightarrow> log_enumeration l \<noteq> ty"
  using log_enumeration_small [of l] by auto

lemma server_log_enumeration_other: "unat ty < 120 \<Longrightarrow> server_log_enumeration l \<noteq> ty"
  by (cases l) auto

lemma watcher_log_enumeration_other: "unat ty < 120 \<Longrightarrow> watcher_log_enumeration l \<noteq> ty"
  by (cases l) auto

lemma other_enumeration_other: "unat ty < 110 \<Longrightarrow> ty \<noteq> 79 \<Longrightarrow> other_enumeration l \<noteq> ty"
  by (cases l) auto

lemmas other_log_enumerations = other_enumeration_other log_enumeration_other server_log_enumeration_other watcher_log_enumeration_other

lemma own_class_cases:
  "own_class 73 m \<Longrightarrow> m = GetStoreInfoV1"
  "own_class 74 m \<Longrightarrow> \<exists>p. m = GetBucketInfoV1 p"
  "own_class 75 m \<Longrightarrow> \<exists>p. m = GetStreamSetInfoV1 p"
  "own_class 76 m \<Longrightarrow> \<exists>p. m = GetStreamInfoV1 p"
  "own_class 92 m \<Longrightarrow> \<exists>p off b n. m = GetStreamSegmentV1 p off b n"
  "own_class 78 m \<Longrightarrow> \<exists>p es a sy. m = WriteEnvelopeV1 p es a sy"
  "own_class 80 m \<Longrightarrow> \<exists>ps. m = SubscribeStoreChangesV1 ps"
  "own_class 81 m \<Longrightarrow> \<exists>ps l a b x. m = SubscribeEnvelopesV1 ps l a b x"
  "own_class 82 m \<Longrightarrow> \<exists>is. m = SubscribeKeepaliveV1 is"
  by (cases m; simp add: own_class_def message_namespace_def other_log_enumerations)+

section \<open>The form of an answer\<close>

definition answers :: "'i rp_env \<Rightarrow> MessageContainer \<Rightarrow> 'i rp \<Rightarrow> response list \<Rightarrow> bool" where
  "answers E mc s fs \<longleftrightarrow> (\<exists>s'. ProcessMessages E mc s = (Inr (), s') \<and> pushes fs (s\<lparr>response_vector := []\<rparr>) s')"

text \<open>
  The same with an update \<open>u\<close> of the state besides, for the handlers that call the implementation or the
  store; \<open>steady\<close> updates leave alone what \<open>quiet\<close> is about.
\<close>

definition answers_via :: "('i rp \<Rightarrow> 'i rp) \<Rightarrow> 'i rp_env \<Rightarrow> MessageContainer \<Rightarrow> 'i rp \<Rightarrow> response list \<Rightarrow> bool" where
  "answers_via u E mc s fs \<longleftrightarrow> (\<exists>s'. ProcessMessages E mc s = (Inr (), s') \<and> pushes fs (u (s\<lparr>response_vector := []\<rparr>)) s')"

definition does_via :: "('i rp \<Rightarrow> 'i rp) \<Rightarrow> ('i rp, 'a) action \<Rightarrow> 'i rp \<Rightarrow> 'a res \<Rightarrow> response list \<Rightarrow> bool" where
  "does_via u m s r fs \<longleftrightarrow> (\<exists>s'. m s = (r, s') \<and> pushes fs (u s) s')"

definition steady :: "('i rp \<Rightarrow> 'i rp) \<Rightarrow> bool" where
  "steady u \<longleftrightarrow> (\<forall>s. response_vector (u s) = response_vector s) \<and> (\<forall>s s'. quiet s s' \<longrightarrow> quiet (u s) (u s'))"

abbreviation to_impl :: "'i \<Rightarrow> 'i rp \<Rightarrow> 'i rp" where
  "to_impl i s \<equiv> s\<lparr>impl_state := i\<rparr>"

abbreviation to_store :: "Store \<Rightarrow> 'i rp \<Rightarrow> 'i rp" where
  "to_store st s \<equiv> s\<lparr>rp_store := st\<rparr>"

abbreviation does_to :: "('i rp, 'a) action \<Rightarrow> 'i rp \<Rightarrow> 'a res \<Rightarrow> 'i \<Rightarrow> response list \<Rightarrow> bool" where
  "does_to m s r i fs \<equiv> does_via (to_impl i) m s r fs"

abbreviation answers_with :: "'i rp_env \<Rightarrow> MessageContainer \<Rightarrow> 'i rp \<Rightarrow> 'i \<Rightarrow> response list \<Rightarrow> bool" where
  "answers_with E mc s i fs \<equiv> answers_via (to_impl i) E mc s fs"

lemma does_to_same: "does_to m s r (impl_state s) fs = does m s r fs"
  by (simp add: does_via_def does_def)

lemma answers_with_same: "answers_with E mc s (impl_state s) fs = answers E mc s fs"
  by (simp add: answers_via_def answers_def)

definition request_frame :: "codec \<Rightarrow> EnvelopePB \<Rightarrow> string \<Rightarrow> bool" where
  "request_frame c pb m \<longleftrightarrow> 2 < length m \<and> hd m = CHR 0x01 \<and> ParseEnvelope c (tl m) = Some pb"

text \<open>Tags appended to a response.\<close>

definition tagged :: "string list \<Rightarrow> response \<Rightarrow> response" where
  "tagged ts f now = (let pb = f now in pb\<lparr>tag := tag pb @ ts\<rparr>)"

lemma tagged_Nil [simp]: "tagged [] f = f"
  by (rule ext) (simp add: tagged_def)

lemma tagged_reply [simp]: "tagged ts (reply c us m) = reply c (us @ ts) m"
  by (rule ext) (simp add: tagged_def reply_def)

lemma add_tags_of_pb: "add_tags ts (of_pb pb) = of_pb (pb\<lparr>tag := tag pb @ ts\<rparr>)"
  by (induction ts arbitrary: pb) (simp_all add: add_tags_def AddTag_def of_pb_def)

lemma tag_first_made:
  "length us = length (f # fs) \<Longrightarrow> tag_first ts (made (f # fs) us) = made (tagged ts f # fs) us"
  by (cases us) (simp_all add: tag_first_def made_def add_tags_of_pb tagged_def Let_def)

lemma tag_first_made_Nil: "length us = 0 \<Longrightarrow> tag_first ts (made [] us) = made [] us"
  by (simp add: made_def tag_first_def)

lemma quietE:
  assumes "quiet s s'"
  obtains l k v where "s' = s\<lparr>logger_sock := l, ticks := k, response_vector := v\<rparr>"
  using assms unfolding quiet_def by blast

lemma steady_impl: "steady (to_impl i)"
  unfolding steady_def by (auto elim!: quietE) (simp add: quiet_def)

lemma steady_store: "steady (to_store st)"
  unfolding steady_def by (auto elim!: quietE) (simp add: quiet_def)

lemma quiet_response: "quiet s s' \<Longrightarrow> quiet s (s'\<lparr>response_vector := v\<rparr>)"
  by (elim quietE) (simp add: quiet_def)

lemma steady_pushes: "steady u \<Longrightarrow> pushes fs s s' \<Longrightarrow> pushes fs (u s) (u s')"
  by (simp add: pushes_def steady_def)

lemma does_via_then:
  assumes "steady u" "does m s (Inr x) fs" "\<And>s'. quiet s s' \<Longrightarrow> does_via u (f x) s' r gs"
  shows "does_via u (andThen m f) s r (fs @ gs)"
proof -
  obtain s' where m: "m s = (Inr x, s')" "pushes fs s s'" using assms(2) by (auto simp: does_def)
  obtain t where f: "f x s' = (r, t)" "pushes gs (u s') t"
    using assms(3) [OF pushes_quiet [OF m(2)]] by (auto simp: does_via_def)
  show ?thesis
    using m f pushes_trans [OF steady_pushes [OF assms(1) m(2)] f(2)] by (auto simp: does_via_def andThen_Inr)
qed

lemma does_via_quiet:
  "steady u \<Longrightarrow> does m s (Inr x) [] \<Longrightarrow> (\<And>s'. quiet s s' \<Longrightarrow> does_via u (f x) s' r gs) \<Longrightarrow>
   does_via u (andThen m f) s r gs"
  using does_via_then [of u m s x "[]" f r gs] by simp

lemma does_via_after:
  assumes "does_via u m s (Inr x) fs" "\<And>s'. quiet (u s) s' \<Longrightarrow> does (f x) s' r gs"
  shows "does_via u (andThen m f) s r (fs @ gs)"
proof -
  obtain s' where m: "m s = (Inr x, s')" "pushes fs (u s) s'" using assms(1) by (auto simp: does_via_def)
  obtain t where f: "f x s' = (r, t)" "pushes gs s' t"
    using assms(2) [OF pushes_quiet [OF m(2)]] by (auto simp: does_def)
  show ?thesis using m f pushes_trans [OF m(2) f(2)] by (auto simp: does_via_def andThen_Inr)
qed

lemma does_via_Inl: "does_via u m s (Inl x) fs \<Longrightarrow> does_via u (andThen m f) s (Inl x) fs"
  by (auto simp: does_via_def andThen_Inl)

lemmas does_to_then = does_via_then [OF steady_impl]
lemmas does_to_quiet = does_via_quiet [OF steady_impl]
lemmas does_to_after = does_via_after [where u = "to_impl i" for i]
lemmas does_to_Inl = does_via_Inl [where u = "to_impl i" for i]

lemma does_to_impl:
  assumes "h (impl_state s) = (Inr x, i)" "does (f x) (s\<lparr>impl_state := i\<rparr>) r fs"
  shows "does_to (andThen (on_impl h) f) s r i fs"
  using assms by (auto simp: does_via_def does_def andThen_def on_impl_def)

lemma does_to_impl_Inl:
  "h (impl_state s) = (Inl x, i) \<Longrightarrow> does_to (andThen (on_impl h) f) s (Inl x) i []"
  by (auto simp: does_via_def andThen_def on_impl_def intro!: pushes_Nil)

lemma pushes_tag_first:
  assumes "pushes (f # fs) s s'" "response_vector s = []"
  shows "response_vector s' \<noteq> [] \<and>
    pushes (tagged ts f # fs) s (s'\<lparr>response_vector := tag_first ts (response_vector s')\<rparr>)"
proof -
  obtain us where us: "length us = length (f # fs)" "response_vector s' = made (f # fs) us"
    using assms by (auto simp: pushes_def)
  then have "response_vector s' \<noteq> []" by (cases us) (simp_all add: made_def)
  moreover have "quiet s (s'\<lparr>response_vector := tag_first ts (response_vector s')\<rparr>)"
    using assms(1) by (simp add: pushes_def quiet_response)
  ultimately show ?thesis
    using us assms(2) tag_first_made [OF us(1)] by (auto simp: pushes_def intro!: exI [of _ us])
qed

text \<open>From a handler to \<open>ProcessRequest\<close>, and from there to the answer of a message.\<close>

lemma does_via_ProcessRequest:
  assumes "steady u" "response_vector s = []" "does_via u (check_and_dispatch E e) s (Inr AUTHORITATIVE) (f # fs)"
  shows "does_via u (ProcessRequest E e) s (Inr AUTHORITATIVE) (tagged (tag (envelope e)) f # fs)"
proof -
  obtain s' where s': "check_and_dispatch E e s = (Inr AUTHORITATIVE, s')" "pushes (f # fs) (u s) s'"
    using assms(3) by (auto simp: does_via_def)
  moreover have "response_vector (u s) = []" using assms(1,2) by (simp add: steady_def)
  ultimately show ?thesis
    using pushes_tag_first [OF s'(2), of "tag (envelope e)"]
    by (auto simp: does_via_def ProcessRequest_def finish_response_def andThen_Inr ret_run)
qed

lemma asks_dispatch: "asks ty (envelope e) \<Longrightarrow> check_and_dispatch E e = dispatch E e ty"
  by (simp add: check_and_dispatch_def MessageCount_def asks_def)

lemma Envelope_of_zmq_frame: "request_frame c pb m \<Longrightarrow> Envelope_of_zmq c m 1 = Inr (of_pb pb)"
  by (cases m) (auto simp: request_frame_def Envelope_of_zmq_def InitializeFromBuffer_def)

lemma open_frame:
  assumes "request_frame (cdc E) pb m"
  shows "open_and_process E m s =
    (case ProcessRequest E (of_pb pb) s of
       (Inr r, s') \<Rightarrow> (Inr (Some (of_pb pb, Some r)), s')
     | (Inl x, s') \<Rightarrow>
         if catchable x then
           (Inr (Some (of_pb pb, None)),
            snd (PopulateErrorResponse E GENERAL_ERROR_PROCESSING ''exception when processing request'' s'))
         else (Inl x, s'))"
proof -
  have "m \<noteq> []" "\<not> length m < 2" "hd m = CHR 0x01" using assms by (auto simp: request_frame_def)
  moreover have "PopulateErrorResponse E code msg u = (Inr (), snd (PopulateErrorResponse E code msg u))" for code msg u
    using does_error [of E code msg u] by (auto simp: does_def)
  note pop = this [of GENERAL_ERROR_PROCESSING "''exception when processing request''"]
  ultimately show ?thesis
    using Envelope_of_zmq_frame [OF assms]
    by (auto simp: open_and_process_def andThen_def try_catch_def ret_run split: prod.split sum.split) (metis Inl_Inr_False pop prod.inject)+
qed

text \<open>The state in which the first message is looked at: the vector is empty and one envelope was made.\<close>

definition opened :: "'i rp \<Rightarrow> 'i rp" where
  "opened s = s\<lparr>response_vector := [], ticks := ticks s + 1\<rparr>"

lemma opened_pushes: "pushes fs (opened s) s' \<Longrightarrow> pushes fs (s\<lparr>response_vector := []\<rparr>) s'"
proof -
  have "pushes [] (s\<lparr>response_vector := []\<rparr>) (opened s)"
    by (rule pushes_Nil) (simp_all add: quiet_def opened_def)
  then show "pushes fs (opened s) s' \<Longrightarrow> pushes fs (s\<lparr>response_vector := []\<rparr>) s'"
    using pushes_trans [of "[]" _ "opened s" fs] by simp
qed

lemma opened_pushes_via: "steady u \<Longrightarrow> pushes fs (u (opened s)) s' \<Longrightarrow> pushes fs (u (s\<lparr>response_vector := []\<rparr>)) s'"
proof -
  assume u: "steady u" and p: "pushes fs (u (opened s)) s'"
  have "pushes [] (s\<lparr>response_vector := []\<rparr>) (opened s)"
    by (rule pushes_Nil) (simp_all add: quiet_def opened_def)
  from pushes_trans [OF steady_pushes [OF u this] p] show ?thesis by simp
qed

lemma opened_impl [simp]:
  "impl_state (opened s) = impl_state s" "rp_store (opened s) = rp_store s"
  "current_request_identities (opened s) = current_request_identities s"
  "lua_memory_max (opened s) = lua_memory_max s" "get_stream_max_bytes (opened s) = get_stream_max_bytes s"
  "get_stream_max_envelopes (opened s) = get_stream_max_envelopes s"
  by (simp_all add: opened_def)

lemma opened_vector [simp]: "response_vector (opened s) = []"
  by (simp add: opened_def)

lemma opened_quiet: "quiet (s\<lparr>response_vector := []\<rparr>) (opened s)"
  by (simp add: quiet_def opened_def)

lemma ProcessMessages_open:
  "mc_messages mc \<noteq> [] \<Longrightarrow>
   ProcessMessages E mc s = andThen (open_and_process E (mc_messages mc ! 0)) (\<lambda>r.
          case r of
            None \<Rightarrow> ret ()
          | Some (e, None) \<Rightarrow> modify (\<lambda>s. s\<lparr>response_vector := tag_first (tag (envelope e)) (response_vector s)\<rparr>)
          | Some (e, Some result) \<Rightarrow>
              if result = AUTHORITATIVE then
                andThen (gets response_vector) (\<lambda>out. if out = [] then throw AssertionFailure else ret ())
              else ret ()) (opened s)"
  by (simp add: ProcessMessages_def fresh_def andThen_def opened_def)

lemma answers_via_request:
  assumes "steady u" "mc_messages mc \<noteq> []" "request_frame (cdc E) pb (mc_messages mc ! 0)"
    "does_via u (ProcessRequest E (of_pb pb)) (opened s) (Inr AUTHORITATIVE) (f # fs)"
  shows "answers_via u E mc s (f # fs)"
proof -
  obtain s' where s': "ProcessRequest E (of_pb pb) (opened s) = (Inr AUTHORITATIVE, s')"
      "pushes (f # fs) (u (opened s)) s'"
    using assms(4) by (auto simp: does_via_def)
  moreover have "response_vector (u (opened s)) = []" using assms(1) by (simp add: steady_def)
  ultimately have "response_vector s' \<noteq> []" using pushes_tag_first [OF s'(2)] by simp
  with s' assms(2) open_frame [OF assms(3), of "opened s"] opened_pushes_via [OF assms(1) s'(2)] show ?thesis
    by (auto simp: answers_via_def ProcessMessages_open andThen_Inr ret_run)
qed

lemma answers_via_dispatch:
  assumes "steady u" "mc_messages mc \<noteq> []" "request_frame (cdc E) pb (mc_messages mc ! 0)"
    "does_via u (check_and_dispatch E (of_pb pb)) (opened s) (Inr AUTHORITATIVE) (f # fs)"
  shows "answers_via u E mc s (tagged (tag pb) f # fs)"
  using answers_via_request [OF assms(1-3)] does_via_ProcessRequest [OF assms(1) opened_vector assms(4)]
  by (simp add: of_pb_def)

lemma answers_dispatch:
  assumes "mc_messages mc \<noteq> []" "request_frame (cdc E) pb (mc_messages mc ! 0)"
    "does (check_and_dispatch E (of_pb pb)) (opened s) (Inr AUTHORITATIVE) (f # fs)"
  shows "answers E mc s (tagged (tag pb) f # fs)"
  using answers_via_dispatch [OF steady_impl assms(1,2), of "impl_state s" s f fs] assms(3)
    does_to_same [of "opened s" "check_and_dispatch E (of_pb pb)"] by (simp add: answers_with_same)

lemma answers_via_handler:
  assumes "steady u" "mc_messages mc \<noteq> []" "request_frame (cdc E) pb (mc_messages mc ! 0)" "asks ty pb"
    "does_via u (dispatch E (of_pb pb) ty) (opened s) (Inr AUTHORITATIVE) (f # fs)"
  shows "answers_via u E mc s (tagged (tag pb) f # fs)"
  using answers_via_dispatch [OF assms(1-3)] asks_dispatch [of ty "of_pb pb" E] assms(4,5) by (simp add: of_pb_def)

lemmas answers_with_handler = answers_via_handler [OF steady_impl]

lemma answers_handler:
  assumes "mc_messages mc \<noteq> []" "request_frame (cdc E) pb (mc_messages mc ! 0)" "asks ty pb"
    "does (dispatch E (of_pb pb) ty) (opened s) (Inr AUTHORITATIVE) (f # fs)"
  shows "answers E mc s (tagged (tag pb) f # fs)"
  using answers_dispatch [OF assms(1,2)] asks_dispatch [of ty "of_pb pb" E] assms(3,4) by (simp add: of_pb_def)

text \<open>A handler that defers: no tags are added, and what it has pushed is the answer.\<close>

lemma answers_via_deferred:
  assumes "steady u" "mc_messages mc \<noteq> []" "request_frame (cdc E) pb (mc_messages mc ! 0)" "asks ty pb"
    "does_via u (dispatch E (of_pb pb) ty) (opened s) (Inr DEFERRED) fs"
  shows "answers_via u E mc s fs"
proof -
  obtain s' where s': "dispatch E (of_pb pb) ty (opened s) = (Inr DEFERRED, s')" "pushes fs (u (opened s)) s'"
    using assms(5) by (auto simp: does_via_def)
  then have "ProcessRequest E (of_pb pb) (opened s) = (Inr DEFERRED, s')"
    using asks_dispatch [of ty "of_pb pb" E] assms(4) by (simp add: ProcessRequest_def of_pb_def andThen_Inr finish_response_def ret_run)
  with s' assms(2) open_frame [OF assms(3), of "opened s"] opened_pushes_via [OF assms(1) s'(2)] show ?thesis
    by (auto simp: answers_via_def ProcessMessages_open andThen_Inr ret_run)
qed

lemmas answers_with_deferred = answers_via_deferred [OF steady_impl]

text \<open>A handler that throws: the error response of \<open>ProcessMessages\<close>.\<close>

definition processing_failed :: Message where
  "processing_failed = Error GENERAL_ERROR_PROCESSING ''exception when processing request''"

lemma answers_via_exception:
  assumes "steady u" "mc_messages mc \<noteq> []" "request_frame (cdc E) pb (mc_messages mc ! 0)" "asks ty pb"
    "does_via u (dispatch E (of_pb pb) ty) (opened s) (Inl x) []" "catchable x"
  shows "answers_via u E mc s [reply (cdc E) (tag pb) processing_failed]"
proof -
  let ?code = GENERAL_ERROR_PROCESSING and ?msg = "''exception when processing request''"
  obtain s1 where s1: "dispatch E (of_pb pb) ty (opened s) = (Inl x, s1)" "pushes [] (u (opened s)) s1"
    using assms(5) by (auto simp: does_via_def)
  have "ProcessRequest E (of_pb pb) (opened s) = (Inl x, s1)"
    using s1(1) asks_dispatch [of ty "of_pb pb" E] assms(4) by (simp add: ProcessRequest_def of_pb_def andThen_Inl)
  moreover obtain s2 where s2: "PopulateErrorResponse E ?code ?msg s1 = (Inr (), s2)"
      "pushes [reply (cdc E) [] (Error ?code ?msg)] s1 s2"
    using does_error [of E ?code ?msg s1] by (auto simp: does_def)
  ultimately have run: "open_and_process E (mc_messages mc ! 0) (opened s) = (Inr (Some (of_pb pb, None)), s2)"
    using open_frame [OF assms(3), of "opened s"] assms(6) by simp
  have p: "pushes [reply (cdc E) [] (Error ?code ?msg)] (u (opened s)) s2"
    using pushes_trans [OF s1(2) s2(2)] by simp
  moreover have "response_vector (u (opened s)) = []" using assms(1) by (simp add: steady_def)
  ultimately show ?thesis
    using run assms(2) pushes_tag_first [OF p, of "tag pb"] opened_pushes_via [OF assms(1)]
    by (auto simp: answers_via_def ProcessMessages_open andThen_Inr of_pb_def processing_failed_def)
qed

lemmas answers_with_exception = answers_via_exception [OF steady_impl]

lemma answers_exception:
  assumes "mc_messages mc \<noteq> []" "request_frame (cdc E) pb (mc_messages mc ! 0)" "asks ty pb"
    "does (dispatch E (of_pb pb) ty) (opened s) (Inl x) []" "catchable x"
  shows "answers E mc s [reply (cdc E) (tag pb) processing_failed]"
  using answers_with_exception [OF assms(1-3), of "impl_state s" s x] assms(4,5) does_to_same [of "opened s" "dispatch E (of_pb pb) ty"]
  by (simp add: answers_with_same)

section \<open>Checking a path\<close>

text \<open>
  The outcome of \<open>CheckPath\<close>, for the depth of the path that is required: 1 for a bucket, 2 for a
  stream set, 3 for a stream. The error response is the code and the text of the first check that
  fails: first the syntax, then the presence of the components, then their existence.
\<close>

definition component :: "nat \<Rightarrow> string" where
  "component k = (if k = 0 then ''bucket'' else if k = 1 then ''stream set'' else ''stream'')"

definition exists_at :: "store_ops \<Rightarrow> Store \<Rightarrow> string \<times> string \<times> string \<Rightarrow> nat \<Rightarrow> bool" where
  "exists_at V st p k =
     (case p of (b, t, n) \<Rightarrow>
        if k = 0 then BucketExists V st b else if k = 1 then StreamSetExists V st b t else StreamExists V st b t n)"

definition parts :: "string \<times> string \<times> string \<Rightarrow> string list" where
  "parts p = (case p of (b, t, n) \<Rightarrow> [b, t, n])"

definition path_problem :: "store_ops \<Rightarrow> Store \<Rightarrow> string \<Rightarrow> nat \<Rightarrow> Message option" where
  "path_problem V st path depth =
     (case parse_path path of
        None \<Rightarrow> Some (Error INVALID_PATH ''supplied path does not parse'')
      | Some p \<Rightarrow>
          (case find (\<lambda>k. parts p ! k = []) [0..<depth] of
             Some k \<Rightarrow> Some (Error INVALID_PATH (''path does not contain a '' @ component k @ '' component''))
           | None \<Rightarrow>
               (case find (\<lambda>k. \<not> exists_at V st p k) [0..<depth] of
                  Some k \<Rightarrow> Some (Error PATH_NOT_FOUND (component k @ '' does not exist''))
                | None \<Rightarrow> None)))"

lemma depth_simps: "[0..<1] = [0]" "[0..<2] = [0, 1]" "[0..<3] = [0, 1, 2]"
  by (simp_all add: upt_rec numeral_2_eq_2 numeral_3_eq_3)

lemma does_gets_iff [simp]: "does (andThen (gets g) f) s r fs = does (f (g s)) s r fs"
  by (simp add: does_def)

lemma does_False: "does (PopulateErrorResponse E code msg) s (Inr ()) fs \<Longrightarrow>
    does (seq (PopulateErrorResponse E code msg) (ret False)) s (Inr False) fs"
  using does_seq [of "PopulateErrorResponse E code msg" s fs "ret False" "Inr False" "[]"] by simp

lemma does_CheckPath_depth:
  assumes "depth = 1 \<and> b2 = False \<and> b3 = False \<or> depth = 2 \<and> b2 = True \<and> b3 = False \<or> depth = 3 \<and> b2 = True \<and> b3 = True"
  shows "does (CheckPath E path True b2 b3) s (Inr (path_problem (vstore E) (rp_store s) path depth = None))
     (case path_problem (vstore E) (rp_store s) path depth of None \<Rightarrow> [] | Some m \<Rightarrow> [reply (cdc E) [] m])"
proof (cases "parse_path path")
  case None
  then show ?thesis by (simp add: CheckPath_def path_problem_def does_False does_error)
next
  case (Some p)
  obtain b t n where p: "p = (b, t, n)" by (cases p)
  note defs = CheckPath_def path_problem_def exists_at_def parts_def component_def depth_simps p
  from Some assms show ?thesis
    by (elim disjE conjE) (simp_all add: defs does_False does_error)
qed

section \<open>Handlers\<close>

definition unparsable :: Message where
  "unparsable = Error UNKNOWN_REQUEST_TYPE ''error parsing message in envelope''"

lemma get_request_run:
  obtains e' where "envelope e' = pb" "\<And>s. get_request E (of_pb pb) s = (Inr (request_of E pb, e'), s)"
proof -
  obtain e' where "GetMessage (cdc E) (types E) 0 (of_pb pb) = (Inr (request_of E pb), e')" "envelope e' = pb"
    by (rule GetMessage_parsed [of "cdc E" "types E" "of_pb pb" 0]) (simp_all add: request_of_def, simp add: of_pb_def)
  then have "\<And>s. get_request E (of_pb pb) s = (Inr (request_of E pb, e'), s)" by (simp add: get_request_def ret_run)
  with \<open>envelope e' = pb\<close> that show thesis by blast
qed

lemma does_OBTAIN:
  assumes "\<And>m s' e'. quiet s s' \<Longrightarrow> request_of E pb = Some m \<Longrightarrow> does (F (Some m, e')) s' r fs"
    and "\<And>s' e'. quiet s s' \<Longrightarrow> request_of E pb = None \<Longrightarrow> \<exists>gs. does (F (None, e')) s' r gs \<and> fs = reply (cdc E) [] unparsable # gs"
  shows "does (andThen (OBTAIN_MESSAGE E (of_pb pb)) F) s r fs"
proof -
  obtain e' where g: "\<And>s. get_request E (of_pb pb) s = (Inr (request_of E pb, e'), s)"
    using get_request_run by blast
  show ?thesis
  proof (cases "request_of E pb")
    case (Some m)
    then have "OBTAIN_MESSAGE E (of_pb pb) s = (Inr (Some m, e'), s)" by (simp add: OBTAIN_MESSAGE_def g andThen_Inr ret_run)
    with assms(1) [OF quiet_refl Some] show ?thesis by (simp add: does_def andThen_Inr)
  next
    case None
    have "does (OBTAIN_MESSAGE E (of_pb pb)) s (Inr (None, e')) [reply (cdc E) [] unparsable]"
    proof -
      have "OBTAIN_MESSAGE E (of_pb pb) s =
          seq (LOG_MESSAGE E LogEmbeddedMessageParseFailure)
           (seq (PopulateErrorResponse E UNKNOWN_REQUEST_TYPE ''error parsing message in envelope'') (ret (None, e'))) s"
        by (simp add: OBTAIN_MESSAGE_def g andThen_Inr None)
      moreover have "does (seq (LOG_MESSAGE E LogEmbeddedMessageParseFailure)
           (seq (PopulateErrorResponse E UNKNOWN_REQUEST_TYPE ''error parsing message in envelope'') (ret (None, e')))) s
           (Inr (None, e')) [reply (cdc E) [] unparsable]"
        by (rule does_quiet [OF does_LOG]) (use does_seq [OF does_error does_ret] in \<open>fastforce simp: unparsable_def\<close>)
      ultimately show ?thesis by (simp add: does_def)
    qed
    then obtain s1 where s1: "OBTAIN_MESSAGE E (of_pb pb) s = (Inr (None, e'), s1)" "pushes [reply (cdc E) [] unparsable] s s1"
      by (auto simp: does_def)
    obtain gs where "does (F (None, e')) s1 r gs" "fs = reply (cdc E) [] unparsable # gs"
      using assms(2) [OF pushes_quiet [OF s1(2)] None] by blast
    with s1 pushes_trans [OF s1(2)] show ?thesis by (auto simp: does_def andThen_Inr)
  qed
qed

lemma does_framed:
  assumes "\<And>s'. quiet s s' \<Longrightarrow> does body s' (Inr ()) fs"
  shows "does (seq (LOG_MESSAGE E a) (seq body (seq (LOG_MESSAGE E z) (ret AUTHORITATIVE)))) s (Inr AUTHORITATIVE) fs"
proof (rule does_quiet [OF does_LOG])
  fix s1 assume q: "quiet s s1"
  have "does (seq (LOG_MESSAGE E z) (ret AUTHORITATIVE)) s' (Inr AUTHORITATIVE) []" for s'
    by (rule does_quiet [OF does_LOG does_ret])
  with does_seq [OF assms [OF q] this] show "does (seq body (seq (LOG_MESSAGE E z) (ret AUTHORITATIVE))) s1 (Inr AUTHORITATIVE) fs"
    by simp
qed

text \<open>The answers to the information requests as a function of the request's message and the store.\<close>

definition missing_path :: Message where
  "missing_path = Error EMPTY_FIELD ''required field 'path' missing''"

definition on_path :: "store_ops \<Rightarrow> Store \<Rightarrow> string option \<Rightarrow> nat \<Rightarrow> (string \<times> string \<times> string \<Rightarrow> Message) \<Rightarrow> Message" where
  "on_path V st path depth f =
     (case path of
        None \<Rightarrow> missing_path
      | Some p \<Rightarrow> (case path_problem V st p depth of Some m \<Rightarrow> m | None \<Rightarrow> f (the (parse_path p))))"

fun info_answer :: "store_ops \<Rightarrow> Store \<Rightarrow> Message option \<Rightarrow> Message" where
  "info_answer V st (Some GetStoreInfoV1) = StoreInfoMsg (snd (StoreInfo V st []))"
| "info_answer V st (Some (GetBucketInfoV1 p)) =
     on_path V st p 1 (\<lambda>(b, _, _). BucketInfoMsg (snd (BucketInfo V st b new_BucketInfo)))"
| "info_answer V st (Some (GetStreamSetInfoV1 p)) =
     on_path V st p 2 (\<lambda>(b, t, _). StreamSetInfoMsg (snd (StreamsetInfo V st b t new_StreamSetInfo)))"
| "info_answer V st (Some (GetStreamInfoV1 p)) =
     on_path V st p 3 (\<lambda>(b, t, n). StreamInfoMsg (snd (StreamInfo V st b t n new_StreamInfo)))"
| "info_answer V st _ = unparsable"

lemma tag_Nil [simp]: "tag pb = [] \<Longrightarrow> pb\<lparr>tag := []\<rparr> = pb"
  by (cases pb) simp

lemma does_push_reply:
  "does (push_back (add_to_envelope (cdc E) m (new_Envelope t))) s (Inr ()) [reply (cdc E) [] m]"
  if "does (push_back (add_to_envelope (cdc E) m (new_Envelope t))) s (Inr ()) [raw (envelope (add_to_envelope (cdc E) m (new_Envelope t)))]"
proof -
  have "made [reply (cdc E) [] m] [t] = made [raw (envelope (add_to_envelope (cdc E) m (new_Envelope t)))] u" if "length u = 1" for u
    using that by (cases u) (auto simp: made_def reply_def raw_def)
  then show ?thesis using that unfolding does_def pushes_def
    by (metis One_nat_def length_Cons list.size(3))
qed

lemmas does_reply = does_push_reply [OF does_push]

lemma does_on_path:
  assumes "depth = 1 \<and> b2 = False \<and> b3 = False \<or> depth = 2 \<and> b2 = True \<and> b3 = False \<or> depth = 3 \<and> b2 = True \<and> b3 = True"
    and "\<And>p s'. quiet s s' \<Longrightarrow> parse_path path = Some p \<Longrightarrow> does (G p) s' (Inr ()) [reply (cdc E) [] (f p)]"
  shows "does (andThen (CheckPath E path True b2 b3) (\<lambda>ok. if \<not> ok then ret () else G (path_parts path))) s (Inr ())
    [reply (cdc E) [] (on_path (vstore E) (rp_store s) (Some path) depth f)]"
proof (cases "path_problem (vstore E) (rp_store s) path depth")
  case None
  then obtain p where p: "parse_path path = Some p" by (auto simp: path_problem_def split: option.splits)
  from None p assms(2) does_CheckPath_depth [OF assms(1), of E path s] show ?thesis
    by (intro does_quiet [where x = True]) (simp_all add: on_path_def path_parts_def)
next
  case (Some m)
  with does_andThen [OF does_CheckPath_depth [OF assms(1), of E path s],
      where f = "\<lambda>ok. if \<not> ok then ret () else G (path_parts path)" and gs = "[]" and r = "Inr ()"]
  show ?thesis by (simp add: on_path_def)
qed

lemma does_missing: "does (PopulateErrorResponse E EMPTY_FIELD ''required field 'path' missing'') s (Inr ()) [reply (cdc E) [] missing_path]"
  by (simp add: missing_path_def does_error)

lemma does_end:
  assumes "does body s (Inr ()) fs"
  shows "does (seq body (seq (LOG_MESSAGE E z) (ret AUTHORITATIVE))) s (Inr AUTHORITATIVE) fs"
  using does_seq [OF assms does_quiet [OF does_LOG does_ret]] by simp

lemma does_info:
  assumes "\<And>m t s'. request_of E pb = Some m \<Longrightarrow> quiet s s' \<Longrightarrow> does (F (Some m) (new_Envelope t)) s' (Inr ()) [reply (cdc E) [] A]"
    and "\<And>response. F None response = ret ()" "request_of E pb = None \<Longrightarrow> A = unparsable"
  shows "does (seq (LOG_MESSAGE E a) (andThen fresh (\<lambda>response.
      seq (andThen (OBTAIN_MESSAGE E (of_pb pb)) (\<lambda>(m, _). F m response))
        (seq (LOG_MESSAGE E z) (ret AUTHORITATIVE))))) s (Inr AUTHORITATIVE) [reply (cdc E) [] A]"
proof (rule does_quiet [OF does_LOG], rule does_fresh, rule does_end, rule does_OBTAIN)
  fix m t s1 s2 s3 e'
  assume "quiet s s1" "quiet s1 s2" "quiet s2 s3" "request_of E pb = Some m"
  then have "does (F (Some m) (new_Envelope t)) s3 (Inr ()) [reply (cdc E) [] A]"
    by (intro assms(1)) (blast intro: quiet_trans)+
  then show "does (case (Some m, e') of (m, _) \<Rightarrow> F m (new_Envelope t)) s3 (Inr ()) [reply (cdc E) [] A]" by simp
next
  fix t s3 e'
  assume "request_of E pb = None"
  then show "\<exists>gs. does (case (None, e') of (m, _) \<Rightarrow> F m (new_Envelope t)) s3 (Inr ()) gs \<and>
      [reply (cdc E) [] A] = reply (cdc E) [] unparsable # gs"
    using assms(2,3) by simp
qed

lemma does_path_request:
  assumes "depth = 1 \<and> b2 = False \<and> b3 = False \<or> depth = 2 \<and> b2 = True \<and> b3 = False \<or> depth = 3 \<and> b2 = True \<and> b3 = True"
    and "\<And>p s'. quiet s s' \<Longrightarrow> does (G p) s' (Inr ()) [reply (cdc E) [] (f p)]"
  shows "does (case path of None \<Rightarrow> PopulateErrorResponse E EMPTY_FIELD ''required field 'path' missing''
      | Some path \<Rightarrow> andThen (CheckPath E path True b2 b3) (\<lambda>ok. if \<not> ok then ret () else G (path_parts path))) s (Inr ())
    [reply (cdc E) [] (on_path (vstore E) (rp_store s) path depth f)]"
proof (cases path)
  case None
  then show ?thesis by (simp add: on_path_def does_missing)
next
  case (Some p)
  with does_on_path [OF assms(1), where path = p and G = G and E = E and f = f and s = s] assms(2) show ?thesis by simp
qed

lemma info_handlers:
  assumes "classes_ok (cdc E) (types E)" "asks ty pb" "ty \<in> {73, 74, 75, 76}"
  shows "does (dispatch E (of_pb pb) ty) s (Inr AUTHORITATIVE)
    [reply (cdc E) [] (info_answer (vstore E) (rp_store s) (request_of E pb))]"
proof -
  have own: "own_class ty m" if "request_of E pb = Some m" for m
    using request_class assms(1,2) that by blast
  consider "ty = 73" | "ty = 74" | "ty = 75" | "ty = 76" using assms(3) by blast
  then show ?thesis
  proof cases
    case 1
    then have m: "m = GetStoreInfoV1" if "request_of E pb = Some m" for m
      using own_class_cases(1) own that by blast
    show ?thesis
      unfolding 1 by (simp add: dispatch_def ProcessStoreInfo_def)
        (rule does_framed, rule does_OBTAIN, auto dest!: m simp: quiet_keeps does_respond intro!: exI [of _ "[]"])
  next
    case 2
    then have m: "\<exists>p. m = GetBucketInfoV1 p" if "request_of E pb = Some m" for m
      using own_class_cases(2) own [OF that] by simp
    have "does (bucket_info_body E (Some m) (new_Envelope t)) s' (Inr ())
        [reply (cdc E) [] (info_answer (vstore E) (rp_store s) (request_of E pb))]"
      if r: "request_of E pb = Some m" "quiet s s'" for m t s'
    proof -
      from m [OF r(1)] obtain p where p: "m = GetBucketInfoV1 p" by blast
      from does_path_request [where depth = 1 and ?b2.0 = False and ?b3.0 = False and path = p and E = E and s = s'
          and G = "\<lambda>(b, _, _). andThen (gets (\<lambda>s. snd (BucketInfo (vstore E) (rp_store s) b new_BucketInfo))) (\<lambda>info.
              push_back (add_to_envelope (cdc E) (BucketInfoMsg info) (new_Envelope t)))"
          and f = "\<lambda>(b, _, _). BucketInfoMsg (snd (BucketInfo (vstore E) (rp_store s) b new_BucketInfo))"]
        quiet_keeps [OF r(2)] r
      show ?thesis unfolding p bucket_info_body_def Let_def by (simp add: split_beta does_reply quiet_keeps)
    qed
    then show ?thesis
      unfolding 2 by (simp add: dispatch_def ProcessBucketInfo_def) (rule does_info, simp_all add: bucket_info_body_def)
  next
    case 3
    then have m: "\<exists>p. m = GetStreamSetInfoV1 p" if "request_of E pb = Some m" for m
      using own_class_cases(3) own [OF that] by simp
    have "does (stream_set_info_body E (Some m) (new_Envelope t)) s' (Inr ())
        [reply (cdc E) [] (info_answer (vstore E) (rp_store s) (request_of E pb))]"
      if r: "request_of E pb = Some m" "quiet s s'" for m t s'
    proof -
      from m [OF r(1)] obtain p where p: "m = GetStreamSetInfoV1 p" by blast
      from does_path_request [where depth = 2 and ?b2.0 = True and ?b3.0 = False and path = p and E = E and s = s'
          and G = "\<lambda>(b, u, _). andThen (gets (\<lambda>s. snd (StreamsetInfo (vstore E) (rp_store s) b u new_StreamSetInfo))) (\<lambda>info.
              push_back (add_to_envelope (cdc E) (StreamSetInfoMsg info) (new_Envelope t)))"
          and f = "\<lambda>(b, u, _). StreamSetInfoMsg (snd (StreamsetInfo (vstore E) (rp_store s) b u new_StreamSetInfo))"]
        quiet_keeps [OF r(2)] r
      show ?thesis unfolding p stream_set_info_body_def Let_def by (simp add: split_beta does_reply quiet_keeps)
    qed
    then show ?thesis
      unfolding 3 by (simp add: dispatch_def ProcessStreamSetInfo_def) (rule does_info, simp_all add: stream_set_info_body_def)
  next
    case 4
    then have m: "\<exists>p. m = GetStreamInfoV1 p" if "request_of E pb = Some m" for m
      using own_class_cases(4) own [OF that] by simp
    have "does (stream_info_body E (Some m) (new_Envelope t)) s' (Inr ())
        [reply (cdc E) [] (info_answer (vstore E) (rp_store s) (request_of E pb))]"
      if r: "request_of E pb = Some m" "quiet s s'" for m t s'
    proof -
      from m [OF r(1)] obtain p where p: "m = GetStreamInfoV1 p" by blast
      from does_path_request [where depth = 3 and ?b2.0 = True and ?b3.0 = True and path = p and E = E and s = s'
          and G = "\<lambda>(b, u, n). andThen (gets (\<lambda>s. snd (StreamInfo (vstore E) (rp_store s) b u n new_StreamInfo))) (\<lambda>info.
              push_back (add_to_envelope (cdc E) (StreamInfoMsg info) (new_Envelope t)))"
          and f = "\<lambda>(b, u, n). StreamInfoMsg (snd (StreamInfo (vstore E) (rp_store s) b u n new_StreamInfo))"]
        quiet_keeps [OF r(2)] r
      show ?thesis unfolding p stream_info_body_def Let_def by (simp add: split_beta does_reply quiet_keeps)
    qed
    then show ?thesis
      unfolding 4 by (simp add: dispatch_def ProcessStreamInfo_def) (rule does_info, simp_all add: stream_info_body_def)
  qed
qed

end
