(* ===== verification/Server_Worker.thy ===== *)
theory Server_Worker
  imports Request_Processor
begin

text \<open>
  The server's implementation of the request processor's handlers, \<open>ServerRequestProcessor\<close>
  (src/zippylog/device/server_worker.cpp): subscriptions and keepalives are handed to the persisted
  state manager's device over two sockets; writes and plugins are not implemented.
\<close>

text \<open>
  \<open>uuid_at k\<close> is the id that \<open>CreateUUID\<close> returns at its \<open>k\<close>-th call; the clock is read through
  \<open>sr_now\<close>, as often as \<open>created\<close> counts.
\<close>

record server_impl =
  subscriptions_sock :: socket
  subscription_updates_sock :: socket
  uuid_at :: "nat \<Rightarrow> string"
  sr_now :: "nat \<Rightarrow> u64"
  created :: nat

definition sr_HandleSubscribeKeepalive :: "codec \<Rightarrow> Envelope \<Rightarrow> (server_impl \<times> Envelope list, HandlerResult) action" where
  "sr_HandleSubscribeKeepalive c request s =
     (case s of (i, out) \<Rightarrow>
        let (_, sock) = SendEnvelope_pointer c request False no_flags (subscription_updates_sock i) in
        (Inr MakeDeferred, (i\<lparr>subscription_updates_sock := sock\<rparr>, out)))"

definition sr_HandleSubscriptionRequest :: "codec \<Rightarrow> SubscriptionInfo \<Rightarrow> (server_impl, HandlerResult) action" where
  "sr_HandleSubscriptionRequest c subscription i =
     (case ToProtocolBuffer subscription of
        Inl x \<Rightarrow> (Inl x, i)
      | Inr m \<Rightarrow>
          let uuid = uuid_at i (created i);
              e = add_to_envelope c (SubscriptionRecordMsg (m\<lparr>sr_id := Some uuid\<rparr>)) (new_Envelope (sr_now i (created i)));
              (r, sock) = SendEnvelope c e False no_flags (subscriptions_sock i);
              i = i\<lparr>created := created i + 1, subscriptions_sock := sock\<rparr>
          in if r = 0 then (Inl (RuntimeException ''unhandled error''), i)
             else (Inr (MakeSubscriptionAccepted uuid 0), i))"

definition sr_HandleWriteEnvelopes :: "string \<Rightarrow> Envelope list \<Rightarrow> bool \<Rightarrow> (server_impl, HandlerResult) action" where
  "sr_HandleWriteEnvelopes path to_write wait =
     throw (RuntimeException ''TODO implement Worker::HandleWriteEnvelopes'')"

definition ServerRequestProcessor :: "codec \<Rightarrow> server_impl rp_impl" where
  "ServerRequestProcessor c =
     \<lparr>HandleSubscriptionRequest = sr_HandleSubscriptionRequest c,
      HandleSubscribeKeepalive = sr_HandleSubscribeKeepalive c,
      HandleWriteEnvelopes = sr_HandleWriteEnvelopes\<rparr>"

text \<open>The request processor of the server on a directory store.\<close>

definition server_env :: "codec \<Rightarrow> registrar \<Rightarrow> (u32 \<Rightarrow> string \<Rightarrow> string option res) \<Rightarrow> server_impl rp_env" where
  "server_env c reg lua =
     \<lparr>cdc = c, types = reg, vstore = sds_ops c, impl = ServerRequestProcessor c, LoadLuaCode = lua\<rparr>"

lemma server_env_simps [simp]:
  "cdc (server_env c reg lua) = c" "types (server_env c reg lua) = reg" "vstore (server_env c reg lua) = sds_ops c"
  "impl (server_env c reg lua) = ServerRequestProcessor c" "LoadLuaCode (server_env c reg lua) = lua"
  by (simp_all add: server_env_def)

lemma ServerRequestProcessor_simps [simp]:
  "HandleSubscriptionRequest (ServerRequestProcessor c) = sr_HandleSubscriptionRequest c"
  "HandleSubscribeKeepalive (ServerRequestProcessor c) = sr_HandleSubscribeKeepalive c"
  "HandleWriteEnvelopes (ServerRequestProcessor c) = sr_HandleWriteEnvelopes"
  by (simp_all add: ServerRequestProcessor_def)

section \<open>A processor for the examples\<close>

definition sample_impl :: server_impl where
  "sample_impl = \<lparr>subscriptions_sock = \<lparr>sent = [], send_results = [], inbox = []\<rparr>,
     subscription_updates_sock = \<lparr>sent = [], send_results = [], inbox = []\<rparr>,
     uuid_at = (\<lambda>_. ''id''), sr_now = (\<lambda>_. 5), created = 0\<rparr>"

definition sample_rp :: "server_impl rp" where
  "sample_rp = \<lparr>rp_id = ''rp'', impl_state = sample_impl, rp_store = sample_store,
     client_sock = \<lparr>sent = [], send_results = [], inbox = []\<rparr>,
     logger_sock = \<lparr>sent = [], send_results = [], inbox = []\<rparr>,
     current_request_identities = [''worker'', ''client''], response_vector = [],
     get_stream_max_bytes = 256000, get_stream_max_envelopes = 10000, lua_memory_max = 65535,
     subscription_ttl = 60000, now_at = (\<lambda>_. 7), ticks = 0\<rparr>"

text \<open>The registered requests: each prototype parses to itself with the codec of the examples.\<close>

definition sample_types :: registrar where
  "sample_types = [((1, 73), GetStoreInfoV1), ((1, 74), GetBucketInfoV1 (Some ''/b'')),
     ((1, 78), WriteEnvelopeV1 (Some ''/b/s'') [''x''] True False),
     ((1, 80), SubscribeStoreChangesV1 [''/b'']), ((1, 81), SubscribeEnvelopesV1 [''/b''] (Some ''x'') [] [] []),
     ((1, 82), SubscribeKeepaliveV1 [''id'']), ((1, 92), GetStreamSegmentV1 (Some ''/b/s/n'') (Some 1) None None)]"

definition sample_env :: "server_impl rp_env" where
  "sample_env = server_env sample_codec sample_types (\<lambda>_ _. Inr None)"

lemma sample_env_simps [simp]:
  "cdc sample_env = sample_codec" "types sample_env = sample_types" "vstore sample_env = sds_ops sample_codec"
  "impl sample_env = ServerRequestProcessor sample_codec" "LoadLuaCode sample_env = (\<lambda>_ _. Inr None)"
  by (simp_all add: sample_env_def)

end
