(* ===== verification/Request_Answers.thy ===== *)
theory Request_Answers
  imports Request_Info Server_Worker
begin

text \<open>
  Properties of the request processor that concern one request at a time: the errors for malformed
  messages, the information requests, and the processing of writes.
\<close>

section \<open>Examples\<close>

text \<open>Deciding the hypotheses of the properties for the processor of the examples.\<close>

lemma sample_classes: "classes_ok sample_codec sample_types"
  by (auto simp: classes_ok_def registered_def sample_types_def own_class_def message_namespace_def split: if_splits)

definition sample_request :: "char \<Rightarrow> MessageContainer" where
  "sample_request ty = \<lparr>identities = [''client''], mc_messages = [[CHR 0x01, ty, CHR ''x'']]\<rparr>"

definition sample_pb :: "char \<Rightarrow> EnvelopePB" where
  "sample_pb ty = empty_envelope\<lparr>message := [''x''], message_ns := [1], message_ty := [of_char ty]\<rparr>"

lemma sample_frame: "mc_messages (sample_request ty) \<noteq> []"
  "request_frame sample_codec (sample_pb ty) (mc_messages (sample_request ty) ! 0)"
  by (simp_all add: sample_request_def sample_pb_def request_frame_def)

lemma sample_asks: "asks (of_char ty) (sample_pb ty)"
  by (simp add: asks_def sample_pb_def message_namespace_def)

lemma sample_request_of: "request_of sample_env (sample_pb ty) = map_of sample_types (1, of_char ty)"
  by (simp add: request_of_def parsed_def sample_pb_def registered_def split: option.split)

lemma sample_paths: "parse_path ''/b'' = Some (''b'', [], [])" "parse_path ''/b/s'' = Some (''b'', ''s'', [])"
  "parse_path ''/b/s/n'' = Some (''b'', ''s'', ''n'')"
  using path_denotes.bucket [OF sample_names(1), folded parse_path_iff]
    path_denotes.sset [OF sample_names(1,2), folded parse_path_iff]
    path_denotes.stream [OF sample_names, folded parse_path_iff]
  by (simp_all add: path_defs)

lemma sample_exists: "sds_BucketExists sample_store ''b''" "sds_StreamSetExists sample_store ''b'' ''s''"
  "sds_StreamExists sample_store ''b'' ''s'' ''n''"
  using sds_exists [OF sample_store_inv sample_names(1)] sample_names
  by (simp_all add: sample_store_def root_components_def components_def c_str_def node_at_def extension_def)

section \<open>Malformed messages\<close>

text \<open>
  The code of the error that answers a message which is not a well-formed request, with the tags the
  answer carries. The table is in the order of the checks: the frame, the envelope, its first message.
\<close>

definition served :: "u32 set" where
  "served = {91, 72, 73, 74, 75, 76, 92, 80, 81, 82, 83, 78, 111, 112, 116}"

definition unimplemented :: "u32 set" where
  "unimplemented = {83, 112, 116}"

definition rejection :: "codec \<Rightarrow> string \<Rightarrow> (ErrorCode \<times> string list) option" where
  "rejection c m =
     (if m = [] then Some (EMPTY_MESSAGE, [])
      else if hd m \<noteq> CHR 0x01 then Some (UNKNOWN_MESSAGE_FORMAT_VERSION, [])
      else if length m = 1 then Some (PROTOCOL_NO_ENVELOPE, [])
      else case (if length m = 2 then None else ParseEnvelope c (tl m)) of
        None \<Rightarrow> Some (ENVELOPE_PARSE_FAILURE, [])
      | Some pb \<Rightarrow>
          if message pb = [] then Some (EMPTY_ENVELOPE, tag pb)
          else if message_ns pb = [] \<or> message_ty pb = [] then Some (MISSING_ENUMERATIONS, tag pb)
          else if hd (message_ns pb) \<noteq> message_namespace then Some (INVALID_MESSAGE_NAMESPACE, tag pb)
          else if hd (message_ty pb) \<notin> served then Some (UNKNOWN_REQUEST_TYPE, tag pb)
          else if hd (message_ty pb) \<in> unimplemented then Some (GENERAL_ERROR_PROCESSING, tag pb)
          else None)"

lemma answers_reject:
  assumes "mc_messages mc \<noteq> []"
    "\<And>s. does (open_and_process E (mc_messages mc ! 0)) s (Inr None) [f]"
  shows "answers E mc s [f]"
proof -
  obtain s' where "open_and_process E (mc_messages mc ! 0) (opened s) = (Inr None, s')" "pushes [f] (opened s) s'"
    using assms(2) [of "opened s"] by (auto simp: does_def)
  with assms(1) opened_pushes show ?thesis by (auto simp: answers_def ProcessMessages_open andThen_Inr ret_run)
qed

lemma does_reject: "does (reject E code msg) s (Inr None) [reply (cdc E) [] (Error code msg)]"
  unfolding reject_def using does_seq [OF does_error does_ret] by fastforce

lemma does_logged_reject:
  "does (seq (LOG_MESSAGE E l) (reject E code msg)) s (Inr None) [reply (cdc E) [] (Error code msg)]"
  by (rule does_quiet [OF does_LOG does_reject])

lemma does_logged_error:
  "does (seq (LOG_MESSAGE E l) (seq (PopulateErrorResponse E code msg) (ret AUTHORITATIVE))) s (Inr AUTHORITATIVE)
     [reply (cdc E) [] (Error code msg)]"
  by (rule does_quiet [OF does_LOG]) (use does_seq [OF does_error does_ret] in fastforce)

lemma answers_rejected:
  assumes "mc_messages mc \<noteq> []"
    "open_and_process E (mc_messages mc ! 0) = reject E code msg \<or>
     (\<exists>l. open_and_process E (mc_messages mc ! 0) = seq (LOG_MESSAGE E l) (reject E code msg))"
  shows "\<exists>msg. answers E mc s [reply (cdc E) [] (Error code msg)]"
  using assms(2) by (intro exI [of _ msg] answers_reject [OF assms(1)]) (auto simp: does_reject does_logged_reject)

lemma unread_body:
  assumes "message pb = [] \<and> code = EMPTY_ENVELOPE \<or>
     message pb \<noteq> [] \<and> (message_ns pb = [] \<or> message_ty pb = []) \<and> code = MISSING_ENUMERATIONS \<or>
     message pb \<noteq> [] \<and> message_ns pb \<noteq> [] \<and> message_ty pb \<noteq> [] \<and> hd (message_ns pb) \<noteq> message_namespace \<and>
       code = INVALID_MESSAGE_NAMESPACE"
  obtains l msg where "check_and_dispatch E (of_pb pb) = seq (LOG_MESSAGE E l) (seq (PopulateErrorResponse E code msg) (ret AUTHORITATIVE))"
  using assms that by (elim disjE conjE) (simp_all add: check_and_dispatch_def MessageCount_def of_pb_def hd_conv_nth)

lemma asks_hd:
  "message pb \<noteq> [] \<Longrightarrow> message_ns pb \<noteq> [] \<Longrightarrow> message_ty pb \<noteq> [] \<Longrightarrow> hd (message_ns pb) = message_namespace \<Longrightarrow>
   asks (hd (message_ty pb)) pb"
  by (simp add: asks_def hd_conv_nth)

lemma not_served:
  "ty \<notin> served \<Longrightarrow> dispatch E e ty =
     seq (LOG_MESSAGE E (LogUnknownRequestType ty))
      (seq (PopulateErrorResponse E UNKNOWN_REQUEST_TYPE ''server does not know how to process the request'')
        (ret AUTHORITATIVE))"
  by (simp add: served_def dispatch_def)

lemma not_implemented: "ty \<in> unimplemented \<Longrightarrow> dispatch E e ty = throw (RuntimeException ''not implemented'')"
  by (auto simp: unimplemented_def dispatch_def ProcessSubscribeCancel_def ProcessUnregisterPlugin_def ProcessPluginStatus_def)

lemma rejected_frame:
  assumes "rejection c m = Some (code, tags)"
  obtains "m = []" "code = EMPTY_MESSAGE" "tags = []"
  | "m \<noteq> []" "hd m \<noteq> CHR 0x01" "code = UNKNOWN_MESSAGE_FORMAT_VERSION" "tags = []"
  | "length m = 1" "hd m = CHR 0x01" "code = PROTOCOL_NO_ENVELOPE" "tags = []"
  | "2 \<le> length m" "hd m = CHR 0x01" "length m = 2 \<or> ParseEnvelope c (tl m) = None" "code = ENVELOPE_PARSE_FAILURE" "tags = []"
  | pb where "request_frame c pb m" "tags = tag pb"
proof -
  consider "m = []" | "m \<noteq> []" "hd m \<noteq> CHR 0x01" | "length m = 1" "hd m = CHR 0x01"
    | "2 \<le> length m" "hd m = CHR 0x01" "length m = 2 \<or> ParseEnvelope c (tl m) = None"
    | pb where "request_frame c pb m"
    by (cases "length m = 0"; cases "length m = 1"; cases "length m = 2"; cases "ParseEnvelope c (tl m)")
      (auto simp: request_frame_def)
  then show thesis
    by cases (use assms that in \<open>auto simp: rejection_def request_frame_def split: if_splits\<close>)
qed

text \<open>
  Every malformed request is answered by exactly one error envelope, whose code is that of the
  first check it fails, and which carries the tags of the request once its envelope has been parsed.
  Nothing else changes but the log: \<open>ProcessMessages\<close> never throws for such a message.
\<close>

lemma malformed_rejected:
  assumes "mc_messages mc \<noteq> []" "rejection (cdc E) (mc_messages mc ! 0) = Some (code, tags)"
  shows "\<exists>msg. answers E mc s [reply (cdc E) tags (Error code msg)]"
  using assms(2)
proof (cases rule: rejected_frame)
  case 1
  then show ?thesis using assms(1)
    by (simp, intro answers_rejected [where msg = "''empty 0MQ message received''"]) (auto simp: open_and_process_def)
next
  case 2
  then show ?thesis using assms(1)
    by (simp, intro answers_rejected [where msg =
          "''protocol message version not understood. server only supports version 1''"]) (auto simp: open_and_process_def)
next
  case 3
  then show ?thesis using assms(1)
    by (simp, intro answers_rejected [where msg =
          "''protocol version 1 0MQ message received without an envelope''"]) (auto simp: open_and_process_def)
next
  case 4
  then have "\<exists>x. Envelope_of_zmq (cdc E) (mc_messages mc ! 0) 1 = Inl x \<and> catchable x"
    by (cases "mc_messages mc ! 0") (auto simp: Envelope_of_zmq_def InitializeFromBuffer_def)
  with 4 show ?thesis using assms(1)
    by (simp, intro answers_rejected [where msg = "''error parsing envelope''"]) (auto simp: open_and_process_def)
next
  case (5 pb)
  let ?ok = "message pb \<noteq> [] \<and> message_ns pb \<noteq> [] \<and> message_ty pb \<noteq> [] \<and> hd (message_ns pb) = message_namespace"
  have r: "rejection (cdc E) (mc_messages mc ! 0) = Some (code, tags)" by (rule assms(2))
  show ?thesis
  proof (cases ?ok)
    case False
    then obtain l msg where b: "check_and_dispatch E (of_pb pb) =
        seq (LOG_MESSAGE E l) (seq (PopulateErrorResponse E code msg) (ret AUTHORITATIVE))"
      using r 5(1) unread_body [of pb code E] by (auto simp: rejection_def request_frame_def split: if_splits)
    show ?thesis
      using answers_dispatch [OF assms(1) 5(1)] does_logged_error 5(2) unfolding b by fastforce
  next
    case True
    then have a: "asks (hd (message_ty pb)) pb" by (simp add: asks_hd)
    consider "hd (message_ty pb) \<notin> served" "code = UNKNOWN_REQUEST_TYPE" | "hd (message_ty pb) \<in> unimplemented" "code = GENERAL_ERROR_PROCESSING"
      using r 5(1) True by (auto simp: rejection_def request_frame_def split: if_splits)
    then show ?thesis
    proof cases
      case 1
      show ?thesis
        using answers_handler [OF assms(1) 5(1) a] does_logged_error 5(2) 1(2) unfolding not_served [OF 1(1)] by fastforce
    next
      case 2
      show ?thesis
        using answers_exception [OF assms(1) 5(1) a, unfolded not_implemented [OF 2(1)], OF does_throw] 5(2) 2(2) by (auto simp: processing_failed_def)
    qed
  qed
qed

lemma malformed_rejected_witness:
  "\<exists>msg. answers sample_env \<lparr>identities = [], mc_messages = [[CHR 0x02, CHR ''x'']]\<rparr> sample_rp
     [reply sample_codec [] (Error UNKNOWN_MESSAGE_FORMAT_VERSION msg)]"
  using malformed_rejected [of "\<lparr>identities = [], mc_messages = [[CHR 0x02, CHR ''x'']]\<rparr>" sample_env] by (simp add: rejection_def)

section \<open>Information requests\<close>

text \<open>
  A request for information on the store, a bucket, a stream set or a stream is answered by one
  envelope with the request's tags: the information the store's own functions give, or the error of
  the first failing check of its path, or an error when its message does not parse. The store is not
  changed.
\<close>

lemma information_answered:
  assumes "mc_messages mc \<noteq> []" "request_frame (cdc E) pb (mc_messages mc ! 0)" "classes_ok (cdc E) (types E)"
    "asks ty pb" "ty \<in> {73, 74, 75, 76}"
  shows "answers E mc s [reply (cdc E) (tag pb) (info_answer (vstore E) (rp_store s) (request_of E pb))]"
  using answers_handler [OF assms(1,2,4) info_handlers [OF assms(3-5)]] by (simp add: opened_def)

lemma information_answered_witness:
  "answers sample_env (sample_request CHR ''J'') sample_rp
     [reply sample_codec [] (BucketInfoMsg (snd (BucketInfo (sds_ops sample_codec) sample_store ''b'' new_BucketInfo)))]"
proof -
  have a: "asks 74 (sample_pb CHR ''J'')" using sample_asks [of "CHR ''J''"] by simp
  have r: "request_of sample_env (sample_pb CHR ''J'') = Some (GetBucketInfoV1 (Some ''/b''))"
    by (simp add: sample_request_of sample_types_def)
  have "BucketExists (sds_ops sample_codec) sample_store ''b''" by (simp add: sds_ops_def sample_exists)
  then have "info_answer (sds_ops sample_codec) sample_store (Some (GetBucketInfoV1 (Some ''/b''))) =
      BucketInfoMsg (snd (BucketInfo (sds_ops sample_codec) sample_store ''b'' new_BucketInfo))"
    by (simp add: on_path_def path_problem_def sample_paths parts_def exists_at_def depth_simps)
  with information_answered [OF _ _ _ a, of "sample_request CHR ''J''" sample_env sample_rp] sample_frame [of "CHR ''J''"]
    sample_classes r show ?thesis
    by (simp add: sample_rp_def sample_pb_def empty_envelope_def)
qed

section \<open>Writes\<close>

text \<open>The error that a write request gets before its envelopes are looked at.\<close>

definition write_problem :: "store_ops \<Rightarrow> Store \<Rightarrow> string option \<Rightarrow> string list \<Rightarrow> Message option" where
  "write_problem V st path datas =
     (case path of
        None \<Rightarrow> Some missing_path
      | Some p \<Rightarrow>
          (case parse_path p of
             None \<Rightarrow> Some (Error INVALID_PATH (''invalid path: '' @ p))
           | Some (_, t, n) \<Rightarrow>
               if n = [] \<and> t = [] then Some (Error INVALID_PATH (''path not to a stream set or stream: '' @ p))
               else
                 (case (if n = [] then path_problem V st p 2 else None) of
                    Some m \<Rightarrow> Some m
                  | None \<Rightarrow> if datas = [] then Some (Error EMPTY_FIELD ''no envelopes specified in request'') else None)))"

text \<open>The envelopes of the request that parse.\<close>

definition parsable :: "codec \<Rightarrow> string list \<Rightarrow> Envelope list" where
  "parsable c datas = map of_pb (List.map_filter (ParseEnvelope c) datas)"

lemma does_parse_envelopes:
  "[] \<notin> set datas \<Longrightarrow> does (parse_envelopes E datas envs) s (Inr (envs @ parsable (cdc E) datas)) []"
proof (induction datas arbitrary: envs s)
  case Nil
  then show ?case by (simp add: parsable_def map_filter_simps)
next
  case (Cons d ds)
  show ?case
  proof (cases "ParseEnvelope (cdc E) d")
    case None
    with Cons have "does (seq (LOG_MESSAGE E (LogEnvelopeParseFailure (Some d))) (parse_envelopes E ds envs)) s
        (Inr (envs @ parsable (cdc E) ds)) []"
      by (intro does_quiet [OF does_LOG]) simp
    with None Cons.prems show ?thesis
      by (auto simp: Envelope_of_data_def InitializeFromBuffer_def parsable_def map_filter_simps)
  next
    case (Some pb)
    with Cons show ?thesis
      using Cons.IH [of "envs @ [of_pb pb]" s]
      by (auto simp: Envelope_of_data_def InitializeFromBuffer_def parsable_def map_filter_simps)
  qed
qed

lemma does_parse_empty:
  "[] \<in> set datas \<Longrightarrow> does (parse_envelopes E datas envs) s (Inl (InvalidArgument ''0 size data buffer'')) []"
proof (induction datas arbitrary: envs s)
  case (Cons d ds)
  show ?case
  proof (cases "d = []")
    case True
    then show ?thesis by (simp add: Envelope_of_data_def)
  next
    case False
    with Cons have ds: "[] \<in> set ds" by auto
    show ?thesis
    proof (cases "ParseEnvelope (cdc E) d")
      case None
      with False Cons.IH ds does_quiet [OF does_LOG] show ?thesis
        by (fastforce simp: Envelope_of_data_def InitializeFromBuffer_def)
    next
      case (Some pb)
      with False Cons.IH ds show ?thesis by (simp add: Envelope_of_data_def InitializeFromBuffer_def)
    qed
  qed
qed simp

definition write_status :: "response list \<Rightarrow> ResponseStatus" where
  "write_status fs = (if fs = [] then DEFERRED else AUTHORITATIVE)"

lemma made_length: "length ts = length fs \<Longrightarrow> length (made fs ts) = length fs"
  by (simp add: made_def)

lemma does_to_write_end:
  assumes "does_to body s (Inr ()) i fs" "response_vector s = []"
  shows "does_to (seq body (seq (LOG_MESSAGE E z)
      (andThen (gets response_vector) (\<lambda>out. ret (if length out > 0 then AUTHORITATIVE else DEFERRED))))) s
    (Inr (write_status fs)) i fs"
proof -
  obtain s1 where s1: "body s = (Inr (), s1)" "pushes fs (s\<lparr>impl_state := i\<rparr>) s1" using assms(1) by (auto simp: does_via_def)
  obtain s2 where s2: "LOG_MESSAGE E z s1 = (Inr (), s2)" "pushes [] s1 s2" using does_LOG [of E z s1] by (auto simp: does_def)
  have "pushes fs (s\<lparr>impl_state := i\<rparr>) s2" using pushes_trans [OF s1(2) s2(2)] by simp
  moreover from this assms(2) have "length (response_vector s2) = length fs" by (auto simp: pushes_def made_length)
  ultimately show ?thesis using s1 s2 by (auto simp: does_via_def andThen_Inr ret_run write_status_def)
qed

lemma does_to_OBTAIN:
  assumes "request_of E pb = Some m" "\<And>e'. does_to (F (Some m, e')) s r i fs"
  shows "does_to (andThen (OBTAIN_MESSAGE E (of_pb pb)) F) s r i fs"
proof -
  obtain e' where "\<And>s. get_request E (of_pb pb) s = (Inr (request_of E pb, e'), s)"
    using get_request_run by blast
  with assms show ?thesis by (simp add: does_via_def OBTAIN_MESSAGE_def andThen_Inr ret_run)
qed

lemma does_to_write_handler:
  assumes "request_of E pb = Some m" "response_vector s = []"
    and "\<And>s'. quiet s s' \<Longrightarrow> does_to (write_body E (Some m)) s' (Inr ()) i fs"
  shows "does_to (ProcessWriteEnvelope E (of_pb pb)) s (Inr (write_status fs)) i fs"
proof -
  have "does_to (seq (LOG_MESSAGE E LogBeginWriteEnvelope)
      (andThen (OBTAIN_MESSAGE E (of_pb pb)) (\<lambda>(m, _). write_body E m))) s (Inr ()) i fs"
    by (rule does_to_quiet [OF does_LOG], rule does_to_OBTAIN [OF assms(1)]) (simp add: assms(3))
  from does_to_write_end [OF this assms(2)] show ?thesis by (simp add: ProcessWriteEnvelope_def andThen_assoc)
qed

lemma does_to_write_throw:
  assumes "request_of E pb = Some m" and "\<And>s'. quiet s s' \<Longrightarrow> does_to (write_body E (Some m)) s' (Inl x) i []"
  shows "does_to (ProcessWriteEnvelope E (of_pb pb)) s (Inl x) i []"
  unfolding ProcessWriteEnvelope_def
  by (rule does_to_quiet [OF does_LOG], rule does_to_Inl, rule does_to_OBTAIN [OF assms(1)]) (simp add: assms(2))

lemma does_write_problem:
  assumes "write_problem (vstore E) (rp_store s) path datas = Some m"
  shows "does (write_body E (Some (WriteEnvelopeV1 path datas ack sync))) s (Inr ()) [reply (cdc E) [] m]"
proof (cases path)
  case None
  with assms show ?thesis by (simp add: write_body_def write_problem_def does_missing)
next
  case p: (Some p)
  show ?thesis
  proof (cases "parse_path p")
    case None
    with assms p show ?thesis by (auto simp: write_body_def write_problem_def does_error)
  next
    case (Some q)
    obtain b t n where q: "q = (b, t, n)" by (cases q)
    note defs = p Some q write_body_def write_problem_def
    let ?K = "\<lambda>ok. if \<not> ok then ret () else write_checked E p datas ack sync"
    have stop: "does (?K False) s' (Inr ()) []" for s' by simp
    consider "n = []" "t = []" | "n = []" "t \<noteq> []" "path_problem (vstore E) (rp_store s) p 2 = Some m"
      | "datas = []" "m = Error EMPTY_FIELD ''no envelopes specified in request''"
          "n \<noteq> [] \<or> t \<noteq> [] \<and> path_problem (vstore E) (rp_store s) p 2 = None"
      using assms by (auto simp: defs split: if_splits option.splits)
    then show ?thesis
    proof cases
      case 1
      then have "does (seq (PopulateErrorResponse E INVALID_PATH (''path not to a stream set or stream: '' @ p)) (ret False)) s
          (Inr False) [reply (cdc E) [] m]"
        using assms does_False [OF does_error] by (auto simp: defs)
      from does_andThen [where f = ?K, OF this stop] 1 show ?thesis by (simp add: defs)
    next
      case 2
      from 2(3) have "does (CheckPath E p True True False) s (Inr False) [reply (cdc E) [] m]"
        using does_CheckPath_depth [of 2 True False E p s] by simp
      from does_andThen [where f = ?K, OF this stop] 2 show ?thesis by (simp add: defs)
    next
      case 3
      then have "does (if n = [] then CheckPath E p True True False else ret True) s (Inr True) []"
        using does_CheckPath_depth [of 2 True False E p s] by auto
      from does_quiet [where f = ?K and r = "Inr ()" and gs = "[reply (cdc E) [] m]", OF this] 3(1,2)
      have "does (andThen (if n = [] then CheckPath E p True True False else ret True) ?K) s (Inr ()) [reply (cdc E) [] m]"
        by (simp add: does_error write_checked_def)
      with 3(3) show ?thesis by (auto simp: write_body_def p Some q)
    qed
  qed
qed

lemma does_to_write_valid:
  assumes "write_problem (vstore E) (rp_store s) (Some p) datas = None"
    and "\<And>s'. quiet s s' \<Longrightarrow> does_to (write_envelopes E p datas ack sync) s' r i fs"
  shows "does_to (write_body E (Some (WriteEnvelopeV1 (Some p) datas ack sync))) s r i fs"
proof -
  obtain b t n where q: "parse_path p = Some (b, t, n)" "datas \<noteq> []" "n \<noteq> [] \<or> t \<noteq> [] \<and> path_problem (vstore E) (rp_store s) p 2 = None"
    using assms(1) by (auto simp: write_problem_def split: option.splits if_splits)
  let ?K = "\<lambda>ok. if \<not> ok then ret () else write_checked E p datas ack sync"
  have w: "write_checked E p datas ack sync = write_envelopes E p datas ack sync"
    using q(2) by (simp add: write_checked_def Suc_le_eq)
  show ?thesis
  proof (cases "n = []")
    case True
    with q have "does (CheckPath E p True True False) s (Inr True) []"
      using does_CheckPath_depth [of 2 True False E p s] by auto
    from does_to_quiet [where f = ?K, OF this] q True assms(2) show ?thesis by (simp add: write_body_def w)
  next
    case False
    from does_to_quiet [where f = ?K, OF does_ret] q False assms(2) show ?thesis by (simp add: write_body_def w)
  qed
qed

lemma does_write_ack:
  assumes "[] \<notin> set datas" "parsable (cdc E) datas \<noteq> []"
    "HandleWriteEnvelopes (impl E) path (parsable (cdc E) datas) sync (impl_state s) = (Inr (MakeWriteResult n), i)"
  shows "does_to (write_envelopes E path datas ack sync) s (Inr ()) i
    (if ack \<or> sync then [reply (cdc E) [] (WriteAckV1 n)] else [])"
  unfolding write_envelopes_def Let_def
proof (rule does_to_quiet [OF does_parse_envelopes [OF assms(1), where envs = "[]", simplified]])
  fix s' assume q: "quiet s s'"
  with assms(3) have "HandleWriteEnvelopes (impl E) path (parsable (cdc E) datas) sync (impl_state s') = (Inr (MakeWriteResult n), i)"
    by (simp add: quiet_keeps)
  with assms(2) show "does_to (andThen (if length (parsable (cdc E) datas) > 0
          then on_impl (HandleWriteEnvelopes (impl E) path (parsable (cdc E) datas) sync) else ret new_HandlerResult)
        (\<lambda>result. if (if sync then True else ack) \<and> \<not> deferred result then
          if have_error result then throw (RuntimeException ''not implemented'')
          else if \<not> is_write result then
            throw (RuntimeException ''return from request processor write envelopes implementation not sane'')
          else
            (case envelopes_written result of
               None \<Rightarrow> throw (Undefined ''uninitialised envelopes_written'')
             | Some n \<Rightarrow> respond E (WriteAckV1 n))
        else ret ())) s' (Inr ()) i (if ack \<or> sync then [reply (cdc E) [] (WriteAckV1 n)] else [])"
    by (auto intro!: does_to_impl simp: MakeWriteResult_def new_HandlerResult_def does_respond)
qed

lemma does_write_throw:
  assumes "[] \<notin> set datas" "parsable (cdc E) datas \<noteq> []"
    "HandleWriteEnvelopes (impl E) path (parsable (cdc E) datas) sync (impl_state s) = (Inl x, i)"
  shows "does_to (write_envelopes E path datas ack sync) s (Inl x) i []"
  unfolding write_envelopes_def Let_def
  by (rule does_to_quiet [OF does_parse_envelopes [OF assms(1), where envs = "[]", simplified]])
    (use assms(2,3) in \<open>auto intro!: does_to_impl_Inl simp: quiet_keeps\<close>)

lemma does_write_nothing:
  assumes "[] \<notin> set datas" "parsable (cdc E) datas = []"
  shows "does_to (write_envelopes E path datas ack sync) s
    (if ack \<or> sync then Inl (RuntimeException ''return from request processor write envelopes implementation not sane'')
     else Inr ()) (impl_state s) []"
  unfolding write_envelopes_def Let_def does_to_same
  by (rule does_quiet [OF does_parse_envelopes [OF assms(1), where envs = "[]", simplified]])
    (use assms(2) in \<open>auto intro!: does_quiet [OF does_ret] simp: new_HandlerResult_def\<close>)

lemma does_write_empty_data:
  "[] \<in> set datas \<Longrightarrow> does_to (write_envelopes E path datas ack sync) s (Inl (InvalidArgument ''0 size data buffer'')) (impl_state s) []"
  unfolding write_envelopes_def Let_def does_to_same
  by (rule does_andThen_Inl) (rule does_parse_empty)

lemma write_dispatch: "dispatch E e 78 = ProcessWriteEnvelope E e"
  by (simp add: dispatch_def)

lemma answers_with_write:
  assumes "mc_messages mc \<noteq> []" "request_frame (cdc E) pb (mc_messages mc ! 0)" "asks 78 pb" "request_of E pb = Some m"
    "\<And>s'. quiet (opened s) s' \<Longrightarrow> does_to (write_body E (Some m)) s' (Inr ()) i fs"
  shows "answers_with E mc s i (case fs of [] \<Rightarrow> [] | f # fs \<Rightarrow> tagged (tag pb) f # fs)"
proof -
  have run: "does_to (dispatch E (of_pb pb) 78) (opened s) (Inr (write_status fs)) i fs"
    using does_to_write_handler [OF assms(4) opened_vector assms(5)] by (simp add: write_dispatch)
  show ?thesis
  proof (cases fs)
    case Nil
    with run answers_with_deferred [OF assms(1-3)] show ?thesis by (simp add: write_status_def)
  next
    case (Cons f gs)
    with run answers_with_handler [OF assms(1-3)] show ?thesis by (simp add: write_status_def)
  qed
qed

lemma answers_with_write_throw:
  assumes "mc_messages mc \<noteq> []" "request_frame (cdc E) pb (mc_messages mc ! 0)" "asks 78 pb" "request_of E pb = Some m"
    "\<And>s'. quiet (opened s) s' \<Longrightarrow> does_to (write_body E (Some m)) s' (Inl x) i []" "catchable x"
  shows "answers_with E mc s i [reply (cdc E) (tag pb) processing_failed]"
  using answers_with_exception [OF assms(1-3) _ assms(6)] does_to_write_throw [OF assms(4,5)] by (simp add: write_dispatch)

lemma does_to_write_problem:
  assumes "write_problem (vstore E) (rp_store s) path datas = Some m" "quiet (opened s) s'"
  shows "does_to (write_body E (Some (WriteEnvelopeV1 path datas ack sync))) s' (Inr ()) (impl_state s) [reply (cdc E) [] m]"
  using does_write_problem [of E s' path datas m ack sync] assms(1) quiet_keeps [OF assms(2)]
    does_to_same [of s' "write_body E (Some (WriteEnvelopeV1 path datas ack sync))"] by simp

text \<open>
  A write request is refused with the error of the first failing check of its path or for having
  no envelopes. Otherwise its parsable envelopes, in order, are handed to the implementation exactly
  once with the path; when that reports a written count, the response is one acknowledgement with
  this count and the request's tags if the request asked for one or for a synchronous write, and no
  response at all if it did not. Envelopes that do not parse are left out without an error, although the
  protocol promises an error for every request that could not be fulfilled. The server's own
  implementation never reports a count.
\<close>

lemma writes_acknowledged:
  assumes "mc_messages mc \<noteq> []" "request_frame (cdc E) pb (mc_messages mc ! 0)" "asks 78 pb"
    "request_of E pb = Some (WriteEnvelopeV1 path datas ack sync)"
    "HandleWriteEnvelopes (impl E) (the path) (parsable (cdc E) datas) sync (impl_state s) = (Inr (MakeWriteResult n), i)"
    "[] \<notin> set datas" "parsable (cdc E) datas \<noteq> []"
  shows "case write_problem (vstore E) (rp_store s) path datas of
      Some m \<Rightarrow> answers E mc s [reply (cdc E) (tag pb) m]
    | None \<Rightarrow> answers_with E mc s i (if ack \<or> sync then [reply (cdc E) (tag pb) (WriteAckV1 n)] else [])"
proof (cases "write_problem (vstore E) (rp_store s) path datas")
  case (Some m)
  with answers_with_write [OF assms(1-4), where s = s and i = "impl_state s" and fs = "[reply (cdc E) [] m]"] does_to_write_problem [OF Some] show ?thesis
    by (simp add: answers_with_same)
next
  case None
  then obtain p where p: "path = Some p" by (cases path) (simp_all add: write_problem_def)
  have "does_to (write_body E (Some (WriteEnvelopeV1 path datas ack sync))) s' (Inr ()) i
      (if ack \<or> sync then [reply (cdc E) [] (WriteAckV1 n)] else [])" if q: "quiet (opened s) s'" for s'
    unfolding p
    by (rule does_to_write_valid, use None p q in \<open>simp add: quiet_keeps\<close>, intro does_write_ack [OF assms(6,7)])
      (use assms(5) p q in \<open>simp add: quiet_keeps\<close>)
  from answers_with_write [OF assms(1-4) this] None show ?thesis by (auto split: if_splits)
qed

text \<open>
  C38: the server does not write. A write request is refused with the error of the first failing check of
  its path, or for having no envelopes. The server's implementation throws for every write, so a valid
  request with an envelope that parses is answered by a general error, also when it asked for no
  acknowledgement; so is one with an empty envelope, and one none of whose envelopes parses if it asked
  for an acknowledgement or a synchronous write. A request with nothing but envelopes that do not parse and
  without acknowledgement has no answer at all, although the protocol promises an error for it. No write
  request is acknowledged, and none changes the store or the implementation's state.
\<close>

theorem server_never_writes:
  assumes "E = server_env c reg lua" "mc_messages mc \<noteq> []" "request_frame c pb (mc_messages mc ! 0)" "asks 78 pb"
    "request_of E pb = Some (WriteEnvelopeV1 path datas ack sync)"
  shows "answers E mc s
    (case write_problem (sds_ops c) (rp_store s) path datas of
       Some m \<Rightarrow> [reply c (tag pb) m]
     | None \<Rightarrow>
         if [] \<in> set datas \<or> parsable c datas \<noteq> [] \<or> ack \<or> sync then [reply c (tag pb) processing_failed] else [])"
proof (cases "write_problem (sds_ops c) (rp_store s) path datas")
  case (Some m)
  then show ?thesis
    using answers_with_write [OF assms(2) _ assms(4,5), where s = s and i = "impl_state s" and fs = "[reply (cdc E) [] m]"]
      does_to_write_problem [where E = E and s = s] assms(1,3) by (simp add: answers_with_same)
next
  case None
  then obtain p where p: "path = Some p" by (cases path) (simp_all add: write_problem_def)
  note e = assms(1) server_env_simps
  have frame: "request_frame (cdc E) pb (mc_messages mc ! 0)" using assms(1,3) by simp
  note fail = answers_with_write_throw [where s = s, OF assms(2) frame assms(4,5)]
    and silent = answers_with_write [where s = s, OF assms(2) frame assms(4,5)]
  have body: "does_to (write_body E (Some (WriteEnvelopeV1 path datas ack sync))) s' r i fs"
    if "quiet (opened s) s'" "\<And>s1. quiet (opened s) s1 \<Longrightarrow> does_to (write_envelopes E p datas ack sync) s1 r i fs" for s' r i fs
    unfolding p by (rule does_to_write_valid, use None p that(1) assms(1) in \<open>simp add: quiet_keeps\<close>)
      (blast intro: that quiet_trans)
  consider "[] \<in> set datas" | "[] \<notin> set datas" "parsable c datas \<noteq> []" | "[] \<notin> set datas" "parsable c datas = []" "ack \<or> sync"
    | "[] \<notin> set datas" "parsable c datas = []" "\<not> (ack \<or> sync)" by blast
  then show ?thesis
  proof cases
    case 1
    have "does_to (write_envelopes E p datas ack sync) s1 (Inl (InvalidArgument ''0 size data buffer'')) (impl_state s) []"
      if "quiet (opened s) s1" for s1
      using does_write_empty_data [OF 1, where E = E and path = p and s = s1] quiet_keeps [OF that] by simp
    from fail [OF body [OF _ this]] None 1 e show ?thesis by (simp add: answers_with_same)
  next
    case 2
    have "does_to (write_envelopes E p datas ack sync) s1 (Inl (RuntimeException ''TODO implement Worker::HandleWriteEnvelopes'')) (impl_state s) []"
      if "quiet (opened s) s1" for s1
      by (rule does_write_throw [OF 2(1)]) (use 2(2) quiet_keeps [OF that] e in \<open>simp_all add: sr_HandleWriteEnvelopes_def throw_run\<close>)
    from fail [OF body [OF _ this]] None 2 e show ?thesis by (simp add: answers_with_same)
  next
    case 3
    have "does_to (write_envelopes E p datas ack sync) s1
        (Inl (RuntimeException ''return from request processor write envelopes implementation not sane'')) (impl_state s) []"
      if "quiet (opened s) s1" for s1
      using does_write_nothing [OF 3(1), where E = E and path = p and s = s1 and ack = ack and sync = sync] 3 quiet_keeps [OF that] e by simp
    from fail [OF body [OF _ this]] None 3 e show ?thesis by (auto simp: answers_with_same)
  next
    case 4
    have "does_to (write_envelopes E p datas ack sync) s1 (Inr ()) (impl_state s) []" if "quiet (opened s) s1" for s1
      using does_write_nothing [OF 4(1), where E = E and path = p and s = s1 and ack = ack and sync = sync] 4 quiet_keeps [OF that] e by simp
    from silent [OF body [OF _ this]] None 4 e show ?thesis by (simp add: answers_with_same)
  qed
qed

lemma sample_write: "write_problem (sds_ops sample_codec) sample_store (Some ''/b/s'') [''x''] = None"
  by (simp add: write_problem_def sample_paths path_problem_def parts_def depth_simps exists_at_def sds_ops_def sample_exists)

lemma sample_write_request:
  "request_of (sample_env\<lparr>impl := h\<rparr>) (sample_pb CHR ''N'') = Some (WriteEnvelopeV1 (Some ''/b/s'') [''x''] True False)"
  using sample_request_of [of "CHR ''N''"] by (simp add: request_of_def sample_types_def)

text \<open>An implementation that reports every envelope as written.\<close>

definition writing_env :: "server_impl rp_env" where
  "writing_env = sample_env\<lparr>impl := (ServerRequestProcessor sample_codec)\<lparr>HandleWriteEnvelopes :=
     (\<lambda>p es w. ret (MakeWriteResult (word_of_nat (length es))))\<rparr>\<rparr>"

lemma writes_acknowledged_witness:
  "answers_with writing_env (sample_request CHR ''N'') sample_rp sample_impl [reply sample_codec [] (WriteAckV1 1)]"
proof -
  have a: "asks 78 (sample_pb CHR ''N'')" using sample_asks [of "CHR ''N''"] by simp
  have f: "request_frame (cdc writing_env) (sample_pb CHR ''N'') (mc_messages (sample_request CHR ''N'') ! 0)"
    using sample_frame by (simp add: writing_env_def)
  have r: "request_of writing_env (sample_pb CHR ''N'') = Some (WriteEnvelopeV1 (Some ''/b/s'') [''x''] True False)"
    by (simp add: writing_env_def sample_write_request)
  have p: "parsable (cdc writing_env) [''x''] \<noteq> []" and n: "length (parsable (cdc writing_env) [''x'']) = 1"
    by (simp_all add: parsable_def writing_env_def map_filter_simps)
  have h: "HandleWriteEnvelopes (impl writing_env) (the (Some ''/b/s'')) (parsable (cdc writing_env) [''x'']) False (impl_state sample_rp) =
      (Inr (MakeWriteResult 1), sample_impl)"
    using n by (simp add: writing_env_def ret_run sample_rp_def)
  have w: "write_problem (vstore writing_env) (rp_store sample_rp) (Some ''/b/s'') [''x''] = None"
    using sample_write by (simp add: writing_env_def sample_rp_def)
  from writes_acknowledged [OF sample_frame(1) f a r h _ p] w show ?thesis
    by (simp add: writing_env_def sample_pb_def empty_envelope_def)
qed

lemma server_never_writes_witness:
  "answers sample_env (sample_request CHR ''N'') sample_rp [reply sample_codec [] processing_failed]"
proof -
  have a: "asks 78 (sample_pb CHR ''N'')" using sample_asks [of "CHR ''N''"] by simp
  have r: "request_of sample_env (sample_pb CHR ''N'') = Some (WriteEnvelopeV1 (Some ''/b/s'') [''x''] True False)"
    using sample_request_of [of "CHR ''N''"] by (simp add: sample_types_def)
  from server_never_writes [OF sample_env_def sample_frame a r, of sample_rp] sample_write show ?thesis
    by (simp add: sample_rp_def sample_pb_def empty_envelope_def)
qed

end
