(* ===== verification/Request_Pump.thy ===== *)
theory Request_Pump
  imports Request_Answers
begin

text \<open>
  \<open>RequestProcessor::Pump\<close>: from the frames of a request to the frames of its answer, and what the
  receiver of the answer gets.
\<close>

section \<open>Sending the responses\<close>

text \<open>
  The payload frames of an answer for the serialised responses. With more than one response the loop
  starts again at the first.
\<close>

definition payload :: "string list \<Rightarrow> string list" where
  "payload ms = (if length ms > 1 then hd ms # ms else ms)"

definition answer_frames :: "string list \<Rightarrow> string list \<Rightarrow> (string \<times> bool) list" where
  "answer_frames ids ms = (if ms = [] then [] else map (\<lambda>i. (i, True)) ids @ ([], True) # frames (payload ms))"

definition sends :: "(string \<times> bool) list \<Rightarrow> 'i rp \<Rightarrow> 'i rp" where
  "sends fs s = s\<lparr>client_sock := (client_sock s)\<lparr>sent := sent (client_sock s) @ fs\<rparr>\<rparr>"

lemma sends_sends [simp]: "sends gs (sends fs s) = sends (fs @ gs) s"
  by (simp add: sends_def)

lemma sends_fields [simp]: "send_results (client_sock (sends fs s)) = send_results (client_sock s)"
  "response_vector (sends fs s) = response_vector s"
  by (simp_all add: sends_def)

lemma sends_Nil: "sends [] s = s"
  by (simp add: sends_def)

lemma frames_Cons: "frames (m # ms) = (m, ms \<noteq> []) # frames ms"
  by (cases ms) simp_all

lemma send_rest_frames:
  assumes "send_results (client_sock s) = []" "list_all2 (\<lambda>e m. serialize_for (cdc E) e True = Some m) es ms"
  shows "send_rest E es s = (Inr (), sends (frames ms) s)"
  using assms(2,1)
proof (induction arbitrary: s rule: list_all2_induct)
  case Nil
  then show ?case by (simp add: ret_def sends_Nil)
next
  case (Cons e es m ms)
  have empty: "es = [] \<longleftrightarrow> ms = []" using Cons.hyps(2) by auto
  have "on_client (SendEnvelope (cdc E) e True (if es = [] then no_flags else more_flag)) s = (Inr 1, sends [(m, ms \<noteq> [])] s)"
    using SendEnvelope_ok [OF Cons.prems Cons.hyps(1)] empty
    by (simp add: on_client_def sends_def no_flags_def more_flag_def)
  with Cons.IH [of "sends [(m, ms \<noteq> [])] s"] Cons.prems show ?case
    by (simp add: andThen_Inr check_sent_def ret_def frames_Cons)
qed

lemma send_responses_frames:
  assumes "send_results (client_sock s) = []" "list_all2 (\<lambda>e m. serialize_for (cdc E) e True = Some m) (response_vector s) ms"
  shows "send_responses E ids s = (Inr (), sends (answer_frames ids ms) s)"
proof (cases "response_vector s")
  case Nil
  with assms(2) show ?thesis by (simp add: send_responses_def answer_frames_def sends_Nil ret_def)
next
  case (Cons e es)
  then obtain m ms' where m: "ms = m # ms'" "serialize_for (cdc E) e True = Some m" "es = [] \<longleftrightarrow> ms' = []"
    using assms(2) by (auto simp: list_all2_Cons1)
  have len: "length ms' = length es" using assms(2) Cons m(1) by (auto dest: list_all2_lengthD)
  have first: "on_client (SendEnvelope_to (cdc E) ids e True (if length (e # es) > 1 then more_flag else no_flags)) s =
      (Inr 1, sends (map (\<lambda>i. (i, True)) ids @ [([], True), (m, ms' \<noteq> [])]) s)"
    using SendEnvelope_to_ok [OF assms(1) m(2)] m(3) by (auto simp: on_client_def sends_def no_flags_def more_flag_def)
  let ?t = "sends (map (\<lambda>i. (i, True)) ids @ [([], True), (m, ms' \<noteq> [])]) s"
  have "send_rest E (e # es) ?t = (Inr (), sends (frames ms) ?t)"
    using send_rest_frames [of ?t E "e # es" ms] assms Cons by simp
  then have rest: "(if length (e # es) > 1 then send_rest E (e # es) else ret ()) ?t = (Inr (), sends (answer_frames ids ms) s)"
    using len m(1) by (cases "ms' = []") (auto simp: answer_frames_def payload_def frames_Cons ret_def)
  have "send_responses E ids s =
      andThen (on_client (SendEnvelope_to (cdc E) ids e True (if length (e # es) > 1 then more_flag else no_flags))) (\<lambda>result.
        seq (check_sent result ''Send failure for response'') (if length (e # es) > 1 then send_rest E (e # es) else ret ())) s"
    by (simp add: send_responses_def Cons)
  also have "\<dots> = seq (check_sent 1 ''Send failure for response'') (if length (e # es) > 1 then send_rest E (e # es) else ret ()) ?t"
    by (rule andThen_Inr) (rule first)
  also have "\<dots> = (Inr (), sends (answer_frames ids ms) s)" using rest by (simp add: check_sent_def)
  finally show ?thesis .
qed

section \<open>Answering one message\<close>

lemma answers_client: "answers_via u E mc s fs \<Longrightarrow> (\<And>t. client_sock (u t) = client_sock t) \<Longrightarrow>
    \<exists>s'. ProcessMessages E mc s = (Inr (), s') \<and> client_sock s' = client_sock s \<and>
      (\<exists>ts. length ts = length fs \<and> response_vector s' = response_vector (u (s\<lparr>response_vector := []\<rparr>)) @ made fs ts)"
  by (auto simp: answers_via_def pushes_def dest!: quiet_keeps(4))

text \<open>The state in which \<open>Pump\<close> processes a received message.\<close>

definition received :: "MessageContainer \<Rightarrow> socket \<Rightarrow> 'i rp \<Rightarrow> 'i rp" where
  "received mc sock s = s\<lparr>client_sock := sock, current_request_identities := identities mc\<rparr>"

lemma Pump_receives:
  assumes "inbox (client_sock s) \<noteq> []" "ReceiveMessage (client_sock s) = (True, mc, sock)"
  shows "Pump E s = seq (ProcessMessages E mc) (seq (send_responses E (identities mc)) (ret MakeWorkDone)) (received mc sock s)"
proof -
  have "on_client receive (s\<lparr>current_request_identities := []\<rparr>) =
      (Inr (True, mc), s\<lparr>current_request_identities := [], client_sock := sock\<rparr>)"
    using assms(2) by (simp add: on_client_def receive_def)
  with assms(1) show ?thesis by (simp add: Pump_def andThen_Inr received_def)
qed

lemma receive_payload:
  assumes "list_all (\<lambda>i. i \<noteq> []) ids" "list_all (\<lambda>m. m \<noteq> []) ms" "ms \<noteq> []" "inbox peer = answer_frames ids ms @ later"
  shows "ReceiveMessage peer = (True, \<lparr>identities = ids, mc_messages = payload ms\<rparr>, peer\<lparr>inbox := later\<rparr>)"
proof -
  have p: "payload ms \<noteq> []" "list_all (\<lambda>m. m \<noteq> []) (payload ms)"
    using assms(2,3) by (auto simp: payload_def neq_Nil_conv)
  then obtain xs x where x: "payload ms = xs @ [x]" by (metis rev_exhaust)
  have "inbox peer = map (\<lambda>i. (i, True)) ids @ ([], True) # map (\<lambda>m. (m, True)) xs @ (x, False) # later"
    using assms(3,4) by (simp add: answer_frames_def x frames_snoc)
  with receive_identities [OF assms(1)] receive_messages [of xs x] p(2) x show ?thesis
    by (simp add: ReceiveMessage_def empty_container_def)
qed

text \<open>
  C35: \<open>Pump\<close> answers the message it receives: it sends the responses of \<open>ProcessMessages\<close> to the
  sender's identities, as one multi-part message, and reports that work was done. The receiver gets
  the identities and the responses in order, but when there is more than one response the first
  arrives twice, since the loop that sends the others begins with it again.
\<close>

theorem pump_answers:
  assumes "inbox (client_sock s) \<noteq> []" "ReceiveMessage (client_sock s) = (True, mc, sock)" "send_results sock = []"
    "ProcessMessages E mc (received mc sock s) = (Inr (), s')" "client_sock s' = sock"
    "list_all2 (\<lambda>e m. serialize_for (cdc E) e True = Some m) (response_vector s') ms"
    "list_all (\<lambda>i. i \<noteq> []) (identities mc)" "inbox peer = drop (length (sent sock)) (sent (client_sock (snd (Pump E s)))) @ later"
  shows "Pump E s = (Inr MakeWorkDone, sends (answer_frames (identities mc) ms) s') \<and>
    (ms \<noteq> [] \<longrightarrow> ReceiveMessage peer =
      (True, \<lparr>identities = identities mc, mc_messages = (if length ms = 1 then ms else hd ms # ms)\<rparr>, peer\<lparr>inbox := later\<rparr>))"
proof -
  have run: "Pump E s = (Inr MakeWorkDone, sends (answer_frames (identities mc) ms) s')"
    using Pump_receives [OF assms(1,2), of E] send_responses_frames [of s' E ms "identities mc"] assms(3-6)
    by (simp add: andThen_Inr ret_def)
  have "list_all (\<lambda>m. m \<noteq> []) ms"
    using assms(6) by (induction rule: list_all2_induct) (auto simp: serialize_for_def ToProtocolZmqMessage_def split: if_splits)
  moreover have "inbox peer = answer_frames (identities mc) ms @ later"
    using assms(5,8) run by (simp add: sends_def)
  ultimately have "ms \<noteq> [] \<longrightarrow> ReceiveMessage peer = (True, \<lparr>identities = identities mc, mc_messages = payload ms\<rparr>, peer\<lparr>inbox := later\<rparr>)"
    using receive_payload [OF assms(7)] by blast
  moreover have "ms \<noteq> [] \<Longrightarrow> payload ms = (if length ms = 1 then ms else hd ms # ms)" by (cases ms; cases "tl ms") (auto simp: payload_def)
  ultimately show ?thesis using run by simp
qed

text \<open>A ping for the processor of the examples.\<close>

definition ping_frames :: "(string \<times> bool) list" where
  "ping_frames = [(''client'', True), ([], True), ([CHR 0x01, CHR 0x5B, CHR ''x''], False)]"

definition ping_rp :: "server_impl rp" where
  "ping_rp = sample_rp\<lparr>client_sock := \<lparr>sent = [], send_results = [], inbox = ping_frames\<rparr>\<rparr>"

lemma does_Ping: "does (dispatch E e 91) s (Inr AUTHORITATIVE) [reply (cdc E) [] PongV1]"
  using does_seq [OF does_respond [of E PongV1 s] does_ret] by (simp add: dispatch_def ProcessPing_def)

lemma pump_answers_witness:
  "\<exists>s' m. Pump sample_env ping_rp = (Inr MakeWorkDone, sends (answer_frames [''client''] [m]) s')"
proof -
  let ?mc = "sample_request (CHR 0x5B)" and ?sock = "\<lparr>sent = [], send_results = [], inbox = []\<rparr> :: socket"
  let ?s = "received ?mc ?sock ping_rp"
  have rcv: "ReceiveMessage (client_sock ping_rp) = (True, ?mc, ?sock)" "inbox (client_sock ping_rp) \<noteq> []"
    by (simp_all add: ping_rp_def ping_frames_def ReceiveMessage_def empty_container_def AddIdentity_def AddMessage_part_def sample_request_def)
  have a: "asks 91 (sample_pb (CHR 0x5B))" using sample_asks [of "CHR 0x5B"] by simp
  have "answers_via (to_impl (impl_state ?s)) sample_env ?mc ?s [reply sample_codec (tag (sample_pb (CHR 0x5B))) PongV1]"
    using answers_handler [where E = sample_env and s = ?s, OF sample_frame(1) _ a does_Ping] sample_frame(2) by (simp add: answers_with_same)
  from answers_client [OF this] obtain s' ts where s': "ProcessMessages sample_env ?mc ?s = (Inr (), s')" "client_sock s' = ?sock"
    "length ts = 1" "response_vector s' = made [reply sample_codec (tag (sample_pb (CHR 0x5B))) PongV1] ts"
    by (auto simp: received_def)
  then obtain e where e: "response_vector s' = [e]" by (cases ts) (auto simp: made_def)
  obtain m where m: "serialize_for sample_codec e True = Some m" by (simp add: serialize_for_def ToProtocolZmqMessage_def)
  obtain peer :: socket where peer: "inbox peer = drop (length (sent ?sock)) (sent (client_sock (snd (Pump sample_env ping_rp)))) @ []"
    by (rule that [of "\<lparr>sent = [], send_results = [], inbox = sent (client_sock (snd (Pump sample_env ping_rp)))\<rparr>"]) simp
  from pump_answers [OF rcv(2,1) _ s'(1,2) _ _ peer, of "[m]"] e m show ?thesis by (auto simp: sample_request_def)
qed

end
