(* ===== verification/Request_Stream.thy ===== *)
theory Request_Stream
  imports Request_Answers Store_Write
begin

text \<open>
  Requests for a segment of a stream (\<open>RequestProcessor::ProcessGetStream\<close>): which envelopes of a stored
  stream are sent for an offset and limits, between which start and end messages.
\<close>

section \<open>The envelopes of a segment\<close>

text \<open>
  \<open>within c b n pbs\<close>: from \<open>pbs\<close>, at most \<open>n\<close> envelopes, up to and including the first that is larger than
  what is left of \<open>b\<close> bytes. \<open>segment c B N pbs\<close>: the first envelope always, and the further ones when
  the limits leave room behind it.
\<close>

fun within :: "codec \<Rightarrow> nat \<Rightarrow> nat \<Rightarrow> EnvelopePB list \<Rightarrow> EnvelopePB list" where
  "within c b n [] = []"
| "within c b 0 (pb # pbs) = []"
| "within c b (Suc n) (pb # pbs) =
     pb # (let k = length (record_bytes c pb) in if k > b then [] else within c (b - k) n pbs)"

definition more_envelopes :: "u32 \<Rightarrow> nat" where
  "more_envelopes N = unat (N - 1)"

definition segment :: "codec \<Rightarrow> u32 \<Rightarrow> u32 \<Rightarrow> EnvelopePB list \<Rightarrow> EnvelopePB list" where
  "segment c B N pbs =
     (case pbs of
        [] \<Rightarrow> []
      | pb # pbs \<Rightarrow>
          let k = length (record_bytes c pb) in
          pb # (if k < unat B then within c (unat B - k) (more_envelopes N) pbs else []))"

definition records_length :: "codec \<Rightarrow> EnvelopePB list \<Rightarrow> nat" where
  "records_length c pbs = length (concat (map (record_bytes c) pbs))"

lemma records_length_simps [simp]:
  "records_length c [] = 0" "records_length c (pb # pbs) = length (record_bytes c pb) + records_length c pbs"
  "records_length c (xs @ ys) = records_length c xs + records_length c ys"
  by (simp_all add: records_length_def)

lemma stream_bytes_length: "length (stream_bytes c pbs) = Suc (records_length c pbs)"
  by (simp add: stream_bytes_def records_length_def)

lemma within_pos:
  "0 < n \<Longrightarrow> within c b n (pb # pbs) =
     pb # (if length (record_bytes c pb) > b then [] else within c (b - length (record_bytes c pb)) (n - 1) pbs)"
  by (cases n) (simp_all add: Let_def)

lemma within_prefix: "\<exists>zs. pbs = within c b n pbs @ zs"
  by (induction c b n pbs rule: within.induct) (auto simp: Let_def)

lemma within_length: "length (within c b n pbs) \<le> n"
  by (induction c b n pbs rule: within.induct) (auto simp: Let_def)

lemma within_bytes: "records_length c (butlast (within c b n pbs)) \<le> b"
proof (induction c b n pbs rule: within.induct)
  case (3 c b n pb pbs)
  then show ?case
    by (cases "within c (b - length (record_bytes c pb)) n pbs") (auto simp: Let_def)
qed simp_all

lemma segment_prefix: "pbs \<noteq> [] \<Longrightarrow> segment c B N pbs \<noteq> [] \<and> (\<exists>zs. pbs = segment c B N pbs @ zs)"
  using within_prefix by (auto simp: segment_def Let_def split: list.split)

lemma more_envelopes_less: "N \<noteq> 0 \<Longrightarrow> Suc (more_envelopes N) = unat N"
proof -
  assume n: "N \<noteq> 0"
  then have "1 \<le> unat N" by (simp add: Suc_leI unat_gt_0)
  with n show ?thesis by (auto simp: more_envelopes_def unat_sub_if')
qed

lemma segment_length: "N \<noteq> 0 \<Longrightarrow> length (segment c B N pbs) \<le> unat N"
  using within_length more_envelopes_less [of N] unat_gt_0 [of N]
  by (auto simp: segment_def Let_def Suc_le_eq less_Suc_eq_le simp flip: more_envelopes_less split: list.split)

lemma segment_bytes: "records_length c (butlast (segment c B N pbs)) \<le> unat B"
proof (cases pbs)
  case (Cons pb ps)
  let ?w = "within c (unat B - length (record_bytes c pb)) (more_envelopes N) ps"
  have "records_length c (butlast ?w) \<le> unat B - length (record_bytes c pb)" by (rule within_bytes)
  with Cons show ?thesis by (cases ?w) (auto simp: segment_def Let_def)
qed (simp add: segment_def)

section \<open>Reading a segment\<close>

lemma NextEnvelopeSize_again: "NextEnvelopeSize c s = (n, s') \<Longrightarrow> NextEnvelopeSize c s' = (n, s')"
  by (auto simp: NextEnvelopeSize_def split: if_splits option.splits)

lemma ReadEnvelope_next: "NextEnvelopeSize c s = (n, s') \<Longrightarrow> ReadEnvelope c e s' = ReadEnvelope c e s"
  by (simp add: ReadEnvelope_def NextEnvelopeSize_again)

lemma NextEnvelopeSize_record:
  assumes "sound_record c pb" "rest s = record_bytes c pb @ r" "\<not> have_next_size s"
  obtains s' where "NextEnvelopeSize c s = (word_of_nat (length (EnvelopeBytes c pb)), s')"
    "(word_of_nat (length (EnvelopeBytes c pb)) :: u32) \<noteq> 0"
proof -
  let ?n = "length (EnvelopeBytes c pb)" and ?w = "word_of_nat (length (EnvelopeBytes c pb)) :: u32"
  have h: "0 < ?n" "?n < 2 ^ 28" "ReadVarint32 c (rest s) = Some (?w, EnvelopeBytes c pb @ r)"
    using assms by (auto simp: sound_record_def Let_def record_bytes_def)
  have "?w \<noteq> 0" using h(1,2) by (simp add: word_of_nat_neq_0)
  with h(3) assms(3) that show thesis by (simp add: NextEnvelopeSize_def)
qed

lemma record_small: "sound_record c pb \<Longrightarrow> length (record_bytes c pb) < 2 ^ 32"
  by (auto simp: sound_record_def Let_def record_bytes_def varint_length_def)

lemma record_word: "sound_record c pb \<Longrightarrow> unat (word_of_nat (length (record_bytes c pb)) :: u32) = length (record_bytes c pb)"
  by (rule unat_word_of_nat) (rule record_small)

text \<open>One envelope off the front of a sound stream, as the handler reads it: first the size, then the envelope.\<close>

lemma read_one:
  assumes "sound_record c pb" "rest s = record_bytes c pb @ r" "\<not> have_next_size s"
  obtains n s1 s2 where "NextEnvelopeSize c s = (n, s1)" "n \<noteq> 0"
    "ReadEnvelope c e s1 = ((True, e\<lparr>messages := None, envelope := pb\<rparr>, word_of_nat (length (record_bytes c pb))), s2)"
    "rest s2 = r" "\<not> have_next_size s2" "file_bytes s2 = file_bytes s"
    "offset s2 = offset s + int (length (record_bytes c pb))"
proof -
  let ?n = "length (EnvelopeBytes c pb)"
  obtain s1 where s1: "NextEnvelopeSize c s = (word_of_nat ?n, s1)" "(word_of_nat ?n :: u32) \<noteq> 0"
    using NextEnvelopeSize_record [OF assms] .
  have h: "0 < ?n" "?n < 2 ^ 28" "length (WriteVarint32 c (word_of_nat ?n)) = varint_length ?n"
    using assms(1) by (auto simp: sound_record_def Let_def)
  have "unat (record_size (word_of_nat ?n)) = length (record_bytes c pb)"
    using record_size_word [OF h(1,2)] h(3) by (simp add: record_bytes_def)
  then have "record_size (word_of_nat ?n) = (word_of_nat (length (record_bytes c pb)) :: u32)"
    using record_word [OF assms(1)] by (simp add: word_unat_eq_iff)
  with ReadEnvelope_record [OF assms, of e] ReadEnvelope_next [OF s1(1), of e] s1 that show thesis by metis
qed

lemma segment_loop_within:
  assumes "list_all (sound_record c) pbs" "rest s = concat (map (record_bytes c) pbs)" "\<not> have_next_size s"
    "ReadVarint32 c [] = None" "n \<noteq> 0"
  shows "\<exists>s'. segment_loop c s env b n br er acc =
      (s', br + word_of_nat (records_length c (within c (unat b) (unat n) pbs)), er + word_of_nat (length (within c (unat b) (unat n) pbs)),
       acc @ map of_pb (within c (unat b) (unat n) pbs)) \<and>
    offset s' = offset s + int (records_length c (within c (unat b) (unat n) pbs))"
  using assms
proof (induction pbs arbitrary: s env b n br er acc)
  case Nil
  then have "NextEnvelopeSize c s = (0, s)" by (simp add: NextEnvelopeSize_def)
  then show ?case by (simp add: segment_loop.simps)
next
  case (Cons pb pbs)
  let ?k = "length (record_bytes c pb)"
  have snd: "sound_record c pb" and rest: "rest s = record_bytes c pb @ concat (map (record_bytes c) pbs)"
    using Cons.prems by simp_all
  obtain m s1 s2 where s: "NextEnvelopeSize c s = (m, s1)" "m \<noteq> 0"
    "ReadEnvelope c env s1 = ((True, env\<lparr>messages := None, envelope := pb\<rparr>, word_of_nat ?k), s2)"
    "rest s2 = concat (map (record_bytes c) pbs)" "\<not> have_next_size s2" "offset s2 = offset s + int ?k"
    using read_one [OF snd rest Cons.prems(3), of env] by metis
  obtain u where u: "unat n = Suc u" using Cons.prems(5) unat_gt_0 [of n] by (cases "unat n") auto
  note step = segment_loop.simps [of c s env b n br er acc]
  consider "word_of_nat ?k > b" | "\<not> word_of_nat ?k > b" "n = 1" | "\<not> word_of_nat ?k > b" "n \<noteq> 1" by blast
  then show ?case
  proof cases
    case 1
    then have "?k > unat b" using record_word [OF snd] by (simp add: word_less_nat_alt)
    with 1 u s show ?thesis by (auto simp: step copy_Envelope_def)
  next
    case 2
    then have "\<not> ?k > unat b" "u = 0" using record_word [OF snd] u by (simp_all add: word_less_nat_alt)
    with 2 u s show ?thesis
      using segment_loop.simps [of c s env b 1 br er acc] by (cases pbs) (auto simp: copy_Envelope_def)
  next
    case 3
    then have le: "?k \<le> unat b" using record_word [OF snd] by (simp add: word_less_nat_alt)
    have b: "unat (b - word_of_nat ?k) = unat b - ?k"
      using le record_word [OF snd] by (simp add: unat_sub word_le_nat_alt)
    have n: "unat (n - 1) = u" "n - 1 \<noteq> 0"
      using u more_envelopes_less [OF Cons.prems(5)] 3(2) by (auto simp: more_envelopes_def)
    have l: "list_all (sound_record c) pbs" using Cons.prems(1) by simp
    let ?w = "within c (unat b - ?k) u pbs"
    obtain s3 where s3: "segment_loop c s2 (env\<lparr>messages := None, envelope := pb\<rparr>) (b - word_of_nat ?k) (n - 1) (br + word_of_nat ?k) (er + 1)
          (acc @ [of_pb pb]) =
        (s3, br + word_of_nat ?k + word_of_nat (records_length c ?w), er + 1 + word_of_nat (length ?w), acc @ [of_pb pb] @ map of_pb ?w)"
      "offset s3 = offset s2 + int (records_length c ?w)"
      using Cons.IH [OF l s(4,5) Cons.prems(4) n(2), of "env\<lparr>messages := None, envelope := pb\<rparr>" "b - word_of_nat ?k"
          "br + word_of_nat ?k" "er + 1" "acc @ [of_pb pb]"] b n(1) by auto
    have "within c (unat b) (unat n) (pb # pbs) = pb # ?w" using u le by simp
    with 3 s s3 show ?thesis by (simp add: step copy_Envelope_def algebra_simps)
  qed
qed
section \<open>The responses of a segment\<close>

text \<open>
  The offset at which the envelopes behind \<open>xs\<close> start; for the first envelope a client may also give
  zero, and the reader is then where it is after the version byte.
\<close>

definition starts :: "codec \<Rightarrow> EnvelopePB list \<Rightarrow> u64 \<Rightarrow> bool" where
  "starts c xs start \<longleftrightarrow>
     start = 0 \<and> xs = [] \<or> start = word_of_nat (length (stream_bytes c xs)) \<and> length (stream_bytes c xs) < 2 ^ 63"

definition limit :: "u32 \<Rightarrow> u32 option \<Rightarrow> u32" where
  "limit server client = (case client of Some n \<Rightarrow> if n < server then n else server | None \<Rightarrow> server)"

definition segment_responses :: "codec \<Rightarrow> string list \<Rightarrow> string \<Rightarrow> u64 \<Rightarrow> EnvelopePB list \<Rightarrow> EnvelopePB list \<Rightarrow> response list" where
  "segment_responses c tags path start xs seg =
     reply c tags (StreamSegmentStartV1 path start) # map raw seg @
     [reply c [] (StreamSegmentEndV1 (word_of_nat (length (stream_bytes c (xs @ seg)))) (word_of_nat (records_length c seg))
       (word_of_nat (length seg)))]"

definition no_envelopes :: Message where
  "no_envelopes = Error INVALID_STREAM_OFFSET ''no envelopes found at requested stream offset''"

lemma starts_offset:
  assumes "starts c xs start" "start \<noteq> 0"
  shows "uint start = int (length (stream_bytes c xs))" "to_int64 (uint start) = int (length (stream_bytes c xs))"
proof -
  have s: "start = word_of_nat (length (stream_bytes c xs))" "length (stream_bytes c xs) < 2 ^ 63"
    using assms by (auto simp: starts_def)
  then have "unat start = length (stream_bytes c xs)"
    by (simp add: unat_of_nat take_bit_nat_eq_self del: of_nat_numeral)
  then show u: "uint start = int (length (stream_bytes c xs))" by (simp add: uint_nat)
  from s(2) have "int (length (stream_bytes c xs)) < 2 ^ 63" by simp
  with u show "to_int64 (uint start) = int (length (stream_bytes c xs))"
    by (simp add: to_int64_def mod_pos_pos_trivial)
qed

lemma seek_start:
  assumes "starts c xs start" "file_bytes s = stream_bytes c (xs @ ys)" "rest s = drop 1 (file_bytes s)" "offset s = 1"
    "\<not> have_next_size s"
  obtains t where "(if start = 0 then Inr (True, s)
       else (case SetAbsoluteOffset (to_int64 (uint start)) s of (Inl x, _) \<Rightarrow> Inl x | (Inr ok, stream) \<Rightarrow> Inr (ok, stream))) = Inr (True, t)"
    "rest t = concat (map (record_bytes c) ys)" "offset t = int (length (stream_bytes c xs))" "\<not> have_next_size t"
proof (cases "start = 0")
  case True
  have "length (stream_bytes c xs) < 2 ^ 63 \<Longrightarrow> (word_of_nat (length (stream_bytes c xs)) :: u64) \<noteq> 0"
  proof -
    assume "length (stream_bytes c xs) < 2 ^ 63"
    then have "unat (word_of_nat (length (stream_bytes c xs)) :: u64) = length (stream_bytes c xs)"
      by (simp add: unat_of_nat take_bit_nat_eq_self del: of_nat_numeral)
    then show ?thesis by (auto simp: stream_bytes_def)
  qed
  with assms(1) True have "xs = []" by (auto simp: starts_def)
  with assms True that show thesis by (simp add: stream_bytes_def)
next
  case False
  then show thesis
    using that [of "s\<lparr>rest := drop (length (stream_bytes c xs)) (file_bytes s), offset := int (length (stream_bytes c xs))\<rparr>"]
      starts_offset [OF assms(1)] assms
    by (simp add: SetAbsoluteOffset_def) (simp add: stream_bytes_def)
qed

lemma does_append_raw:
  "does (modify (\<lambda>s. s\<lparr>response_vector := response_vector t @ map of_pb pbs\<rparr>)) t (Inr ()) (map raw pbs)"
proof -
  have "made (map raw pbs) (replicate (length pbs) 0) = map of_pb pbs"
    by (induction pbs) (simp_all add: made_def raw_def)
  then show ?thesis
    by (auto simp: does_def pushes_def quiet_def intro!: exI [of _ "replicate (length pbs) 0"])
qed

lemma add_tags_fresh: "add_tags tags (add_to_envelope c m (new_Envelope t)) = of_pb (reply c tags m t)"
proof -
  have "messages (add_to_envelope c m (new_Envelope t)) = None"
    by (simp add: add_to_envelope_def AddMessage_def new_Envelope_def of_pb_def split: option.split)
  then have e: "add_to_envelope c m (new_Envelope t) = of_pb (envelope (add_to_envelope c m (new_Envelope t)))"
    by (cases "add_to_envelope c m (new_Envelope t)") (simp add: of_pb_def)
  show ?thesis by (subst e) (simp add: add_tags_of_pb reply_def)
qed

lemma does_push_tagged:
  "does (push_back (add_tags tags (add_to_envelope (cdc E) m (new_Envelope t)))) s (Inr ()) [reply (cdc E) tags m]"
proof -
  have "pushes [reply (cdc E) tags m] s (s\<lparr>response_vector := response_vector s @ [of_pb (reply (cdc E) tags m t)]\<rparr>)"
    by (auto simp: pushes_def quiet_def made_def intro!: exI [of _ "[t]"])
  then show ?thesis by (simp add: does_def push_back_def add_tags_fresh copy_Envelope_def of_pb_def)
qed

lemma segment_Cons:
  "segment c B N (pb # pbs) =
     pb # (if length (record_bytes c pb) < unat B then within c (unat B - length (record_bytes c pb)) (unat (N - 1)) pbs else [])"
  by (simp add: segment_def Let_def more_envelopes_def)

text \<open>The part behind the first envelope: the loop, when the limits allow it, and the end message.\<close>

lemma does_sequence_end:
  assumes "list_all (sound_record c) (pb # pbs)" "rest t = concat (map (record_bytes c) pbs)" "\<not> have_next_size t"
    "ReadVarint32 c [] = None" "offset t = int (length (stream_bytes c (xs @ [pb])))" "cdc E = c"
  shows "does (andThen (gets response_vector) (\<lambda>acc.
           let envelopes_left = N - 1;
               (stream, bytes_read, envelopes_read, acc) =
                 (if word_of_nat (length (record_bytes c pb)) < B \<and> envelopes_left \<noteq> 0
                  then segment_loop c t env (B - word_of_nat (length (record_bytes c pb))) envelopes_left
                         (word_of_nat (length (record_bytes c pb))) 1 acc
                  else (t, word_of_nat (length (record_bytes c pb)), 1, acc)) in
           seq (modify (\<lambda>s. s\<lparr>response_vector := acc\<rparr>))
             (respond E (StreamSegmentEndV1 (word_of_int (offset stream)) bytes_read envelopes_read)))) s (Inr ())
     (map raw (tl (segment c B N (pb # pbs))) @
      [reply c [] (StreamSegmentEndV1 (word_of_nat (length (stream_bytes c (xs @ segment c B N (pb # pbs)))))
         (word_of_nat (records_length c (segment c B N (pb # pbs)))) (word_of_nat (length (segment c B N (pb # pbs)))))])"
proof -
  let ?k = "length (record_bytes c pb)" and ?w = "word_of_nat (length (record_bytes c pb)) :: u32"
  define more where "more = (if ?k < unat B then within c (unat B - ?k) (unat (N - 1)) pbs else [])"
  have seg: "segment c B N (pb # pbs) = pb # more" by (simp add: segment_Cons more_def)
  have w: "unat ?w = ?k" using assms(1) by (simp add: record_word)
  have less: "?w < B \<longleftrightarrow> ?k < unat B" by (simp add: word_less_nat_alt w)
  have "\<exists>u. (if ?w < B \<and> N - 1 \<noteq> 0 then segment_loop c t env (B - ?w) (N - 1) ?w 1 (response_vector s)
        else (t, ?w, 1, response_vector s)) =
      (u, ?w + word_of_nat (records_length c more), 1 + word_of_nat (length more), response_vector s @ map of_pb more) \<and>
      offset u = offset t + int (records_length c more)"
  proof (cases "?w < B \<and> N - 1 \<noteq> 0")
    case True
    then have "unat (B - ?w) = unat B - ?k" by (simp add: unat_sub less_imp_le w)
    with True less segment_loop_within [of c pbs t "N - 1" env "B - ?w" ?w 1 "response_vector s"] assms(1-4)
    show ?thesis by (simp add: more_def)
  next
    case False
    then have "more = []" using less by (cases pbs) (auto simp: more_def)
    with False show ?thesis by auto
  qed
  then obtain u where u: "(if ?w < B \<and> N - 1 \<noteq> 0 then segment_loop c t env (B - ?w) (N - 1) ?w 1 (response_vector s)
        else (t, ?w, 1, response_vector s)) =
      (u, ?w + word_of_nat (records_length c more), 1 + word_of_nat (length more), response_vector s @ map of_pb more)"
      "offset u = offset t + int (records_length c more)" by blast
  have off: "(word_of_int (offset u) :: u64) = word_of_nat (length (stream_bytes c (xs @ pb # more)))"
    using u(2) assms(5) by (simp add: stream_bytes_length)
  have "does (seq (modify (\<lambda>q. q\<lparr>response_vector := response_vector s @ map of_pb more\<rparr>))
      (respond E (StreamSegmentEndV1 (word_of_int (offset u)) (?w + word_of_nat (records_length c more)) (1 + word_of_nat (length more))))) s
    (Inr ()) (map raw more @ [reply (cdc E) [] (StreamSegmentEndV1 (word_of_int (offset u)) (?w + word_of_nat (records_length c more)) (1 + word_of_nat (length more)))])"
    by (rule does_seq [OF does_append_raw does_respond])
  with u(1) off assms(6) show ?thesis by (simp add: seg Let_def)
qed

lemma does_sequence:
  assumes "list_all (sound_record (cdc E)) (pb # pbs)" "rest t = concat (map (record_bytes (cdc E)) pbs)" "\<not> have_next_size t"
    "ReadVarint32 (cdc E) [] = None" "offset t = int (length (stream_bytes (cdc E) (xs @ [pb])))" "envelope env = pb"
  shows "does (send_sequence E tags path start B N env (word_of_nat (length (record_bytes (cdc E) pb))) t) s (Inr ())
    (segment_responses (cdc E) tags path start xs (segment (cdc E) B N (pb # pbs)))"
proof -
  have seg: "segment (cdc E) B N (pb # pbs) = pb # tl (segment (cdc E) B N (pb # pbs))" by (simp add: segment_Cons)
  have raw: "does (push_back env) s (Inr ()) [raw pb]" for s
    using does_push [of env s] assms(6) by simp
  note parts = does_seq [OF does_push_tagged does_seq [OF raw does_sequence_end [OF assms(1-5) refl]]]
  show ?thesis
    unfolding send_sequence_def segment_responses_def
    by (rule does_fresh) (subst seg, use parts in \<open>simp add: Let_def\<close>)
qed

definition segment_answer :: "codec \<Rightarrow> string list \<Rightarrow> string \<Rightarrow> u64 \<Rightarrow> u32 \<Rightarrow> u32 \<Rightarrow> EnvelopePB list \<Rightarrow> EnvelopePB list \<Rightarrow> response list" where
  "segment_answer c tags path start B N xs ys =
     (if ys = [] then [reply c [] no_envelopes] else segment_responses c tags path start xs (segment c B N ys))"

lemma does_send_segment:
  assumes "list_all (sound_record (cdc E)) ys" "ReadVarint32 (cdc E) [] = None" "starts (cdc E) xs start"
    "file_bytes i = stream_bytes (cdc E) (xs @ ys)" "rest i = drop 1 (file_bytes i)" "offset i = 1" "\<not> have_next_size i"
  shows "does (send_segment E tags path start max_bytes max_envs i) s (Inr ())
    (segment_answer (cdc E) tags path start (limit (get_stream_max_bytes s) max_bytes) (limit (get_stream_max_envelopes s) max_envs) xs ys)"
proof -
  obtain t where t: "(if start = 0 then Inr (True, i)
       else (case SetAbsoluteOffset (to_int64 (uint start)) i of (Inl x, _) \<Rightarrow> Inl x | (Inr ok, stream) \<Rightarrow> Inr (ok, stream))) = Inr (True, t)"
    "rest t = concat (map (record_bytes (cdc E)) ys)" "offset t = int (length (stream_bytes (cdc E) xs))" "\<not> have_next_size t"
    using seek_start [OF assms(3-7)] .
  let ?B = "limit (get_stream_max_bytes s) max_bytes" and ?N = "limit (get_stream_max_envelopes s) max_envs"
  show ?thesis
  proof (cases ys)
    case Nil
    then have "NextEnvelopeSize (cdc E) t = (0, t)" using t assms(2) by (simp add: NextEnvelopeSize_def)
    with Nil t(1) show ?thesis
      by (simp add: send_segment_def segment_answer_def no_envelopes_def does_def Let_def)
        (fold does_def, intro does_fresh does_quiet [OF does_LOG] does_error )
  next
    case (Cons pb pbs)
    have one: "sound_record (cdc E) pb" "rest t = record_bytes (cdc E) pb @ concat (map (record_bytes (cdc E)) pbs)" using assms(1) t(2) Cons by simp_all
    obtain n t1 where n: "NextEnvelopeSize (cdc E) t = (n, t1)" "n \<noteq> 0" using read_one [OF one t(4)] by metis
    have run: "does (andThen fresh (\<lambda>env.
        let ((ok, env, envelope_size), stream) = (if n = 0 then ((False, env, 0), t1) else ReadEnvelope (cdc E) env t1) in
        if \<not> ok then
          seq (LOG_MESSAGE E LogGetInvalidOffset)
            (PopulateErrorResponse E INVALID_STREAM_OFFSET ''no envelopes found at requested stream offset'')
        else send_sequence E tags path start ?B ?N env envelope_size stream)) s' (Inr ())
      (segment_responses (cdc E) tags path start xs (segment (cdc E) ?B ?N (pb # pbs)))" for s'
    proof (rule does_fresh)
      fix tt s''
      obtain s2 where s2: "ReadEnvelope (cdc E) (new_Envelope tt) t1 =
          ((True, (new_Envelope tt)\<lparr>messages := None, envelope := pb\<rparr>, word_of_nat (length (record_bytes (cdc E) pb))), s2)"
        "rest s2 = concat (map (record_bytes (cdc E)) pbs)" "\<not> have_next_size s2" "offset s2 = offset t + int (length (record_bytes (cdc E) pb))"
        using read_one [OF one t(4), of "new_Envelope tt"] n by auto
      have "offset s2 = int (length (stream_bytes (cdc E) (xs @ [pb])))" using s2(4) t(3) by (simp add: stream_bytes_length)
      from does_sequence [OF assms(1) [unfolded Cons] s2(2,3) assms(2) this] n(2)
      show "does (let ((ok, env, envelope_size), stream) = (if n = 0 then ((False, new_Envelope tt, 0), t1) else ReadEnvelope (cdc E) (new_Envelope tt) t1) in
        if \<not> ok then
          seq (LOG_MESSAGE E LogGetInvalidOffset)
            (PopulateErrorResponse E INVALID_STREAM_OFFSET ''no envelopes found at requested stream offset'')
        else send_sequence E tags path start ?B ?N env envelope_size stream) s'' (Inr ())
      (segment_responses (cdc E) tags path start xs (segment (cdc E) ?B ?N (pb # pbs)))" by (simp add: s2(1))
    qed
    have "does (andThen fresh (\<lambda>_. let (envelope_size, stream) = NextEnvelopeSize (cdc E) t in
      andThen fresh (\<lambda>env.
        let ((ok, env, envelope_size), stream) = (if envelope_size = 0 then ((False, env, 0), stream) else ReadEnvelope (cdc E) env stream) in
        if \<not> ok then
          seq (LOG_MESSAGE E LogGetInvalidOffset)
            (PopulateErrorResponse E INVALID_STREAM_OFFSET ''no envelopes found at requested stream offset'')
        else send_sequence E tags path start ?B ?N env envelope_size stream))) s (Inr ())
      (segment_responses (cdc E) tags path start xs (segment (cdc E) ?B ?N (pb # pbs)))"
      by (rule does_fresh) (use run n(1) in simp)
    then show ?thesis
      unfolding limit_def by (simp add: send_segment_def segment_answer_def does_def t(1) Cons Let_def)
  qed
qed

section \<open>The answer to a request\<close>

lemma does_to_store:
  assumes "h (rp_store s) = (Inr x, st)" "does (f x) (s\<lparr>rp_store := st\<rparr>) r fs"
  shows "does_via (to_store st) (andThen (on_store h) f) s r fs"
  using assms by (auto simp: does_via_def does_def andThen_def on_store_def)

text \<open>A stream file of the store is found by every check and opened behind its version byte.\<close>

lemma stored_stream:
  assumes "sds_inv st" "is_name b" "is_name t" "is_name n" "node_at (files st) (stream_file st b t n) = Some (Reg (CHR 0x01 # x))"
  obtains i where "path_problem (sds_ops c) st (StreamPath b t n) 3 = None"
    "GetInputStream (sds_ops c) (StreamPath b t n) st =
       (Inr (Some i), st\<lparr>input_streams := input_streams st @ [StreamFilesystemPath st (StreamPath b t n)]\<rparr>)"
    "file_bytes i = CHR 0x01 # x" "rest i = drop 1 (file_bytes i)" "offset i = 1" "\<not> have_next_size i"
proof -
  have p: "parse_path (StreamPath b t n) = Some (b, t, n)"
    using path_denotes.stream [OF assms(2-4), folded parse_path_iff] by (simp add: path_defs)
  have wf: "wf_fs (files st)" and ok: "allowed (files st) q" and z: "CHR 0x00 \<notin> set (root_path st)" for q
    using assms(1) by (simp_all add: sds_inv_def allowed_def)
  have f: "node_at (files st) (root_components st @ [b, t, n @ extension]) = Some (Reg (CHR 0x01 # x))"
    using assms(5) by (simp add: stream_file_def)
  have d2: "node_at (files st) (root_components st @ [b, t]) = Some Dir"
    using dir_prefix [OF wf, of "root_components st @ [b]" t "n @ extension"] f by simp
  have d1: "node_at (files st) (root_components st @ [b]) = Some Dir"
    using dir_prefix [OF wf] d2 by blast
  have "path_problem (sds_ops c) st (StreamPath b t n) 3 = None"
    using sds_exists [OF assms(1,2)] assms(3,4) f d1 d2 is_name_nonempty [OF assms(2)] is_name_nonempty [OF assms(3)] is_name_nonempty [OF assms(4)]
    by (simp add: path_problem_def p parts_def depth_simps exists_at_def sds_ops_def)
  moreover have "components (StreamFilesystemPath st (StreamPath b t n)) = stream_file st b t n"
    using store_components(3) [OF z assms(2,3) stream_file_plain [OF assms(4)]] by (simp add: StreamFilesystemPath_eq stream_file_def)
  then have "node_at (files st) (components (StreamFilesystemPath st (StreamPath b t n))) = Some (Reg (CHR 0x01 # x))"
    using assms(5) by simp
  from new_FileInputStream_stream [OF this ok, of 0] obtain i where
    "new_FileInputStream (files st) (StreamFilesystemPath st (StreamPath b t n)) 0 = Inr i" "\<not> have_next_size i"
    "file_bytes i = CHR 0x01 # x" "rest i = x" "offset i = 1" by auto
  ultimately show thesis
    using that [of i] by (simp add: GetInputStream_def p sds_ops_def andThen_def sds_OpenInputStream_def ret_run)
qed

definition after_open :: "Store \<Rightarrow> string \<Rightarrow> string \<Rightarrow> string \<Rightarrow> Store" where
  "after_open st b t n = st\<lparr>input_streams := input_streams st @ [StreamFilesystemPath st (StreamPath b t n)]\<rparr>"

lemma does_via_end:
  assumes "steady u" "does_via u body s (Inr ()) fs"
  shows "does_via u (seq body (seq (LOG_MESSAGE E z) (ret AUTHORITATIVE))) s (Inr AUTHORITATIVE) fs"
proof -
  have "does (seq (LOG_MESSAGE E z) (ret AUTHORITATIVE)) s' (Inr AUTHORITATIVE) []" for s'
    by (rule does_quiet [OF does_LOG does_ret])
  from does_via_after [OF assms(2), of "\<lambda>_. seq (LOG_MESSAGE E z) (ret AUTHORITATIVE)", OF this] show ?thesis by simp
qed

lemma does_GetStream:
  assumes "request_of E pb = Some (GetStreamSegmentV1 (Some (StreamPath b t n)) (Some start) mb me)" "vstore E = sds_ops (cdc E)"
    "sds_inv (rp_store s)" "is_name b" "is_name t" "is_name n"
    "node_at (files (rp_store s)) (stream_file (rp_store s) b t n) = Some (Reg (stream_bytes (cdc E) (xs @ ys)))"
    "list_all (sound_record (cdc E)) ys" "ReadVarint32 (cdc E) [] = None" "starts (cdc E) xs start"
  shows "does_via (to_store (after_open (rp_store s) b t n)) (ProcessGetStream E (of_pb pb)) s (Inr AUTHORITATIVE)
    (segment_answer (cdc E) (tag pb) (StreamPath b t n) start (limit (get_stream_max_bytes s) mb)
      (limit (get_stream_max_envelopes s) me) xs ys)"
proof -
  obtain e' where g: "\<And>s. get_request E (of_pb pb) s = (Inr (request_of E pb, e'), s)" using get_request_run by blast
  obtain i where i: "path_problem (sds_ops (cdc E)) (rp_store s) (StreamPath b t n) 3 = None"
    "GetInputStream (sds_ops (cdc E)) (StreamPath b t n) (rp_store s) = (Inr (Some i), after_open (rp_store s) b t n)"
    "file_bytes i = stream_bytes (cdc E) (xs @ ys)" "rest i = drop 1 (file_bytes i)" "offset i = 1" "\<not> have_next_size i"
    using stored_stream [OF assms(3-6), of "concat (map (record_bytes (cdc E)) (xs @ ys))" "cdc E"] assms(7)
    unfolding stream_bytes_def after_open_def by metis
  let ?st = "after_open (rp_store s) b t n"
  let ?G = "\<lambda>stream. case stream of
      None \<Rightarrow> seq (LOG_MESSAGE E LogGetInvalidStream) (PopulateErrorResponse E PATH_NOT_FOUND ''requested stream could not be found'')
    | Some stream \<Rightarrow> send_segment E (tag pb) (StreamPath b t n) start mb me stream"
  let ?A = "segment_answer (cdc E) (tag pb) (StreamPath b t n) start (limit (get_stream_max_bytes s) mb) (limit (get_stream_max_envelopes s) me) xs ys"
  have opened: "does_via (to_store ?st) (andThen (on_store (GetInputStream (vstore E) (StreamPath b t n))) ?G) s' (Inr ()) ?A"
    if q: "quiet s s'" for s'
    by (rule does_to_store [where x = "Some i"])
      (use i(2) quiet_keeps [OF q] assms(2) does_send_segment [OF assms(8-10) i(3-6), of "tag pb" "StreamPath b t n" mb me "s'\<lparr>rp_store := ?st\<rparr>"]
        in simp_all)
  have check: "does (CheckPath E (StreamPath b t n) True True True) s' (Inr True) []" if "quiet s s'" for s'
    using does_CheckPath_depth [of 3 True True E "StreamPath b t n" s'] i(1) assms(2) quiet_keeps [OF that] by simp
  have body: "does_via (to_store ?st) (andThen (CheckPath E (StreamPath b t n) True True True) (\<lambda>ok.
      if \<not> ok then ret () else andThen (on_store (GetInputStream (vstore E) (StreamPath b t n))) ?G)) s' (Inr ()) ?A"
    if q: "quiet s s'" for s'
    by (rule does_via_quiet [OF steady_store check [OF q]]) (use opened quiet_trans [OF q] in simp)
  have pb: "envelope (of_pb pb) = pb" by (simp add: of_pb_def)
  show ?thesis
    unfolding ProcessGetStream_def
    by (rule does_via_quiet [OF steady_store does_LOG], rule does_via_end [OF steady_store])
      (use body in \<open>simp add: does_via_def andThen_Inr [OF g] assms(1) pb cong: if_cong\<close>)
qed

text \<open>
  C32: a request for a segment of a stored stream, from the offset of one of its envelopes, is answered
  by a start message, the envelopes of the segment as they are stored, and an end message with their
  number, their bytes and the offset behind them, from which the next request goes on. The start
  message carries the tags of the request twice: the handler adds them, and so does
  \<open>ProcessRequest\<close>. At the end of the stream the answer is an error.
\<close>

theorem segment_answered:
  assumes "E = server_env c reg lua" "mc_messages mc \<noteq> []" "request_frame c pb (mc_messages mc ! 0)" "asks 92 pb"
    "request_of E pb = Some (GetStreamSegmentV1 (Some (StreamPath b t n)) (Some start) mb me)"
    "sds_inv (rp_store s)" "is_name b" "is_name t" "is_name n"
    "node_at (files (rp_store s)) (stream_file (rp_store s) b t n) = Some (Reg (stream_bytes c (xs @ ys)))"
    "list_all (sound_record c) ys" "ReadVarint32 c [] = None" "starts c xs start"
  shows "answers_via (to_store (after_open (rp_store s) b t n)) E mc s
    (if ys = [] then [reply c (tag pb) no_envelopes]
     else segment_responses c (tag pb @ tag pb) (StreamPath b t n) start xs
       (segment c (limit (get_stream_max_bytes s) mb) (limit (get_stream_max_envelopes s) me) ys))"
proof -
  have "does_via (to_store (after_open (rp_store s) b t n)) (dispatch E (of_pb pb) 92) (opened s) (Inr AUTHORITATIVE)
    (segment_answer c (tag pb) (StreamPath b t n) start (limit (get_stream_max_bytes s) mb) (limit (get_stream_max_envelopes s) me) xs ys)"
    using does_GetStream [of E pb b t n start mb me "opened s" xs ys] assms(1,5-13) by (simp add: dispatch_def)
  moreover have "request_frame (cdc E) pb (mc_messages mc ! 0)" using assms(1,3) by simp
  ultimately show ?thesis
    using answers_via_handler [OF steady_store assms(2) _ assms(4), where f = "reply c [] no_envelopes" and fs = "[]"]
      answers_via_handler [OF steady_store assms(2) _ assms(4), where f = "reply c (tag pb) (StreamSegmentStartV1 (StreamPath b t n) start)"]
    by (cases "ys = []") (simp_all add: segment_answer_def segment_responses_def)
qed

definition sample_a :: EnvelopePB where
  "sample_a = empty_envelope\<lparr>message := [''a''], message_ns := [1], message_ty := [91]\<rparr>"

definition sample_b :: EnvelopePB where
  "sample_b = empty_envelope\<lparr>message := [''''], message_ns := [1], message_ty := [72]\<rparr>"

lemma sample_stream_bytes: "stream_bytes sample_codec [sample_a, sample_b] = sample_stream"
  "list_all (sound_record sample_codec) [sample_a, sample_b]"
  by (simp_all add: sample_a_def sample_b_def sample_stream_def sound_record_def varint_length_def stream_bytes_def record_bytes_def)
    (simp_all add: char_of_def bit_0)

lemma sample_sizes: "length (record_bytes sample_codec sample_a) = 3" "length (record_bytes sample_codec sample_b) = 2"
  by (simp_all add: sample_a_def sample_b_def record_bytes_def)

lemma segment_answered_witness:
  "answers_via (to_store (after_open sample_store ''b'' ''s'' ''n'')) sample_env (sample_request (CHR 0x5C)) sample_rp
     (segment_responses sample_codec [] ''/b/s/n'' 1 [] [sample_a, sample_b])"
proof -
  let ?pb = "sample_pb (CHR 0x5C)"
  have p: "StreamPath ''b'' ''s'' ''n'' = ''/b/s/n''" by (simp add: path_defs)
  have r: "request_of sample_env ?pb = Some (GetStreamSegmentV1 (Some (StreamPath ''b'' ''s'' ''n'')) (Some 1) None None)" "asks 92 ?pb"
    using sample_request_of [of "CHR 0x5C"] sample_asks [of "CHR 0x5C"] by (simp_all add: sample_types_def p)
  have f: "node_at (files (rp_store sample_rp)) (stream_file (rp_store sample_rp) ''b'' ''s'' ''n'') =
      Some (Reg (stream_bytes sample_codec ([] @ [sample_a, sample_b])))"
    by (simp add: sample_stream_bytes sample_rp_def sample_store_def stream_file_def root_components_def components_def c_str_def
        extension_def node_at_def)
  have i: "sds_inv (rp_store sample_rp)" using sample_store_inv by (simp add: sample_rp_def)
  have st: "starts sample_codec [] 1" by (simp add: starts_def stream_bytes_def)
  have g: "segment sample_codec 256000 10000 [sample_a, sample_b] = [sample_a, sample_b]"
    by (simp add: segment_def sample_sizes more_envelopes_def within_pos)
  from segment_answered [OF sample_env_def sample_frame r(2,1) i sample_names f sample_stream_bytes(2) _ st] g p show ?thesis
    by (simp add: sample_rp_def limit_def sample_pb_def empty_envelope_def)
qed

text \<open>
  C33: the limits of a segment. What is sent from a readable offset is a non-empty run of the stream's
  next envelopes in their order. All but the last fit into the byte limit, the smaller of the server's
  and the client's, so that only the last may exceed it; and there are no more than the smaller of the
  limits on their number, unless that is zero, which wraps around and is no limit.
\<close>

theorem segment_limits:
  assumes "list_all (sound_record (cdc E)) ys" "ReadVarint32 (cdc E) [] = None" "starts (cdc E) xs start" "ys \<noteq> []"
    "file_bytes i = stream_bytes (cdc E) (xs @ ys)" "rest i = drop 1 (file_bytes i)" "offset i = 1" "\<not> have_next_size i"
  shows "\<exists>seg zs. ys = seg @ zs \<and> seg \<noteq> [] \<and>
    does (send_segment E tags path start mb me i) s (Inr ()) (segment_responses (cdc E) tags path start xs seg) \<and>
    records_length (cdc E) (butlast seg) \<le> unat (limit (get_stream_max_bytes s) mb) \<and>
    (limit (get_stream_max_envelopes s) me = 0 \<or> length seg \<le> unat (limit (get_stream_max_envelopes s) me))"
proof -
  let ?seg = "segment (cdc E) (limit (get_stream_max_bytes s) mb) (limit (get_stream_max_envelopes s) me) ys"
  obtain zs where "ys = ?seg @ zs" "?seg \<noteq> []" using segment_prefix [OF assms(4)] by blast
  with does_send_segment [OF assms(1-3,5-8), of tags path mb me s] assms(4) segment_bytes segment_length show ?thesis
    by (intro exI [of _ ?seg] exI [of _ zs]) (simp add: segment_answer_def, blast)
qed

lemma segment_limits_witness:
  "\<exists>seg zs. [sample_a, sample_b] = seg @ zs \<and> seg \<noteq> [] \<and>
     does (send_segment sample_env [] ''/b/s/n'' 1 (Some 2) None \<lparr>file_bytes = sample_stream, rest = drop 1 sample_stream,
        coded_input_stream_read_bytes = 0, stream_version = Some CHR 0x01, have_next_size = False, next_envelope_size = 0, offset = 1\<rparr>)
       sample_rp (Inr ()) (segment_responses sample_codec [] ''/b/s/n'' 1 [] seg)"
proof -
  have st: "starts sample_codec [] 1" by (simp add: starts_def stream_bytes_def)
  show ?thesis
    using segment_limits [of sample_env "[sample_a, sample_b]" "[]" 1 "\<lparr>file_bytes = sample_stream, rest = drop 1 sample_stream,
        coded_input_stream_read_bytes = 0, stream_version = Some CHR 0x01, have_next_size = False, next_envelope_size = 0, offset = 1\<rparr>"
        "[]" "''/b/s/n''" "Some 2" None sample_rp] st sample_stream_bytes by fastforce
qed

end
