(* ===== verification/Request_Subscribe.thy ===== *)
theory Request_Subscribe
  imports Request_Answers
begin

text \<open>
  Properties of the request processor's subscription requests on the server: what is forwarded to the
  persisted state managers and what the client is told, and the requests that end the process.
\<close>

section \<open>The subscription of a request\<close>

text \<open>The subscription a request asks for, or the error it gets instead.\<close>

definition invalid_path :: "ErrorCode \<times> string" where
  "invalid_path = (INVALID_PATH, ''path not valid'')"

definition lengths_differ :: "ErrorCode \<times> string" where
  "lengths_differ = (FIELD_LENGTHS_DIFFERENT,
     ''lengths of filter_enumeration_namespace and filter_enumeration_type are not identical'')"

fun subscription_of :: "Message \<Rightarrow> (ErrorCode \<times> string) + SubscriptionInfo" where
  "subscription_of (SubscribeStoreChangesV1 paths) =
     (if \<not> list_all ValidatePath paths then Inl invalid_path
      else Inr (new_SubscriptionInfo\<lparr>si_type := STORE_CHANGE, si_paths := whole_store_if_empty paths\<rparr>))"
| "subscription_of (SubscribeEnvelopesV1 paths lua namespaces enum_namespaces enum_types) =
     (if length enum_namespaces \<noteq> length enum_types then Inl lengths_differ
      else if \<not> list_all ValidatePath paths then Inl invalid_path
      else Inr (new_SubscriptionInfo\<lparr>si_type := ENVELOPE, si_filter_enumerations := zip enum_namespaces enum_types,
        si_filter_namespaces := namespaces, si_paths := whole_store_if_empty paths\<rparr>))"
| "subscription_of _ = Inl invalid_path"

fun lua_of :: "Message \<Rightarrow> string option" where
  "lua_of (SubscribeEnvelopesV1 _ lua _ _ _) = lua"
| "lua_of _ = None"

text \<open>The return path: the identities without the first.\<close>

definition return_path :: "'i rp \<Rightarrow> SubscriptionInfo \<Rightarrow> SubscriptionInfo" where
  "return_path s sub = sub\<lparr>si_socket_identifiers := tl (current_request_identities s)\<rparr>"

definition subscribe_handler :: "'i rp_env \<Rightarrow> u32 \<Rightarrow> Envelope \<Rightarrow> ('i rp, ResponseStatus) action" where
  "subscribe_handler E ty e = (if ty = 80 then ProcessSubscribeStoreChanges E e else ProcessSubscribeEnvelopes E e)"

lemma dispatch_subscribe: "ty \<in> {80, 81} \<Longrightarrow> dispatch E e ty = subscribe_handler E ty e"
  by (auto simp: dispatch_def subscribe_handler_def)

definition subscribe_action :: "'i rp_env \<Rightarrow> Message \<Rightarrow> ('i rp, unit) action" where
  "subscribe_action E m =
     (case subscription_of m of
        Inl p \<Rightarrow> PopulateErrorResponse E (fst p) (snd p)
      | Inr sub \<Rightarrow> CallHandleSubscriptionRequest E sub)"

lemma OBTAIN_run:
  "request_of E pb = Some m \<Longrightarrow> \<exists>e'. envelope e' = pb \<and> (\<forall>s. OBTAIN_MESSAGE E (of_pb pb) s = (Inr (Some m, e'), s))"
proof -
  assume r: "request_of E pb = Some m"
  obtain e' where "envelope e' = pb" "\<And>s. get_request E (of_pb pb) s = (Inr (request_of E pb, e'), s)"
    using get_request_run by blast
  with r show ?thesis by (auto simp: OBTAIN_MESSAGE_def andThen_Inr ret_run)
qed

lemma subscribe_run:
  assumes "own_class ty m" "ty \<in> {80, 81}" "request_of E pb = Some m" "lua_of m = None"
  shows "subscribe_handler E ty (of_pb pb) = seq (subscribe_action E m) (ret AUTHORITATIVE)"
proof -
  obtain e' where o: "\<And>s. OBTAIN_MESSAGE E (of_pb pb) s = (Inr (Some m, e'), s)" using OBTAIN_run [OF assms(3)] by blast
  have o': "andThen (OBTAIN_MESSAGE E (of_pb pb)) F = F (Some m, e')" for F :: "Message option \<times> Envelope \<Rightarrow> ('a rp, unit) action"
    by (rule ext) (simp add: andThen_Inr [OF o])
  consider ps where "ty = 80" "m = SubscribeStoreChangesV1 ps" | ps l a b x where "ty = 81" "m = SubscribeEnvelopesV1 ps l a b x"
    using assms(1,2) own_class_cases(7,8) by blast
  then show ?thesis
  proof cases
    case 1
    then show ?thesis
      by (simp add: subscribe_handler_def ProcessSubscribeStoreChanges_def o' subscribe_action_def invalid_path_def)
  next
    case 2
    then show ?thesis using assms(4)
      by (simp add: subscribe_handler_def ProcessSubscribeEnvelopes_def o' subscribe_action_def invalid_path_def lengths_differ_def)
  qed
qed

lemma answers_with_subscribe:
  assumes "mc_messages mc \<noteq> []" "request_frame (cdc E) pb (mc_messages mc ! 0)" "classes_ok (cdc E) (types E)"
    "asks ty pb" "ty \<in> {80, 81}" "request_of E pb = Some m" "lua_of m = None"
    "does_to (subscribe_action E m) (opened s) (Inr ()) i (f # fs)"
  shows "answers_with E mc s i (tagged (tag pb) f # fs)"
proof (rule answers_with_handler [OF assms(1,2,4)])
  have "own_class ty m" by (rule request_class [OF assms(3,4,6)])
  then show "does_to (dispatch E (of_pb pb) ty) (opened s) (Inr AUTHORITATIVE) i (f # fs)"
    using does_to_after [OF assms(8), of "\<lambda>_. ret AUTHORITATIVE" "Inr AUTHORITATIVE" "[]"]
    by (simp add: dispatch_subscribe [OF assms(5)] subscribe_run [OF _ assms(5-7)])
qed

section \<open>The server's answer\<close>

text \<open>The envelope with the subscription's record that goes to the managers, and the state after sending it.\<close>

definition record_envelope :: "codec \<Rightarrow> server_impl \<Rightarrow> SubscriptionRecord \<Rightarrow> Envelope" where
  "record_envelope c i m =
     add_to_envelope c (SubscriptionRecordMsg (m\<lparr>sr_id := Some (uuid_at i (created i))\<rparr>)) (new_Envelope (sr_now i (created i)))"

definition forwarded :: "string \<Rightarrow> server_impl \<Rightarrow> server_impl" where
  "forwarded bytes i =
     i\<lparr>created := created i + 1,
       subscriptions_sock := (subscriptions_sock i)\<lparr>sent := sent (subscriptions_sock i) @ [(bytes, False)]\<rparr>\<rparr>"

lemma server_subscription:
  assumes "ToProtocolBuffer sub = Inr m" "serialize_for c (record_envelope c i m) False = Some bytes"
    "send_results (subscriptions_sock i) = []"
  shows "sr_HandleSubscriptionRequest c sub i = (Inr (MakeSubscriptionAccepted (uuid_at i (created i)) 0), forwarded bytes i)"
  using assms SendEnvelope_ok [OF assms(3,2), of no_flags]
  by (simp add: sr_HandleSubscriptionRequest_def record_envelope_def forwarded_def no_flags_def Let_def)

lemma return_path_handled:
  "CallHandleSubscriptionRequest E sub s =
     andThen (on_impl (HandleSubscriptionRequest (impl E) (return_path s sub))) (\<lambda>result.
       if deferred result then ret ()
       else if have_error result then
         (case error_code result of
            None \<Rightarrow> throw (Undefined ''uninitialised error_code'')
          | Some code \<Rightarrow> PopulateErrorResponse E code (error_message result))
       else if \<not> is_subscription result then
         throw (RuntimeException ''invalid response seen from request processor implementation'')
       else if subscription_id result \<noteq> [] then
         (case hr_subscription_ttl result of
            None \<Rightarrow> throw (Undefined ''uninitialised subscription_ttl'')
          | Some ttl \<Rightarrow> respond E (SubscriptionAcceptAckV1 (subscription_id result) ttl))
       else PopulateErrorResponse E SUBSCRIPTION_REJECTED (error_message result)) s"
  by (simp add: CallHandleSubscriptionRequest_def return_path_def Let_def)

lemma does_accepted:
  assumes "HandleSubscriptionRequest (impl E) (return_path s sub) (impl_state s) = (Inr (MakeSubscriptionAccepted uuid ttl), i)"
    "uuid \<noteq> []"
  shows "does_to (CallHandleSubscriptionRequest E sub) s (Inr ()) i [reply (cdc E) [] (SubscriptionAcceptAckV1 uuid ttl)]"
  unfolding does_via_def return_path_handled
  by (rule does_to_impl [where h = "HandleSubscriptionRequest (impl E) (return_path s sub)", OF assms(1), unfolded does_via_def])
    (simp add: MakeSubscriptionAccepted_def new_HandlerResult_def assms(2) does_respond)

lemma accepted_answer:
  assumes "E = server_env c reg lua" "mc_messages mc \<noteq> []" "request_frame c pb (mc_messages mc ! 0)" "classes_ok c reg"
    "asks ty pb" "ty \<in> {80, 81}" "request_of E pb = Some m" "lua_of m = None"
    "send_results (subscriptions_sock (impl_state s)) = []" "uuid_at (impl_state s) (created (impl_state s)) \<noteq> []"
    "subscription_of m = Inr sub" "ToProtocolBuffer (return_path s sub) = Inr rec"
    "serialize_for c (record_envelope c (impl_state s) rec) False = Some bytes"
  shows "answers_with E mc s (forwarded bytes (impl_state s))
    [reply c (tag pb) (SubscriptionAcceptAckV1 (uuid_at (impl_state s) (created (impl_state s))) 0)]"
proof -
  let ?i = "impl_state s"
  have "does_to (CallHandleSubscriptionRequest E sub) (opened s) (Inr ()) (forwarded bytes ?i)
      [reply (cdc E) [] (SubscriptionAcceptAckV1 (uuid_at ?i (created ?i)) 0)]"
    by (rule does_accepted) (use server_subscription [OF assms(12,13,9)] assms(1,10) in \<open>simp_all add: return_path_def\<close>)
  then have "does_to (subscribe_action E m) (opened s) (Inr ()) (forwarded bytes ?i)
      [reply (cdc E) [] (SubscriptionAcceptAckV1 (uuid_at ?i (created ?i)) 0)]"
    by (simp add: subscribe_action_def assms(11))
  from answers_with_subscribe [OF assms(2) _ _ assms(5-8) this] assms(1,3,4) show ?thesis by simp
qed

text \<open>A handler that is authoritative without a response fails the assertion behind it.\<close>

lemma aborts_state:
  assumes "mc_messages mc \<noteq> []" "request_frame (cdc E) pb (mc_messages mc ! 0)" "asks ty pb"
    "does_to (dispatch E (of_pb pb) ty) (opened s) (Inr AUTHORITATIVE) i []"
  shows "\<exists>s'. ProcessMessages E mc s = (Inl AssertionFailure, s') \<and> impl_state s' = i"
proof -
  obtain s1 where s1: "dispatch E (of_pb pb) ty (opened s) = (Inr AUTHORITATIVE, s1)" "pushes [] (opened s\<lparr>impl_state := i\<rparr>) s1"
    using assms(4) by (auto simp: does_via_def)
  from s1(2) have v: "response_vector s1 = []" by (simp add: pushes_def made_def)
  from s1(2) have i: "impl_state s1 = i" by (auto simp: pushes_def dest: quiet_keeps(2))
  from v s1(1) have "ProcessRequest E (of_pb pb) (opened s) = (Inl AssertionFailure, s1)"
    using asks_dispatch [of ty "of_pb pb" E] assms(3)
    by (simp add: ProcessRequest_def of_pb_def andThen_Inr finish_response_def throw_run)
  then show ?thesis
    using assms(1) open_frame [OF assms(2), of "opened s"] i by (simp add: ProcessMessages_open andThen_Inl)
qed

lemma aborts:
  assumes "mc_messages mc \<noteq> []" "request_frame (cdc E) pb (mc_messages mc ! 0)" "asks ty pb"
    "does_to (dispatch E (of_pb pb) ty) (opened s) (Inr AUTHORITATIVE) i []"
  shows "fst (ProcessMessages E mc s) = Inl AssertionFailure"
  using aborts_state [OF assms] by auto

text \<open>Code that never ends, or crashes the interpreter, is no exception that the processor can catch.\<close>

lemma uncaught:
  assumes "mc_messages mc \<noteq> []" "request_frame (cdc E) pb (mc_messages mc ! 0)" "asks ty pb"
    "dispatch E (of_pb pb) ty (opened s) = (Inl x, opened s)" "\<not> catchable x"
  shows "ProcessMessages E mc s = (Inl x, opened s)"
proof -
  have "ProcessRequest E (of_pb pb) (opened s) = (Inl x, opened s)"
    using asks_dispatch [of ty "of_pb pb" E] assms(3,4) by (simp add: ProcessRequest_def of_pb_def andThen_Inl)
  then show ?thesis
    using assms(1,5) open_frame [OF assms(2), of "opened s"] by (simp add: ProcessMessages_open andThen_Inl)
qed

text \<open>
  What becomes of a subscription with Lua code: code that does not load is answered with the loader's
  message; code that loads skips the rest of the handler, so that there is no response and the assertion
  behind the handler fails; code that never ends or crashes the interpreter takes the thread with it.
\<close>

lemma lua_run:
  assumes "request_of E pb = Some (SubscribeEnvelopesV1 ps (Some code) ns a b)" "length a = length b"
  shows "dispatch E (of_pb pb) 81 s =
    (case LoadLuaCode E (lua_memory_max s) code of
       Inl x \<Rightarrow> throw x s
     | Inr loaded \<Rightarrow>
         seq (case loaded of Some msg \<Rightarrow> PopulateErrorResponse E LUA_ERROR msg | None \<Rightarrow> ret ()) (ret AUTHORITATIVE) s)"
proof -
  obtain e' where o: "\<And>s. OBTAIN_MESSAGE E (of_pb pb) s = (Inr (Some (SubscribeEnvelopesV1 ps (Some code) ns a b), e'), s)"
    using OBTAIN_run [OF assms(1)] by blast
  show ?thesis using assms(2)
    by (simp add: dispatch_def ProcessSubscribeEnvelopes_def andThen_assoc andThen_Inr [OF o] lift_res_def throw_run andThen_Inl
        split: sum.split option.split)
qed

lemma lua_rejected:
  assumes "request_of E pb = Some (SubscribeEnvelopesV1 ps (Some code) ns a b)"
    "length a = length b" "LoadLuaCode E (lua_memory_max s) code = Inr (Some msg)"
  shows "does (dispatch E (of_pb pb) 81) s (Inr AUTHORITATIVE) [reply (cdc E) [] (Error LUA_ERROR msg)]"
  using does_seq [OF does_error [of E LUA_ERROR msg s] does_ret] assms(3)
  by (simp add: does_def lua_run [OF assms(1,2)])

lemma lua_lengths_differ:
  assumes "request_of E pb = Some (SubscribeEnvelopesV1 ps lua ns a b)" "length a \<noteq> length b"
  shows "does (dispatch E (of_pb pb) 81) s (Inr AUTHORITATIVE) [reply (cdc E) [] (Error (fst lengths_differ) (snd lengths_differ))]"
proof -
  obtain e' where o: "\<And>s. OBTAIN_MESSAGE E (of_pb pb) s = (Inr (Some (SubscribeEnvelopesV1 ps lua ns a b), e'), s)"
    using OBTAIN_run [OF assms(1)] by blast
  show ?thesis
    using does_seq [OF does_error [of E "fst lengths_differ" "snd lengths_differ" s] does_ret] assms(2)
    by (simp add: does_def dispatch_def ProcessSubscribeEnvelopes_def andThen_assoc andThen_Inr [OF o] lengths_differ_def)
qed

lemma lua_aborts:
  assumes "mc_messages mc \<noteq> []" "request_frame (cdc E) pb (mc_messages mc ! 0)" "asks 81 pb"
    "request_of E pb = Some (SubscribeEnvelopesV1 ps (Some code) ns a b)" "length a = length b"
    "LoadLuaCode E (lua_memory_max s) code = Inr None"
  shows "\<exists>s'. ProcessMessages E mc s = (Inl AssertionFailure, s') \<and> impl_state s' = impl_state s"
proof -
  have "does (dispatch E (of_pb pb) 81) (opened s) (Inr AUTHORITATIVE) []"
    using assms(6) by (simp add: does_def lua_run [OF assms(4,5)] ret_run pushes_Nil)
  then have "does_to (dispatch E (of_pb pb) 81) (opened s) (Inr AUTHORITATIVE) (impl_state (opened s)) []"
    by (simp only: does_to_same)
  then have "does_to (dispatch E (of_pb pb) 81) (opened s) (Inr AUTHORITATIVE) (impl_state s) []" by simp
  from aborts_state [OF assms(1-3) this] show ?thesis .
qed

lemma lua_throws:
  assumes "mc_messages mc \<noteq> []" "request_frame (cdc E) pb (mc_messages mc ! 0)" "asks 81 pb"
    "request_of E pb = Some (SubscribeEnvelopesV1 ps (Some code) ns a b)" "length a = length b"
    "LoadLuaCode E (lua_memory_max s) code = Inl x"
  shows "if catchable x then answers E mc s [reply (cdc E) (tag pb) processing_failed]
    else \<exists>s'. ProcessMessages E mc s = (Inl x, s') \<and> impl_state s' = impl_state s"
proof -
  have run: "dispatch E (of_pb pb) 81 (opened s) = (Inl x, opened s)"
    using assms(6) by (simp add: lua_run [OF assms(4,5)] throw_run)
  then have "does (dispatch E (of_pb pb) 81) (opened s) (Inl x) []" by (simp add: does_def pushes_Nil)
  with answers_exception [OF assms(1-3), of s x] uncaught [OF assms(1-3) run] show ?thesis by auto
qed

text \<open>The outcome of a subscription with this Lua code.\<close>

definition lua_outcome :: "'i rp_env \<Rightarrow> MessageContainer \<Rightarrow> 'i rp \<Rightarrow> EnvelopePB \<Rightarrow> string option res \<Rightarrow> bool" where
  "lua_outcome E mc s pb loaded \<longleftrightarrow>
     (case loaded of
        Inr (Some msg) \<Rightarrow> answers E mc s [reply (cdc E) (tag pb) (Error LUA_ERROR msg)]
      | Inr None \<Rightarrow> \<exists>s'. ProcessMessages E mc s = (Inl AssertionFailure, s') \<and> impl_state s' = impl_state s
      | Inl x \<Rightarrow>
          if catchable x then answers E mc s [reply (cdc E) (tag pb) processing_failed]
          else \<exists>s'. ProcessMessages E mc s = (Inl x, s') \<and> impl_state s' = impl_state s)"

lemma lua_subscription:
  assumes "mc_messages mc \<noteq> []" "request_frame (cdc E) pb (mc_messages mc ! 0)" "asks 81 pb"
    "request_of E pb = Some (SubscribeEnvelopesV1 ps (Some code) ns a b)" "length a = length b"
  shows "lua_outcome E mc s pb (LoadLuaCode E (lua_memory_max s) code)"
proof (cases "LoadLuaCode E (lua_memory_max s) code")
  case (Inl x)
  with lua_throws [OF assms Inl] show ?thesis by (simp add: lua_outcome_def)
next
  case (Inr loaded)
  show ?thesis
  proof (cases loaded)
    case None
    with lua_aborts [OF assms] Inr show ?thesis by (simp add: lua_outcome_def)
  next
    case (Some msg)
    with answers_handler [OF assms(1-3) lua_rejected [OF assms(4,5)]] Inr show ?thesis by (simp add: lua_outcome_def)
  qed
qed

text \<open>Without Lua code: the answer, or the record that is sent.\<close>

lemma plain_subscription:
  assumes "E = server_env c reg lua" "mc_messages mc \<noteq> []" "request_frame c pb (mc_messages mc ! 0)" "classes_ok c reg"
    "asks ty pb" "ty \<in> {80, 81}" "request_of E pb = Some m" "lua_of m = None"
    "send_results (subscriptions_sock (impl_state s)) = []" "uuid_at (impl_state s) (created (impl_state s)) \<noteq> []"
  shows "case subscription_of m of
      Inl p \<Rightarrow> answers E mc s [reply c (tag pb) (Error (fst p) (snd p))]
    | Inr sub \<Rightarrow> \<exists>rec. ToProtocolBuffer (return_path s sub) = Inr rec \<and>
        (\<forall>bytes. serialize_for c (record_envelope c (impl_state s) rec) False = Some bytes \<longrightarrow>
           answers_with E mc s (forwarded bytes (impl_state s))
             [reply c (tag pb) (SubscriptionAcceptAckV1 (uuid_at (impl_state s) (created (impl_state s))) 0)])"
proof (cases "subscription_of m")
  case (Inl p)
  have "does_to (subscribe_action E m) (opened s) (Inr ()) (impl_state s) [reply c [] (Error (fst p) (snd p))]"
    using does_error [of E "fst p" "snd p" "opened s"] does_to_same [of "opened s" "PopulateErrorResponse E (fst p) (snd p)"] assms(1) Inl
    by (simp add: subscribe_action_def)
  from answers_with_subscribe [OF assms(2) _ _ assms(5-8) this] assms(1,3,4) Inl show ?thesis
    by (simp add: answers_with_same)
next
  case (Inr sub)
  let ?i = "impl_state s"
  have "si_type sub \<noteq> UNKNOWN_TYPE"
    using Inr by (cases m) (auto simp: new_SubscriptionInfo_def split: if_splits)
  then obtain rec where rec: "ToProtocolBuffer (return_path s sub) = Inr rec"
    by (simp add: ToProtocolBuffer_def return_path_def)
  with accepted_answer [OF assms Inr rec] Inr show ?thesis by auto
qed

lemma sample_changes:
  "request_of sample_env (sample_pb CHR ''P'') = Some (SubscribeStoreChangesV1 [''/b''])" "asks 80 (sample_pb CHR ''P'')"
  using sample_request_of [of "CHR ''P''"] sample_asks [of "CHR ''P''"] by (simp_all add: sample_types_def)

lemma sample_path_valid: "ValidatePath ''/b''"
  by (rule denotes_valid [OF path_denotes.bucket [OF sample_names(1)], simplified path_defs append.simps])

text \<open>
  C34: a subscription request with valid paths and no Lua code is turned into one record with the
  request's paths, filters and return path and a new id; the server sends this record once to the
  managers and acknowledges the subscription to the client with the id and a time to live of zero.
  A request with an invalid path, or with filter lists of different lengths, gets that error and
  nothing is sent. A request with Lua code is never forwarded: filter lists of different lengths and code
  that does not load get their errors; code that loads ends the process by a failed assertion, and
  code that never ends, or crashes the interpreter, ends the thread.
\<close>

theorem subscription_forwarded:
  assumes "E = server_env c reg lua" "mc_messages mc \<noteq> []" "request_frame c pb (mc_messages mc ! 0)" "classes_ok c reg"
    "asks ty pb" "ty \<in> {80, 81}" "request_of E pb = Some m"
    "send_results (subscriptions_sock (impl_state s)) = []" "uuid_at (impl_state s) (created (impl_state s)) \<noteq> []"
  shows "case lua_of m of
      Some code \<Rightarrow>
        (if subscription_of m = Inl lengths_differ
         then answers E mc s [reply c (tag pb) (Error (fst lengths_differ) (snd lengths_differ))]
         else lua_outcome E mc s pb (lua (lua_memory_max s) code))
    | None \<Rightarrow>
       (case subscription_of m of
          Inl p \<Rightarrow> answers E mc s [reply c (tag pb) (Error (fst p) (snd p))]
        | Inr sub \<Rightarrow> \<exists>rec. ToProtocolBuffer (return_path s sub) = Inr rec \<and>
            (\<forall>bytes. serialize_for c (record_envelope c (impl_state s) rec) False = Some bytes \<longrightarrow>
               answers_with E mc s (forwarded bytes (impl_state s))
                 [reply c (tag pb) (SubscriptionAcceptAckV1 (uuid_at (impl_state s) (created (impl_state s))) 0)]))"
proof (cases "lua_of m")
  case None
  with plain_subscription [OF assms(1-7) None assms(8,9)] show ?thesis by simp
next
  case (Some code)
  then obtain ps ns a b where m: "m = SubscribeEnvelopesV1 ps (Some code) ns a b" by (cases m) auto
  have "own_class ty m" using request_class [of E ty pb m] assms(1,4,5,7) by simp
  then have ty: "ty = 81" by (simp add: own_class_def m)
  have r: "request_of E pb = Some (SubscribeEnvelopesV1 ps (Some code) ns a b)" and q: "request_frame (cdc E) pb (mc_messages mc ! 0)"
    and a: "asks 81 pb" and c: "cdc E = c" "LoadLuaCode E = lua"
    using assms(1,3,5,7) m ty by simp_all
  have "subscription_of m = Inl lengths_differ \<longleftrightarrow> length a \<noteq> length b"
    by (auto simp: m lengths_differ_def invalid_path_def)
  with lua_subscription [OF assms(2) q a r, of s] answers_handler [OF assms(2) q a lua_lengths_differ [OF r]] c Some
  show ?thesis by (cases "length a = length b") simp_all
qed

lemma sample_lua:
  "request_of sample_env (sample_pb CHR ''Q'') = Some (SubscribeEnvelopesV1 [''/b''] (Some ''x'') [] [] [])" "asks 81 (sample_pb CHR ''Q'')"
  using sample_request_of [of "CHR ''Q''"] sample_asks [of "CHR ''Q''"] by (simp_all add: sample_types_def)

lemma subscription_forwarded_witness:
  "(\<exists>sub rec. subscription_of (SubscribeStoreChangesV1 [''/b'']) = Inr sub \<and> ToProtocolBuffer (return_path sample_rp sub) = Inr rec \<and>
     (\<forall>bytes. serialize_for sample_codec (record_envelope sample_codec sample_impl rec) False = Some bytes \<longrightarrow>
        answers_with sample_env (sample_request CHR ''P'') sample_rp (forwarded bytes sample_impl)
          [reply sample_codec [] (SubscriptionAcceptAckV1 ''id'' 0)])) \<and>
   fst (ProcessMessages sample_env (sample_request CHR ''Q'') sample_rp) = Inl AssertionFailure"
  using subscription_forwarded [of sample_env sample_codec sample_types "\<lambda>_ _. Inr None" "sample_request CHR ''P''" "sample_pb CHR ''P''",
      OF sample_env_def sample_frame sample_classes sample_changes(2) _ sample_changes(1), of sample_rp] sample_path_valid
    subscription_forwarded [of sample_env sample_codec sample_types "\<lambda>_ _. Inr None" "sample_request CHR ''Q''" "sample_pb CHR ''Q''",
      OF sample_env_def sample_frame sample_classes sample_lua(2) _ sample_lua(1), of sample_rp]
  by (auto simp: sample_rp_def sample_impl_def sample_pb_def empty_envelope_def lua_outcome_def invalid_path_def lengths_differ_def)

section \<open>Deferred subscriptions\<close>

text \<open>
  An implementation that defers a subscription, as its interface allows, ends the process: the
  handler is authoritative although it has no response.
\<close>

lemma deferred_subscription_aborts:
  assumes "mc_messages mc \<noteq> []" "request_frame (cdc E) pb (mc_messages mc ! 0)" "classes_ok (cdc E) (types E)"
    "asks ty pb" "ty \<in> {80, 81}" "request_of E pb = Some m" "lua_of m = None" "subscription_of m = Inr sub"
    "HandleSubscriptionRequest (impl E) (return_path s sub) (impl_state s) = (Inr MakeDeferred, i)"
  shows "fst (ProcessMessages E mc s) = Inl AssertionFailure"
proof -
  have "does_to (CallHandleSubscriptionRequest E sub) (opened s) (Inr ()) i []"
    unfolding does_via_def return_path_handled
    by (intro does_to_impl [where h = "HandleSubscriptionRequest (impl E) (return_path (opened s) sub)" and x = MakeDeferred, unfolded does_via_def])
      (use assms(9) in \<open>simp_all add: return_path_def MakeDeferred_def\<close>)
  then have a: "does_to (subscribe_action E m) (opened s) (Inr ()) i []" by (simp add: subscribe_action_def assms(8))
  have "does_to (dispatch E (of_pb pb) ty) (opened s) (Inr AUTHORITATIVE) i []"
    using does_to_after [OF a, of "\<lambda>_. ret AUTHORITATIVE" "Inr AUTHORITATIVE" "[]"]
    by (simp add: dispatch_subscribe [OF assms(5)] subscribe_run [OF request_class [OF assms(3,4,6)] assms(5-7)])
  from aborts [OF assms(1,2,4) this] show ?thesis .
qed

definition deferring_env :: "server_impl rp_env" where
  "deferring_env = sample_env\<lparr>impl := (impl sample_env)\<lparr>HandleSubscriptionRequest := \<lambda>_. ret MakeDeferred\<rparr>\<rparr>"

lemma deferring_env_simps [simp]:
  "cdc deferring_env = sample_codec" "types deferring_env = sample_types"
  "HandleSubscriptionRequest (impl deferring_env) sub i = (Inr MakeDeferred, i)"
  by (simp_all add: deferring_env_def ret_run)

lemma deferring_request: "request_of deferring_env pb = request_of sample_env pb"
  by (simp add: request_of_def)

lemma deferred_subscription_aborts_witness:
  "fst (ProcessMessages deferring_env (sample_request CHR ''P'') sample_rp) = Inl AssertionFailure"
  using deferred_subscription_aborts [of "sample_request CHR ''P''" deferring_env "sample_pb CHR ''P''" 80 "SubscribeStoreChangesV1 [''/b'']" _ _ sample_impl]
    sample_frame [of "CHR ''P''"] sample_classes sample_changes sample_path_valid
  by (simp add: deferring_request sample_rp_def)

section \<open>Keepalives\<close>

text \<open>The server's state after forwarding a keepalive: an empty part and the request's envelope.\<close>

definition keepalive_sent :: "string \<Rightarrow> server_impl \<Rightarrow> server_impl" where
  "keepalive_sent bytes i = i\<lparr>subscription_updates_sock :=
     (subscription_updates_sock i)\<lparr>sent := sent (subscription_updates_sock i) @ [([], True), (bytes, False)]\<rparr>\<rparr>"

lemma server_keepalive:
  assumes "send_results (subscription_updates_sock i) = []" "serialize_for c e False = Some bytes"
  shows "sr_HandleSubscribeKeepalive c e (i, out) = (Inr MakeDeferred, keepalive_sent bytes i, out)"
  using SendEnvelope_to_ok [OF assms, of "[]" no_flags]
  by (simp add: sr_HandleSubscribeKeepalive_def SendEnvelope_pointer_def keepalive_sent_def no_flags_def)

lemma keepalive_unlisted:
  assumes "request_of E pb = Some (SubscribeKeepaliveV1 [])"
  shows "ProcessSubscribeKeepalive E (of_pb pb) s = (Inl (Undefined ''id 0 of no ids''), s)"
proof -
  obtain e' where "\<And>s. OBTAIN_MESSAGE E (of_pb pb) s = (Inr (Some (SubscribeKeepaliveV1 []), e'), s)"
    using OBTAIN_run [OF assms] by blast
  then show ?thesis by (simp add: ProcessSubscribeKeepalive_def andThen_Inr)
qed

lemma serialize_cached: "envelope e = envelope e' \<Longrightarrow> serialize_for c e p = serialize_for c e' p"
  by (simp add: serialize_for_def ToZmqMessage_def ToProtocolZmqMessage_def)

lemma does_keepalive:
  assumes "request_of E pb = Some (SubscribeKeepaliveV1 ids)" "ids \<noteq> []" "impl E = ServerRequestProcessor c"
    "send_results (subscription_updates_sock (impl_state s)) = []" "serialize_for c (of_pb pb) False = Some bytes"
  shows "does_to (ProcessSubscribeKeepalive E (of_pb pb)) s (Inr DEFERRED) (keepalive_sent bytes (impl_state s)) []"
proof -
  obtain e' where e': "envelope e' = pb" "\<And>s. OBTAIN_MESSAGE E (of_pb pb) s = (Inr (Some (SubscribeKeepaliveV1 ids), e'), s)"
    using OBTAIN_run [OF assms(1)] by blast
  have "serialize_for c e' False = Some bytes"
    using assms(5) serialize_cached [of e' "of_pb pb"] e'(1) by (simp add: of_pb_def)
  note sent = server_keepalive [OF assms(4) this]
  let ?K = "\<lambda>_. andThen (on_impl_output (HandleSubscribeKeepalive (impl E) e')) (\<lambda>result. ret (if deferred result then DEFERRED else AUTHORITATIVE))"
  have "does_to (?K ()) s' (Inr DEFERRED) (keepalive_sent bytes (impl_state s)) []" if q: "quiet s s'" for s'
  proof -
    let ?i = "keepalive_sent bytes (impl_state s)"
    have "on_impl_output (HandleSubscribeKeepalive (impl E) e') s' = (Inr MakeDeferred, to_impl ?i s')"
      using sent quiet_keeps(2) [OF q] by (simp add: on_impl_output_def assms(3))
    then show ?thesis
      by (simp add: does_via_def andThen_Inr MakeDeferred_def ret_run pushes_Nil)
  qed
  from does_to_quiet [OF does_LOG, where f = ?K, OF this] assms(2) show ?thesis
    by (simp add: does_via_def ProcessSubscribeKeepalive_def andThen_Inr [OF e'(2)])
qed

lemma keepalive_undefined:
  assumes "mc_messages mc \<noteq> []" "request_frame (cdc E) pb (mc_messages mc ! 0)" "asks 82 pb"
    "request_of E pb = Some (SubscribeKeepaliveV1 [])"
  shows "fst (ProcessMessages E mc s) = Inl (Undefined ''id 0 of no ids'')"
proof -
  have "ProcessRequest E (of_pb pb) (opened s) = (Inl (Undefined ''id 0 of no ids''), opened s)"
    using keepalive_unlisted [OF assms(4), of "opened s"] asks_dispatch [of 82 "of_pb pb" E] assms(3)
    by (simp add: ProcessRequest_def of_pb_def andThen_Inl dispatch_def)
  then show ?thesis
    using assms(1) open_frame [OF assms(2), of "opened s"] by (simp add: ProcessMessages_open andThen_Inl)
qed

text \<open>
  The server forwards a keepalive that names a subscription, as it is, to the managers behind an
  empty part, and answers nothing. A keepalive without ids is undefined behaviour: the code logs the
  first of no ids.
\<close>

lemma keepalive_forwarded:
  assumes "E = server_env c reg lua" "mc_messages mc \<noteq> []" "request_frame c pb (mc_messages mc ! 0)" "asks 82 pb"
    "request_of E pb = Some (SubscribeKeepaliveV1 ids)"
    "send_results (subscription_updates_sock (impl_state s)) = []" "serialize_for c (of_pb pb) False = Some bytes"
  shows "if ids = [] then fst (ProcessMessages E mc s) = Inl (Undefined ''id 0 of no ids'')
    else answers_with E mc s (keepalive_sent bytes (impl_state s)) []"
proof (cases "ids = []")
  case True
  with keepalive_undefined [OF assms(2) _ assms(4), of E s] assms(1,3,5) show ?thesis by simp
next
  case False
  have "does_to (dispatch E (of_pb pb) 82) (opened s) (Inr DEFERRED) (keepalive_sent bytes (impl_state s)) []"
    using does_keepalive [OF assms(5) False, of c "opened s" bytes] assms(1,6,7) by (simp add: dispatch_def)
  from answers_with_deferred [OF assms(2) _ assms(4) this] False assms(1,3) show ?thesis by simp
qed

lemma keepalive_forwarded_witness:
  "\<exists>bytes. answers_with sample_env (sample_request CHR ''R'') sample_rp (keepalive_sent bytes sample_impl) []"
proof -
  have r: "request_of sample_env (sample_pb CHR ''R'') = Some (SubscribeKeepaliveV1 [''id''])" "asks 82 (sample_pb CHR ''R'')"
    using sample_request_of [of "CHR ''R''"] sample_asks [of "CHR ''R''"] by (simp_all add: sample_types_def)
  obtain bytes where "serialize_for sample_codec (of_pb (sample_pb CHR ''R'')) False = Some bytes"
    by (simp add: serialize_for_def ToZmqMessage_def)
  with keepalive_forwarded [OF sample_env_def sample_frame r(2,1), of sample_rp bytes] show ?thesis
    by (auto simp: sample_rp_def sample_impl_def)
qed

end
