(* ===== verification/Client_Server.thy ===== *)
theory Client_Server
  imports Client Request_Pump Request_Stream Request_Subscribe
begin

text \<open>
  The client and the server together: what the client makes of the frames with which the server's request
  processor answers it, and the server of the frames the client sends.
\<close>

section \<open>The server's frames\<close>

text \<open>The responses made at the given times, and the frames of the answer as the client gets them, without identities.\<close>

definition response_payloads :: "codec \<Rightarrow> response list \<Rightarrow> u64 list \<Rightarrow> string list" where
  "response_payloads c fs ts = map (\<lambda>e. protocol_frame (envelope e) c) (made fs ts)"

definition client_frames :: "codec \<Rightarrow> response list \<Rightarrow> u64 list \<Rightarrow> (string \<times> bool) list" where
  "client_frames c fs ts = answer_frames [] (response_payloads c fs ts)"

lemma server_sends:
  assumes "inbox (client_sock s) \<noteq> []" "ReceiveMessage (client_sock s) = (True, mc, sock)" "send_results sock = []"
    "answers_via u E mc (received mc sock s) fs" "\<And>t. client_sock (u t) = client_sock t" "\<And>t. response_vector (u t) = response_vector t"
    "\<And>f now. f \<in> set fs \<Longrightarrow> Serializable (cdc E) (f now)"
  obtains s' ts where "length ts = length fs" "Pump E s = (Inr MakeWorkDone, s')"
    "client_sock s' = sock\<lparr>sent := sent sock @ answer_frames (identities mc) (response_payloads (cdc E) fs ts)\<rparr>"
proof -
  from answers_client [OF assms(4,5)] obtain s1 ts where s1:
    "ProcessMessages E mc (received mc sock s) = (Inr (), s1)" "client_sock s1 = sock" "length ts = length fs" "response_vector s1 = made fs ts"
    by (auto simp: assms(6) received_def)
  have "\<forall>e \<in> set (made fs ts). Serializable (cdc E) (envelope e)"
    using assms(7) by (auto simp: made_def of_pb_def dest!: set_zip_leftD)
  then have "list_all2 (\<lambda>e m. serialize_for (cdc E) e True = Some m) (response_vector s1) (response_payloads (cdc E) fs ts)"
    by (auto simp: s1(4) response_payloads_def list_all2_map2 list_all2_same serialize_for_def ToProtocolZmqMessage_def protocol_frame_def)
  then have "send_responses E (identities mc) s1 = (Inr (), sends (answer_frames (identities mc) (response_payloads (cdc E) fs ts)) s1)"
    using send_responses_frames [of s1 E] s1(2) assms(3) by simp
  then have "Pump E s = (Inr MakeWorkDone, sends (answer_frames (identities mc) (response_payloads (cdc E) fs ts)) s1)"
    using Pump_receives [OF assms(1,2), of E] s1(1) by (simp add: andThen_Inr)
  with s1 that show thesis by (simp add: sends_def)
qed

text \<open>
  Serialisation as the client relies on it: the bytes of a response parse to the response, and its first
  message to the message it was made of.
\<close>

definition understood :: "codec \<Rightarrow> registrar \<Rightarrow> string list \<Rightarrow> Message \<Rightarrow> u64 \<Rightarrow> bool" where
  "understood c reg tags m now \<longleftrightarrow>
     carries c (reply c tags m now) (protocol_frame (reply c tags m now) c) \<and> parsed c reg (reply c tags m now) 0 = Some m"

lemma reply_tag [simp]: "tag (reply c tags m now) = tags"
  by (simp add: reply_def)

lemma reply_says:
  assumes "parsed c reg (reply c tags m now) 0 = Some m'" "fst (message_enumeration m) = 1"
  shows "says (snd (message_enumeration m)) (reply c tags m now)"
  using assms
  by (auto simp: parsed_def says_def reply_def add_to_envelope_def AddMessage_def new_Envelope_def of_pb_def empty_envelope_def
      split: option.splits if_splits)

lemma understoodD:
  assumes "understood c reg tags m now" "fst (message_enumeration m) = 1"
  shows "carries c (reply c tags m now) (protocol_frame (reply c tags m now) c)" "parsed c reg (reply c tags m now) 0 = Some m"
    "says (snd (message_enumeration m)) (reply c tags m now)" "protocol_frame (reply c tags m now) c \<noteq> []"
  using assms reply_says [OF _ assms(2)] by (auto simp: understood_def protocol_frame_def)

section \<open>Subscribing\<close>

lemma Pump_message:
  assumes "inbox (cl_sock s) @ arrivals E timeout s = fs" "fs \<noteq> []"
    "\<And>sock. inbox sock = fs \<Longrightarrow> ReceiveMessage sock = (True, \<lparr>identities = [], mc_messages = ms\<rparr>, sock\<lparr>inbox := []\<rparr>)"
  obtains k d where "client_Pump E timeout s =
    (case ProcessResponseMessage E ms (s\<lparr>clock := clock s + d, polls := polls s + 1, cl_sock := k\<rparr>) of
       (Inl x, t) \<Rightarrow> (Inl x, t) | (Inr ok, t) \<Rightarrow> (Inr (if ok then 1 else - 1), t))" "inbox k = []"
proof -
  let ?s = "s\<lparr>cl_sock := (cl_sock s)\<lparr>inbox := fs\<rparr>, clock := clock s + elapsed E timeout s, polls := polls s + 1\<rparr>"
  have p: "snd (client_poll E timeout s) = ?s" using assms(1) by (simp add: client_poll_def)
  have "ProcessPendingMessage E ?s = ProcessResponseMessage E ms (?s\<lparr>cl_sock := (cl_sock ?s)\<lparr>inbox := []\<rparr>\<rparr>)"
    using assms(3) [of "cl_sock ?s"] by (simp add: ProcessPendingMessage_def)
  then show thesis
    using that [where k = "(cl_sock ?s)\<lparr>inbox := []\<rparr>" and d = "elapsed E timeout s"] assms(1,2) by (simp add: client_Pump_run p)
qed

text \<open>
  C5: no client can subscribe to this server. The server acknowledges a subscription with a lifetime of
  zero; processing that acknowledgement the client throws: it forgets the request and holds no
  subscription, while the server has forwarded the subscription to its managers.
\<close>

theorem server_refuses_subscribers:
  assumes "E = server_env c reg lua" "inbox (client_sock s) \<noteq> []" "ReceiveMessage (client_sock s) = (True, mc, sock)" "send_results sock = []"
    "mc_messages mc \<noteq> []" "request_frame c pb (mc_messages mc ! 0)" "classes_ok c reg" "asks ty pb" "ty \<in> {80, 81}"
    "request_of E pb = Some m" "lua_of m = None" "send_results (subscriptions_sock (impl_state s)) = []"
    "uuid = uuid_at (impl_state s) (created (impl_state s))" "uuid \<noteq> []" "subscription_of m = Inr sub"
    "ToProtocolBuffer (return_path (received mc sock s) sub) = Inr rec"
    "serialize_for c (record_envelope c (impl_state s) rec) False = Some bytes"
    "tag pb = i # tags" "\<And>now. Serializable c (reply c (tag pb) (SubscriptionAcceptAckV1 uuid 0) now)"
    "\<And>now. understood c (cl_types F) (tag pb) (SubscriptionAcceptAckV1 uuid 0) now" "cl_codec F = c"
    "map_of (outstanding cl) i = Some req" "cb_subscription req \<in> {None, Some Own}" "0 < subscription_renewal_offset cl"
  shows "\<exists>s' fs. Pump E s = (Inr MakeWorkDone, s') \<and> sent (client_sock s') = sent sock @ map (\<lambda>i. (i, True)) (identities mc) @ fs \<and>
    (inbox (cl_sock cl) @ arrivals F timeout cl = fs \<longrightarrow>
      (\<exists>cl'. client_Pump F timeout cl = (Inl (RuntimeException ''subscription TTL less than configured time offset''), cl') \<and>
        outstanding cl' = map_erase i (outstanding cl) \<and> cl_subscriptions cl' = cl_subscriptions cl))"
proof -
  let ?m = "SubscriptionAcceptAckV1 uuid 0"
  have h: "send_results (subscriptions_sock (impl_state (received mc sock s))) = []"
    "uuid_at (impl_state (received mc sock s)) (created (impl_state (received mc sock s))) \<noteq> []"
    "serialize_for c (record_envelope c (impl_state (received mc sock s)) rec) False = Some bytes"
    using assms(12-14,17) by (simp_all add: received_def)
  have "answers_with E mc (received mc sock s) (forwarded bytes (impl_state s)) [reply c (tag pb) ?m]"
    using accepted_answer [OF assms(1,5-11) h(1,2) assms(15,16) h(3)] assms(13) by (simp add: received_def)
  then obtain s' ts where s': "length ts = 1" "Pump E s = (Inr MakeWorkDone, s')"
    "client_sock s' = sock\<lparr>sent := sent sock @ answer_frames (identities mc) (response_payloads c [reply c (tag pb) ?m] ts)\<rparr>"
    by (rule server_sends [OF assms(2-4)]) (use assms(1,19) in auto)
  then obtain now where ts: "ts = [now]" by (cases ts) auto
  let ?f = "protocol_frame (reply c (tag pb) ?m now) c"
  let ?fs = "[([], True), (?f, False)]"
  have sent: "sent (client_sock s') = sent sock @ map (\<lambda>i. (i, True)) (identities mc) @ ?fs"
    by (simp add: s'(3) ts response_payloads_def made_def answer_frames_def payload_def of_pb_def)
  note u = understoodD [OF assms(20)] and c = assms(21)
  have "\<exists>cl'. client_Pump F timeout cl = (Inl (RuntimeException ''subscription TTL less than configured time offset''), cl') \<and>
      outstanding cl' = map_erase i (outstanding cl) \<and> cl_subscriptions cl' = cl_subscriptions cl"
    if arr: "inbox (cl_sock cl) @ arrivals F timeout cl = ?fs"
  proof -
    have rcv: "ReceiveMessage k = (True, \<lparr>identities = [], mc_messages = [?f]\<rparr>, k\<lparr>inbox := []\<rparr>)" if "inbox k = ?fs" for k
      using ReceiveMessage_one [of k True ?f "[]"] that u(4) [of now] by (simp add: message_namespace_def)
    obtain k d where p: "client_Pump F timeout cl =
      (case ProcessResponseMessage F [?f] (cl\<lparr>clock := clock cl + d, polls := polls cl + 1, cl_sock := k\<rparr>) of
         (Inl x, t) \<Rightarrow> (Inl x, t) | (Inr ok, t) \<Rightarrow> (Inr (if ok then 1 else - 1), t))"
      by (rule Pump_message [OF arr _ rcv]) auto
    let ?cl = "cl\<lparr>clock := clock cl + d, polls := polls cl + 1, cl_sock := k\<rparr>"
    have l: "ack_lifetime 0 < unat (subscription_renewal_offset ?cl)" using assms(24) by (simp add: ack_lifetime_def word_less_nat_alt)
    have o: "map_of (outstanding ?cl) i = Some req" using assms(22) by simp
    have t: "tag (reply c (tag pb) ?m now) = i # tags" using assms(18) by simp
    have "says 109 (reply c (tag pb) ?m now)" using u(3) [of now] by (simp add: message_namespace_def)
    from acknowledged_run [OF _ this t o _ refl refl refl, where E = F and m = ?f and sid = uuid and ttl = 0 and ms = "[]"]
      u(1,2) [of now] c l show ?thesis
      by (simp add: p message_namespace_def)
  qed
  with s'(2) sent show ?thesis by blast
qed

section \<open>A server and a client for the examples\<close>

text \<open>A codec that keeps the time of an envelope, as the length of its bytes; only the end of a segment has no tag.\<close>

definition wire_tags :: "u32 \<Rightarrow> string list" where
  "wire_tags ty = (if ty = 105 then [] else [''t''])"

definition wire_pb :: "u32 \<Rightarrow> u64 \<Rightarrow> EnvelopePB" where
  "wire_pb ty t = empty_envelope\<lparr>message := [''m''], message_ns := [1], message_ty := [ty], create_time := Some t, tag := wire_tags ty\<rparr>"

definition wire_codec :: codec where
  "wire_codec = sample_codec\<lparr>
     EnvelopeBytes := (\<lambda>e. char_of (unat (hd (message_ty e))) # replicate (Suc (case create_time e of None \<Rightarrow> 0 | Some t \<Rightarrow> unat t)) CHR ''x''),
     ParseEnvelope := (\<lambda>s. case s of ty # x # later \<Rightarrow> Some (wire_pb (of_char ty) (word_of_nat (length later))) | _ \<Rightarrow> None)\<rparr>"

definition wire_types :: registrar where
  "wire_types = [((1, 80), SubscribeStoreChangesV1 [''/b'']), ((1, 109), SubscriptionAcceptAckV1 ''id'' 0)]"

definition wire_env :: "server_impl rp_env" where
  "wire_env = server_env wire_codec wire_types (\<lambda>_ _. Inr None)"

definition wire_rp :: "server_impl rp" where
  "wire_rp = sample_rp\<lparr>client_sock := \<lparr>sent = [], send_results = [],
     inbox = [(''client'', True), ([], True), ([CHR 0x01, CHR ''P'', CHR ''x''], False)]\<rparr>\<rparr>"

definition wire_client_env :: "unit client_env" where
  "wire_client_env = sample_client_env\<lparr>cl_codec := wire_codec, cl_types := wire_types,
     arrivals := (\<lambda>_ _. drop 1 (sent (client_sock (snd (Pump wire_env wire_rp)))))\<rparr>"

lemma wire_reply:
  assumes "fst (message_enumeration m) = 1" "snd (message_enumeration m) < 256"
  shows "reply wire_codec (wire_tags (snd (message_enumeration m))) m now = wire_pb (snd (message_enumeration m)) now"
    "carries wire_codec (wire_pb (snd (message_enumeration m)) now) (protocol_frame (wire_pb (snd (message_enumeration m)) now) wire_codec)"
proof -
  show "reply wire_codec (wire_tags (snd (message_enumeration m))) m now = wire_pb (snd (message_enumeration m)) now"
    using assms(1)
    by (simp add: reply_def wire_codec_def sample_codec_def add_to_envelope_def AddMessage_def new_Envelope_def of_pb_def empty_envelope_def wire_pb_def)
  have "unat (snd (message_enumeration m)) < 256" using assms(2) by (simp add: word_less_nat_alt)
  then have "(of_char (char_of (unat (snd (message_enumeration m))) :: char) :: u32) = snd (message_enumeration m)"
    using of_nat_of_char [of "char_of (unat (snd (message_enumeration m)))", where 'a = u32] by simp
  then show "carries wire_codec (wire_pb (snd (message_enumeration m)) now) (protocol_frame (wire_pb (snd (message_enumeration m)) now) wire_codec)"
    by (simp add: carries_def protocol_frame_def wire_codec_def wire_pb_def empty_envelope_def)
qed


lemma wire_parsed: "parsed wire_codec reg (wire_pb ty now) 0 = registered reg 1 ty"
  by (simp add: parsed_def wire_pb_def wire_codec_def split: option.split)

lemma wire_understood:
  "fst (message_enumeration m) = 1 \<Longrightarrow> snd (message_enumeration m) < 256 \<Longrightarrow> registered reg 1 (snd (message_enumeration m)) = Some m \<Longrightarrow>
     understood wire_codec reg (wire_tags (snd (message_enumeration m))) m now"
  using wire_reply [of m now] by (simp add: understood_def wire_parsed)

lemma wire_classes: "classes_ok wire_codec wire_types"
  by (auto simp: classes_ok_def registered_def wire_types_def own_class_def message_namespace_def wire_codec_def split: if_splits)

lemma wire_request: "request_frame wire_codec (wire_pb 80 0) [CHR 0x01, CHR ''P'', CHR ''x'']" "asks 80 (wire_pb 80 0)"
    "request_of wire_env (wire_pb 80 0) = Some (SubscribeStoreChangesV1 [''/b''])"
  by (simp_all add: request_frame_def wire_codec_def asks_def wire_pb_def message_namespace_def request_of_def parsed_def
      registered_def wire_types_def wire_env_def)

lemma server_refuses_subscribers_witness:
  "\<exists>cl'. client_Pump wire_client_env 25 (waiting_client (Some Own)) =
     (Inl (RuntimeException ''subscription TTL less than configured time offset''), cl') \<and> outstanding cl' = [] \<and> cl_subscriptions cl' = []"
proof -
  let ?sock = "\<lparr>sent = [], send_results = [], inbox = []\<rparr> :: socket"
  let ?mc = "\<lparr>identities = [''client''], mc_messages = [[CHR 0x01, CHR ''P'', CHR ''x'']]\<rparr>"
  have rcv: "inbox (client_sock wire_rp) \<noteq> []" "ReceiveMessage (client_sock wire_rp) = (True, ?mc, ?sock)" "send_results ?sock = []"
    by (simp_all add: wire_rp_def ReceiveMessage_def empty_container_def AddIdentity_def AddMessage_part_def)
  obtain sub where sub: "subscription_of (SubscribeStoreChangesV1 [''/b'']) = Inr sub" "si_type sub \<noteq> UNKNOWN_TYPE"
    using sample_path_valid by (simp add: new_SubscriptionInfo_def)
  then obtain rec where rec: "ToProtocolBuffer (return_path (received ?mc ?sock wire_rp) sub) = Inr rec"
    by (simp add: ToProtocolBuffer_def return_path_def)
  have i: "impl_state wire_rp = sample_impl" by (simp add: wire_rp_def sample_rp_def)
  then have impl: "send_results (subscriptions_sock (impl_state wire_rp)) = []" "''id'' = uuid_at (impl_state wire_rp) (created (impl_state wire_rp))"
    by (simp_all add: sample_impl_def)
  obtain bytes where bytes: "serialize_for wire_codec (record_envelope wire_codec (impl_state wire_rp) rec) False = Some bytes"
    by (simp add: serialize_for_def ToZmqMessage_def wire_codec_def)
  have und: "understood wire_codec (cl_types wire_client_env) (tag (wire_pb 80 0)) (SubscriptionAcceptAckV1 ''id'' 0) now" for now
    using wire_understood [of "SubscriptionAcceptAckV1 ''id'' 0" wire_types now]
    by (simp add: wire_client_env_def wire_pb_def message_namespace_def registered_def wire_types_def wire_tags_def)
  have ser: "Serializable wire_codec pb" for pb by (simp add: wire_codec_def)
  let ?cl = "waiting_client (Some Own)"
  have cl: "cl_codec wire_client_env = wire_codec" "map_of (outstanding ?cl) ''t'' = Some (new_OutstandingRequest\<lparr>cb_subscription := Some Own\<rparr>)"
    "cb_subscription (new_OutstandingRequest\<lparr>cb_subscription := Some Own\<rparr>) \<in> {None, Some Own}" "0 < subscription_renewal_offset ?cl"
    "tag (wire_pb 80 0) = [''t'']"
    by (simp_all add: wire_client_env_def waiting_client_def sample_client_def wire_pb_def wire_tags_def)
  obtain s' fs where run: "Pump wire_env wire_rp = (Inr MakeWorkDone, s')"
    "sent (client_sock s') = sent ?sock @ map (\<lambda>i. (i, True)) (identities ?mc) @ fs"
    "inbox (cl_sock ?cl) @ arrivals wire_client_env 25 ?cl = fs \<longrightarrow>
      (\<exists>cl'. client_Pump wire_client_env 25 ?cl = (Inl (RuntimeException ''subscription TTL less than configured time offset''), cl') \<and>
        outstanding cl' = map_erase ''t'' (outstanding ?cl) \<and> cl_subscriptions cl' = cl_subscriptions ?cl)"
    using server_refuses_subscribers [OF wire_env_def rcv _ _ wire_classes wire_request(2) _ wire_request(3) _ impl _ sub(1) rec bytes cl(5) ser und cl(1-4),
        where timeout = 25] wire_request(1) by auto
  have "inbox (cl_sock ?cl) @ arrivals wire_client_env 25 ?cl = fs"
    using run(1,2) by (simp add: waiting_client_def sample_client_def wire_client_env_def)
  with run(3) show ?thesis by (auto simp: waiting_client_def sample_client_def map_erase_def)
qed

section \<open>Segments\<close>

definition segment_end :: "codec \<Rightarrow> EnvelopePB list \<Rightarrow> EnvelopePB list \<Rightarrow> Message" where
  "segment_end c xs seg =
     StreamSegmentEndV1 (word_of_nat (length (stream_bytes c (xs @ seg)))) (word_of_nat (records_length c seg)) (word_of_nat (length seg))"

lemma parse_payloads_carried:
  "list_all2 (carries c) pbs ms \<Longrightarrow> parse_payloads c ms sg = Inr (sg\<lparr>seg_envelopes := seg_envelopes sg @ map of_pb pbs\<rparr>)"
proof (induction arbitrary: sg rule: list_all2_induct)
  case (Cons pb pbs m ms)
  then show ?case using carried(1) [of c pb m]
    by (simp add: segment_AddEnvelope_def copy_Envelope_def of_pb_def)
qed simp

lemma read_segment_run:
  assumes "carries (cl_codec E) pbE mE" "parsed (cl_codec E) (cl_types E) pbE 0 = Some (StreamSegmentEndV1 a b n)"
    "list_all2 (carries (cl_codec E)) pbs mid" "ms = m0 # mid @ [mX, mE]"
  shows "\<exists>sg. read_segment E path off ms s = (Inr sg, s) \<and> seg_path sg = path \<and> seg_start sg = off \<and> seg_end sg = a \<and>
    seg_bytes sg = b \<and> seg_count sg = n \<and> seg_envelopes sg = map of_pb pbs"
proof -
  obtain e where g: "get_message E 0 (of_pb pbE) s = (Inr (StreamSegmentEndV1 a b n, e), s)"
    using get_message_parsed [OF assms(2)] by blast
  have ms: "ms ! (length ms - 1) = mE" "take (length ms - 3) (drop 1 ms) = mid" "\<not> length ms < 2"
    by (simp_all add: assms(4) nth_append)
  show ?thesis
    unfolding read_segment_def Let_def ms
    using carried(1) [OF assms(1)] g ms(3) parse_payloads_carried [OF assms(3)]
    by (simp add: andThen_Inr SetPath_def SetStartOffset_def SetEndOffset_def SetBytesSent_def SetEnvelopesSent_def new_StreamSegment_def)
qed

lemma segment_payloads:
  assumes "length ts = length seg + 2"
  shows "response_payloads c (segment_responses c tags path start xs seg) ts =
    protocol_frame (reply c tags (StreamSegmentStartV1 path start) (hd ts)) c # map (\<lambda>pb. protocol_frame pb c) seg @
    [protocol_frame (reply c [] (segment_end c xs seg) (last ts)) c]"
proof -
  obtain t0 us where ts: "ts = t0 # us" "length us = length seg + 1" using assms by (cases ts) auto
  obtain vs tE where us: "us = vs @ [tE]" "length vs = length seg" using ts(2) by (cases us rule: rev_cases) auto
  have "map (\<lambda>e. protocol_frame (envelope e) c) (made (map raw seg) vs) = map (\<lambda>pb. protocol_frame pb c) seg"
    using us(2) by (induction vs seg rule: list_induct2) (auto simp: made_def raw_def of_pb_def)
  moreover have "made (segment_responses c tags path start xs seg) ts =
      of_pb (reply c tags (StreamSegmentStartV1 path start) t0) # made (map raw seg) vs @ [of_pb (reply c [] (segment_end c xs seg) tE)]"
    using us(2) made_append [of "map raw seg" vs "[reply c [] (segment_end c xs seg)]" "[tE]"]
    by (simp add: segment_responses_def segment_end_def [symmetric] ts(1) us(1)) (simp add: made_def)
  ultimately show ?thesis
    by (simp add: response_payloads_def ts(1) us(1) of_pb_def)
qed


lemma map_butlast_last: "xs \<noteq> [] \<Longrightarrow> map f xs = map f (butlast xs) @ [f (last xs)]"
  by (induction xs rule: rev_induct) auto

text \<open>
  C6: what a client makes of a segment. The server sends the start message twice, and the client takes
  all but the first, the last and the one before it for the envelopes: the segment it delivers has the
  offsets and the counts of the server, but begins with the start message and lacks the last envelope.
\<close>

theorem client_segment:
  assumes "seg \<noteq> []" "length ts = length seg + 2" "cl_codec E = c"
    "understood c (cl_types E) (i # tags) (StreamSegmentStartV1 path start) (hd ts)"
    "understood c (cl_types E) [] (segment_end c xs seg) (last ts)" "list_all (\<lambda>pb. carries c pb (protocol_frame pb c)) seg"
    "inbox (cl_sock s) @ arrivals E timeout s = client_frames c (segment_responses c (i # tags) path start xs seg) ts"
    "map_of (outstanding s) i = Some req" "cb_stream_segment req = Some Own"
  shows "\<exists>s' sg. client_Pump E timeout s = (Inr 1, s') \<and> outstanding s' = map_erase i (outstanding s) \<and>
    sg = mem_segment (memory s') (or_data req) \<and> seg_path sg = path \<and> seg_start sg = start \<and>
    seg_end sg = word_of_nat (length (stream_bytes c (xs @ seg))) \<and> seg_count sg = word_of_nat (length seg) \<and>
    seg_envelopes sg = map of_pb (reply c (i # tags) (StreamSegmentStartV1 path start) (hd ts) # butlast seg)"
proof -
  let ?f = "\<lambda>pb. protocol_frame pb c"
  let ?S = "reply c (i # tags) (StreamSegmentStartV1 path start) (hd ts)" and ?E = "reply c [] (segment_end c xs seg) (last ts)"
  let ?ms = "?f ?S # (?f ?S # map ?f (butlast seg)) @ [?f (last seg), ?f ?E]"
  note S = understoodD [OF assms(4)] and E = understoodD [OF assms(5)]
  have m: "map ?f seg = map ?f (butlast seg) @ [?f (last seg)]"
    by (rule map_butlast_last [OF assms(1)])
  let ?rp = "response_payloads c (segment_responses c (i # tags) path start xs seg) ts"
  have rp: "payload ?rp = ?ms" "?rp \<noteq> []"
    unfolding payload_def segment_payloads [OF assms(2)] m by simp_all
  have all: "list_all (\<lambda>m. m \<noteq> []) ?rp"
    by (simp add: segment_payloads [OF assms(2)] protocol_frame_def list_all_iff)
  have rcv: "ReceiveMessage k = (True, \<lparr>identities = [], mc_messages = ?ms\<rparr>, k\<lparr>inbox := []\<rparr>)"
    if "inbox k = client_frames c (segment_responses c (i # tags) path start xs seg) ts" for k
    unfolding rp(1) [symmetric] by (rule receive_payload [OF _ all rp(2)]) (use that in \<open>simp_all add: client_frames_def\<close>)
  have ne: "client_frames c (segment_responses c (i # tags) path start xs seg) ts \<noteq> []"
    using rp(2) by (simp add: client_frames_def answer_frames_def)
  obtain k d where p: "client_Pump E timeout s =
      (case ProcessResponseMessage E ?ms (s\<lparr>clock := clock s + d, polls := polls s + 1, cl_sock := k\<rparr>) of
         (Inl x, t) \<Rightarrow> (Inl x, t) | (Inr ok, t) \<Rightarrow> (Inr (if ok then 1 else - 1), t))"
    by (rule Pump_message [OF assms(7) ne rcv]) auto
  let ?s = "s\<lparr>clock := clock s + d, polls := polls s + 1, cl_sock := k\<rparr>"
  let ?t = "?s\<lparr>outstanding := map_erase i (outstanding s)\<rparr>"
  have mid: "list_all2 (carries (cl_codec E)) (?S # butlast seg) (?f ?S # map ?f (butlast seg))"
    using S(1) assms(3,6) by (auto simp: list_all2_map2 list_all2_same list_all_iff message_namespace_def dest: in_set_butlastD)
  obtain e where g: "get_message E 0 (of_pb ?S) ?t = (Inr (StreamSegmentStartV1 path start, e), ?t)"
    using get_message_parsed [of E ?S 0 "StreamSegmentStartV1 path start"] S(2) assms(3) by (auto simp: message_namespace_def)
  obtain sg where sg: "read_segment E path start ?ms ?t = (Inr sg, ?t)" "seg_path sg = path" "seg_start sg = start"
    "seg_end sg = word_of_nat (length (stream_bytes c (xs @ seg)))" "seg_count sg = word_of_nat (length seg)" "seg_envelopes sg = map of_pb (?S # butlast seg)"
    using read_segment_run [OF _ _ mid, of ?E "?f ?E" _ _ _ ?ms "?f ?S" "?f (last seg)" path start ?t] E(1,2) assms(3)
    by (auto simp: segment_end_def message_namespace_def)
  have "ProcessResponseMessage E ?ms ?s = HandleRequestResponse E (of_pb ?S) ?ms ?s"
    using response_says [of E ?S "?f ?S" 104] S(1,3) assms(3) by (simp add: message_namespace_def handled_types_def)
  moreover have "tag (envelope (of_pb ?S)) = i # tags" "message_ty (envelope (of_pb ?S)) ! 0 = 104"
    using S(3) by (simp_all add: of_pb_def says_def message_namespace_def)
  ultimately have "ProcessResponseMessage E ?ms ?s = (Inr True, ?t\<lparr>memory := (memory s)\<lparr>mem_segment := (mem_segment (memory s))(or_data req := sg)\<rparr>\<rparr>)"
    using g sg(1) assms(8,9)
    by (simp add: HandleRequestResponse_def andThen_Inr asserted_def run_callback_def run_own_def CallbackStreamSegment_def)
  with p sg(2-6) show ?thesis by simp
qed


definition segment_env :: "unit client_env" where
  "segment_env = sample_client_env\<lparr>cl_codec := wire_codec,
     cl_types := [((1, 104), StreamSegmentStartV1 ''/b/s/n'' 0), ((1, 105), segment_end wire_codec [] [wire_pb 91 0])],
     arrivals := (\<lambda>_ _. client_frames wire_codec (segment_responses wire_codec [''t''] ''/b/s/n'' 0 [] [wire_pb 91 0]) [7, 8, 9])\<rparr>"

definition reading_client :: "unit client" where
  "reading_client = sample_client\<lparr>outstanding := [(''t'', new_OutstandingRequest\<lparr>cb_stream_segment := Some Own\<rparr>)]\<rparr>"

lemma client_segment_witness:
  "\<exists>s'. client_Pump segment_env 25 reading_client = (Inr 1, s') \<and>
     seg_count (mem_segment (memory s') (Caller 0)) = 1 \<and>
     seg_envelopes (mem_segment (memory s') (Caller 0)) = [of_pb (reply wire_codec [''t''] (StreamSegmentStartV1 ''/b/s/n'' 0) 7)]"
proof -
  let ?seg = "[wire_pb 91 0]" and ?ts = "[7, 8, 9] :: u64 list"
  have c: "cl_codec segment_env = wire_codec" by (simp add: segment_env_def)
  have u: "understood wire_codec (cl_types segment_env) [''t''] (StreamSegmentStartV1 ''/b/s/n'' 0) (hd ?ts)"
    "understood wire_codec (cl_types segment_env) [] (segment_end wire_codec [] ?seg) (last ?ts)"
    using wire_understood [of "StreamSegmentStartV1 ''/b/s/n'' 0" "cl_types segment_env" 7]
      wire_understood [of "segment_end wire_codec [] ?seg" "cl_types segment_env" 9]
    by (simp_all add: segment_env_def message_namespace_def wire_tags_def registered_def segment_end_def)
  have s: "list_all (\<lambda>pb. carries wire_codec pb (protocol_frame pb wire_codec)) ?seg"
    using wire_reply(2) [of PingV1 0] by (simp add: message_namespace_def)
  have r: "inbox (cl_sock reading_client) @ arrivals segment_env 25 reading_client =
      client_frames wire_codec (segment_responses wire_codec [''t''] ''/b/s/n'' 0 [] ?seg) ?ts"
    "map_of (outstanding reading_client) ''t'' = Some (new_OutstandingRequest\<lparr>cb_stream_segment := Some Own\<rparr>)"
    "cb_stream_segment (new_OutstandingRequest\<lparr>cb_stream_segment := Some Own\<rparr>) = Some Own"
    "or_data (new_OutstandingRequest\<lparr>cb_stream_segment := Some Own\<rparr>) = Caller 0"
    by (simp_all add: reading_client_def sample_client_def segment_env_def new_OutstandingRequest_def)
  have n: "?seg \<noteq> []" "length ?ts = length ?seg + 2" by simp_all
  show ?thesis using client_segment [OF n c u s r(1-3)] unfolding r(4) by auto
qed

section \<open>Keepalives\<close>

lemma Pump_without_payload:
  assumes "inbox (client_sock s) = [(ident, True), (m, False)]" "ident \<noteq> []" "m \<noteq> []"
  shows "\<exists>s'. Pump E s = (Inr MakeWorkDone, s') \<and> impl_state s' = impl_state s \<and> rp_store s' = rp_store s \<and>
    client_sock s' = (client_sock s)\<lparr>inbox := []\<rparr>"
proof -
  let ?mc = "\<lparr>identities = [ident, m], mc_messages = []\<rparr>"
  have r: "ReceiveMessage (client_sock s) = (True, ?mc, (client_sock s)\<lparr>inbox := []\<rparr>)"
    using assms by (simp add: ReceiveMessage_def empty_container_def AddIdentity_def)
  have p: "ProcessMessages E ?mc t = (Inr (), t\<lparr>response_vector := [], ticks := ticks t + 1\<rparr>)" for t
    by (simp add: ProcessMessages_def fresh_def andThen_def)
  have "inbox (client_sock s) \<noteq> []" using assms(1) by simp
  note run = Pump_receives [OF this r, of E]
  have "send_responses E is t = (Inr (), t)" if "response_vector t = []" for "is" t
    using that by (simp add: send_responses_def)
  then show ?thesis
    unfolding run by (simp add: andThen_Inr [OF p] andThen_Inr received_def)
qed

text \<open>
  A forced renewal reports success, but the client sends its keepalive without a delimiter: the server's
  request processor takes it for an identity, reports that work was done, answers nothing and renews
  nothing.
\<close>

lemma keepalive_lost:
  assumes "timers_deleted cl" "send_results (cl_sock cl) = []" "\<And>pb. Serializable (cl_codec F) pb" "ident \<noteq> []"
  shows "\<exists>cl' fs. client_RenewSubscriptions F True cl = (Inr True, cl') \<and> sent (cl_sock cl') = sent (cl_sock cl) @ fs \<and>
    (inbox (client_sock s) = (ident, True) # fs \<longrightarrow>
      (\<exists>s'. Pump E s = (Inr MakeWorkDone, s') \<and> impl_state s' = impl_state s \<and> sent (client_sock s') = sent (client_sock s)))"
proof -
  let ?e = "add_to_envelope (cl_codec F) (SubscribeKeepaliveV1 (map fst (cl_subscriptions cl))) (new_Envelope (cl_wall F (cl_created cl)))"
  obtain m where m: "serialize_for (cl_codec F) ?e True = Some m" "m \<noteq> []"
    using assms(3) by (simp add: serialize_for_def ToProtocolZmqMessage_def)
  have r: "renew_due True (clock cl) (cl_subscriptions cl) = (Inr (map fst (cl_subscriptions cl)), cl_subscriptions cl)"
    using renew_due_stale(1) assms(1) by (simp add: timers_deleted_def)
  have run: "client_RenewSubscriptions F True cl =
      (Inr True, cl\<lparr>cl_subscriptions := cl_subscriptions cl, cl_created := cl_created cl + 1,
        cl_sock := (cl_sock cl)\<lparr>sent := sent (cl_sock cl) @ [(m, False)]\<rparr>\<rparr>)"
    using SendEnvelope_ok [OF assms(2) m(1), of no_flags] by (simp add: client_RenewSubscriptions_def r no_flags_def)
  have "\<exists>s'. Pump E s = (Inr MakeWorkDone, s') \<and> impl_state s' = impl_state s \<and> sent (client_sock s') = sent (client_sock s)"
    if "inbox (client_sock s) = (ident, True) # [(m, False)]"
    using Pump_without_payload [OF that assms(4) m(2), of E] by auto
  with run show ?thesis by (intro exI [of _ _] exI [of _ "[(m, False)]"]) auto
qed

lemma keepalive_lost_witness:
  "\<exists>s'. Pump wire_env (wire_rp\<lparr>client_sock := \<lparr>sent = [], send_results = [],
       inbox = (''client'', True) # sent (cl_sock (snd (client_RenewSubscriptions wire_client_env True subscribed_client)))\<rparr>\<rparr>) = (Inr MakeWorkDone, s') \<and>
     impl_state s' = sample_impl"
proof -
  let ?s = "wire_rp\<lparr>client_sock := \<lparr>sent = [], send_results = [],
       inbox = (''client'', True) # sent (cl_sock (snd (client_RenewSubscriptions wire_client_env True subscribed_client)))\<rparr>\<rparr>"
  have h: "send_results (cl_sock subscribed_client) = []" "sent (cl_sock subscribed_client) = []" "''client'' \<noteq> []"
    by (simp_all add: subscribed_client_def sample_client_def)
  have ser: "Serializable (cl_codec wire_client_env) pb" for pb by (simp add: wire_client_env_def wire_codec_def)
  obtain cl' fs where r: "client_RenewSubscriptions wire_client_env True subscribed_client = (Inr True, cl')"
    "sent (cl_sock cl') = sent (cl_sock subscribed_client) @ fs"
    "inbox (client_sock ?s) = (''client'', True) # fs \<longrightarrow>
      (\<exists>s'. Pump wire_env ?s = (Inr MakeWorkDone, s') \<and> impl_state s' = impl_state ?s \<and> sent (client_sock s') = sent (client_sock ?s))"
    using keepalive_lost [OF subscribed(1) h(1) ser h(3), of ?s wire_env] by blast
  have "inbox (client_sock ?s) = (''client'', True) # fs" using r(1,2) h(2) by simp
  with r(3) obtain s' where "Pump wire_env ?s = (Inr MakeWorkDone, s')" "impl_state s' = impl_state ?s" by blast
  then show ?thesis by (simp add: wire_rp_def sample_rp_def)
qed

end
