(* ===== verification/Request_Safety.thy ===== *)
theory Request_Safety
  imports Request_Subscribe Request_Stream
begin

text \<open>
  What can end a request processor's thread: the contract of an implementation and a store under which
  every handler that answers with authority has a response and throws only exceptions that
  \<open>ProcessMessages\<close> stops, and the requests for which that fails although the contract holds.
\<close>

declare ret_run [simp del] throw_run [simp del]

section \<open>Actions that end well\<close>

text \<open>
  \<open>orderly Q m\<close>: whatever the action throws is stopped by a \<open>catch (...)\<close>; responses are not lost; and
  when it returns a result with \<open>Q\<close> there is a response.
\<close>

definition orderly :: "('a \<Rightarrow> bool) \<Rightarrow> ('i rp, 'a) action \<Rightarrow> bool" where
  "orderly Q m \<longleftrightarrow> (\<forall>s. case m s of
     (Inl x, _) \<Rightarrow> catchable x
   | (Inr x, s') \<Rightarrow> (Q x \<or> response_vector s \<noteq> [] \<longrightarrow> response_vector s' \<noteq> []))"

abbreviation quietly :: "('i rp, 'a) action \<Rightarrow> bool" where
  "quietly m \<equiv> orderly (\<lambda>_. False) m"

named_theorems orderly_intros \<open>how an action ends well\<close>

lemma orderly_Inl: "orderly Q m \<Longrightarrow> m s = (Inl x, s') \<Longrightarrow> catchable x"
  by (auto simp: orderly_def split: prod.splits sum.splits dest!: spec [of _ s])

lemma orderly_Inr: "orderly Q m \<Longrightarrow> m s = (Inr x, s') \<Longrightarrow> Q x \<or> response_vector s \<noteq> [] \<Longrightarrow> response_vector s' \<noteq> []"
  by (auto simp: orderly_def split: prod.splits sum.splits dest!: spec [of _ s])

lemma orderlyI:
  assumes "\<And>s x s'. m s = (Inl x, s') \<Longrightarrow> catchable x"
    "\<And>s x s'. m s = (Inr x, s') \<Longrightarrow> Q x \<or> response_vector s \<noteq> [] \<Longrightarrow> response_vector s' \<noteq> []"
  shows "orderly Q m"
  using assms by (fastforce simp: orderly_def split: prod.split sum.split)

lemma orderly_weaken: "orderly P m \<Longrightarrow> (\<And>x. Q x \<Longrightarrow> P x) \<Longrightarrow> orderly Q m"
  by (rule orderlyI) (auto dest: orderly_Inl orderly_Inr)

lemma orderly_bind:
  assumes "orderly P m" "\<And>x. orderly (\<lambda>y. Q y \<and> \<not> P x) (f x)"
  shows "orderly Q (andThen m f)"
proof (rule orderlyI)
  fix s x s' assume "andThen m f s = (Inl x, s')"
  then show "catchable x"
    unfolding andThen_Inl_iff using orderly_Inl [OF assms(1)] orderly_Inl [OF assms(2)] by blast
next
  fix s x s' assume a: "andThen m f s = (Inr x, s')" and q: "Q x \<or> response_vector s \<noteq> []"
  from a obtain y t where m: "m s = (Inr y, t)" and f: "f y t = (Inr x, s')" by (auto simp: andThen_Inr_iff)
  show "response_vector s' \<noteq> []"
    using orderly_Inr [OF assms(1) m] orderly_Inr [OF assms(2) f] q by blast
qed

lemma orderly_after [orderly_intros]: "quietly m \<Longrightarrow> (\<And>x. orderly Q (f x)) \<Longrightarrow> orderly Q (andThen m f)"
  by (rule orderly_bind [of "\<lambda>_. False"]) simp_all

lemma orderly_does:
  assumes "\<And>s. \<exists>fs. does m s (Inr x) fs \<and> (Q x \<longrightarrow> fs \<noteq> [])"
  shows "orderly Q m"
proof (rule orderlyI)
  fix s y s' assume "m s = (Inl y, s')"
  with assms [of s] show "catchable y" by (auto simp: does_def)
next
  fix s y s' assume m: "m s = (Inr y, s')" and q: "Q y \<or> response_vector s \<noteq> []"
  from assms [of s] m obtain fs where "pushes fs s s'" "y = x" "Q x \<longrightarrow> fs \<noteq> []" by (auto simp: does_def)
  with q show "response_vector s' \<noteq> []" by (auto simp: pushes_def made_def)
qed

lemma orderly_pure [orderly_intros]: "\<not> Q x \<Longrightarrow> orderly Q (ret x)" "catchable e \<Longrightarrow> orderly Q (throw e)"
    "(\<And>s. \<not> Q (g s)) \<Longrightarrow> orderly Q (gets g)"
  by (simp_all add: orderly_def ret_run throw_run)

lemma orderly_ret: "orderly Q (f x) \<Longrightarrow> orderly Q (andThen (ret x) f)"
proof -
  have "andThen (ret x) f = f x" by (rule ext) (simp add: andThen_def ret_run)
  then show "orderly Q (f x) \<Longrightarrow> orderly Q (andThen (ret x) f)" by simp
qed

lemma orderly_log [orderly_intros]: "quietly (LOG_MESSAGE E l)"
  by (rule orderly_does [of _ "()"]) (use does_LOG in blast)

lemma orderly_fresh [orderly_intros]: "quietly fresh"
  by (simp add: orderly_def fresh_def)

lemma orderly_push [orderly_intros]: "orderly Q (push_back e)"
  by (simp add: orderly_def push_back_def)

lemma orderly_respond [orderly_intros]: "orderly Q (respond E m)"
  by (rule orderly_does [of _ "()"]) (use does_respond in blast)

lemma orderly_error [orderly_intros]: "orderly Q (PopulateErrorResponse E code msg)"
  by (rule orderly_does [of _ "()"]) (use does_error in blast)

text \<open>An action that responds before one that may not.\<close>

lemma orderly_first: "orderly (\<lambda>_. True) m \<Longrightarrow> (\<And>x. quietly (f x)) \<Longrightarrow> orderly Q (andThen m f)"
  by (rule orderly_bind [of "\<lambda>_. True"]) simp_all

lemma orderly_error_first [orderly_intros]: "(\<And>x. quietly (f x)) \<Longrightarrow> orderly Q (andThen (PopulateErrorResponse E code msg) f)"
  by (rule orderly_first [OF orderly_error])

lemma orderly_if [orderly_intros]: "(b \<Longrightarrow> orderly Q m) \<Longrightarrow> (\<not> b \<Longrightarrow> orderly Q n) \<Longrightarrow> orderly Q (if b then m else n)"
  by simp

lemma orderly_option [orderly_intros]:
  "(z = None \<Longrightarrow> orderly Q m) \<Longrightarrow> (\<And>x. z = Some x \<Longrightarrow> orderly Q (f x)) \<Longrightarrow> orderly Q (case z of None \<Rightarrow> m | Some x \<Rightarrow> f x)"
  by (cases z) auto

lemma orderly_prod [orderly_intros]: "(\<And>x y. z = (x, y) \<Longrightarrow> orderly Q (f x y)) \<Longrightarrow> orderly Q (case z of (x, y) \<Rightarrow> f x y)"
  by (cases z) simp

lemma orderly_quietly: "orderly Q m \<Longrightarrow> quietly m"
  by (rule orderly_weaken [of Q]) simp_all

text \<open>\<open>CheckPath\<close> has responded when its result is false.\<close>

lemma orderly_CheckPath: "orderly Not (CheckPath E path b1 b2 b3)"
  unfolding CheckPath_def Let_def by (intro orderly_intros) simp_all

lemma orderly_checked:
  assumes "orderly Q m"
  shows "orderly Q (andThen (CheckPath E path b1 b2 b3) (\<lambda>ok. if \<not> ok then ret () else m))"
proof (rule orderly_bind [OF orderly_CheckPath])
  show "orderly (\<lambda>y. Q y \<and> \<not> \<not> ok) (if \<not> ok then ret () else m)" for ok
    using assms by (cases ok) (simp_all add: orderly_pure)
qed

lemma orderly_obtain:
  assumes "\<And>m e'. request_of E pb = Some m \<Longrightarrow> envelope e' = pb \<Longrightarrow> orderly Q (F (Some m, e'))"
    "\<And>e'. envelope e' = pb \<Longrightarrow> quietly (F (None, e'))"
  shows "orderly Q (andThen (OBTAIN_MESSAGE E (of_pb pb)) F)"
proof -
  obtain e' where g: "envelope e' = pb" "\<And>s. get_request E (of_pb pb) s = (Inr (request_of E pb, e'), s)"
    using get_request_run by blast
  show ?thesis
  proof (cases "request_of E pb")
    case None
    have "andThen (OBTAIN_MESSAGE E (of_pb pb)) F =
        andThen (seq (LOG_MESSAGE E LogEmbeddedMessageParseFailure)
           (seq (PopulateErrorResponse E UNKNOWN_REQUEST_TYPE ''error parsing message in envelope'') (ret (None, e')))) F"
      by (rule ext) (simp add: OBTAIN_MESSAGE_def andThen_def g None)
    moreover have "orderly Q (andThen (seq (LOG_MESSAGE E LogEmbeddedMessageParseFailure)
           (seq (PopulateErrorResponse E UNKNOWN_REQUEST_TYPE ''error parsing message in envelope'') (ret (None, e')))) F)"
      unfolding andThen_assoc by (rule orderly_after [OF orderly_log], rule orderly_first [OF orderly_error])
        (use assms(2) [OF g(1)] in \<open>simp add: orderly_def andThen_def ret_run\<close>)
    ultimately show ?thesis by simp
  next
    case (Some m)
    have "andThen (OBTAIN_MESSAGE E (of_pb pb)) F = F (Some m, e')"
      by (rule ext) (simp add: OBTAIN_MESSAGE_def andThen_def g Some ret_run)
    with assms(1) [OF Some g(1)] show ?thesis by simp
  qed
qed
text \<open>Calls of the implementation and the store, given what is known of their results.\<close>

lemma orderly_call:
  assumes "\<And>s. response_vector (snd (M s)) = response_vector s"
    "\<And>s. case fst (M s) of Inl x \<Rightarrow> catchable x | Inr r \<Rightarrow> P r" "\<And>r. P r \<Longrightarrow> orderly Q (f r)"
  shows "orderly Q (andThen M f)"
proof (rule orderlyI)
  fix s x s' assume "andThen M f s = (Inl x, s')"
  then show "catchable x"
    using assms(2) [of s] orderly_Inl [OF assms(3)] by (cases "M s") (auto simp: andThen_Inl_iff)
next
  fix s x s' assume "andThen M f s = (Inr x, s')" "Q x \<or> response_vector s \<noteq> []"
  then show "response_vector s' \<noteq> []"
    using assms(1,2) [of s] orderly_Inr [OF assms(3)] by (cases "M s") (auto simp: andThen_Inr_iff)
qed

lemma orderly_impl:
  assumes "\<And>i. case fst (h i) of Inl x \<Rightarrow> catchable x | Inr r \<Rightarrow> P r" "\<And>r. P r \<Longrightarrow> orderly Q (f r)"
  shows "orderly Q (andThen (on_impl h) f)"
  by (rule orderly_call [where P = P]) (use assms in \<open>auto simp: on_impl_def split: prod.split\<close>, metis fst_conv)

lemma orderly_store:
  assumes "\<And>st. case fst (h st) of Inl x \<Rightarrow> catchable x | Inr r \<Rightarrow> P r" "\<And>r. P r \<Longrightarrow> orderly Q (f r)"
  shows "orderly Q (andThen (on_store h) f)"
  by (rule orderly_call [where P = P]) (use assms in \<open>auto simp: on_store_def split: prod.split\<close>, metis fst_conv)

lemma orderly_lift:
  assumes "case r of Inl x \<Rightarrow> catchable x | Inr y \<Rightarrow> P y" "\<And>y. P y \<Longrightarrow> orderly Q (f y)"
  shows "orderly Q (andThen (lift_res r) f)"
  by (rule orderly_call [where P = P]) (use assms in simp_all)

section \<open>The contract\<close>

text \<open>
  \<open>settled r\<close>: the result can be turned into a response to a subscription. The contract of an
  implementation: it settles every subscription of a known type or throws an exception that is
  stopped; a keepalive is deferred or answered, and no response is lost; a write result that is asked
  for has the number of envelopes. Of the store: opening a stream throws only such exceptions.
\<close>

definition settled :: "HandlerResult \<Rightarrow> bool" where
  "settled r \<longleftrightarrow> \<not> deferred r \<and>
     (if have_error r then error_code r \<noteq> None
      else is_subscription r \<longrightarrow> subscription_id r \<noteq> [] \<longrightarrow> hr_subscription_ttl r \<noteq> None)"

definition counted :: "HandlerResult \<Rightarrow> bool" where
  "counted r \<longleftrightarrow> (\<not> deferred r \<and> \<not> have_error r \<and> is_write r \<longrightarrow> envelopes_written r \<noteq> None)"

locale processor_contract =
  fixes I :: "'i rp_impl" and V :: store_ops
  assumes subscribing: "si_type sub \<noteq> UNKNOWN_TYPE \<Longrightarrow>
      case fst (HandleSubscriptionRequest I sub i) of Inl x \<Rightarrow> catchable x | Inr r \<Rightarrow> settled r"
    and keeping: "case HandleSubscribeKeepalive I e (i, out) of
        (Inl x, _) \<Rightarrow> catchable x
      | (Inr r, _, out') \<Rightarrow> (\<not> deferred r \<or> out \<noteq> [] \<longrightarrow> out' \<noteq> [])"
    and writing: "case fst (HandleWriteEnvelopes I path es sync i) of Inl x \<Rightarrow> catchable x | Inr r \<Rightarrow> counted r"
    and stream_open: "case fst (OpenInputStream V b t n st) of Inl x \<Rightarrow> catchable x | Inr _ \<Rightarrow> True"

context processor_contract
begin

lemma orderly_subscription:
  assumes "impl E = I" "si_type sub \<noteq> UNKNOWN_TYPE"
  shows "orderly Q (CallHandleSubscriptionRequest E sub)"
  unfolding CallHandleSubscriptionRequest_def Let_def assms(1)
proof (rule orderly_after [OF orderly_pure(3)], simp, rule orderly_impl [where P = settled])
  show "case fst (HandleSubscriptionRequest I (sub\<lparr>si_socket_identifiers := ids\<rparr>) i) of Inl x \<Rightarrow> catchable x | Inr r \<Rightarrow> settled r"
    for ids i using assms(2) by (intro subscribing) simp
qed (auto intro!: orderly_intros simp: settled_def split: option.splits)

lemma orderly_info:
  assumes "asks ty pb" "classes_ok (cdc E) (types E)" "ty \<in> {73, 74, 75, 76}"
  shows "orderly Q (dispatch E (of_pb pb) ty)"
  by (rule orderly_does [of _ AUTHORITATIVE]) (use info_handlers [OF assms(2,1,3)] in blast)

lemma orderly_subscribe:
  assumes "impl E = I" "classes_ok (cdc E) (types E)" "asks ty pb" "ty \<in> {80, 81}"
    "\<And>m. request_of E pb = Some m \<Longrightarrow> lua_of m = None"
  shows "orderly Q (dispatch E (of_pb pb) ty)"
proof (cases "request_of E pb")
  case None
  then have "orderly Q (seq (andThen (OBTAIN_MESSAGE E (of_pb pb)) (\<lambda>(m, e'). F m)) (ret AUTHORITATIVE))"
    if "F None = ret ()" for F :: "Message option \<Rightarrow> ('i rp, unit) action"
    unfolding andThen_assoc by (intro orderly_obtain) (simp_all add: that orderly_def ret_run)
  then show ?thesis
    using assms(4) by (auto simp: dispatch_subscribe subscribe_handler_def ProcessSubscribeStoreChanges_def ProcessSubscribeEnvelopes_def)
next
  case (Some m)
  have "orderly (\<lambda>_. True) (subscribe_action E m)"
    unfolding subscribe_action_def
    by (cases m) (auto intro!: orderly_intros orderly_subscription [OF assms(1)] simp: new_SubscriptionInfo_def)
  then have "orderly Q (seq (subscribe_action E m) (ret AUTHORITATIVE))"
    by (rule orderly_first) (simp add: orderly_pure)
  then show ?thesis
    using subscribe_run [OF request_class [OF assms(2,3) Some] assms(4) Some assms(5) [OF Some]]
    by (simp add: dispatch_subscribe [OF assms(4)])
qed

lemma orderly_keepalive:
  assumes "impl E = I" "classes_ok (cdc E) (types E)" "asks 82 pb" "request_of E pb \<noteq> Some (SubscribeKeepaliveV1 [])"
  shows "orderly (\<lambda>r. r = AUTHORITATIVE) (dispatch E (of_pb pb) 82)"
proof -
  have fwd: "orderly (\<lambda>r. r = AUTHORITATIVE) (andThen (on_impl_output (HandleSubscribeKeepalive (impl E) e)) (\<lambda>result.
        ret (if deferred result then DEFERRED else AUTHORITATIVE)))" for e
  proof (rule orderlyI)
    fix s x s' assume "andThen (on_impl_output (HandleSubscribeKeepalive (impl E) e)) (\<lambda>result.
        ret (if deferred result then DEFERRED else AUTHORITATIVE)) s = (Inl x, s')"
    then show "catchable x"
      using keeping [where e = e and i = "impl_state s" and out = "response_vector s"] assms(1)
      by (cases "HandleSubscribeKeepalive I e (impl_state s, response_vector s)")
        (auto simp: andThen_Inl_iff on_impl_output_def ret_run split: sum.splits)
  next
    fix s x s' assume "andThen (on_impl_output (HandleSubscribeKeepalive (impl E) e)) (\<lambda>result.
        ret (if deferred result then DEFERRED else AUTHORITATIVE)) s = (Inr x, s')" "x = AUTHORITATIVE \<or> response_vector s \<noteq> []"
    then show "response_vector s' \<noteq> []"
      using keeping [where e = e and i = "impl_state s" and out = "response_vector s"] assms(1)
      by (cases "HandleSubscribeKeepalive I e (impl_state s, response_vector s)")
        (auto simp: andThen_Inr_iff on_impl_output_def ret_run split: sum.splits if_splits)
  qed
  have own: "\<exists>ids. m = SubscribeKeepaliveV1 ids" if "request_of E pb = Some m" for m
    using own_class_cases(9) request_class [OF assms(2,3) that] by blast
  have ret: "quietly (ret ())" by (simp add: orderly_pure)
  have "orderly (\<lambda>r. r = AUTHORITATIVE) (ProcessSubscribeKeepalive E (of_pb pb))"
    unfolding ProcessSubscribeKeepalive_def
  proof (rule orderly_obtain)
    fix m e' assume r: "request_of E pb = Some m"
    then obtain ids where m: "m = SubscribeKeepaliveV1 ids" "ids \<noteq> []" using own assms(4) by blast
    show "orderly (\<lambda>r. r = AUTHORITATIVE) (case (Some m, e') of (m, e') \<Rightarrow> seq (case m of
            None \<Rightarrow> ret ()
          | Some (SubscribeKeepaliveV1 ids) \<Rightarrow>
              if ids = [] then throw (Undefined ''id 0 of no ids'')
              else LOG_MESSAGE E (LogForwardSubscribeKeepalive (hd ids))
          | Some _ \<Rightarrow> wrong_class)
     (andThen (on_impl_output (HandleSubscribeKeepalive (impl E) e')) (\<lambda>result.
        ret (if deferred result then DEFERRED else AUTHORITATIVE))))"
      using orderly_after [OF orderly_log fwd] m by simp
  qed (use orderly_after [OF ret orderly_quietly [OF fwd]] in simp)
  then show ?thesis by (simp add: dispatch_def)
qed

lemma orderly_parse: "quietly (parse_envelopes E datas envs)"
proof (induction datas arbitrary: envs)
  case (Cons d ds)
  then have "quietly (parse_envelopes E ds envs')" for envs' by simp
  then show ?case
    by (auto intro!: orderly_intros simp: Envelope_of_data_def InitializeFromBuffer_def split: option.split)
qed (simp add: orderly_pure)

lemma orderly_write:
  assumes "impl E = I" "classes_ok (cdc E) (types E)" "asks 78 pb"
  shows "orderly (\<lambda>r. r = AUTHORITATIVE) (dispatch E (of_pb pb) 78)"
proof -
  have own: "\<exists>p es a sy. m = WriteEnvelopeV1 p es a sy" if "request_of E pb = Some m" for m
    using own_class_cases(6) request_class [OF assms(2,3) that] by blast
  have w: "quietly (write_envelopes E path datas ack sync)" for path datas ack sync
  proof -
    let ?K = "\<lambda>result. if (if sync then True else ack) \<and> \<not> deferred result then
          if have_error result then throw (RuntimeException ''not implemented'')
          else if \<not> is_write result then
            throw (RuntimeException ''return from request processor write envelopes implementation not sane'')
          else
            (case envelopes_written result of
               None \<Rightarrow> throw (Undefined ''uninitialised envelopes_written'')
             | Some n \<Rightarrow> respond E (WriteAckV1 n))
        else ret ()"
    have K: "quietly (?K result)" if "counted result" for result
      using that by (auto intro!: orderly_intros simp: counted_def)
    have call: "quietly (andThen (on_impl (HandleWriteEnvelopes (impl E) path envs sync)) ?K)" for envs
      by (rule orderly_impl [where P = counted]) (use writing K assms(1) in auto)
    have skip: "quietly (andThen (ret new_HandlerResult) ?K)"
      by (rule orderly_ret) (rule K, simp add: counted_def new_HandlerResult_def)
    have "quietly (andThen (if length envs > 0 then on_impl (HandleWriteEnvelopes (impl E) path envs sync) else ret new_HandlerResult) ?K)"
      for envs using call [of envs] skip by (cases "length envs > 0") simp_all
    then show ?thesis unfolding write_envelopes_def Let_def by (rule orderly_after [OF orderly_parse])
  qed
  have body: "quietly (write_body E (Some (WriteEnvelopeV1 path datas ack sync)))" for path datas ack sync
    unfolding write_body_def write_checked_def using w orderly_quietly [OF orderly_CheckPath]
    by (auto intro!: orderly_intros split: option.split)
  have last: "orderly (\<lambda>r. r = AUTHORITATIVE) (andThen (gets response_vector) (\<lambda>out. ret (if length out > 0 then AUTHORITATIVE else DEFERRED)))"
    by (rule orderlyI) (auto simp: ret_run split: if_splits)
  have "quietly (andThen (OBTAIN_MESSAGE E (of_pb pb)) (\<lambda>(m, _). write_body E m))"
    by (rule orderly_obtain) (use own body in \<open>fastforce\<close>, simp add: write_body_def orderly_pure)
  then have "orderly (\<lambda>r. r = AUTHORITATIVE) (ProcessWriteEnvelope E (of_pb pb))"
    unfolding ProcessWriteEnvelope_def
    by (intro orderly_after [OF orderly_log orderly_after [OF _ orderly_after [OF orderly_log last]]])
  then show ?thesis by (simp add: dispatch_def)
qed

lemma respond_ends: "\<exists>s'. respond E m s = (Inr (), s') \<and> response_vector s' \<noteq> []"
  using does_respond [of E m s] by (auto simp: does_def pushes_def made_def)

lemma orderly_sequence: "orderly Q (send_sequence E tags path off b n env k stream)"
proof -
  have "orderly Q (andThen (gets response_vector) (\<lambda>acc.
       let envelopes_left = n - 1;
           (stream, bytes_read, envelopes_read, acc) =
             (if k < b \<and> envelopes_left \<noteq> 0
              then segment_loop (cdc E) stream env (b - k) envelopes_left k 1 acc
              else (stream, k, 1, acc)) in
       seq (modify (\<lambda>s. s\<lparr>response_vector := acc\<rparr>))
         (respond E (StreamSegmentEndV1 (word_of_int (offset stream)) bytes_read envelopes_read))))"
    (is "orderly Q ?M")
  proof -
    have "\<exists>t. ?M s = (Inr (), t) \<and> response_vector t \<noteq> []" for s
      by (cases "segment_loop (cdc E) stream env (b - k) (n - 1) k 1 (response_vector s)") (auto simp: Let_def intro: respond_ends)
    then show ?thesis by (intro orderlyI) (metis Inl_Inr_False prod.inject)+
  qed
  then show ?thesis unfolding send_sequence_def
    by (intro orderly_after [OF orderly_fresh] orderly_after [OF orderly_push])
qed

text \<open>The first part of the handler cannot fail but by the exceptions of the stream.\<close>

lemma orderly_send_segment: "orderly Q (send_segment E tags path off mb me stream)"
proof -
  have seek: "case (if off = 0 then Inr (True, stream)
       else (case SetAbsoluteOffset (to_int64 (uint off)) stream of
               (Inl x, _) \<Rightarrow> Inl x | (Inr ok, stream) \<Rightarrow> Inr (ok, stream))) of Inl x \<Rightarrow> catchable x | Inr (ok, _) \<Rightarrow> ok"
    by (simp add: SetAbsoluteOffset_def)
  show ?thesis
    unfolding send_segment_def
  proof (rule orderly_lift [where P = "\<lambda>(ok, _). ok"])
    fix y :: "bool \<times> InputStream" assume y: "case y of (ok, _) \<Rightarrow> ok"
    show "orderly Q (case y of (ok, stream) \<Rightarrow> if \<not> ok then throw (RuntimeException ''TODO handle error setting offset properly'')
     else
       andThen (gets (\<lambda>s. (get_stream_max_bytes s, get_stream_max_envelopes s))) (\<lambda>(bytes_left, envelopes_left).
       let bytes_left = (case mb of Some n \<Rightarrow> if n < bytes_left then n else bytes_left | None \<Rightarrow> bytes_left);
           envelopes_left = (case me of Some n \<Rightarrow> if n < envelopes_left then n else envelopes_left | None \<Rightarrow> envelopes_left) in
       andThen fresh (\<lambda>_.
       let (envelope_size, stream) = NextEnvelopeSize (cdc E) stream in
       andThen fresh (\<lambda>env.
       let ((ok, env, envelope_size), stream) =
             (if envelope_size = 0 then ((False, env, 0), stream) else ReadEnvelope (cdc E) env stream) in
       if \<not> ok then
         seq (LOG_MESSAGE E LogGetInvalidOffset)
           (PopulateErrorResponse E INVALID_STREAM_OFFSET ''no envelopes found at requested stream offset'')
       else
         send_sequence E tags path off bytes_left envelopes_left env envelope_size stream))))"
      using y by (cases y) (auto intro!: orderly_after [OF orderly_pure(3)] orderly_after [OF orderly_fresh]
          orderly_after [OF orderly_log] orderly_error orderly_sequence simp: Let_def split: prod.split)
  qed (rule seek)
qed

lemma orderly_get_stream:
  fixes E :: "'i rp_env"
  assumes "vstore E = V" "classes_ok (cdc E) (types E)" "asks 92 pb"
  shows "orderly Q (dispatch E (of_pb pb) 92)"
proof -
  obtain e' where g: "\<And>s. get_request E (of_pb pb) s = (Inr (request_of E pb, e'), s)" using get_request_run by blast
  have own: "\<exists>p off b n. m = GetStreamSegmentV1 p off b n" if "request_of E pb = Some m" for m
    using own_class_cases(5) request_class [OF assms(2,3) that] by blast
  have open_stream: "case fst (GetInputStream V path st) of Inl x \<Rightarrow> catchable x | Inr _ \<Rightarrow> True" for path st
  proof (cases "parse_path path")
    case (Some q)
    obtain b t n where q: "q = (b, t, n)" by (cases q)
    show ?thesis
      using stream_open [where b = b and t = t and n = n and st = st]
      by (cases "OpenInputStream V b t n st"; cases "fst (OpenInputStream V b t n st)")
        (auto simp: GetInputStream_def andThen_def ret_run Some q)
  qed (simp add: GetInputStream_def ret_run)
  have invalid: "orderly P (seq (LOG_MESSAGE E l) (PopulateErrorResponse E c m))" for P :: "unit \<Rightarrow> bool" and l c m
    by (rule orderly_after [OF orderly_log orderly_error])
  have read: "orderly P (andThen (on_store (GetInputStream (vstore E) path)) (\<lambda>stream.
                    case stream of
                      None \<Rightarrow>
                        seq (LOG_MESSAGE E LogGetInvalidStream)
                          (PopulateErrorResponse E PATH_NOT_FOUND ''requested stream could not be found'')
                    | Some stream \<Rightarrow> send_segment E tags path off mb me stream))" for P path tags off mb me
    by (rule orderly_store [where P = "\<lambda>_. True"])
      (use open_stream invalid orderly_send_segment assms(1) in \<open>auto split: option.split\<close>)
  have "andThen (get_request E (of_pb pb)) F = F (request_of E pb, e')" for F :: "Message option \<times> Envelope \<Rightarrow> ('i rp, unit) action"
    by (rule ext) (simp add: andThen_Inr [OF g])
  note run = this
  have body: "orderly (\<lambda>_. True) (andThen (get_request E (of_pb pb)) (\<lambda>(m, _).
        let invalid = (\<lambda>code msg. seq (LOG_MESSAGE E LogReceiveInvalidGet) (PopulateErrorResponse E code msg)) in
        case m of
          None \<Rightarrow> invalid UNKNOWN_REQUEST_TYPE ''error parsing get message... weird''
        | Some (GetStreamSegmentV1 None _ _ _) \<Rightarrow> invalid EMPTY_FIELD ''required field 'path' is not set''
        | Some (GetStreamSegmentV1 (Some path) start max_bytes max_envs) \<Rightarrow>
            andThen (CheckPath E path True True True) (\<lambda>ok.
              if \<not> ok then ret ()
              else case start of
                None \<Rightarrow> invalid EMPTY_FIELD ''required field 'start_offset' is not set''
              | Some start_offset \<Rightarrow>
                  andThen (on_store (GetInputStream (vstore E) path)) (\<lambda>stream.
                    case stream of
                      None \<Rightarrow>
                        seq (LOG_MESSAGE E LogGetInvalidStream)
                          (PopulateErrorResponse E PATH_NOT_FOUND ''requested stream could not be found'')
                    | Some stream \<Rightarrow> send_segment E (tag (envelope (of_pb pb))) path start_offset max_bytes max_envs stream))
        | Some _ \<Rightarrow> wrong_class))"
  proof (cases "request_of E pb")
    case None
    then show ?thesis using invalid by (simp add: run Let_def)
  next
    case (Some m)
    then obtain path off mb me where "m = GetStreamSegmentV1 path off mb me" using own by blast
    with Some show ?thesis
      by (cases path) (auto intro!: orderly_checked invalid read simp: run Let_def split: option.split)
  qed
  have "orderly Q (ProcessGetStream E (of_pb pb))"
    unfolding ProcessGetStream_def
    by (intro orderly_after [OF orderly_log] orderly_first [OF body] orderly_after [OF orderly_log] orderly_pure(1)) simp
  then show ?thesis by (simp add: dispatch_def)
qed

lemma orderly_other:
  assumes "ty \<notin> {73, 74, 75, 76, 78, 80, 81, 82, 92}"
  shows "orderly (\<lambda>r. r = AUTHORITATIVE) (dispatch E (of_pb pb) ty)"
proof -
  have ping: "orderly P (ProcessPing E)" for P unfolding ProcessPing_def
    by (rule orderly_first [OF orderly_respond]) (simp add: orderly_pure)
  have feat: "orderly P (ProcessFeatures E)" for P unfolding ProcessFeatures_def
    by (rule orderly_after [OF orderly_pure(3)], simp, rule orderly_first [OF orderly_respond]) (simp add: orderly_pure)
  have unknown: "orderly P (seq (LOG_MESSAGE E l) (seq (PopulateErrorResponse E c m) (ret AUTHORITATIVE)))" for P l c m
    by (intro orderly_after [OF orderly_log] orderly_error_first orderly_pure(1)) simp
  have plugin: "orderly (\<lambda>r. r = AUTHORITATIVE) (ProcessRegisterPlugin E (of_pb pb))"
    unfolding ProcessRegisterPlugin_def by (rule orderly_obtain) (simp_all add: orderly_pure)
  show ?thesis using assms
    by (simp add: dispatch_def ping feat unknown plugin ProcessSubscribeCancel_def ProcessUnregisterPlugin_def ProcessPluginStatus_def
        orderly_pure)
qed

text \<open>The requests that the contract does not cover.\<close>

lemma orderly_dispatch:
  assumes "impl E = I" "vstore E = V" "classes_ok (cdc E) (types E)" "asks ty pb"
    "request_of E pb \<noteq> Some (SubscribeKeepaliveV1 [])" "\<And>m. request_of E pb = Some m \<Longrightarrow> lua_of m = None"
  shows "orderly (\<lambda>r. r = AUTHORITATIVE) (dispatch E (of_pb pb) ty)"
proof -
  consider "ty \<in> {73, 74, 75, 76}" | "ty = 78" | "ty \<in> {80, 81}" | "ty = 82" | "ty = 92" | "ty \<notin> {73, 74, 75, 76, 78, 80, 81, 82, 92}"
    by blast
  then show ?thesis
    by cases (use assms orderly_info orderly_write orderly_subscribe orderly_keepalive orderly_get_stream orderly_other in blast)+
qed

end

section \<open>Survival\<close>

text \<open>From a handler that ends well to \<open>ProcessMessages\<close>.\<close>

definition ends_well :: "('i rp, ResponseStatus) action \<Rightarrow> 'i rp \<Rightarrow> bool" where
  "ends_well m s \<longleftrightarrow> (\<forall>x s'. m s = (Inl x, s') \<longrightarrow> catchable x) \<and>
     (\<forall>s'. m s = (Inr AUTHORITATIVE, s') \<longrightarrow> response_vector s' \<noteq> [])"

lemma ends_well_orderly: "orderly (\<lambda>r. r = AUTHORITATIVE) m \<Longrightarrow> ends_well m s"
  by (auto simp: ends_well_def dest: orderly_Inl orderly_Inr)

lemma ends_well_does: "does m s (Inr AUTHORITATIVE) (f # fs) \<Longrightarrow> ends_well m s"
  by (auto simp: ends_well_def does_def pushes_def made_def)

lemma tag_first_Nil: "tag_first ts out = [] \<longleftrightarrow> out = []"
  by (cases out) (simp_all add: tag_first_def)

lemma processed:
  assumes "mc_messages mc \<noteq> []" "request_frame (cdc E) pb (mc_messages mc ! 0)"
    "ends_well (check_and_dispatch E (of_pb pb)) (opened s)"
  shows "fst (ProcessMessages E mc s) = Inr ()"
proof -
  obtain r s' where run: "check_and_dispatch E (of_pb pb) (opened s) = (r, s')" by fastforce
  show ?thesis
  proof (cases r)
    case (Inl x)
    with run assms(3) have "catchable x" by (auto simp: ends_well_def)
    with run Inl show ?thesis
      using assms(1) open_frame [OF assms(2), of "opened s"]
      by (simp add: ProcessMessages_open andThen_Inr ProcessRequest_def andThen_Inl)
  next
    case (Inr status)
    show ?thesis
    proof (cases status)
      case DEFERRED
      with run Inr show ?thesis
        using assms(1) open_frame [OF assms(2), of "opened s"]
        by (simp add: ProcessMessages_open ProcessRequest_def andThen_Inr finish_response_def ret_run)
    next
      case AUTHORITATIVE
      with run Inr assms(3) have "response_vector s' \<noteq> []" by (auto simp: ends_well_def)
      with run Inr AUTHORITATIVE show ?thesis
        using assms(1) open_frame [OF assms(2), of "opened s"]
        by (simp add: ProcessMessages_open ProcessRequest_def andThen_Inr finish_response_def ret_run tag_first_Nil)
    qed
  qed
qed

lemma unframed_rejected:
  assumes "\<nexists>pb. request_frame (cdc E) pb m"
  shows "\<exists>s'. open_and_process E m s = (Inr None, s')"
proof -
  have rej: "\<exists>s'. reject E code msg s = (Inr None, s')" for code msg s
    using does_reject [of E code msg s] by (auto simp: does_def)
  have log: "\<exists>s'. seq (LOG_MESSAGE E l) (reject E code msg) s = (Inr None, s')" for l code msg s
    using does_logged_reject [of E l code msg s] by (auto simp: does_def)
  have "\<exists>x. Envelope_of_zmq (cdc E) m 1 = Inl x \<and> catchable x" if "m \<noteq> []" "hd m = CHR 0x01"
    using assms that by (cases m; cases "ParseEnvelope (cdc E) (tl m)")
      (auto simp: Envelope_of_zmq_def InitializeFromBuffer_def request_frame_def)
  with rej log show ?thesis by (auto simp: open_and_process_def)
qed

lemma check_orderly:
  assumes "\<nexists>ty. asks ty pb"
  shows "orderly Q (check_and_dispatch E (of_pb pb))"
proof -
  have err: "orderly Q (seq (LOG_MESSAGE E l) (seq (PopulateErrorResponse E c m) (ret AUTHORITATIVE)))" for l c m
    by (intro orderly_after [OF orderly_log] orderly_error_first orderly_pure(1)) simp
  show ?thesis using assms err
    by (auto simp: check_and_dispatch_def MessageCount_def of_pb_def asks_def)
qed

text \<open>
  The requests that end the thread: a keepalive without ids, and Lua code that loads, never ends or
  crashes the interpreter.
\<close>

definition takes_thread :: "string option res \<Rightarrow> bool" where
  "takes_thread loaded \<longleftrightarrow> (case loaded of Inl x \<Rightarrow> \<not> catchable x | Inr error \<Rightarrow> error = None)"

definition fatal :: "'i rp_env \<Rightarrow> u32 \<Rightarrow> EnvelopePB \<Rightarrow> bool" where
  "fatal E ceiling pb \<longleftrightarrow>
     asks 82 pb \<and> request_of E pb = Some (SubscribeKeepaliveV1 []) \<or>
     asks 81 pb \<and> (\<exists>ps code ns a b. request_of E pb = Some (SubscribeEnvelopesV1 ps (Some code) ns a b) \<and>
       length a = length b \<and> takes_thread (LoadLuaCode E ceiling code))"

lemma fatal_ends:
  assumes "mc_messages mc \<noteq> []" "request_frame (cdc E) pb (mc_messages mc ! 0)" "fatal E (lua_memory_max s) pb"
  shows "fst (ProcessMessages E mc s) \<noteq> Inr ()"
proof (cases "asks 82 pb \<and> request_of E pb = Some (SubscribeKeepaliveV1 [])")
  case True
  with keepalive_undefined [OF assms(1,2)] show ?thesis by simp
next
  case False
  with assms(3) obtain ps code ns a b where m: "asks 81 pb" "request_of E pb = Some (SubscribeEnvelopesV1 ps (Some code) ns a b)"
    "length a = length b" and lua: "takes_thread (LoadLuaCode E (lua_memory_max s) code)"
    by (auto simp: fatal_def)
  from lua lua_subscription [OF assms(1,2) m, of s] show ?thesis
    by (auto simp: takes_thread_def lua_outcome_def split: sum.splits)
qed

lemma frame_unique: "request_frame c pb m \<Longrightarrow> request_frame c pb' m \<Longrightarrow> pb = pb'"
  by (simp add: request_frame_def)

lemma empty_container_returns: "mc_messages mc = [] \<Longrightarrow> fst (ProcessMessages E mc s) = Inr ()"
  by (simp add: ProcessMessages_def fresh_def andThen_def ret_run)

lemma lua_of_SomeE:
  assumes "lua_of m = Some code"
  obtains ps ns a b where "m = SubscribeEnvelopesV1 ps (Some code) ns a b"
  using assms by (cases m) auto

context processor_contract
begin

lemma survives_request:
  assumes "impl E = I" "vstore E = V" "classes_ok (cdc E) (types E)" "\<not> fatal E (lua_memory_max s) pb"
  shows "ends_well (check_and_dispatch E (of_pb pb)) (opened s)"
proof (cases "\<exists>ty. asks ty pb")
  case False
  then show ?thesis by (intro ends_well_orderly check_orderly) simp
next
  case True
  then obtain ty where ty: "asks ty pb" by blast
  then have run: "check_and_dispatch E (of_pb pb) = dispatch E (of_pb pb) ty"
    using asks_dispatch [of ty "of_pb pb" E] by (simp add: of_pb_def)
  have class': "own_class ty m" if "request_of E pb = Some m" for m using request_class [OF assms(3) ty that] .
  show ?thesis
  proof (cases "\<exists>m code. request_of E pb = Some m \<and> lua_of m = Some code")
    case True
    then obtain ps code ns a b where m: "request_of E pb = Some (SubscribeEnvelopesV1 ps (Some code) ns a b)"
      by (blast elim: lua_of_SomeE)
    from class' [OF m] have "ty = 81" by (simp add: own_class_def)
    show ?thesis
    proof (cases "length a = length b")
      case True
      then have "\<not> takes_thread (LoadLuaCode E (lua_memory_max (opened s)) code)"
        using assms(4) m ty \<open>ty = 81\<close> by (fastforce simp: fatal_def)
      then consider (error) msg where "LoadLuaCode E (lua_memory_max (opened s)) code = Inr (Some msg)"
        | (throws) x where "LoadLuaCode E (lua_memory_max (opened s)) code = Inl x" "catchable x"
        by (auto simp: takes_thread_def split: sum.splits)
      then show ?thesis
      proof cases
        case error
        from ends_well_does [OF lua_rejected [OF m True this]] show ?thesis by (simp add: run \<open>ty = 81\<close>)
      next
        case throws
        then show ?thesis by (simp add: ends_well_def run \<open>ty = 81\<close> lua_run [OF m True] throw_run)
      qed
    next
      case False
      from ends_well_does [OF lua_lengths_differ [OF m False]] show ?thesis by (simp add: run \<open>ty = 81\<close>)
    qed
  next
    case False
    moreover have "request_of E pb \<noteq> Some (SubscribeKeepaliveV1 [])"
      using class' ty assms(4) by (force simp: own_class_def fatal_def)
    ultimately show ?thesis
      unfolding run by (intro ends_well_orderly orderly_dispatch [OF assms(1-3) ty]) auto
  qed
qed

lemma survives:
  assumes "impl E = I" "vstore E = V" "classes_ok (cdc E) (types E)"
  shows "fst (ProcessMessages E mc s) = Inr () \<longleftrightarrow>
    \<not> (mc_messages mc \<noteq> [] \<and> (\<exists>pb. request_frame (cdc E) pb (mc_messages mc ! 0) \<and> fatal E (lua_memory_max s) pb))"
proof (cases "mc_messages mc = []")
  case True
  then show ?thesis by (simp add: empty_container_returns)
next
  case ne: False
  show ?thesis
  proof (cases "\<exists>pb. request_frame (cdc E) pb (mc_messages mc ! 0)")
    case False
    with unframed_rejected obtain s' where "open_and_process E (mc_messages mc ! 0) (opened s) = (Inr None, s')" by blast
    with False ne show ?thesis by (simp add: ProcessMessages_open andThen_Inr ret_run)
  next
    case True
    then obtain pb where pb: "request_frame (cdc E) pb (mc_messages mc ! 0)" by blast
    show ?thesis
      using ne pb frame_unique [OF _ pb] fatal_ends [OF ne pb] processed [OF ne pb survives_request [OF assms]] by blast
  qed
qed

end

section \<open>The server\<close>

text \<open>The server's implementation and the directory store keep the contract.\<close>

interpretation server: processor_contract "ServerRequestProcessor c" "sds_ops c'" for c c'
proof
  fix sub :: SubscriptionInfo and i :: server_impl
  assume "si_type sub \<noteq> UNKNOWN_TYPE"
  then show "case fst (HandleSubscriptionRequest (ServerRequestProcessor c) sub i) of Inl x \<Rightarrow> catchable x | Inr r \<Rightarrow> settled r"
    by (simp add: sr_HandleSubscriptionRequest_def ToProtocolBuffer_def Let_def settled_def MakeSubscriptionAccepted_def
        new_HandlerResult_def split: prod.split)
next
  fix e and i :: server_impl and out
  show "case HandleSubscribeKeepalive (ServerRequestProcessor c) e (i, out) of
        (Inl x, _) \<Rightarrow> catchable x | (Inr r, _, out') \<Rightarrow> (\<not> deferred r \<or> out \<noteq> [] \<longrightarrow> out' \<noteq> [])"
    by (simp add: sr_HandleSubscribeKeepalive_def MakeDeferred_def split: prod.split)
next
  fix path es sync and i :: server_impl
  show "case fst (HandleWriteEnvelopes (ServerRequestProcessor c) path es sync i) of Inl x \<Rightarrow> catchable x | Inr r \<Rightarrow> counted r"
    by (simp add: sr_HandleWriteEnvelopes_def throw_run)
next
  fix b t n st
  have "case new_FileInputStream fs p 0 of Inl x \<Rightarrow> catchable x | Inr _ \<Rightarrow> True" for fs p
    by (auto simp: new_FileInputStream_def File_Open_def split: option.split prod.split sum.split)
  then show "case fst (OpenInputStream (sds_ops c') b t n st) of Inl x \<Rightarrow> catchable x | Inr _ \<Rightarrow> True"
    by (simp add: sds_ops_def sds_OpenInputStream_def Let_def split: sum.split) (metis old.sum.simps(5))
qed

text \<open>
  C31: the server's request processor survives every message but two kinds, exactly: a keepalive
  without ids (undefined behaviour), and a subscription with Lua code that loads (a failed assertion), that
  never ends (the thread runs it for ever) or that crashes the interpreter. Everything else, malformed
  or not and whatever the store, the sockets or the handlers throw, makes \<open>ProcessMessages\<close> return.
\<close>

theorem server_survives:
  assumes "classes_ok c reg"
  shows "fst (ProcessMessages (server_env c reg lua) mc s) = Inr () \<longleftrightarrow>
    \<not> (mc_messages mc \<noteq> [] \<and>
       (\<exists>pb. request_frame c pb (mc_messages mc ! 0) \<and> fatal (server_env c reg lua) (lua_memory_max s) pb))"
  using server.survives [of "server_env c reg lua" c c mc s] assms by simp

lemma server_survives_witness:
  "fst (ProcessMessages sample_env (sample_request CHR ''R'') sample_rp) = Inr () \<and>
   fst (ProcessMessages sample_env (sample_request CHR ''Q'') sample_rp) \<noteq> Inr ()"
proof -
  have f: "request_frame sample_codec pb (mc_messages (sample_request ty) ! 0) \<longleftrightarrow> pb = sample_pb ty" for pb ty
    using sample_frame(2) frame_unique by blast
  have "\<not> fatal sample_env 65535 (sample_pb CHR ''R'')" "fatal sample_env 65535 (sample_pb CHR ''Q'')"
    using sample_asks [of "CHR ''R''"] sample_lua
    by (auto simp: fatal_def takes_thread_def sample_request_of sample_types_def asks_def)
  with server_survives [OF sample_classes, of "\<lambda>_ _. Inr None" _ sample_rp, folded sample_env_def] sample_frame(1) f show ?thesis
    by (simp add: sample_rp_def)
qed

end
