(* ===== verification/Lua_State.thy ===== *)
theory Lua_State
  imports Envelope Store_Path "HOL-Library.Multiset"
begin

text \<open>
  The Lua bindings (src/zippylog/lua.cpp): the memory limit of an interpreter, the classification of
  what a script's functions return, and the methods of envelopes that scripts call. The interpreter is
  a library: what a call of a Lua function returns is a parameter, a list of values on the stack.
\<close>

section \<open>Values\<close>

text \<open>
  A value as the C functions see it: a number carries its integer part and its text, a table its
  fields \<open>bucket\<close> and \<open>set\<close>, an envelope the pointer of its userdata, which is NULL once it has been
  collected; of other userdata only whether it has a metatable.
\<close>

datatype LuaValue = LNil | LBoolean bool | LNumber int string | LString string | LTable LuaValue LuaValue
  | LFunction | LEnvelope "Envelope option" | LUserdata bool

text \<open>\<open>lua_isstring\<close> with \<open>lua_tolstring\<close>: numbers convert.\<close>

fun lua_text :: "LuaValue \<Rightarrow> string option" where
  "lua_text (LString s) = Some s"
| "lua_text (LNumber _ s) = Some s"
| "lua_text _ = None"

datatype LoadReturn = NIL | BOOLTRUE | BOOLFALSE | STRING | MESSAGE | ENVELOPES | INVALID

record LoadStringResult =
  ls_success :: bool
  has_bucket :: bool
  has_set :: bool
  ls_error :: string
  ls_type :: "LoadReturn option"
  ls_bucket :: string
  ls_set :: string
  strings :: "string list"
  envelopes :: "Envelope list"

definition new_LoadStringResult :: LoadStringResult where
  "new_LoadStringResult = \<lparr>ls_success = False, has_bucket = False, has_set = False, ls_error = [], ls_type = None,
     ls_bucket = [], ls_set = [], strings = [], envelopes = []\<rparr>"

datatype FilterReturn = FTRUE | FFALSE | FOTHER

record EnvelopeFilterResult =
  ef_success :: bool
  ef_type :: "FilterReturn option"
  ef_error :: string

definition new_EnvelopeFilterResult :: EnvelopeFilterResult where
  "new_EnvelopeFilterResult = \<lparr>ef_success = False, ef_type = None, ef_error = []\<rparr>"

section \<open>The interpreter's memory\<close>

record lua_memory =
  memory_exceeded :: bool
  memory_ceiling :: u32
  memory_current :: u32
  memory_max_tried :: u32
  memory_max_allowed :: u32

definition new_lua_memory :: lua_memory where
  "new_lua_memory = \<lparr>memory_exceeded = False, memory_ceiling = 32768, memory_current = 0, memory_max_tried = 0, memory_max_allowed = 0\<rparr>"

definition SetMemoryCeiling :: "u32 \<Rightarrow> lua_memory \<Rightarrow> bool \<times> lua_memory" where
  "SetMemoryCeiling n m = (True, m\<lparr>memory_ceiling := n\<rparr>)"

text \<open>
  \<open>realloc_ok\<close> is whether \<open>realloc\<close> succeeds. The result is whether a block is returned. Sizes are of the
  64-bit type \<open>size_t\<close>; the counters keep the low 32 bits.
\<close>

definition LuaAlloc :: "bool \<Rightarrow> u64 \<Rightarrow> u64 \<Rightarrow> lua_memory \<Rightarrow> bool \<times> lua_memory" where
  "LuaAlloc realloc_ok osize nsize m =
     (if nsize = 0 then (False, m\<lparr>memory_current := ucast (ucast (memory_current m) - osize :: u64)\<rparr>)
      else if nsize < osize then
        (realloc_ok, m\<lparr>memory_current := ucast (ucast (memory_current m) - (osize - nsize) :: u64)\<rparr>)
      else
        let m = m\<lparr>memory_max_tried := ucast (ucast (memory_max_tried m) + (nsize - osize) :: u64)\<rparr> in
        if ucast (memory_current m) + nsize - osize > (ucast (memory_ceiling m) :: u64) then (False, m\<lparr>memory_exceeded := True\<rparr>)
        else
          let current = ucast (ucast (memory_current m) + (nsize - osize) :: u64);
              m = m\<lparr>memory_current := current\<rparr>;
              m = (if current > memory_max_allowed m then m\<lparr>memory_max_allowed := current\<rparr> else m)
          in (realloc_ok, m))"

section \<open>Results of scripts\<close>

text \<open>
  The loop over the returned values, with the number of them, whether a type has been seen, and the
  result so far. Copying an envelope that has been collected reads a null pointer.
\<close>

fun scan_values :: "nat \<Rightarrow> bool \<Rightarrow> LuaValue list \<Rightarrow> LoadStringResult \<Rightarrow> LoadStringResult res" where
  "scan_values value_results got_type [] r = Inr r"
| "scan_values value_results got_type (v # vs) r =
     (case v of
        LBoolean b \<Rightarrow>
          if value_results > 1 then Inr (r\<lparr>ls_type := Some INVALID\<rparr>)
          else scan_values value_results True vs (r\<lparr>ls_type := Some (if b then BOOLTRUE else BOOLFALSE)\<rparr>)
      | _ \<Rightarrow>
          (case lua_text v of
             Some s \<Rightarrow>
               if got_type \<and> ls_type r \<noteq> Some STRING then Inr (r\<lparr>ls_type := Some INVALID\<rparr>)
               else scan_values value_results True vs (r\<lparr>ls_type := Some STRING, strings := strings r @ [s]\<rparr>)
           | None \<Rightarrow>
               (case v of
                  LEnvelope e \<Rightarrow>
                    if got_type \<and> ls_type r \<noteq> Some ENVELOPES then Inr (r\<lparr>ls_type := Some INVALID\<rparr>)
                    else
                      (case e of
                         None \<Rightarrow> Inl (Undefined ''collected envelope'')
                       | Some e \<Rightarrow>
                           scan_values value_results True vs
                             (r\<lparr>envelopes := envelopes r @ [copy_Envelope e], ls_type := Some ENVELOPES\<rparr>))
                | _ \<Rightarrow> Inr (r\<lparr>ls_type := Some INVALID\<rparr>))))"

definition take_bucket :: "LuaValue \<Rightarrow> LoadStringResult \<Rightarrow> LoadStringResult" where
  "take_bucket v r = (case lua_text v of Some s \<Rightarrow> r\<lparr>has_bucket := True, ls_bucket := s\<rparr> | None \<Rightarrow> r)"

definition take_set :: "LuaValue \<Rightarrow> LoadStringResult \<Rightarrow> LoadStringResult" where
  "take_set v r = (case lua_text v of Some s \<Rightarrow> r\<lparr>has_set := True, ls_set := s\<rparr> | None \<Rightarrow> r)"

definition read_values :: "LuaValue list \<Rightarrow> LoadStringResult \<Rightarrow> LoadStringResult res" where
  "read_values vs r =
     (if length vs < 1 then Inr (r\<lparr>ls_type := Some INVALID\<rparr>)
      else if vs = [LNil] then Inr (r\<lparr>ls_type := Some NIL\<rparr>)
      else
        (case hd vs of
           LTable b s \<Rightarrow>
             if length vs - 1 < 1 then Inr (r\<lparr>ls_type := Some INVALID\<rparr>)
             else scan_values (length vs - 1) False (tl vs) (take_set s (take_bucket b r))
         | _ \<Rightarrow> scan_values (length vs) False vs r))"

text \<open>
  An interpreter: its memory, the capabilities found, and the behaviour of the loaded script: the
  \<open>k\<close>-th call into it returns an error message or the values. \<open>dostring\<close> is the library's loading of a
  chunk: an error message or nothing, and the global variables after it; \<open>number_of\<close> is Lua's reading
  of a string as a number.
\<close>

record LuaState =
  lua_mem :: lua_memory
  have_load_string :: bool
  have_subscription_envelope_filter :: bool
  have_subscription_timer :: bool
  globals :: "string \<Rightarrow> LuaValue"
  lua_calls :: nat
  run_load :: "nat \<Rightarrow> string \<Rightarrow> string + LuaValue list"
  run_filter :: "nat \<Rightarrow> Envelope \<Rightarrow> string \<times> string \<times> string \<Rightarrow> string + LuaValue"
  dostring :: "(string \<Rightarrow> LuaValue) \<Rightarrow> string \<Rightarrow> string option \<times> (string \<Rightarrow> LuaValue)"
  number_of :: "string \<Rightarrow> int option"

definition lua_number :: "LuaState \<Rightarrow> LuaValue \<Rightarrow> int option" where
  "lua_number L v = (case v of LNumber n _ \<Rightarrow> Some n | LString s \<Rightarrow> number_of L s | _ \<Rightarrow> None)"

definition DetermineCapabilities :: "LuaState \<Rightarrow> bool \<times> LuaState" where
  "DetermineCapabilities L =
     (let L = L\<lparr>have_load_string := globals L ''zippylog_load_string'' = LFunction\<rparr>;
          L = L\<lparr>have_subscription_envelope_filter := globals L ''zippylog_subscription_filter_envelope'' = LFunction\<rparr>;
          interval = lua_number L (globals L ''zippylog_subscription_timer_interval'') \<noteq> None;
          signaled = globals L ''zippylog_subscription_timer_signaled'' = LFunction;
          L = L\<lparr>have_subscription_timer := interval \<and> signaled\<rparr>
      in if \<not> have_subscription_timer L \<and> (interval \<or> signaled) then (False, L) else (True, L))"

text \<open>The results: the flag, the error string after the call, and the interpreter.\<close>

definition LoadLuaCode_state :: "string \<Rightarrow> string \<Rightarrow> LuaState \<Rightarrow> bool \<times> string \<times> LuaState" where
  "LoadLuaCode_state code error L =
     (case dostring L (globals L) (c_str code) of
        (Some msg, g) \<Rightarrow> (False, msg, L\<lparr>globals := g\<rparr>)
      | (None, g) \<Rightarrow> (let (ok, L) = DetermineCapabilities (L\<lparr>globals := g\<rparr>) in (ok, error, L)))"

text \<open>\<open>dofile\<close> is the library's loading of a file, like \<open>dostring\<close>.\<close>

definition LoadFile_state ::
  "((string \<Rightarrow> LuaValue) \<Rightarrow> string \<Rightarrow> string option \<times> (string \<Rightarrow> LuaValue)) \<Rightarrow> string \<Rightarrow> string \<Rightarrow> LuaState \<Rightarrow>
   bool \<times> string \<times> LuaState" where
  "LoadFile_state dofile filename error L =
     (case dofile (globals L) (c_str filename) of
        (Some msg, g) \<Rightarrow> (False, msg, L\<lparr>globals := g\<rparr>)
      | (None, g) \<Rightarrow> (let (ok, L) = DetermineCapabilities (L\<lparr>globals := g\<rparr>) in (ok, error, L)))"

definition GetGlobal_int :: "string \<Rightarrow> LuaState \<Rightarrow> int option" where
  "GetGlobal_int s L = lua_number L (globals L (c_str s))"

definition GetGlobal_string :: "string \<Rightarrow> LuaState \<Rightarrow> string option" where
  "GetGlobal_string s L = lua_text (globals L (c_str s))"

definition ExecuteLoadString :: "string \<Rightarrow> LoadStringResult \<Rightarrow> LuaState \<Rightarrow> (bool \<times> LoadStringResult) res \<times> LuaState" where
  "ExecuteLoadString s r L =
     (if \<not> have_load_string L then (Inr (False, r), L)
      else
        (let out = run_load L (lua_calls L) s; L = L\<lparr>lua_calls := lua_calls L + 1\<rparr> in
         case out of
           Inl error \<Rightarrow> (Inr (True, r\<lparr>ls_success := False, ls_error := error\<rparr>), L)
         | Inr vs \<Rightarrow> (rbind (read_values vs (r\<lparr>ls_success := True\<rparr>)) (\<lambda>r. Inr (True, r)), L)))"

definition ExecuteSubscriptionEnvelopeFilter ::
  "Envelope \<Rightarrow> string \<Rightarrow> EnvelopeFilterResult \<Rightarrow> LuaState \<Rightarrow> (bool \<times> EnvelopeFilterResult) res \<times> LuaState" where
  "ExecuteSubscriptionEnvelopeFilter e path r L =
     (if \<not> have_subscription_envelope_filter L then (Inr (False, r), L)
      else
        (case parse_path path of
           None \<Rightarrow> (Inl (ThrownPointer ''unable to parse path. this should never happen''), L)
         | Some names \<Rightarrow>
             let out = run_filter L (lua_calls L) (copy_Envelope e) names; L = L\<lparr>lua_calls := lua_calls L + 1\<rparr> in
             (case out of
                Inl error \<Rightarrow> (Inr (True, r\<lparr>ef_success := False, ef_error := error\<rparr>), L)
              | Inr (LBoolean b) \<Rightarrow> (Inr (True, r\<lparr>ef_success := True, ef_type := Some (if b then FTRUE else FFALSE)\<rparr>), L)
              | Inr _ \<Rightarrow> (Inr (True, r\<lparr>ef_success := True, ef_type := Some FOTHER\<rparr>), L))))"

section \<open>The methods of envelopes\<close>

text \<open>
  What a C function called from Lua gives: an error it raises, or the values it returns, and the
  userdata's pointer afterwards. The first argument is checked to be an envelope; a null pointer is
  dereferenced. \<open>num\<close> is the library's conversion of an argument to an integer.
\<close>

datatype LuaError = BadArgument nat | ErrorMessage string | RangeMessage string int int

type_synonym lua_outcome = "(LuaError + LuaValue list) res \<times> Envelope option"

definition on_envelope :: "(Envelope \<Rightarrow> lua_outcome) \<Rightarrow> LuaValue list \<Rightarrow> lua_outcome" where
  "on_envelope f args =
     (case args of
        LEnvelope (Some e) # _ \<Rightarrow> f e
      | LEnvelope None # _ \<Rightarrow> (Inl (Undefined ''collected envelope''), None)
      | _ \<Rightarrow> (Inr (Inl (BadArgument 1)), None))"

definition returns :: "LuaValue list \<Rightarrow> Envelope \<Rightarrow> lua_outcome" where
  "returns vs e = (Inr (Inr vs), Some e)"

definition raises :: "LuaError \<Rightarrow> Envelope \<Rightarrow> lua_outcome" where
  "raises x e = (Inr (Inl x), Some e)"

definition lua_integer :: "int \<Rightarrow> LuaValue" where
  "lua_integer n = LNumber n []"

definition envelope_new :: "u64 \<Rightarrow> LuaValue" where
  "envelope_new now = LEnvelope (Some (new_Envelope now))"

definition envelope_gc :: "LuaValue list \<Rightarrow> lua_outcome" where
  "envelope_gc args =
     (case args of
        LEnvelope _ # _ \<Rightarrow> (Inr (Inr [LEnvelope None]), None)
      | _ \<Rightarrow> (Inr (Inl (BadArgument 1)), None))"

definition envelope_serialize :: "codec \<Rightarrow> LuaValue list \<Rightarrow> lua_outcome" where
  "envelope_serialize c args = on_envelope (\<lambda>e. returns [LString (snd (Serialize c e []))] e) args"

definition envelope_message_count :: "LuaValue list \<Rightarrow> lua_outcome" where
  "envelope_message_count args = on_envelope (\<lambda>e. returns [lua_integer (int (MessageCount e))] e) args"

definition envelope_message_enumeration :: "(LuaValue \<Rightarrow> int option) \<Rightarrow> LuaValue list \<Rightarrow> lua_outcome" where
  "envelope_message_enumeration num args = on_envelope (\<lambda>e.
     if length args \<noteq> 2 then raises (ErrorMessage ''message_enumeration() requires one integer argument. none given'') e
     else
       (case num (args ! 1) of
          None \<Rightarrow> raises (BadArgument 2) e
        | Some off \<Rightarrow>
            let current_size = MessageCount e in
            if off < 1 \<or> off > int current_size
            then raises (RangeMessage ''message_enumeration'' (int current_size + 1) off) e
            else
              let i = nat (off - 1); pb = envelope e in
              if length (message_ns pb) \<le> i \<or> length (message_ty pb) \<le> i
              then (Inl (Undefined ''enumeration past the end''), Some e)
              else returns [lua_integer (uint (message_ns pb ! i)), lua_integer (uint (message_ty pb ! i))] e)) args"

definition envelope_tag_count :: "LuaValue list \<Rightarrow> lua_outcome" where
  "envelope_tag_count args = on_envelope (\<lambda>e. returns [lua_integer (int (length (tag (envelope e))))] e) args"

definition envelope_add_tag :: "LuaValue list \<Rightarrow> lua_outcome" where
  "envelope_add_tag args = on_envelope (\<lambda>e.
     if length args \<noteq> 2 then raises (ErrorMessage ''add_tag() requires one string argument. none given'') e
     else (case lua_text (args ! 1) of None \<Rightarrow> raises (BadArgument 2) e | Some s \<Rightarrow> returns [] (AddTag s e))) args"

definition envelope_get_tag :: "(LuaValue \<Rightarrow> int option) \<Rightarrow> LuaValue list \<Rightarrow> lua_outcome" where
  "envelope_get_tag num args = on_envelope (\<lambda>e.
     if length args \<noteq> 2 then raises (ErrorMessage ''get_tag() requires one integer argument. none given'') e
     else
       (case num (args ! 1) of
          None \<Rightarrow> raises (BadArgument 2) e
        | Some off \<Rightarrow>
            let current_size = length (tag (envelope e)) in
            if off < 1 \<or> off > int current_size then raises (RangeMessage ''get_tag'' (int current_size + 1) off) e
            else returns [LString (tag (envelope e) ! nat (off - 1))] e)) args"

definition envelope_serialized_byte_size :: "codec \<Rightarrow> LuaValue list \<Rightarrow> lua_outcome" where
  "envelope_serialized_byte_size c args =
     on_envelope (\<lambda>e. returns [lua_integer (int (length (EnvelopeBytes c (envelope e))))] e) args"

definition envelope_get_string_value :: "LuaValue list \<Rightarrow> lua_outcome" where
  "envelope_get_string_value args =
     on_envelope (\<lambda>e. returns [case string_value (envelope e) of None \<Rightarrow> LNil | Some s \<Rightarrow> LString s] e) args"

definition envelope_set_string_value :: "LuaValue list \<Rightarrow> lua_outcome" where
  "envelope_set_string_value args = on_envelope (\<lambda>e.
     if length args \<noteq> 2 then raises (ErrorMessage ''set_string_value() expects one string argument. none given'') e
     else (case lua_text (args ! 1) of
             None \<Rightarrow> raises (BadArgument 2) e
           | Some s \<Rightarrow> returns [] (e\<lparr>envelope := (envelope e)\<lparr>string_value := Some s\<rparr>\<rparr>))) args"

definition envelope_get_message :: "LuaError" where
  "envelope_get_message = ErrorMessage ''get_message() is not yet implemented''"

definition envelope_add_message :: "LuaError" where
  "envelope_add_message = ErrorMessage ''add_message() is not yet implemented''"

section \<open>The convention of load functions\<close>

text \<open>
  The documented return values of \<open>zippylog_load_string\<close>: nil; a boolean; one or more strings; one or
  more envelopes; and each of them but nil behind a table. Everything else is invalid.
\<close>

definition all_text :: "LuaValue list \<Rightarrow> bool" where
  "all_text vs \<longleftrightarrow> list_all (\<lambda>v. lua_text v \<noteq> None) vs"

definition live :: "LuaValue \<Rightarrow> bool" where
  "live v = (case v of LEnvelope (Some _) \<Rightarrow> True | _ \<Rightarrow> False)"

definition kind :: "LuaValue list \<Rightarrow> LoadReturn" where
  "kind vs =
     (if vs = [] then INVALID
      else if vs = [LBoolean True] then BOOLTRUE
      else if vs = [LBoolean False] then BOOLFALSE
      else if all_text vs then STRING
      else if list_all live vs then ENVELOPES
      else INVALID)"

fun behind_table :: "LuaValue list \<Rightarrow> LuaValue list" where
  "behind_table (LTable _ _ # vs) = vs"
| "behind_table vs = vs"

definition convention :: "LuaValue list \<Rightarrow> LoadReturn" where
  "convention vs = (if vs = [LNil] then NIL else kind (behind_table vs))"

lemma all_text_simps [simp]: "all_text []" "all_text (v # vs) \<longleftrightarrow> lua_text v \<noteq> None \<and> all_text vs"
  by (simp_all add: all_text_def)

definition texts :: "LuaValue list \<Rightarrow> string list" where
  "texts vs = map (the \<circ> lua_text) vs"

fun pointee :: "LuaValue \<Rightarrow> Envelope" where
  "pointee (LEnvelope (Some e)) = copy_Envelope e"
| "pointee v = of_pb empty_envelope"

lemma live_iff: "live v \<longleftrightarrow> (\<exists>e. v = LEnvelope (Some e))"
  by (cases v) (auto simp: live_def split: option.split)

lemma scan_strings:
  assumes "list_all (\<lambda>v. v \<noteq> LEnvelope None) vs" "ls_type r = Some STRING" "n > length vs"
  shows "if all_text vs then scan_values n True vs r = Inr (r\<lparr>ls_type := Some STRING, strings := strings r @ texts vs\<rparr>)
    else \<exists>r'. scan_values n True vs r = Inr r' \<and> ls_type r' = Some INVALID \<and> ls_success r' = ls_success r"
  using assms
proof (induction vs arbitrary: r)
  case Nil
  then show ?case by (cases r) (simp add: texts_def)
next
  case (Cons v vs)
  show ?case
  proof (cases "lua_text v")
    case None
    with Cons.prems show ?thesis by (cases v) (auto split: option.splits)
  next
    case (Some s)
    let ?r = "r\<lparr>ls_type := Some STRING, strings := strings r @ [s]\<rparr>"
    have v: "scan_values n True (v # vs) r = scan_values n True vs ?r"
      using Some Cons.prems(2) by (cases v) auto
    from Cons.IH [of ?r] Cons.prems Some show ?thesis unfolding v by (cases "all_text vs") (simp_all add: texts_def)
  qed
qed

lemma scan_envelopes:
  assumes "list_all (\<lambda>v. v \<noteq> LEnvelope None) vs" "ls_type r = Some ENVELOPES" "n > length vs"
  shows "if list_all live vs then scan_values n True vs r = Inr (r\<lparr>ls_type := Some ENVELOPES, envelopes := envelopes r @ map pointee vs\<rparr>)
    else \<exists>r'. scan_values n True vs r = Inr r' \<and> ls_type r' = Some INVALID \<and> ls_success r' = ls_success r"
  using assms
proof (induction vs arbitrary: r)
  case Nil
  then show ?case by (cases r) simp
next
  case (Cons v vs)
  show ?case
  proof (cases "live v")
    case False
    with Cons.prems show ?thesis by (cases v) (auto simp: live_iff split: option.splits)
  next
    case True
    then obtain e where e: "v = LEnvelope (Some e)" by (auto simp: live_iff)
    let ?r = "r\<lparr>envelopes := envelopes r @ [copy_Envelope e], ls_type := Some ENVELOPES\<rparr>"
    have v: "scan_values n True (v # vs) r = scan_values n True vs ?r" using e Cons.prems(2) by simp
    have "live v = True" using True by simp
    with Cons.IH [of ?r] Cons.prems show ?thesis unfolding v by (cases "list_all live vs") (simp_all add: e)
  qed
qed

lemma scan_kind:
  assumes "list_all (\<lambda>v. v \<noteq> LEnvelope None) vs" "vs \<noteq> []" "strings r = []" "envelopes r = []"
  shows "\<exists>r'. scan_values (length vs) False vs r = Inr r' \<and> ls_type r' = Some (kind vs) \<and> ls_success r' = ls_success r \<and>
    (kind vs = STRING \<longrightarrow> strings r' = texts vs) \<and> (kind vs = ENVELOPES \<longrightarrow> envelopes r' = map pointee vs) \<and>
    (kind vs \<noteq> INVALID \<longrightarrow> (has_bucket r', has_set r', ls_bucket r', ls_set r') = (has_bucket r, has_set r, ls_bucket r, ls_set r))"
proof -
  obtain v ws where vs: "vs = v # ws" using assms(2) by (cases vs) auto
  have ws: "list_all (\<lambda>v. v \<noteq> LEnvelope None) ws" using assms(1) vs by simp
  consider b where "v = LBoolean b" | s where "lua_text v = Some s" | e where "v = LEnvelope (Some e)"
    | "lua_text v = None" "\<not> live v" "\<nexists>b. v = LBoolean b" by (cases v) (auto simp: live_iff)
  then show ?thesis
  proof cases
    case 1
    then show ?thesis by (cases ws; cases b) (auto simp: vs kind_def live_def)
  next
    case 2
    let ?r = "r\<lparr>ls_type := Some STRING, strings := [s]\<rparr>"
    have "scan_values (length vs) False vs r = scan_values (length vs) True ws ?r"
      using 2 vs assms(3) by (cases v) auto
    moreover have "kind vs = (if all_text ws then STRING else INVALID)" using 2 vs by (cases v) (auto simp: kind_def live_def)
    ultimately show ?thesis using scan_strings [OF ws, of ?r "length vs"] 2 vs by (auto simp: texts_def split: if_splits)
  next
    case 3
    let ?r = "r\<lparr>envelopes := [copy_Envelope e], ls_type := Some ENVELOPES\<rparr>"
    have "scan_values (length vs) False vs r = scan_values (length vs) True ws ?r" using 3 vs assms(4) by simp
    moreover have "kind vs = (if list_all live ws then ENVELOPES else INVALID)" using 3 vs by (simp add: kind_def live_def)
    ultimately show ?thesis using scan_envelopes [OF ws, of ?r "length vs"] 3 vs by (auto split: if_splits)
  next
    case 4
    then show ?thesis using vs assms(1) by (cases v) (auto simp: kind_def live_iff split: option.splits)
  qed
qed


section \<open>Properties\<close>

text \<open>
  The result of \<open>ExecuteLoadString\<close> is classified as its convention says. A script whose function
  returns the values gets the kind of the convention, with all of the strings or envelopes it returned
  and in their order; and when a table is in front of valid values, its bucket and set.
\<close>

lemma load_string_convention:
  assumes "have_load_string L" "run_load L (lua_calls L) s = Inr vs" "list_all (\<lambda>v. v \<noteq> LEnvelope None) vs"
  shows "\<exists>r. ExecuteLoadString s new_LoadStringResult L = (Inr (True, r), L\<lparr>lua_calls := lua_calls L + 1\<rparr>) \<and>
    ls_success r \<and> ls_type r = Some (convention vs) \<and>
    (convention vs = STRING \<longrightarrow> strings r = texts (behind_table vs)) \<and>
    (convention vs = ENVELOPES \<longrightarrow> envelopes r = map pointee (behind_table vs)) \<and>
    (convention vs \<notin> {INVALID, NIL} \<longrightarrow>
       (if has_bucket r then Some (ls_bucket r) else None) = (case vs of LTable b _ # _ \<Rightarrow> lua_text b | _ \<Rightarrow> None) \<and>
       (if has_set r then Some (ls_set r) else None) = (case vs of LTable _ t # _ \<Rightarrow> lua_text t | _ \<Rightarrow> None))"
proof -
  let ?start = "new_LoadStringResult\<lparr>ls_success := True\<rparr>"
  have "\<exists>r. read_values vs ?start = Inr r \<and> ls_success r \<and> ls_type r = Some (convention vs) \<and>
    (convention vs = STRING \<longrightarrow> strings r = texts (behind_table vs)) \<and>
    (convention vs = ENVELOPES \<longrightarrow> envelopes r = map pointee (behind_table vs)) \<and>
    (convention vs \<notin> {INVALID, NIL} \<longrightarrow>
       (if has_bucket r then Some (ls_bucket r) else None) = (case vs of LTable b _ # _ \<Rightarrow> lua_text b | _ \<Rightarrow> None) \<and>
       (if has_set r then Some (ls_set r) else None) = (case vs of LTable _ t # _ \<Rightarrow> lua_text t | _ \<Rightarrow> None))"
  proof (cases "vs = [] \<or> vs = [LNil]")
    case True
    then show ?thesis by (auto simp: read_values_def convention_def kind_def new_LoadStringResult_def)
  next
    case ne: False
    show ?thesis
    proof (cases "\<exists>b t ws. vs = LTable b t # ws")
      case True
      then obtain b t ws where vs: "vs = LTable b t # ws" by blast
      let ?r = "take_set t (take_bucket b ?start)"
      have r: "strings ?r = []" "envelopes ?r = []" "ls_success ?r"
        "(if has_bucket ?r then Some (ls_bucket ?r) else None) = lua_text b" "(if has_set ?r then Some (ls_set ?r) else None) = lua_text t"
        by (auto simp: take_set_def take_bucket_def new_LoadStringResult_def split: option.splits)
      show ?thesis
      proof (cases "ws = []")
        case True
        then show ?thesis by (simp add: vs read_values_def convention_def kind_def new_LoadStringResult_def)
      next
        case False
        have "list_all (\<lambda>v. v \<noteq> LEnvelope None) ws" using assms(3) vs by simp
        from scan_kind [OF this False r(1,2)] obtain q where q: "scan_values (length ws) False ws ?r = Inr q" "ls_type q = Some (kind ws)"
          "ls_success q" "kind ws = STRING \<longrightarrow> strings q = texts ws" "kind ws = ENVELOPES \<longrightarrow> envelopes q = map pointee ws"
          "kind ws \<noteq> INVALID \<longrightarrow> (has_bucket q, has_set q, ls_bucket q, ls_set q) = (has_bucket ?r, has_set ?r, ls_bucket ?r, ls_set ?r)"
          using r(3) by blast
        moreover have "read_values vs ?start = scan_values (length ws) False ws ?r" using False by (simp add: vs read_values_def Suc_le_eq)
        moreover have "convention vs = kind ws" "behind_table vs = ws" by (simp_all add: vs convention_def)
        ultimately show ?thesis using r(4,5) by (intro exI [of _ q]) (simp add: vs, simp split: if_splits)
      qed
    next
      case False
      then have b: "behind_table vs = vs" by (cases vs rule: behind_table.cases) auto
      have "read_values vs ?start = scan_values (length vs) False vs ?start"
        using ne False by (cases vs) (auto simp: read_values_def Suc_le_eq split: LuaValue.split)
      moreover have "(case vs of LTable b _ # _ \<Rightarrow> f b | _ \<Rightarrow> None) = None" "(case vs of LTable _ t # _ \<Rightarrow> f t | _ \<Rightarrow> None) = None"
        for f :: "LuaValue \<Rightarrow> string option"
        using False by (auto split: list.split LuaValue.split)
      ultimately show ?thesis using scan_kind [OF assms(3), of ?start] ne b
        by (auto simp: convention_def new_LoadStringResult_def)
    qed
  qed
  with assms(1,2) show ?thesis by (auto simp: ExecuteLoadString_def)
qed

text \<open>An interpreter for the examples, whose load function returns a table and two strings.\<close>

definition sample_lua_state :: LuaState where
  "sample_lua_state = \<lparr>lua_mem = new_lua_memory, have_load_string = True, have_subscription_envelope_filter = False,
     have_subscription_timer = False, globals = (\<lambda>_. LNil), lua_calls = 0,
     run_load = (\<lambda>_ s. Inr [LTable (LString ''b'') LNil, LString s, LNumber 7 ''7'']),
     run_filter = (\<lambda>_ _ _. Inr (LBoolean True)), dostring = (\<lambda>g _. (None, g)), number_of = (\<lambda>_. None)\<rparr>"

lemma load_string_convention_witness:
  "\<exists>r L. ExecuteLoadString ''x'' new_LoadStringResult sample_lua_state = (Inr (True, r), L) \<and>
     ls_type r = Some STRING \<and> strings r = [''x'', ''7''] \<and> has_bucket r \<and> ls_bucket r = ''b'' \<and> \<not> has_set r"
proof -
  let ?vs = "[LTable (LString ''b'') LNil, LString ''x'', LNumber 7 ''7'']"
  have "have_load_string sample_lua_state" "run_load sample_lua_state (lua_calls sample_lua_state) ''x'' = Inr ?vs"
    "list_all (\<lambda>v. v \<noteq> LEnvelope None) ?vs"
    by (simp_all add: sample_lua_state_def)
  note p = load_string_convention [OF this]
  have c: "convention ?vs = STRING" "texts (behind_table ?vs) = [''x'', ''7'']"
    by (simp_all add: convention_def kind_def texts_def)
  from p show ?thesis by (auto simp: c texts_def split: if_splits)
qed

section \<open>The memory limit\<close>

text \<open>
  The interpreter's requests, with the multiset of the sizes of its live blocks: a new block is a
  growth from size zero. A request is for less than \<open>2 ^ 63\<close> bytes; \<open>ok\<close> is whether \<open>realloc\<close> succeeds,
  which Lua takes for granted where a block shrinks. The limit is set no lower than what is in use.
\<close>

inductive lua_step :: "lua_memory \<times> nat multiset \<Rightarrow> lua_memory \<times> nat multiset \<Rightarrow> bool" where
  new_block: "\<lbrakk>0 < n; n < 2 ^ 63; LuaAlloc ok 0 (word_of_nat n) m = (r, m')\<rbrakk> \<Longrightarrow>
     lua_step (m, B) (m', if r then B + {#n#} else B)"
| resize: "\<lbrakk>o' \<in># B; 0 < n; n < 2 ^ 63; n < o' \<longrightarrow> ok; LuaAlloc ok (word_of_nat o') (word_of_nat n) m = (r, m')\<rbrakk> \<Longrightarrow>
     lua_step (m, B) (m', if r then B - {#o'#} + {#n#} else B)"
| free: "\<lbrakk>o' \<in># B; LuaAlloc ok (word_of_nat o') 0 m = (r, m')\<rbrakk> \<Longrightarrow> lua_step (m, B) (m', B - {#o'#})"
| ceiling: "\<lbrakk>memory_current m \<le> n; SetMemoryCeiling n m = (r, m')\<rbrakk> \<Longrightarrow> lua_step (m, B) (m', B)"

inductive_cases lua_stepE: "lua_step (m, B) (m', B')"

definition within_limit :: "lua_memory \<times> nat multiset \<Rightarrow> bool" where
  "within_limit x = (case x of (m, B) \<Rightarrow> sum_mset B \<le> unat (memory_current m) \<and> memory_current m \<le> memory_ceiling m)"

lemma unat_small64: "n < 2 ^ 63 \<Longrightarrow> unat (word_of_nat n :: u64) = n"
  by (simp add: unat_of_nat take_bit_nat_eq_self del: of_nat_numeral)

lemma current_small: "unat (x :: u32) < 2 ^ 32"
  using unsigned_less [of x] by simp

lemma unat_up: "unat (ucast (x :: u32) :: u64) = unat x"
  using current_small [of x] by (simp add: unsigned_ucast_eq take_bit_nat_eq_self)

lemma unat_down: "unat (y :: u64) < 2 ^ 32 \<Longrightarrow> unat (ucast y :: u32) = unat y"
  by (simp add: unsigned_ucast_eq take_bit_nat_eq_self)

lemma unat_minus: "unat (y :: u64) \<le> unat x \<Longrightarrow> unat (x - y) = unat x - unat y"
  by (simp add: unat_sub word_le_nat_alt)

lemma unat_plus: "unat (x :: u64) + unat y < 2 ^ 64 \<Longrightarrow> unat (x + y) = unat x + unat y"
  by (simp add: unat_plus_if')

lemma LuaAlloc_frees:
  assumes "b \<le> unat (memory_current m)"
  shows "unat (memory_current (snd (LuaAlloc ok (word_of_nat b) 0 m))) = unat (memory_current m) - b"
    "memory_ceiling (snd (LuaAlloc ok (word_of_nat b) 0 m)) = memory_ceiling m"
proof -
  have b: "unat (word_of_nat b :: u64) = b" using assms current_small [of "memory_current m"] by (intro unat_small64) simp
  have "unat (ucast (memory_current m) - word_of_nat b :: u64) = unat (memory_current m) - b"
    using assms by (subst unat_minus) (simp_all add: b unat_up)
  then show "unat (memory_current (snd (LuaAlloc ok (word_of_nat b) 0 m))) = unat (memory_current m) - b"
    using current_small [of "memory_current m"] by (simp add: LuaAlloc_def unat_down)
qed (simp add: LuaAlloc_def)

lemma LuaAlloc_resizes:
  assumes "b \<le> unat (memory_current m)" "0 < n" "n < 2 ^ 63" "memory_current m \<le> memory_ceiling m"
    "LuaAlloc ok (word_of_nat b) (word_of_nat n) m = (r, m')"
  shows "memory_ceiling m' = memory_ceiling m"
    "unat (memory_current m') = (if n < b \<or> unat (memory_current m) + n - b \<le> unat (memory_ceiling m)
       then unat (memory_current m) + n - b else unat (memory_current m))"
    "r \<Longrightarrow> n < b \<or> unat (memory_current m) + n - b \<le> unat (memory_ceiling m)"
proof -
  let ?c = "unat (memory_current m)" and ?b = "word_of_nat b :: u64" and ?n = "word_of_nat n :: u64"
  have c: "?c < 2 ^ 32" by (rule current_small)
  have b: "unat ?b = b" using assms(1) c by (intro unat_small64) simp
  have n: "unat ?n = n" "?n \<noteq> 0" using assms(2,3) by (auto simp: unat_small64 simp flip: unat_gt_0)
  have less: "?n < ?b \<longleftrightarrow> n < b" by (simp add: word_less_nat_alt b n)
  have "memory_ceiling m' = memory_ceiling m \<and>
    unat (memory_current m') = (if n < b \<or> ?c + n - b \<le> unat (memory_ceiling m) then ?c + n - b else ?c) \<and>
    (r \<longrightarrow> n < b \<or> ?c + n - b \<le> unat (memory_ceiling m))"
  proof (cases "n < b")
    case True
    have "unat (ucast (memory_current m) - (?b - ?n) :: u64) = ?c - (b - n)"
      using True assms(1) by (subst unat_minus) (simp_all add: unat_minus b n unat_up)
    then have "unat (ucast (ucast (memory_current m) - (?b - ?n) :: u64) :: u32) = ?c + n - b"
      using True assms(1) c by (simp add: unat_down)
    with True less n(2) assms(5) show ?thesis by (auto simp: LuaAlloc_def)
  next
    case False
    have sum: "unat (ucast (memory_current m) + ?n - ?b :: u64) = ?c + n - b"
      using False assms(3) c by (subst unat_minus) (simp_all add: unat_plus b n unat_up)
    have eq: "ucast (memory_current m) + (?n - ?b) = (ucast (memory_current m) + ?n - ?b :: u64)" by simp
    have over: "(ucast (memory_ceiling m) :: u64) < ucast (memory_current m) + ?n - ?b \<longleftrightarrow> unat (memory_ceiling m) < ?c + n - b"
      by (simp add: word_less_nat_alt sum unat_up)
    show ?thesis
    proof (cases "unat (memory_ceiling m) < ?c + n - b")
      case True
      with False less n(2) over assms(5) show ?thesis by (auto simp: LuaAlloc_def Let_def)
    next
      case ok: False
      then have "unat (ucast (memory_current m) + ?n - ?b :: u64) < 2 ^ 32"
        using sum current_small [of "memory_ceiling m"] by simp
      then have "unat (ucast (ucast (memory_current m) + (?n - ?b) :: u64) :: u32) = ?c + n - b"
        unfolding eq using sum by (simp add: unat_down)
      with False ok less n(2) over assms(5) show ?thesis by (auto simp: LuaAlloc_def Let_def)
    qed
  qed
  then show "memory_ceiling m' = memory_ceiling m"
    "unat (memory_current m') = (if n < b \<or> ?c + n - b \<le> unat (memory_ceiling m) then ?c + n - b else ?c)"
    "r \<Longrightarrow> n < b \<or> ?c + n - b \<le> unat (memory_ceiling m)" by blast+
qed

lemma sum_mset_drop: "b \<in># B \<Longrightarrow> sum_mset B = sum_mset (B - {#b#}) + (b :: nat)"
  using sum_mset.remove [of b B] by (simp only: add.commute)

lemma within_limitD:
  assumes "within_limit (m, B)"
  shows "sum_mset B \<le> unat (memory_current m)" "unat (memory_current m) \<le> unat (memory_ceiling m)"
  using assms by (simp_all add: within_limit_def word_le_nat_alt)

lemma within_limitI:
  "sum_mset B \<le> unat (memory_current m) \<Longrightarrow> unat (memory_current m) \<le> unat (memory_ceiling m) \<Longrightarrow> within_limit (m, B)"
  by (simp add: within_limit_def word_le_nat_alt)

lemma LuaAlloc_shrinks: "o' > n \<Longrightarrow> n \<noteq> 0 \<Longrightarrow> fst (LuaAlloc ok o' n m) = ok"
  by (simp add: LuaAlloc_def)

lemma within_limit_resize:
  assumes w: "within_limit (m, B)" and b: "sum_mset B = s + b"
    and n: "0 < n" "n < 2 ^ 63" "n < b \<longrightarrow> ok" "LuaAlloc ok (word_of_nat b) (word_of_nat n) m = (r, m')"
  shows "(if r then s + n else sum_mset B) \<le> unat (memory_current m')" "unat (memory_current m') \<le> unat (memory_ceiling m')"
proof -
  note le = within_limitD [OF w]
  have le': "b \<le> unat (memory_current m)" "memory_current m \<le> memory_ceiling m" using b le by (simp_all add: word_le_nat_alt)
  note new = LuaAlloc_resizes [OF le'(1) n(1,2) le'(2) n(4)]
  have "b < 2 ^ 63" using le'(1) current_small [of "memory_current m"] by simp
  then have less: "n < b \<Longrightarrow> (word_of_nat n :: u64) < word_of_nat b" and nz: "(word_of_nat n :: u64) \<noteq> 0"
    using n(1,2) by (auto simp: word_less_nat_alt unat_small64 simp flip: unat_gt_0)
  have r: "n < b \<Longrightarrow> r" using LuaAlloc_shrinks [OF less nz, of ok m] n(3,4) by simp
  let ?c = "unat (memory_current m)" and ?c' = "unat (memory_current m')"
  consider (fits) "n < b \<or> ?c + n - b \<le> unat (memory_ceiling m)" "?c' = ?c + n - b"
    | (refused) "\<not> r" "?c' = ?c" using new(2,3) by (cases "n < b \<or> ?c + n - b \<le> unat (memory_ceiling m)") auto
  then have "(if r then s + n else sum_mset B) \<le> ?c' \<and> ?c' \<le> unat (memory_ceiling m)"
  proof cases
    case fits
    show ?thesis
    proof (cases r)
      case True
      then show ?thesis using fits b le by simp linarith
    next
      case False
      then have "b \<le> n" using r by (meson not_le)
      with False fits b le show ?thesis by simp
    qed
  next
    case refused
    with le show ?thesis by simp
  qed
  then show "(if r then s + n else sum_mset B) \<le> ?c'" "?c' \<le> unat (memory_ceiling m')" using new(1) by simp_all
qed

lemma within_limit_step: "lua_step x y \<Longrightarrow> within_limit x \<Longrightarrow> within_limit y"
proof (induction rule: lua_step.induct)
  case (new_block n ok m r m' B)
  have "LuaAlloc ok (word_of_nat 0) (word_of_nat n) m = (r, m')" using new_block.hyps(3) by simp
  note new = within_limit_resize [OF new_block.prems _ new_block.hyps(1,2) _ this, of "sum_mset B"]
  show ?case using new by (intro within_limitI) (simp_all split: if_splits)
next
  case (resize b B n ok m r m')
  note sum = sum_mset_drop [OF resize.hyps(1)]
  note new = within_limit_resize [OF resize.prems sum resize.hyps(2-5)]
  show ?case using new sum by (intro within_limitI) (simp_all split: if_splits)
next
  case (free b B ok m r m')
  note le = within_limitD [OF free.prems] and sum = sum_mset_drop [OF free.hyps(1)]
  have "b \<le> unat (memory_current m)" using le sum by simp
  note new = LuaAlloc_frees [OF this, of ok, unfolded free.hyps(2)]
  show ?case using new le sum by (intro within_limitI) simp_all
next
  case (ceiling m n r m' B)
  then show ?case by (auto simp: within_limit_def SetMemoryCeiling_def)
qed

lemma within_limit_steps: "lua_step\<^sup>*\<^sup>* x y \<Longrightarrow> within_limit x \<Longrightarrow> within_limit y"
  by (induction rule: rtranclp_induct) (simp_all add: within_limit_step)

text \<open>
  C36: an interpreter stays within its memory limit: whatever sequence of allocations, resizings and
  frees it asks for, refused or granted, the total size of its live blocks is at most the counter
  \<open>memory_current\<close>, and this at most the limit in force.
\<close>

theorem lua_memory_limited:
  assumes "lua_step\<^sup>*\<^sup>* (new_lua_memory, {#}) (m, B)"
  shows "sum_mset B \<le> unat (memory_current m) \<and> unat (memory_current m) \<le> unat (memory_ceiling m)"
proof -
  have "within_limit (new_lua_memory, {#})" by (simp add: within_limit_def new_lua_memory_def)
  from within_limitD [OF within_limit_steps [OF assms this]] show ?thesis by simp
qed

lemma lua_memory_limited_witness:
  "sum_mset {#100, 40#} \<le> unat (memory_current (snd (LuaAlloc True 0 40 (snd (LuaAlloc True 0 100 new_lua_memory)))))"
proof -
  define m1 where "m1 = snd (LuaAlloc True 0 100 new_lua_memory)"
  define m2 where "m2 = snd (LuaAlloc True 0 40 m1)"
  have a: "LuaAlloc True 0 (word_of_nat 100) new_lua_memory = (True, m1)" "LuaAlloc True 0 (word_of_nat 40) m1 = (True, m2)"
    by (simp_all add: m1_def m2_def LuaAlloc_def new_lua_memory_def Let_def)
  have "lua_step (new_lua_memory, {#}) (m1, {#100#})" "lua_step (m1, {#100#}) (m2, {#100, 40#})"
    using lua_step.new_block [OF _ _ a(1), of "{#}"] lua_step.new_block [OF _ _ a(2), of "{#100#}"] by (simp_all add: add_mset_commute)
  then have "lua_step\<^sup>*\<^sup>* (new_lua_memory, {#}) (m2, {#100, 40#})" by (meson converse_rtranclp_into_rtranclp rtranclp.rtrancl_refl)
  from lua_memory_limited [OF this] show ?thesis by (simp add: m1_def m2_def)
qed

text \<open>
  The methods of a live envelope never read outside it: an index out of range, a missing argument
  or one of the wrong type raises a Lua error. But the pointer is not checked: once a script has called
  the collector's method of an envelope itself, every method dereferences a null pointer.
\<close>

lemma envelope_methods_checked:
  "(\<exists>out. fst (envelope_get_tag num (LEnvelope (Some e) # args)) = Inr out \<and>
      (\<forall>v k. args = [v] \<longrightarrow> num v = Some k \<longrightarrow>
         out = (if 1 \<le> k \<and> k \<le> int (length (tag (envelope e))) then Inr [LString (tag (envelope e) ! nat (k - 1))]
                else Inl (RangeMessage ''get_tag'' (int (length (tag (envelope e))) + 1) k)))) \<and>
   (aligned e \<longrightarrow> (\<exists>out. fst (envelope_message_enumeration num (LEnvelope (Some e) # args)) = Inr out)) \<and>
   (let gone = snd (envelope_gc [LEnvelope (Some e)]) in
      fst (envelope_get_tag num (LEnvelope gone # args)) = Inl (Undefined ''collected envelope'') \<and>
      fst (envelope_message_enumeration num (LEnvelope gone # args)) = Inl (Undefined ''collected envelope'') \<and>
      fst (envelope_serialize c (LEnvelope gone # args)) = Inl (Undefined ''collected envelope''))"
proof -
  have tag: "fst (envelope_get_tag num [LEnvelope (Some e), v]) =
      Inr (if 1 \<le> k \<and> k \<le> int (length (tag (envelope e))) then Inr [LString (tag (envelope e) ! nat (k - 1))]
           else Inl (RangeMessage ''get_tag'' (int (length (tag (envelope e))) + 1) k))" if "num v = Some k" for v k
    using that by (auto simp: envelope_get_tag_def on_envelope_def raises_def returns_def Let_def)
  have some: "\<exists>out. fst (envelope_get_tag num (LEnvelope (Some e) # args)) = Inr out"
    by (auto simp: envelope_get_tag_def on_envelope_def raises_def returns_def Let_def split: option.split)
  have enum: "\<exists>out. fst (envelope_message_enumeration num (LEnvelope (Some e) # args)) = Inr out" if "aligned e"
    using that by (auto simp: envelope_message_enumeration_def on_envelope_def raises_def returns_def Let_def aligned_def
        MessageCount_def split: option.split)
  from some tag enum show ?thesis
    by (fastforce simp: envelope_gc_def envelope_get_tag_def envelope_message_enumeration_def envelope_serialize_def on_envelope_def)
qed

lemma envelope_methods_checked_witness:
  "fst (envelope_get_tag (\<lambda>_. Some 2) [LEnvelope (Some (AddTag ''t'' (of_pb empty_envelope))), LNumber 2 ''2'']) =
     Inr (Inl (RangeMessage ''get_tag'' 2 2))"
  using envelope_methods_checked [of "\<lambda>_. Some 2" "AddTag ''t'' (of_pb empty_envelope)" "[LNumber 2 ''2'']"]
  by (auto simp: AddTag_def of_pb_def empty_envelope_def)

end
