(* ===== verification/Directory_Watcher.thy ===== *)
theory Directory_Watcher
  imports File_Tree Sorted_Map
begin

text \<open>
  The directory watcher of the platform layer (\<open>DirectoryWatcher\<close> in src/zippylog/platform.cpp, the inotify
  branch): a watch for the directory and, one by one, for the directories below it, and the changes
  collected from the events of the system.
\<close>

section \<open>The directories of a tree\<close>

text \<open>
  The recursion follows the tree, so that its depth bounds it. A directory below the first one that
  cannot be read contributes nothing; the result of the recursive call is not looked at.
\<close>

fun tree_below :: "nat \<Rightarrow> filesystem \<Rightarrow> string \<Rightarrow> string list" where
  "tree_below 0 fs path = []"
| "tree_below (Suc n) fs path =
     (case DirectoryEntries fs path of
        None \<Rightarrow> []
      | Some entries \<Rightarrow>
          concat (map (\<lambda>e.
            if entry_type e \<noteq> DIRECTORY \<or> hidden e then []
            else (let full_path = PathJoin path (entry_name e) in full_path # tree_below n fs full_path)) entries))"

definition depth :: "filesystem \<Rightarrow> nat" where
  "depth fs = fold max (map (\<lambda>x. length (fst x)) (nodes fs)) 0"

definition DirectoriesInTree :: "filesystem \<Rightarrow> string \<Rightarrow> string list \<Rightarrow> bool \<times> string list" where
  "DirectoriesInTree fs path paths =
     (if DirectoryEntries fs path = None then (False, paths)
      else (True, paths @ tree_below (Suc (depth fs)) fs path))"

section \<open>The watcher\<close>

datatype ChangeAction = ADDED | DELETED | MODIFIED | RENAMED

record DirectoryChange =
  change_path :: string
  change_action :: ChangeAction

text \<open>The events of the system; the name ends at its first zero byte. \<open>IN_CREATE\<close> and the other bits of a mask.\<close>

record inotify_event =
  ev_wd :: int
  ev_mask :: u32
  ev_name :: string

definition IN_MODIFY :: u32 where "IN_MODIFY = 0x2"
definition IN_CREATE :: u32 where "IN_CREATE = 0x100"
definition IN_DELETE :: u32 where "IN_DELETE = 0x200"
definition IN_IGNORED :: u32 where "IN_IGNORED = 0x8000"

definition has_bit :: "u32 \<Rightarrow> inotify_event \<Rightarrow> bool" where
  "has_bit b e \<longleftrightarrow> and (ev_mask e) b \<noteq> 0"

text \<open>What polling the descriptor and reading from it gives.\<close>

datatype poll_outcome = PollError | NoEvents | ReadError | Events "inotify_event list"

text \<open>\<open>add_watch\<close> is the system's: the \<open>k\<close>-th call for a path returns a watch descriptor or \<open>- 1\<close>.\<close>

record DirectoryWatcher =
  dw_path :: string
  dw_recurse :: bool
  dw_changes :: "DirectoryChange list"
  directories :: "(int \<times> string) list"
  add_watch :: "nat \<Rightarrow> string \<Rightarrow> int"
  watch_calls :: nat

definition watch_directory :: "string \<Rightarrow> string \<Rightarrow> string \<Rightarrow> (DirectoryWatcher, unit) action" where
  "watch_directory error fs_path relative d =
     (let w = add_watch d (watch_calls d) (c_str fs_path); d = d\<lparr>watch_calls := watch_calls d + 1\<rparr> in
      if w = - 1 then throw (RuntimeException error) d
      else ret () (d\<lparr>directories := map_put w relative (directories d)\<rparr>))"

definition new_DirectoryWatcher ::
  "filesystem \<Rightarrow> (nat \<Rightarrow> string \<Rightarrow> int) \<Rightarrow> int \<Rightarrow> string \<Rightarrow> bool \<Rightarrow> DirectoryWatcher res" where
  "new_DirectoryWatcher fs add fd directory recurse =
     (let d = \<lparr>dw_path = directory, dw_recurse = recurse, dw_changes = [], directories = [], add_watch = add, watch_calls = 0\<rparr> in
      if fd = - 1 then Inl (RuntimeException ''could not initialize inotify descriptor'')
      else
        (let (x, d) =
          andThen (watch_directory ''could not add inotify watch for directory'' directory []) (\<lambda>_.
            if \<not> recurse then ret ()
            else
              (let (ok, paths) = DirectoriesInTree fs directory [] in
               if \<not> ok then throw (RuntimeException ''could not obtain directories in tree'')
               else for_each (\<lambda>i. andThen (lift_res (substr i (length directory) 4096))
                      (watch_directory ''could not add inotify watch for directory'' i)) paths)) d
         in rbind x (\<lambda>_. Inr d)))"

definition collect_change :: "ChangeAction \<Rightarrow> string \<Rightarrow> (DirectoryWatcher, unit) action" where
  "collect_change a path = modify (\<lambda>d. d\<lparr>dw_changes := dw_changes d @ [\<lparr>change_path = path, change_action = a\<rparr>]\<rparr>)"

definition read_event :: "filesystem \<Rightarrow> inotify_event \<Rightarrow> (DirectoryWatcher, unit) action" where
  "read_event fs e d =
     (case map_of (directories d) (ev_wd e) of
        None \<Rightarrow> throw (RuntimeException ''unknown watch descriptor seen'') d
      | Some dir \<Rightarrow>
          if has_bit IN_IGNORED e then ret () (d\<lparr>directories := map_erase (ev_wd e) (directories d)\<rparr>)
          else
            (let path = PathJoin dir (c_str (ev_name e)); fs_path = PathJoin (dw_path d) path in
             if has_bit IN_CREATE e then
               (case stat fs fs_path of
                  None \<Rightarrow> throw (RuntimeException ''could not stat newly created file. weird'') d
                | Some st \<Rightarrow>
                    andThen
                      (if type st = DIRECTORY \<and> dw_recurse d
                       then watch_directory (''could not add watch for directory: '' @ fs_path) fs_path path
                       else ret ())
                      (\<lambda>_. collect_change ADDED path) d)
             else if has_bit IN_DELETE e then collect_change DELETED path d
             else if has_bit IN_MODIFY e then collect_change MODIFIED path d
             else throw (RuntimeException ''unknown change mask seen. likely coding bug'') d))"

definition WaitForChanges :: "filesystem \<Rightarrow> poll_outcome \<Rightarrow> (DirectoryWatcher, bool) action" where
  "WaitForChanges fs polled d =
     (if dw_changes d \<noteq> [] then ret True d
      else
        (case polled of
           PollError \<Rightarrow> throw (RuntimeException ''error polling inotify descriptor'') d
         | NoEvents \<Rightarrow> ret False d
         | ReadError \<Rightarrow> throw (RuntimeException ''could not read from inotify descriptor'') d
         | Events es \<Rightarrow> andThen (for_each (read_event fs) es) (\<lambda>_. ret True) d))"

definition GetChanges :: "DirectoryWatcher \<Rightarrow> DirectoryChange list \<times> DirectoryWatcher" where
  "GetChanges d = (dw_changes d, d\<lparr>dw_changes := []\<rparr>)"

section \<open>The whole tree is listed\<close>

text \<open>A path below a directory, all of whose directories can be read and none of which is hidden.\<close>

fun visible :: "filesystem \<Rightarrow> string list \<Rightarrow> string list \<Rightarrow> bool" where
  "visible fs p [] \<longleftrightarrow> True"
| "visible fs p (x # xs) \<longleftrightarrow>
     node_at fs p = Some Dir \<and> allowed fs p \<and> node_at fs (p @ [x]) = Some Dir \<and> hd x \<noteq> CHR ''.'' \<and> visible fs (p @ [x]) xs"

definition below :: "string list \<Rightarrow> string" where
  "below rel = concat (map (\<lambda>x. CHR ''/'' # x) rel)"

lemma below_simps [simp]: "below [] = []" "below (x # xs) = CHR ''/'' # x @ below xs"
  by (simp_all add: below_def)

lemma depth_le: "(p, n) \<in> set (nodes fs) \<Longrightarrow> length p \<le> depth fs"
  unfolding depth_def Max.set_eq_fold [symmetric] by (rule Max_ge) (auto simp: image_iff intro: bexI [of _ "(p, n)"])

lemma node_depth: "node_at fs p = Some n \<Longrightarrow> length p \<le> depth fs"
  by (auto simp: node_at_def dest: map_of_SomeD depth_le split: if_splits)

lemma directory_entries_iff:
  assumes "wf_fs fs"
  shows "(\<exists>entries. DirectoryEntries fs path = Some entries \<and>
      (\<exists>e \<in> set entries. entry_type e = DIRECTORY \<and> \<not> hidden e \<and> entry_name e = x)) \<longleftrightarrow>
    visible fs (components path) [x]"
proof -
  let ?p = "components path"
  have hidden: "hidden \<lparr>entry_name = y, entry_type = k\<rparr> \<longleftrightarrow> y \<noteq> [] \<and> hd y = CHR ''.''" for y k
    by (cases y) (auto simp: hidden_def)
  have dir: "d_type n = DIRECTORY \<longleftrightarrow> n = Dir" for n by (cases n) (simp_all add: d_type_def)
  have x: "y \<noteq> []" if "node_at fs (?p @ [y]) = Some n" for y n using node_plain [OF assms that] by (simp add: plain_def)
  from x have no_empty: "node_at fs (?p @ [[]]) \<noteq> Some n" for n by blast
  show ?thesis (is "?l \<longleftrightarrow> ?r")
  proof
    assume ?l
    then show ?r
      by (auto simp: DirectoryEntries_def lookup_path_def hidden dir children_iff [OF assms] no_empty split: if_splits)
  next
    assume r: ?r
    let ?f = "\<lambda>(name, n). \<lparr>entry_name = name, entry_type = d_type n\<rparr>"
    from r have "(x, Dir) \<in> set (children fs ?p)" by (simp add: children_iff [OF assms])
    then have "?f (x, Dir) \<in> ?f ` set (children fs ?p)" by (rule imageI)
    moreover obtain entries where e: "DirectoryEntries fs path = Some entries" "?f ` set (children fs ?p) \<subseteq> set entries"
      using r by (auto simp: DirectoryEntries_def lookup_path_def)
    ultimately have "?f (x, Dir) \<in> set entries" by blast
    moreover have "entry_type (?f (x, Dir)) = DIRECTORY \<and> \<not> hidden (?f (x, Dir)) \<and> entry_name (?f (x, Dir)) = x"
      using r x [of x Dir] by (simp add: dir hidden)
    ultimately show ?l using e(1) by blast
  qed
qed

lemma components_join:
  assumes "CHR 0x00 \<notin> set path" "plain x"
  shows "components (PathJoin path x) = components path @ [x]"
  using assms by (simp add: PathJoin_def components_slash components_plain)

lemma tree_below_iff:
  assumes "wf_fs fs"
  shows "CHR 0x00 \<notin> set path \<Longrightarrow> depth fs \<le> length (components path) + n \<Longrightarrow>
    q \<in> set (tree_below (Suc n) fs path) \<longleftrightarrow>
      (\<exists>rel. rel \<noteq> [] \<and> visible fs (components path) rel \<and> q = path @ below rel)"
proof (induction n arbitrary: path)
  case n: (0 path)
  have "\<not> visible fs (components path) (x # xs)" for x xs
    using n(2) node_depth [of fs "components path @ [x]" Dir] by auto
  moreover have "tree_below (Suc 0) fs path = []"
  proof (cases "DirectoryEntries fs path")
    case (Some entries)
    with calculation [of _ "[]"] directory_entries_iff [OF assms, of path] have "\<forall>e \<in> set entries. entry_type e \<noteq> DIRECTORY \<or> hidden e"
      by blast
    with Some show ?thesis by auto
  qed simp
  ultimately show ?case by (metis empty_iff list.set(1) neq_Nil_conv)
next
  case (Suc n path)
  have step: "q \<in> set (tree_below (Suc (Suc n)) fs path) \<longleftrightarrow>
    (\<exists>x. visible fs (components path) [x] \<and>
      (q = PathJoin path x \<or> q \<in> set (tree_below (Suc n) fs (PathJoin path x))))"
    unfolding directory_entries_iff [OF assms, symmetric] tree_below.simps(2) [of "Suc n"]
    by (cases "DirectoryEntries fs path") (auto simp: Let_def simp del: tree_below.simps)
  have inner: "q \<in> set (tree_below (Suc n) fs (PathJoin path x)) \<longleftrightarrow>
      (\<exists>rel. rel \<noteq> [] \<and> visible fs (components path @ [x]) rel \<and> q = path @ below (x # rel))"
    if "visible fs (components path) [x]" for x
  proof -
    have x: "plain x" using that by (auto dest: node_plain [OF assms])
    with Suc.prems(1) have "CHR 0x00 \<notin> set (PathJoin path x)" by (simp add: PathJoin_def plain_def)
    moreover have "depth fs \<le> length (components (PathJoin path x)) + n"
      using Suc.prems x by (simp add: components_join)
    ultimately show ?thesis using Suc.IH [of "PathJoin path x"]
      unfolding components_join [OF Suc.prems(1) x] by (simp add: PathJoin_def del: tree_below.simps)
  qed
  show ?case
  proof
    assume "q \<in> set (tree_below (Suc (Suc n)) fs path)"
    with step inner obtain x where x: "visible fs (components path) [x]"
      "q = PathJoin path x \<or> (\<exists>rel. rel \<noteq> [] \<and> visible fs (components path @ [x]) rel \<and> q = path @ below (x # rel))" by blast
    then consider "q = path @ below [x]" | rel where "visible fs (components path @ [x]) rel" "q = path @ below (x # rel)"
      by (auto simp: PathJoin_def)
    then show "\<exists>rel. rel \<noteq> [] \<and> visible fs (components path) rel \<and> q = path @ below rel"
      using x(1) by cases (metis list.distinct(1), metis list.distinct(1) visible.simps)
  next
    assume "\<exists>rel. rel \<noteq> [] \<and> visible fs (components path) rel \<and> q = path @ below rel"
    then obtain x rel where r: "visible fs (components path) (x # rel)" "q = path @ below (x # rel)" by (metis neq_Nil_conv)
    then have x: "visible fs (components path) [x]" by simp
    show "q \<in> set (tree_below (Suc (Suc n)) fs path)"
      using step x inner [OF x] r by (cases "rel = []") (auto simp: PathJoin_def)
  qed
qed

lemma DirectoriesInTree_iff:
  assumes "wf_fs fs" "CHR 0x00 \<notin> set path" "lookup_path fs path = Some Dir" "allowed fs (components path)"
  shows "\<exists>paths. DirectoriesInTree fs path [] = (True, paths) \<and>
    (\<forall>q. q \<in> set paths \<longleftrightarrow> (\<exists>rel. rel \<noteq> [] \<and> visible fs (components path) rel \<and> q = path @ below rel))"
proof -
  have "DirectoryEntries fs path \<noteq> None" using assms(3,4) by (simp add: DirectoryEntries_def)
  then show ?thesis
    using tree_below_iff [OF assms(1,2), of "depth fs"] by (simp add: DirectoriesInTree_def del: tree_below.simps)
qed

section \<open>What is watched\<close>

text \<open>
  The system gives every call a descriptor of its own: \<open>kept\<close> says that the descriptors in the map are
  from calls made so far.
\<close>

definition fresh_descriptors :: "(nat \<Rightarrow> string \<Rightarrow> int) \<Rightarrow> bool" where
  "fresh_descriptors add \<longleftrightarrow> (\<forall>i p. add i p \<noteq> - 1) \<and> (\<forall>i j p q. i \<noteq> j \<longrightarrow> add i p \<noteq> add j q)"

definition kept :: "DirectoryWatcher \<Rightarrow> bool" where
  "kept d \<longleftrightarrow> (\<forall>(w, _) \<in> set (directories d). \<exists>i < watch_calls d. \<exists>p. w = add_watch d i p)"

definition watched :: "DirectoryWatcher \<Rightarrow> string set" where
  "watched d = snd ` set (directories d)"

definition same_watcher :: "DirectoryWatcher \<Rightarrow> DirectoryWatcher \<Rightarrow> bool" where
  "same_watcher d d' \<longleftrightarrow> dw_path d' = dw_path d \<and> dw_recurse d' = dw_recurse d \<and> dw_changes d' = dw_changes d \<and>
     add_watch d' = add_watch d"

lemma watch_directory_fresh:
  assumes "fresh_descriptors (add_watch d)" "kept d"
  obtains d' where "watch_directory error fs_path relative d = (Inr (), d')" "kept d'" "same_watcher d d'"
    "watched d' = insert relative (watched d)"
proof -
  let ?w = "add_watch d (watch_calls d) (c_str fs_path)"
  let ?d = "d\<lparr>watch_calls := watch_calls d + 1, directories := map_put ?w relative (directories d)\<rparr>"
  have new: "fst x \<noteq> ?w" if "x \<in> set (directories d)" for x
    using assms that by (fastforce simp: fresh_descriptors_def kept_def)
  have kept: "\<exists>i < watch_calls ?d. \<exists>p. w = add_watch ?d i p" if "(w, q) \<in> set (directories ?d)" for w q
  proof (cases "(w, q) \<in> set (directories d)")
    case True
    with assms(2) obtain i p where "i < watch_calls d" "w = add_watch d i p" unfolding kept_def by blast
    then show ?thesis by (intro exI [of _ i]) auto
  next
    case False
    with that have "w = ?w" by (auto simp: set_put)
    then show ?thesis by auto
  qed
  show ?thesis
  proof
    show "watch_directory error fs_path relative d = (Inr (), ?d)"
      using assms(1) by (simp add: watch_directory_def fresh_descriptors_def)
    show "kept ?d" unfolding kept_def using kept by blast
    show "watched ?d = insert relative (watched d)"
      using new by (auto simp: watched_def set_put image_iff)
  qed (simp add: same_watcher_def)
qed

lemma watch_all_fresh:
  "fresh_descriptors (add_watch d) \<Longrightarrow> kept d \<Longrightarrow> \<forall>i \<in> set paths. n \<le> length i \<Longrightarrow>
   \<exists>d'. for_each (\<lambda>i. andThen (lift_res (substr i n 4096)) (watch_directory error i)) paths d = (Inr (), d') \<and>
     same_watcher d d' \<and> watched d' = watched d \<union> (\<lambda>i. take 4096 (drop n i)) ` set paths"
proof (induction paths arbitrary: d)
  case (Cons i paths)
  from watch_directory_fresh [OF Cons.prems(1,2), where error = error and fs_path = i and relative = "take 4096 (drop n i)"]
  obtain d1 where d1: "watch_directory error i (take 4096 (drop n i)) d = (Inr (), d1)" "kept d1" "same_watcher d d1"
    "watched d1 = insert (take 4096 (drop n i)) (watched d)" .
  have "\<exists>d2. for_each (\<lambda>i. andThen (lift_res (substr i n 4096)) (watch_directory error i)) paths d1 = (Inr (), d2) \<and>
    same_watcher d1 d2 \<and> watched d2 = watched d1 \<union> (\<lambda>i. take 4096 (drop n i)) ` set paths"
    using Cons.prems d1 by (intro Cons.IH) (simp_all add: same_watcher_def)
  then obtain d2 where later: "for_each (\<lambda>i. andThen (lift_res (substr i n 4096)) (watch_directory error i)) paths d1 = (Inr (), d2)"
    and d2: "same_watcher d1 d2" "watched d2 = watched d1 \<union> (\<lambda>i. take 4096 (drop n i)) ` set paths" by blast
  have first: "andThen (lift_res (substr i n 4096)) (watch_directory error i) d = (Inr (), d1)"
    using Cons.prems(3) d1(1) by (simp add: andThen_def lift_res_def substr_def)
  have "for_each (\<lambda>i. andThen (lift_res (substr i n 4096)) (watch_directory error i)) (i # paths) d = (Inr (), d2)"
    using first later by (simp only: for_each.simps andThen_Inr)
  moreover have "same_watcher d d2" using d1(3) d2(1) by (simp add: same_watcher_def)
  moreover have "watched d2 = watched d \<union> (\<lambda>i. take 4096 (drop n i)) ` set (i # paths)" using d1(4) d2(2) by simp
  ultimately show ?case by blast
qed (simp add: same_watcher_def)

text \<open>
  A directory watcher that is made for a tree watches exactly the directory and every directory
  below it that is not hidden and that can be reached without passing a hidden one or one that may not be
  read, each under its path relative to the first (cut off after 4096 characters); it reports a failure
  only when the system refuses a watch.
\<close>

lemma watcher_watches_tree:
  assumes "wf_fs fs" "CHR 0x00 \<notin> set directory" "lookup_path fs directory = Some Dir" "allowed fs (components directory)"
    "fresh_descriptors add" "fd \<noteq> - 1"
  shows "\<exists>d. new_DirectoryWatcher fs add fd directory True = Inr d \<and> dw_changes d = [] \<and> dw_path d = directory \<and>
    watched d = {take 4096 (below rel) |rel. visible fs (components directory) rel}"
proof -
  let ?d0 = "\<lparr>dw_path = directory, dw_recurse = True, dw_changes = [], directories = [], add_watch = add, watch_calls = 0\<rparr>"
  have "fresh_descriptors (add_watch ?d0)" "kept ?d0" using assms(5) by (simp_all add: kept_def)
  from watch_directory_fresh [OF this, where error = "''could not add inotify watch for directory''" and fs_path = directory and relative = "[]"]
  obtain d1 where
    d1: "watch_directory ''could not add inotify watch for directory'' directory [] ?d0 = (Inr (), d1)" "kept d1"
      "same_watcher ?d0 d1" "watched d1 = insert [] (watched ?d0)" .
  from DirectoriesInTree_iff [OF assms(1-4)] obtain paths where
    paths: "DirectoriesInTree fs directory [] = (True, paths)"
      "\<And>q. q \<in> set paths \<longleftrightarrow> (\<exists>rel. rel \<noteq> [] \<and> visible fs (components directory) rel \<and> q = directory @ below rel)" by blast
  then have "\<forall>i \<in> set paths. length directory \<le> length i" by auto
  from watch_all_fresh [OF _ d1(2) this, of "''could not add inotify watch for directory''"] d1(3) assms(5)
  obtain d2 where
    d2: "for_each (\<lambda>i. andThen (lift_res (substr i (length directory) 4096))
        (watch_directory ''could not add inotify watch for directory'' i)) paths d1 = (Inr (), d2)"
      "same_watcher d1 d2" "watched d2 = watched d1 \<union> (\<lambda>i. take 4096 (drop (length directory) i)) ` set paths" by (auto simp: same_watcher_def)
  have "new_DirectoryWatcher fs add fd directory True = Inr d2"
    using assms(6) d1(1) paths(1) d2(1) by (simp add: new_DirectoryWatcher_def andThen_def)
  moreover have "watched d2 = {take 4096 (below rel) |rel. visible fs (components directory) rel}"
  proof (intro set_eqI iffI)
    fix x assume "x \<in> watched d2"
    then have "x = [] \<or> (\<exists>i \<in> set paths. x = take 4096 (drop (length directory) i))"
      unfolding d2(3) d1(4) by (auto simp: watched_def)
    then have "\<exists>rel. visible fs (components directory) rel \<and> x = take 4096 (below rel)"
      using paths(2) by (force intro: exI [of _ "[]"])
    then show "x \<in> {take 4096 (below rel) |rel. visible fs (components directory) rel}" by blast
  next
    fix x assume "x \<in> {take 4096 (below rel) |rel. visible fs (components directory) rel}"
    then obtain rel where r: "visible fs (components directory) rel" "x = take 4096 (below rel)" by blast
    show "x \<in> watched d2"
    proof (cases "rel = []")
      case False
      with r paths(2) have "directory @ below rel \<in> set paths" by blast
      with r(2) show ?thesis unfolding d2(3) by (auto intro!: image_eqI [of _ _ "directory @ below rel"])
    qed (use r in \<open>simp add: d2(3) d1(4)\<close>)
  qed
  moreover have "dw_changes d2 = [] \<and> dw_path d2 = directory" using d1(3) d2(2) by (simp add: same_watcher_def)
  ultimately show ?thesis by blast
qed

definition sample_tree :: filesystem where
  "sample_tree = \<lparr>nodes = [([''r''], Dir), ([''r'', ''b''], Dir), ([''r'', ''.git''], Dir), ([''r'', ''b'', ''s''], Dir),
     ([''r'', ''f''], Reg ''x'')], denied = [], node_size = 0\<rparr>"

definition sample_add :: "nat \<Rightarrow> string \<Rightarrow> int" where
  "sample_add i p = int i + 1"

lemma watcher_watches_tree_witness:
  "\<exists>d. new_DirectoryWatcher sample_tree sample_add 3 ''/r'' True = Inr d \<and> ''/b/s'' \<in> watched d \<and> ''/.git'' \<notin> watched d"
proof -
  have c: "components ''/r'' = [''r'']" by (simp add: components_def c_str_def)
  have "wf_fs sample_tree" by (simp add: wf_fs_def sample_tree_def node_at_def plain_def)
  moreover have "lookup_path sample_tree ''/r'' = Some Dir" "allowed sample_tree (components ''/r'')"
    by (simp_all add: lookup_path_def c sample_tree_def node_at_def allowed_def)
  moreover have "fresh_descriptors sample_add" by (simp add: fresh_descriptors_def sample_add_def)
  ultimately obtain d where d: "new_DirectoryWatcher sample_tree sample_add 3 ''/r'' True = Inr d"
    "watched d = {take 4096 (below rel) |rel. visible sample_tree [''r''] rel}"
    using watcher_watches_tree [of sample_tree "''/r''" sample_add 3] by (auto simp: c)
  have "visible sample_tree [''r''] [''b'', ''s'']" by (simp add: sample_tree_def node_at_def allowed_def)
  then have "take 4096 (below [''b'', ''s'']) \<in> watched d" unfolding d(2) by blast
  then have "''/b/s'' \<in> watched d" by simp
  moreover have "''/.git'' \<notin> watched d"
  proof
    assume "''/.git'' \<in> watched d"
    then obtain rel where r: "visible sample_tree [''r''] rel" "''/.git'' = take 4096 (below rel)" unfolding d(2) by blast
    then obtain x xs where x: "rel = x # xs" by (cases rel) auto
    from r(2) have "take 2 ''/.git'' = take 2 (below rel)" by simp
    then have "hd x = CHR ''.'' \<or> x = []" by (cases x) (auto simp: x numeral_2_eq_2)
    with r(1) show False by (auto simp: x sample_tree_def node_at_def)
  qed
  ultimately show ?thesis using d(1) by blast
qed

section \<open>What is never seen\<close>

text \<open>The path an event is about, and the paths of the \<open>IN_CREATE\<close> events that are met when events are read.\<close>

definition event_path :: "DirectoryWatcher \<Rightarrow> inotify_event \<Rightarrow> string option" where
  "event_path d e = map_option (\<lambda>dir. PathJoin dir (c_str (ev_name e))) (map_of (directories d) (ev_wd e))"

fun created_paths :: "filesystem \<Rightarrow> inotify_event list \<Rightarrow> DirectoryWatcher \<Rightarrow> string set" where
  "created_paths fs [] d = {}"
| "created_paths fs (e # es) d =
     {p. event_path d e = Some p \<and> has_bit IN_CREATE e} \<union> created_paths fs es (snd (read_event fs e d))"

lemma watch_directory_watched:
  "watch_directory error fs_path relative d = (x, d') \<Longrightarrow> watched d' \<subseteq> insert relative (watched d) \<and> dw_changes d' = dw_changes d"
  by (auto simp: watch_directory_def Let_def watched_def set_put split: if_splits)

lemma watched_changes [simp]: "watched (d\<lparr>dw_changes := cs\<rparr>) = watched d"
  by (simp add: watched_def)

lemma read_event_cases:
  assumes "read_event fs e d = (x, d')"
  shows "dw_changes d' = dw_changes d \<and> (watched d' \<subseteq> watched d \<or>
      (\<exists>p. event_path d e = Some p \<and> has_bit IN_CREATE e \<and> watched d' \<subseteq> insert p (watched d))) \<or>
    (\<exists>p a. event_path d e = Some p \<and> dw_changes d' = dw_changes d @ [\<lparr>change_path = p, change_action = a\<rparr>] \<and>
      (watched d' \<subseteq> watched d \<or> has_bit IN_CREATE e \<and> watched d' \<subseteq> insert p (watched d)))"
proof (cases "map_of (directories d) (ev_wd e)")
  case None
  with assms show ?thesis by (simp add: read_event_def)
next
  case (Some dir)
  let ?p = "PathJoin dir (c_str (ev_name e))"
  let ?fs_path = "PathJoin (dw_path d) ?p"
  have p: "event_path d e = Some ?p" using Some by (simp add: event_path_def)
  obtain y d1 where w: "watch_directory (''could not add watch for directory: '' @ ?fs_path) ?fs_path ?p d = (y, d1)"
    by (cases "watch_directory (''could not add watch for directory: '' @ ?fs_path) ?fs_path ?p d")
  note w1 = watch_directory_watched [OF w]
  consider (ignored) "has_bit IN_IGNORED e" | (create) "\<not> has_bit IN_IGNORED e" "has_bit IN_CREATE e"
    | (other) "\<not> has_bit IN_IGNORED e" "\<not> has_bit IN_CREATE e" by blast
  then show ?thesis
  proof cases
    case ignored
    with assms Some have "d' = d\<lparr>directories := map_erase (ev_wd e) (directories d)\<rparr>" by (simp add: read_event_def)
    then show ?thesis by (auto simp: watched_def map_erase_def)
  next
    case create
    show ?thesis
    proof (cases "stat fs ?fs_path")
      case None
      with assms Some create show ?thesis by (simp add: read_event_def Let_def)
    next
      case (Some st)
      note found = \<open>map_of (directories d) (ev_wd e) = Some dir\<close> create Some
      show ?thesis
      proof (cases "type st = DIRECTORY \<and> dw_recurse d")
        case dir: True
        show ?thesis
        proof (cases y)
          case (Inl a)
          with assms found dir w have "d' = d1" by (simp add: read_event_def Let_def andThen_Inl del: append.simps)
          with w1 p create show ?thesis by blast
        next
          case (Inr u)
          with assms found dir w have "d' = d1\<lparr>dw_changes := dw_changes d1 @ [\<lparr>change_path = ?p, change_action = ADDED\<rparr>]\<rparr>"
            by (simp add: read_event_def Let_def andThen_Inr collect_change_def modify_def del: append.simps)
          with w1 p create show ?thesis by simp
        qed
      next
        case False
        with assms found have "d' = d\<lparr>dw_changes := dw_changes d @ [\<lparr>change_path = ?p, change_action = ADDED\<rparr>]\<rparr>"
          by (auto simp: read_event_def Let_def andThen_def collect_change_def modify_def)
        with p show ?thesis by simp
      qed
    qed
  next
    case other
    with assms Some p show ?thesis
      by (auto simp: read_event_def Let_def collect_change_def modify_def watched_def split: if_splits)
  qed
qed

lemma path_join_inject:
  assumes "CHR ''/'' \<notin> set n" "CHR ''/'' \<notin> set m"
  shows "PathJoin p n = PathJoin q m \<Longrightarrow> p = q"
proof -
  assume e: "PathJoin p n = PathJoin q m"
  have "takeWhile (\<lambda>x. x \<noteq> CHR ''/'') (rev (PathJoin p n)) = rev n" if "CHR ''/'' \<notin> set n" for p n :: string
    unfolding PathJoin_def rev_append rev.simps append.assoc using that by (subst takeWhile_append2) auto
  from this [of n p] this [of m q] e assms have "rev n = rev m" by metis
  with e show "p = q" by (simp add: PathJoin_def)
qed

text \<open>
  A directory that is not watched, and whose own creation is not among the events that are read,
  stays unwatched, and nothing in it is ever reported: the watcher does not look into a directory that
  has been created, so that what was made in it before its watch was set is missed for good.
\<close>

lemma unseen_directory:
  assumes "for_each (read_event fs) es d = (x, d')" "p \<notin> watched d" "p \<notin> created_paths fs es d"
    "\<forall>e \<in> set es. CHR ''/'' \<notin> set (ev_name e)"
  shows "p \<notin> watched d' \<and> (\<exists>new. dw_changes d' = dw_changes d @ new \<and>
    (\<forall>change \<in> set new. \<forall>n. CHR ''/'' \<notin> set n \<longrightarrow> change_path change \<noteq> PathJoin p n))"
  using assms
proof (induction es arbitrary: d)
  case (Cons e es)
  obtain y d1 where first: "read_event fs e d = (y, d1)" by (cases "read_event fs e d")
  have p: "p \<notin> created_paths fs es d1" "\<not> (event_path d e = Some p \<and> has_bit IN_CREATE e)" using Cons.prems(3) first by auto
  have names: "CHR ''/'' \<notin> set (c_str (ev_name e))" using Cons.prems(4) by (auto simp: c_str_def dest: set_takeWhileD)
  have here: "change_path c \<noteq> PathJoin p n" if "event_path d e = Some (change_path c)" "CHR ''/'' \<notin> set n" for c n
  proof
    assume c: "change_path c = PathJoin p n"
    from that(1) obtain dir where dir: "map_of (directories d) (ev_wd e) = Some dir" "change_path c = PathJoin dir (c_str (ev_name e))"
      by (auto simp: event_path_def)
    with c path_join_inject [OF names that(2)] have "dir = p" by metis
    moreover have "dir \<in> watched d" using map_of_SomeD [OF dir(1)] by (force simp: watched_def)
    ultimately show False using Cons.prems(2) by simp
  qed
  from read_event_cases [OF first] p(2) Cons.prems(2) have step: "p \<notin> watched d1"
    "\<exists>new. dw_changes d1 = dw_changes d @ new \<and> (\<forall>c \<in> set new. event_path d e = Some (change_path c))" by auto
  show ?case
  proof (cases y)
    case (Inl a)
    with Cons.prems(1) first have "d' = d1" by (simp add: andThen_def)
    with step here show ?thesis by blast
  next
    case (Inr u)
    with Cons.prems(1) first have "for_each (read_event fs) es d1 = (x, d')" by (simp add: andThen_def)
    from Cons.IH [OF this step(1) p(1)] Cons.prems(4) obtain new where
      "p \<notin> watched d'" "dw_changes d' = dw_changes d1 @ new"
      "\<forall>c \<in> set new. \<forall>n. CHR ''/'' \<notin> set n \<longrightarrow> change_path c \<noteq> PathJoin p n" by auto
    with step(2) here show ?thesis by fastforce
  qed
qed simp

text \<open>A bucket appears together with a stream set in it: only the bucket is reported and watched.\<close>

definition empty_watcher :: DirectoryWatcher where
  "empty_watcher = \<lparr>dw_path = ''/r'', dw_recurse = True, dw_changes = [], directories = [(1, [])], add_watch = sample_add,
     watch_calls = 1\<rparr>"

lemma unseen_directory_witness:
  "\<exists>d. for_each (read_event sample_tree) [\<lparr>ev_wd = 1, ev_mask = 0x40000100, ev_name = ''b''\<rparr>] empty_watcher = (Inr (), d) \<and>
     dw_changes d = [\<lparr>change_path = ''/b'', change_action = ADDED\<rparr>] \<and>
     lookup_path sample_tree ''/r/b/s'' = Some Dir \<and> ''/b/s'' \<notin> watched d"
proof -
  let ?e = "\<lparr>ev_wd = 1, ev_mask = 0x40000100, ev_name = ''b''\<rparr>"
  have c: "components ''/r//b'' = [''r'', ''b'']" "components ''/r/b/s'' = [''r'', ''b'', ''s'']" "c_str ''b'' = ''b''"
    by (simp_all add: components_def c_str_def)
  have b: "has_bit IN_CREATE ?e" "\<not> has_bit IN_IGNORED ?e"
    by (simp_all add: has_bit_def IN_CREATE_def IN_IGNORED_def)
  have s: "stat sample_tree ''/r//b'' = Some \<lparr>type = DIRECTORY, size = 0\<rparr>"
    by (simp add: stat_Some lookup_path_def c sample_tree_def node_at_def st_size_def)
  obtain d where d: "for_each (read_event sample_tree) [?e] empty_watcher = (Inr (), d)"
      "dw_changes d = [\<lparr>change_path = ''/b'', change_action = ADDED\<rparr>]"
    by (simp add: read_event_def empty_watcher_def b c PathJoin_def s watch_directory_def sample_add_def andThen_def
        collect_change_def modify_def Let_def)
  have "''/b/s'' \<notin> watched empty_watcher" "''/b/s'' \<notin> created_paths sample_tree [?e] empty_watcher"
    by (simp_all add: watched_def empty_watcher_def event_path_def PathJoin_def c)
  from unseen_directory [OF d(1) this] d show ?thesis
    by (auto simp: lookup_path_def c sample_tree_def node_at_def)
qed

end
