(* ===== verification/Device_Loop.thy ===== *)
theory Device_Loop
  imports Device Prelude
begin

text \<open>
  The run loop of a device (\<open>Device\<close> in src/zippylog/device/device.cpp): it pumps until the condition it
  was given is signalled. A subclass is the record \<open>device_ops\<close> of its virtual functions on a state of
  type \<open>'d\<close>. The locale \<open>device_invariant\<close> states what a subclass promises about a predicate on its state.
\<close>

record 'd device_ops =
  Pump_op :: "('d, PumpResult) action"
  OnFirstRun_op :: "('d, unit) action"
  OnRunStart_op :: "('d, unit) action"
  OnRunFinish_op :: "('d, unit) action"

text \<open>\<open>waits\<close> counts the calls of \<open>Wait(0)\<close>; the \<open>k\<close>-th of them returns \<open>cw k\<close>.\<close>

record 'd device =
  dev :: 'd
  dev_thread :: bool
  dev_running :: bool
  has_ran :: bool
  async_signaled :: bool
  waits :: nat

definition new_Device :: "bool \<Rightarrow> 'd \<Rightarrow> 'd device res" where
  "new_Device cw d =
     (if \<not> cw then Inl (InvalidArgument ''ConditionalWait parameter not defined'')
      else Inr \<lparr>dev = d, dev_thread = False, dev_running = False, has_ran = False, async_signaled = False, waits = 0\<rparr>)"

definition on_dev :: "('d, 'a) action \<Rightarrow> ('d device, 'a) action" where
  "on_dev f s = (let (x, d) = f (dev s) in (x, s\<lparr>dev := d\<rparr>))"

text \<open>
  The loop: before the \<open>k\<close>-th pump the outside changes the state by \<open>env k\<close>: messages arrive. \<open>None\<close> is a
  loop that never ends.
\<close>

partial_function (option) pump_loop ::
  "(nat \<Rightarrow> bool) \<Rightarrow> (nat \<Rightarrow> 'd \<Rightarrow> 'd) \<Rightarrow> 'd device_ops \<Rightarrow> 'd device \<Rightarrow> (unit res \<times> 'd device) option" where
  "pump_loop cw env V s =
     (if cw (waits s) then Some (Inr (), s\<lparr>waits := waits s + 1\<rparr>)
      else
        (case Pump_op V (env (waits s) (dev s)) of
           (Inl x, d) \<Rightarrow> Some (Inl x, s\<lparr>waits := waits s + 1, dev := d\<rparr>)
         | (Inr _, d) \<Rightarrow> pump_loop cw env V (s\<lparr>waits := waits s + 1, dev := d\<rparr>)))"

text \<open>What \<open>Run\<close> does before and after its loop.\<close>

definition start_running :: "'d device_ops \<Rightarrow> ('d device, unit) action" where
  "start_running V =
     andThen (\<lambda>s. if \<not> has_ran s then on_dev (OnFirstRun_op V) s else ret () s) (\<lambda>_.
     andThen (on_dev (OnRunStart_op V)) (\<lambda>_.
     modify (\<lambda>s. s\<lparr>dev_running := True, has_ran := True, async_signaled := True\<rparr>)))"

definition finish_running :: "'d device_ops \<Rightarrow> ('d device, unit) action" where
  "finish_running V = andThen (on_dev (OnRunFinish_op V)) (\<lambda>_. modify (\<lambda>s. s\<lparr>dev_running := False\<rparr>))"

definition Run :: "(nat \<Rightarrow> bool) \<Rightarrow> (nat \<Rightarrow> 'd \<Rightarrow> 'd) \<Rightarrow> 'd device_ops \<Rightarrow> 'd device \<Rightarrow> (unit res \<times> 'd device) option" where
  "Run cw env V s =
     (if cw (waits s) then Some (Inr (), s\<lparr>waits := waits s + 1\<rparr>)
      else
        (case start_running V (s\<lparr>waits := waits s + 1\<rparr>) of
           (Inl x, s) \<Rightarrow> Some (Inl x, s)
         | (Inr _, s) \<Rightarrow>
             (case pump_loop cw env V s of
                None \<Rightarrow> None
              | Some (Inl x, s) \<Rightarrow> Some (Inl x, s)
              | Some (Inr _, s) \<Rightarrow> Some (finish_running V s))))"

text \<open>
  The function of the thread, with its return value. Everything that is thrown is caught, except what is
  no exception; only a thrown pointer is not a \<open>std::exception\<close>. \<open>OnRunFinish\<close> is called in any case.
\<close>

definition thread_status :: "exn \<Rightarrow> nat" where
  "thread_status x = (case x of ThrownPointer _ \<Rightarrow> 0 | _ \<Rightarrow> 1)"

definition finish_thread :: "'d device_ops \<Rightarrow> nat \<Rightarrow> ('d device, nat) action" where
  "finish_thread V status =
     andThen (try_catch (on_dev (OnRunFinish_op V)) (\<lambda>_. ret ())) (\<lambda>_.
     andThen (modify (\<lambda>s. s\<lparr>dev_running := False\<rparr>)) (\<lambda>_. ret status))"

definition AsyncExecStart :: "(nat \<Rightarrow> bool) \<Rightarrow> (nat \<Rightarrow> 'd \<Rightarrow> 'd) \<Rightarrow> 'd device_ops \<Rightarrow> 'd device \<Rightarrow> (nat res \<times> 'd device) option" where
  "AsyncExecStart cw env V s =
     (case Run cw env V s of
        None \<Rightarrow> None
      | Some (Inr _, s) \<Rightarrow> Some (finish_thread V 0 s)
      | Some (Inl x, s) \<Rightarrow>
          if \<not> catchable x then Some (Inl x, s)
          else Some (finish_thread V (thread_status x) (s\<lparr>dev_running := False\<rparr>)))"

text \<open>
  Starting the thread: the outcome is whether the caller then waits for the thread to report its start,
  and \<open>StopAsync\<close>, with what the thread's \<open>Alive\<close> and \<open>Join\<close> return; its result is whether the condition
  has been signalled and whether the thread was aborted.
\<close>

definition RunAsync :: "(nat \<Rightarrow> bool) \<Rightarrow> ('d device, bool) action" where
  "RunAsync cw s =
     (let s' = s\<lparr>waits := waits s + 1\<rparr> in
      if cw (waits s) then ret False s'
      else if dev_thread s' then throw (RuntimeException ''device is already running asynchronously'') s'
      else ret True (s'\<lparr>async_signaled := False, dev_thread := True\<rparr>))"

definition StopAsync :: "bool \<Rightarrow> bool \<Rightarrow> ('d device, bool \<times> bool) action" where
  "StopAsync alive joined s =
     (if \<not> dev_thread s then throw (RuntimeException ''device is not running asynchronously'') s
      else ret (True, alive \<and> \<not> joined) (s\<lparr>dev_thread := (dev_thread s \<and> \<not> alive), dev_running := False\<rparr>))"

text \<open>The destructor joins the thread, and aborts it if that fails; the result is whether it did.\<close>

definition delete_Device :: "bool \<Rightarrow> 'd device \<Rightarrow> bool" where
  "delete_Device joined s \<longleftrightarrow> dev_thread s \<and> \<not> joined"

section \<open>The loop ends when it is told to\<close>

lemma pump_loop_returns:
  "cw k \<Longrightarrow> waits s \<le> k \<Longrightarrow> \<exists>x s'. pump_loop cw env V s = Some (x, s') \<and> waits s' \<le> k + 1"
proof (induction "k - waits s" arbitrary: s)
  case 0
  then have "waits s = k" by simp
  with 0 show ?case by (subst pump_loop.simps) simp
next
  case (Suc n)
  show ?case
  proof (cases "cw (waits s)")
    case True
    with Suc.prems show ?thesis by (subst pump_loop.simps) simp
  next
    case False
    with Suc.prems have lt: "waits s < k" by (metis le_neq_implies_less)
    obtain y d where p: "Pump_op V (env (waits s) (dev s)) = (y, d)" by (cases "Pump_op V (env (waits s) (dev s))")
    let ?s = "s\<lparr>waits := waits s + 1, dev := d\<rparr>"
    have "n = k - waits ?s" using Suc.hyps(2) by simp
    from Suc.hyps(1) [OF this] Suc.prems(1) lt have IH: "\<exists>x s'. pump_loop cw env V ?s = Some (x, s') \<and> waits s' \<le> k + 1" by simp
    show ?thesis
    proof (cases y)
      case (Inl x)
      with False p lt show ?thesis by (subst pump_loop.simps) simp
    next
      case (Inr u)
      with False p have "pump_loop cw env V s = pump_loop cw env V ?s" by (subst pump_loop.simps) simp
      with IH show ?thesis by simp
    qed
  qed
qed

lemma waits_on_dev [simp]: "waits (snd (on_dev f s)) = waits s"
  by (simp add: on_dev_def split_beta)

lemma waits_start_running: "start_running V s = (x, s') \<Longrightarrow> waits s' = waits s"
  by (auto simp: start_running_def andThen_def on_dev_def split_beta split: prod.splits sum.splits if_splits)

lemma waits_finish_running: "waits (snd (finish_running V s)) = waits s"
  by (auto simp: finish_running_def andThen_def on_dev_def split_beta split: prod.splits sum.splits)

lemma async_returns:
  assumes "cw k" "waits s \<le> k"
  shows "\<exists>x s'. AsyncExecStart cw env V s = Some (x, s')"
proof -
  have "\<exists>y t. Run cw env V s = Some (y, t)"
  proof (cases "cw (waits s)")
    case False
    with assms have "waits s < k" by (metis le_neq_implies_less)
    obtain y t where start: "start_running V (s\<lparr>waits := waits s + 1\<rparr>) = (y, t)" by (cases "start_running V (s\<lparr>waits := waits s + 1\<rparr>)")
    then have "waits t \<le> k" using waits_start_running \<open>waits s < k\<close> by fastforce
    from pump_loop_returns [where cw = cw, OF assms(1) this] obtain z u where "pump_loop cw env V t = Some (z, u)" by blast
    with False start show ?thesis by (cases y; cases z; cases "finish_running V u") (auto simp: Run_def)
  qed (simp add: Run_def)
  then obtain y t where "Run cw env V s = Some (y, t)" by blast
  then show ?thesis
    by (cases y; cases "finish_thread V 0 t") (auto simp: AsyncExecStart_def intro: prod.exhaust)
qed

text \<open>The state in which the loop is entered, for a subclass whose hooks do not fail.\<close>

definition entered :: "('d \<Rightarrow> 'd) \<Rightarrow> ('d \<Rightarrow> 'd) \<Rightarrow> 'd device \<Rightarrow> 'd device" where
  "entered first start s = s\<lparr>waits := waits s + 1, dev := start (if has_ran s then dev s else first (dev s)),
     dev_running := True, has_ran := True, async_signaled := True\<rparr>"

text \<open>
  C29: a device's thread returns: when the condition is signalled at the \<open>k\<close>-th time it is looked at, the
  loop ends by then, normally or by an exception of a pump, which ends it at once. \<open>OnRunFinish\<close> is
  called once after an exception, but twice after a normal end, once by \<open>Run\<close> and once by the thread.
  The thread's status tells exceptions from a normal end, unless what was thrown is a pointer. What is no
  exception, a crash or a call in the pump that never returns, stops the thread where it is.
\<close>

theorem device_thread_returns:
  assumes "\<not> cw (waits s)" "cw k" "waits s \<le> k"
    "\<And>d. OnFirstRun_op V d = (Inr (), first d)" "\<And>d. OnRunStart_op V d = (Inr (), start d)"
    "\<And>d. OnRunFinish_op V d = (Inr (), fin d)"
  shows "\<exists>x s'. pump_loop cw env V (entered first start s) = Some (x, s') \<and> waits s' \<le> k + 1 \<and>
    AsyncExecStart cw env V s =
      (case x of
         Inr _ \<Rightarrow> Some (Inr 0, s'\<lparr>dev := fin (fin (dev s')), dev_running := False\<rparr>)
       | Inl e \<Rightarrow> if catchable e then Some (Inr (thread_status e), s'\<lparr>dev := fin (dev s'), dev_running := False\<rparr>)
                 else Some (Inl e, s'))"
proof -
  have start: "start_running V (s\<lparr>waits := waits s + 1\<rparr>) = (Inr (), entered first start s)"
    using assms(4,5) by (simp add: start_running_def on_dev_def andThen_def entered_def)
  have "waits (entered first start s) \<le> k" using assms(1-3) by (auto simp: entered_def le_less Suc_le_eq)
  from pump_loop_returns [where cw = cw, OF assms(2) this] obtain x s' where
    loop: "pump_loop cw env V (entered first start s) = Some (x, s')" "waits s' \<le> k + 1" by blast
  have fin: "finish_running V s' = (Inr (), s'\<lparr>dev := fin (dev s'), dev_running := False\<rparr>)"
    "finish_thread V n t = (Inr n, t\<lparr>dev := fin (dev t), dev_running := False\<rparr>)" for n t
    using assms(6) by (simp_all add: finish_running_def finish_thread_def on_dev_def andThen_def try_catch_def)
  show ?thesis
    using loop assms(1) start fin by (cases x) (auto simp: AsyncExecStart_def Run_def)
qed

text \<open>A device whose first pump throws: its thread reports a failure, unless a pointer was thrown, and has ended.\<close>

lemma first_pump_ends:
  assumes "\<not> cw (waits s)" "\<not> cw (waits s + 1)"
    "(if has_ran s then (Inr (), dev s) else OnFirstRun_op V (dev s)) = (Inr (), d0)"
    "OnRunStart_op V d0 = (Inr (), d1)" "Pump_op V (env (waits s + 1) d1) = (Inl e, d2)" "catchable e"
    "OnRunFinish_op V d2 = (Inr (), d3)"
  shows "\<exists>s'. AsyncExecStart cw env V s = Some (Inr (thread_status e), s') \<and> \<not> dev_running s' \<and> dev s' = d3"
proof -
  let ?s = "s\<lparr>waits := waits s + 1, dev := d1, dev_running := True, has_ran := True, async_signaled := True\<rparr>"
  have start: "start_running V (s\<lparr>waits := waits s + 1\<rparr>) = (Inr (), ?s)"
    using assms(3,4) by (cases "has_ran s") (simp_all add: start_running_def on_dev_def andThen_def)
  have "pump_loop cw env V ?s = Some (Inl e, ?s\<lparr>waits := waits s + 2, dev := d2\<rparr>)"
    using assms(2,5) by (subst pump_loop.simps) simp
  with start assms(1) have "Run cw env V s = Some (Inl e, ?s\<lparr>waits := waits s + 2, dev := d2\<rparr>)"
    by (simp add: Run_def)
  with assms(6,7) show ?thesis
    by (simp add: AsyncExecStart_def finish_thread_def on_dev_def andThen_def try_catch_def)
qed

definition counting_device :: "nat device_ops" where
  "counting_device = \<lparr>Pump_op = ret MakeWorkDone, OnFirstRun_op = ret (), OnRunStart_op = ret (),
     OnRunFinish_op = modify Suc\<rparr>"

lemma device_thread_returns_witness:
  "\<exists>s'. AsyncExecStart (\<lambda>k. 2 \<le> k) (\<lambda>_ d. d) counting_device
      \<lparr>dev = 0, dev_thread = True, dev_running = False, has_ran = False, async_signaled = False, waits = 0\<rparr> = Some (Inr 0, s') \<and>
     dev s' = 2"
proof -
  let ?s = "\<lparr>dev = 0, dev_thread = True, dev_running = False, has_ran = False, async_signaled = False, waits = 0\<rparr>"
  let ?t = "\<lparr>dev = 0, dev_thread = True, dev_running = True, has_ran = True, async_signaled = True, waits = 3\<rparr>"
  have "pump_loop (\<lambda>k. 2 \<le> k) (\<lambda>_ d. d) counting_device (entered id id ?s) = Some (Inr (), ?t)"
    by (subst pump_loop.simps, simp add: entered_def counting_device_def, subst pump_loop.simps, simp)
  then have loop: "pump_loop (\<lambda>k. 2 \<le> k) (\<lambda>_ d. d) counting_device (entered id id ?s) = Some (x, s') \<Longrightarrow> x = Inr () \<and> s' = ?t" for x s'
    by simp
  from device_thread_returns [where cw = "\<lambda>k. 2 \<le> k" and s = ?s and k = 2 and V = counting_device and first = id and start = id
      and fin = Suc and env = "\<lambda>_ d. d"]
  obtain x s' where "pump_loop (\<lambda>k. 2 \<le> k) (\<lambda>_ d. d) counting_device (entered id id ?s) = Some (x, s')"
    "AsyncExecStart (\<lambda>k. 2 \<le> k) (\<lambda>_ d. d) counting_device ?s =
      (case x of
         Inr _ \<Rightarrow> Some (Inr 0, s'\<lparr>dev := Suc (Suc (dev s')), dev_running := False\<rparr>)
       | Inl e \<Rightarrow> if catchable e then Some (Inr (thread_status e), s'\<lparr>dev := Suc (dev s'), dev_running := False\<rparr>)
                 else Some (Inl e, s'))"
    by (auto simp: counting_device_def)
  with loop [of x s'] show ?thesis by auto
qed

section \<open>Invariants of subclasses\<close>

locale device_invariant =
  fixes V :: "'d device_ops" and env :: "nat \<Rightarrow> 'd \<Rightarrow> 'd" and inv :: "'d \<Rightarrow> bool"
  assumes env: "inv d \<Longrightarrow> inv (env k d)"
    and pump: "inv d \<Longrightarrow> inv (snd (Pump_op V d))"
    and first_run: "inv d \<Longrightarrow> inv (snd (OnFirstRun_op V d))"
    and run_start: "inv d \<Longrightarrow> inv (snd (OnRunStart_op V d))"
    and run_finish: "inv d \<Longrightarrow> inv (snd (OnRunFinish_op V d))"
begin

lemma on_dev_keeps: "inv (dev s) \<Longrightarrow> (\<And>d. inv d \<Longrightarrow> inv (snd (f d))) \<Longrightarrow> inv (dev (snd (on_dev f s)))"
  by (simp add: on_dev_def split_beta)

lemma loop_keeps:
  assumes "inv (dev s)" "pump_loop cw env V s = Some y"
  shows "inv (dev (snd y))"
proof -
  let ?P = "\<lambda>cw e W s (y :: unit res \<times> 'd device). e = env \<longrightarrow> W = V \<longrightarrow> inv (dev s) \<longrightarrow> inv (dev (snd y))"
  have "?P cw env V s y"
  proof (rule pump_loop.raw_induct [of ?P, OF _ assms(2)])
    fix loop :: "(nat \<Rightarrow> bool) \<Rightarrow> (nat \<Rightarrow> 'd \<Rightarrow> 'd) \<Rightarrow> 'd device_ops \<Rightarrow> 'd device \<Rightarrow> (unit res \<times> 'd device) option"
    fix cw e W s y
    assume IH: "\<And>cw e W s y. loop cw e W s = Some y \<Longrightarrow> ?P cw e W s y"
      and body: "(if cw (waits s) then Some (Inr (), s\<lparr>waits := waits s + 1\<rparr>)
        else (case Pump_op W (e (waits s) (dev s)) of
           (Inl x, d) \<Rightarrow> Some (Inl x, s\<lparr>waits := waits s + 1, dev := d\<rparr>)
         | (Inr _, d) \<Rightarrow> loop cw e W (s\<lparr>waits := waits s + 1, dev := d\<rparr>))) = Some y"
    obtain z d where p: "Pump_op W (e (waits s) (dev s)) = (z, d)" by (cases "Pump_op W (e (waits s) (dev s))")
    show "?P cw e W s y"
    proof (intro impI)
      assume eW: "e = env" "W = V" and i: "inv (dev s)"
      then have d: "inv d" using pump [OF env [OF i, of "waits s"]] p by simp
      from body p consider "y = (Inr (), s\<lparr>waits := waits s + 1\<rparr>)"
        | x where "y = (Inl x, s\<lparr>waits := waits s + 1, dev := d\<rparr>)"
        | "loop cw e W (s\<lparr>waits := waits s + 1, dev := d\<rparr>) = Some y"
        by (cases z) (auto split: if_splits)
      then show "inv (dev (snd y))"
      proof cases
        case 3
        from IH [OF this] eW d show ?thesis by simp
      qed (use i d in simp_all)
    qed
  qed
  with assms(1) show ?thesis by simp
qed

text \<open>Preservation goes through sequences of actions.\<close>

lemma keeps_then:
  assumes "inv (dev (snd (m s)))" "\<And>x s. inv (dev s) \<Longrightarrow> inv (dev (snd (f x s)))"
  shows "inv (dev (snd (andThen m f s)))"
proof (cases "m s")
  case (Pair x t)
  with assms show ?thesis by (cases x) (simp_all add: andThen_def)
qed

lemma start_keeps:
  assumes "inv (dev s)"
  shows "inv (dev (snd (start_running V s)))"
  unfolding start_running_def
proof (intro keeps_then)
  show "inv (dev (snd (if \<not> has_ran s then on_dev (OnFirstRun_op V) s else ret () s)))"
    using on_dev_keeps [OF assms, of "OnFirstRun_op V"] first_run assms by simp
  show "inv (dev (snd (on_dev (OnRunStart_op V) t)))" if "inv (dev t)" for t
    using on_dev_keeps [OF that, of "OnRunStart_op V"] run_start by simp
qed simp

lemma finish_keeps:
  assumes "inv (dev s)"
  shows "inv (dev (snd (finish_running V s)))"
  unfolding finish_running_def
  using on_dev_keeps [OF assms, of "OnRunFinish_op V"] run_finish by (intro keeps_then) simp_all

lemma thread_keeps:
  assumes "inv (dev s)"
  shows "inv (dev (snd (finish_thread V n s)))"
proof -
  obtain z d where fin: "OnRunFinish_op V (dev s) = (z, d)" by (cases "OnRunFinish_op V (dev s)")
  then have "inv d" using run_finish [OF assms] by simp
  with fin show ?thesis by (cases z) (simp_all add: finish_thread_def andThen_def try_catch_def on_dev_def)
qed

lemma run_keeps:
  assumes "inv (dev s)" "Run cw env V s = Some (x, s')"
  shows "inv (dev s')"
proof (cases "cw (waits s)")
  case True
  with assms show ?thesis by (auto simp: Run_def)
next
  case False
  obtain y t where start: "start_running V (s\<lparr>waits := waits s + 1\<rparr>) = (y, t)" by (cases "start_running V (s\<lparr>waits := waits s + 1\<rparr>)")
  then have t: "inv (dev t)" using start_keeps [of "s\<lparr>waits := waits s + 1\<rparr>"] assms(1) by simp
  show ?thesis
  proof (cases y)
    case (Inl e)
    with assms(2) False start t show ?thesis by (simp add: Run_def)
  next
    case (Inr u)
    with assms(2) False start obtain z w where loop: "pump_loop cw env V t = Some (z, w)"
      by (cases "pump_loop cw env V t") (auto simp: Run_def)
    note w = loop_keeps [OF t loop]
    show ?thesis
    proof (cases z)
      case (Inl e)
      with assms(2) False start Inr loop w show ?thesis by (simp add: Run_def)
    next
      case r: (Inr v)
      with assms(2) False start Inr loop have "s' = snd (finish_running V w)" by (simp add: Run_def)
      with finish_keeps w show ?thesis by simp
    qed
  qed
qed

lemma async_keeps:
  assumes "inv (dev s)" "AsyncExecStart cw env V s = Some (x, s')"
  shows "inv (dev s')"
proof -
  obtain y t where run: "Run cw env V s = Some (y, t)" using assms(2) by (cases "Run cw env V s") (auto simp: AsyncExecStart_def)
  have t: "s' = t \<or> (\<exists>n. s' = snd (finish_thread V n (t\<lparr>dev_running := False\<rparr>))) \<or> (\<exists>n. s' = snd (finish_thread V n t))"
  proof (cases y)
    case (Inl e)
    with assms(2) run show ?thesis by (cases "catchable e") (auto simp: AsyncExecStart_def dest!: arg_cong [where f = snd])
  next
    case (Inr u)
    with assms(2) run show ?thesis by (auto simp: AsyncExecStart_def dest!: arg_cong [where f = snd])
  qed
  from run_keeps [OF assms(1) run] t thread_keeps show ?thesis by auto
qed

end

end
