(* ===== verification/Store_Watcher.thy ===== *)
theory Store_Watcher
  imports Directory_Watcher Store Zeromq Device_Loop
begin

text \<open>
  The store watcher (\<open>StoreWatcher\<close> in src/zippylog/store_watcher.cpp), a device that calls a handler for
  every change of the store's directory, and the server's watcher (\<open>Watcher\<close> in
  src/zippylog/device/server_watcher.cpp), whose handlers announce the changes on two sockets.
\<close>

section \<open>The device\<close>

text \<open>
  The socket of the base class is never opened; \<open>change_sock\<close> is the one of the server's class.
  \<open>watcher_clock\<close> gives the creation times of the envelopes, in the order in which \<open>made\<close> counts them.
\<close>

record watcher =
  wa_store :: Store
  wa_id :: string
  wa_logging_sock :: socket
  change_sock :: socket
  directory_watcher :: DirectoryWatcher
  watcher_clock :: "nat \<Rightarrow> u64"
  made_envelopes :: nat

record watcher_params =
  wp_active :: bool
  wp_zctx :: bool
  wp_store_path :: string
  wp_logging_endpoint :: string

definition stamp :: "watcher \<Rightarrow> Envelope \<times> watcher" where
  "stamp w = (new_Envelope (watcher_clock w (made_envelopes w)), w\<lparr>made_envelopes := made_envelopes w + 1\<rparr>)"

definition watcher_logs :: "codec \<Rightarrow> watcher_log \<Rightarrow> (watcher, unit) action" where
  "watcher_logs c l w =
     (let (e, w) = stamp w;
          (_, sock) = SendEnvelope c (add_to_envelope c (StoreWatcherLog l (wa_id w)) e) False no_flags (wa_logging_sock w)
      in ret () (w\<lparr>wa_logging_sock := sock\<rparr>))"

text \<open>\<open>inotify\<close> is what the system gives the constructor: the watch function and the descriptor.\<close>

definition new_StoreWatcher ::
  "codec \<Rightarrow> FileType \<Rightarrow> filesystem \<Rightarrow> (nat \<Rightarrow> string \<Rightarrow> int) \<times> int \<Rightarrow> string \<Rightarrow> (nat \<Rightarrow> u64) \<Rightarrow> socket \<Rightarrow> watcher_params \<Rightarrow> watcher res" where
  "new_StoreWatcher c garbage fs inotify uuid clock new_sock p =
     (if \<not> wp_active p then Inl (InvalidArgument ''ConditionalWait parameter not defined'')
      else
        rbind (new_DirectoryWatcher fs (fst inotify) (snd inotify) (wp_store_path p) True) (\<lambda>d.
        rbind (new_SimpleDirectoryStore garbage fs (wp_store_path p)) (\<lambda>store.
          if \<not> wp_zctx p then Inl (Undefined ''null context'')
          else
            (let w = \<lparr>wa_store = store, wa_id = uuid, wa_logging_sock = new_sock, change_sock = new_sock, directory_watcher = d,
                      watcher_clock = clock, made_envelopes = 0\<rparr>
             in Inr (snd (watcher_logs c WatcherCreate w))))))"

definition delete_StoreWatcher :: "codec \<Rightarrow> (watcher, unit) action" where
  "delete_StoreWatcher c = watcher_logs c WatcherDestroy"

definition watcher_OnRunStart :: "codec \<Rightarrow> (watcher, unit) action" where
  "watcher_OnRunStart c = watcher_logs c WatcherRunStart"

definition watcher_OnRunFinish :: "codec \<Rightarrow> (watcher, unit) action" where
  "watcher_OnRunFinish c = watcher_logs c WatcherRunFinish"

text \<open>The functions a subclass implements.\<close>

record watcher_handlers =
  HandleAdded :: "string \<Rightarrow> FileStat \<Rightarrow> (watcher, unit) action"
  HandleDeleted :: "string \<Rightarrow> (watcher, unit) action"
  HandleModified :: "string \<Rightarrow> FileStat \<Rightarrow> (watcher, unit) action"

definition store_path_of_change :: "string \<Rightarrow> string" where
  "store_path_of_change path =
     map (\<lambda>x. if x = CHR 0x5C then CHR ''/'' else x)
       (case path of x # _ \<Rightarrow> if x = CHR ''/'' then path else CHR ''/'' # path | [] \<Rightarrow> [CHR ''/''])"

text \<open>
  The result of \<open>stat\<close> is not looked at: the record keeps its initial contents \<open>garbage\<close> when it fails.
\<close>

definition handle_change :: "watcher_handlers \<Rightarrow> filesystem \<Rightarrow> FileStat \<Rightarrow> DirectoryChange \<Rightarrow> (watcher, unit) action" where
  "handle_change H fs garbage change w =
     (let path = store_path_of_change (change_path change);
          st = (case stat fs (PathToFilesystemPath (wa_store w) (change_path change)) of None \<Rightarrow> garbage | Some st \<Rightarrow> st)
      in case change_action change of
           ADDED \<Rightarrow> HandleAdded H path st w
         | DELETED \<Rightarrow> HandleDeleted H path w
         | MODIFIED \<Rightarrow> HandleModified H path st w
         | RENAMED \<Rightarrow> throw (LogicError ''unknown action seen. buggy code.'') w)"

text \<open>
  The pump. What the system reports, and the file tree when the events are read and when the changes are
  handled, are the arguments \<open>polled\<close>, \<open>fs\<close> and \<open>fs'\<close>.
\<close>

record surroundings =
  polled :: poll_outcome
  tree_read :: filesystem
  tree_handled :: filesystem

definition StoreWatcher_Pump :: "watcher_handlers \<Rightarrow> FileStat \<Rightarrow> surroundings \<Rightarrow> (watcher, PumpResult) action" where
  "StoreWatcher_Pump H garbage u w =
     (case WaitForChanges (tree_read u) (polled u) (directory_watcher w) of
        (Inl x, d) \<Rightarrow> throw x (w\<lparr>directory_watcher := d\<rparr>)
      | (Inr False, d) \<Rightarrow> ret MakeNoWorkDone (w\<lparr>directory_watcher := d\<rparr>)
      | (Inr True, d) \<Rightarrow>
          let (changes, d) = GetChanges d in
          andThen (for_each (handle_change H (tree_handled u) garbage) changes) (\<lambda>_. ret MakeWorkDone)
            (w\<lparr>directory_watcher := d\<rparr>))"

section \<open>The server's watcher\<close>

text \<open>Both sends go through a socket pointer.\<close>

definition SendChangeMessage :: "codec \<Rightarrow> Envelope \<Rightarrow> (watcher, unit) action" where
  "SendChangeMessage c e w =
     (let (_, log) = SendEnvelope_pointer c e False no_flags (wa_logging_sock w);
          (_, change) = SendEnvelope_pointer c e False no_flags (change_sock w)
      in ret () (w\<lparr>wa_logging_sock := log, change_sock := change\<rparr>))"

definition send_change :: "codec \<Rightarrow> Message \<Rightarrow> Envelope \<Rightarrow> (watcher, unit) action" where
  "send_change c m e = SendChangeMessage c (add_to_envelope c m e)"

definition announce_added :: "codec \<Rightarrow> string \<Rightarrow> FileStat \<Rightarrow> (watcher, unit) action" where
  "announce_added c path st w =
     (case parse_path path of
        None \<Rightarrow> ret () w
      | Some (bucket, sset, stream) \<Rightarrow>
          let (e, w) = stamp w in
          if stream \<noteq> [] then send_change c (StoreChangeStreamAddedV1 bucket sset stream) e w
          else if sset \<noteq> [] then send_change c (StoreChangeStreamSetAddedV1 bucket sset) e w
          else send_change c (StoreChangeBucketAddedV1 bucket) e w)"

definition announce_deleted :: "codec \<Rightarrow> string \<Rightarrow> (watcher, unit) action" where
  "announce_deleted c path w =
     (case parse_path path of
        None \<Rightarrow> ret () w
      | Some (bucket, sset, stream) \<Rightarrow>
          let (e, w) = stamp w in
          if stream \<noteq> [] then send_change c (StoreChangeStreamDeletedV1 bucket sset stream) e w
          else if sset \<noteq> [] then send_change c (StoreChangeStreamSetDeletedV1 bucket sset) e w
          else send_change c (StoreChangeBucketDeletedV1 bucket) e w)"

definition announce_modified :: "codec \<Rightarrow> string \<Rightarrow> FileStat \<Rightarrow> (watcher, unit) action" where
  "announce_modified c path st w =
     (case parse_path path of
        None \<Rightarrow> ret () w
      | Some (bucket, sset, stream) \<Rightarrow>
          let (e, w) = stamp w in
          if stream \<noteq> [] then send_change c (StoreChangeStreamAppendedV1 bucket sset stream (word_of_int (size st))) e w
          else throw (RuntimeException ''how did we get here?'') w)"

definition server_watcher :: "codec \<Rightarrow> watcher_handlers" where
  "server_watcher c = \<lparr>HandleAdded = announce_added c, HandleDeleted = announce_deleted c, HandleModified = announce_modified c\<rparr>"

definition new_Watcher ::
  "codec \<Rightarrow> FileType \<Rightarrow> filesystem \<Rightarrow> (nat \<Rightarrow> string \<Rightarrow> int) \<times> int \<Rightarrow> string \<Rightarrow> (nat \<Rightarrow> u64) \<Rightarrow> socket \<Rightarrow> watcher_params \<Rightarrow> watcher res" where
  "new_Watcher c garbage fs inotify uuid clock new_sock p =
     rbind (new_StoreWatcher c garbage fs inotify uuid clock new_sock p) (\<lambda>w. Inr (w\<lparr>change_sock := new_sock\<rparr>))"

text \<open>The watcher in the run loop, with what it meets at the next pump.\<close>

definition watcher_ops :: "codec \<Rightarrow> FileStat \<Rightarrow> (watcher \<times> surroundings) device_ops" where
  "watcher_ops c garbage =
     (let on = \<lambda>f (w, u). (let (x, w') = f w in (x, (w', u))) in
      \<lparr>Pump_op = (\<lambda>(w, u). let (x, w') = StoreWatcher_Pump (server_watcher c) garbage u w in (x, (w', u))),
       OnFirstRun_op = ret (), OnRunStart_op = on (watcher_OnRunStart c), OnRunFinish_op = on (watcher_OnRunFinish c)\<rparr>)"

definition watcher_env :: "(nat \<Rightarrow> surroundings) \<Rightarrow> nat \<Rightarrow> watcher \<times> surroundings \<Rightarrow> watcher \<times> surroundings" where
  "watcher_env around k x = (fst x, around k)"

section \<open>What is announced\<close>

text \<open>
  A change as its place in the store, given by one, two or three names, and the message about it. Every
  message goes to both sockets as an empty frame and the envelope.
\<close>

datatype place = InBucket string | InStreamset string string | InStream string string string

fun place_names :: "place \<Rightarrow> string list" where
  "place_names (InBucket b) = [b]"
| "place_names (InStreamset b t) = [b, t]"
| "place_names (InStream b t n) = [b, t, n]"

fun place_path :: "place \<Rightarrow> string" where
  "place_path (InBucket b) = BucketPath b"
| "place_path (InStreamset b t) = StreamsetPath b t"
| "place_path (InStream b t n) = StreamPath b t n @ extension"

fun place_message :: "ChangeAction \<Rightarrow> place \<Rightarrow> u64 \<Rightarrow> Message" where
  "place_message ADDED (InBucket b) len = StoreChangeBucketAddedV1 b"
| "place_message ADDED (InStreamset b t) len = StoreChangeStreamSetAddedV1 b t"
| "place_message ADDED (InStream b t n) len = StoreChangeStreamAddedV1 b t n"
| "place_message DELETED (InBucket b) len = StoreChangeBucketDeletedV1 b"
| "place_message DELETED (InStreamset b t) len = StoreChangeStreamSetDeletedV1 b t"
| "place_message DELETED (InStream b t n) len = StoreChangeStreamDeletedV1 b t n"
| "place_message _ (InStream b t n) len = StoreChangeStreamAppendedV1 b t n len"

text \<open>Nothing is said of a modified bucket or stream set, and no watcher reports a renaming.\<close>

definition modifiable :: "ChangeAction \<Rightarrow> place \<Rightarrow> bool" where
  "modifiable a p \<longleftrightarrow> a \<noteq> RENAMED \<and> (a = MODIFIED \<longrightarrow> (\<exists>b t n. p = InStream b t n))"

text \<open>The size a message tells: what \<open>stat\<close> gives, or what was in the record before.\<close>

definition told_size :: "watcher \<Rightarrow> filesystem \<Rightarrow> FileStat \<Rightarrow> string \<Rightarrow> u64" where
  "told_size w fs garbage path =
     word_of_int (size (case stat fs (PathToFilesystemPath (wa_store w) path) of None \<Rightarrow> garbage | Some st \<Rightarrow> st))"

definition wire_bytes :: "codec \<Rightarrow> (nat \<Rightarrow> u64) \<Rightarrow> nat \<Rightarrow> Message \<Rightarrow> string" where
  "wire_bytes c clock k m = EnvelopeBytes c (envelope (add_to_envelope c m (new_Envelope (clock k))))"

fun announcements :: "codec \<Rightarrow> (nat \<Rightarrow> u64) \<Rightarrow> nat \<Rightarrow> Message list \<Rightarrow> (string \<times> bool) list" where
  "announcements c clock k [] = []"
| "announcements c clock k (m # ms) = ([], True) # (wire_bytes c clock k m, False) # announcements c clock (k + 1) ms"

definition announces :: "(string \<times> bool) list \<Rightarrow> nat \<Rightarrow> watcher \<Rightarrow> watcher \<Rightarrow> bool" where
  "announces fs k w w' \<longleftrightarrow>
     w' = w\<lparr>wa_logging_sock := (wa_logging_sock w)\<lparr>sent := sent (wa_logging_sock w) @ fs\<rparr>,
            change_sock := (change_sock w)\<lparr>sent := sent (change_sock w) @ fs\<rparr>, made_envelopes := made_envelopes w + k\<rparr>"

lemma send_change_announces:
  assumes "Serializable c (envelope (add_to_envelope c m (new_Envelope (watcher_clock w (made_envelopes w)))))"
    "send_results (wa_logging_sock w) = []" "send_results (change_sock w) = []"
  shows "\<exists>w'. (case stamp w of (e, w) \<Rightarrow> send_change c m e w) = (Inr (), w') \<and>
    announces (announcements c (watcher_clock w) (made_envelopes w) [m]) 1 w w'"
  using assms
  by (simp add: stamp_def send_change_def SendChangeMessage_def SendEnvelope_pointer_def SendEnvelope_to_ok serialize_for_def
      ToZmqMessage_def wire_bytes_def announces_def no_flags_def)

lemma place_denotes:
  assumes "\<forall>x \<in> set (place_names p). is_name x"
  shows "parse_path (place_path p) = Some (case p of InBucket b \<Rightarrow> (b, [], []) | InStreamset b t \<Rightarrow> (b, t, []) | InStream b t n \<Rightarrow> (b, t, n))"
  using assms unfolding parse_path_iff by (cases p) (auto intro: path_denotes.intros)

lemma place_path_kept:
  assumes "\<forall>x \<in> set (place_names p). is_name x"
  shows "store_path_of_change (place_path p) = place_path p"
proof -
  have bs: "\<not> name_char CHR 0x5C" by (simp add: name_char_def char_value_def)
  have name: "map (\<lambda>x. if x = CHR 0x5C then CHR ''/'' else x) s = s" if "is_name s" for s
  proof (rule map_idI)
    fix x assume "x \<in> set s"
    with that bs have "x \<noteq> CHR 0x5C" by (auto simp: is_name_def list_all_iff)
    then show "(if x = CHR 0x5C then CHR ''/'' else x) = x" by simp
  qed
  show ?thesis
    using assms name by (cases p) (simp_all add: store_path_of_change_def path_defs extension_def)
qed

lemma place_handled:
  assumes "\<forall>x \<in> set (place_names p). is_name x" "modifiable a p" "change_path ch = place_path p" "change_action ch = a"
    "\<And>e. Serializable c e" "send_results (wa_logging_sock w) = []" "send_results (change_sock w) = []"
  shows "\<exists>w'. handle_change (server_watcher c) fs garbage ch w = (Inr (), w') \<and>
    announces (announcements c (watcher_clock w) (made_envelopes w) [place_message a p (told_size w fs garbage (place_path p))]) 1 w w'"
proof -
  note said = send_change_announces [OF assms(5) assms(6,7)]
  have nonempty: "x \<noteq> []" if "x \<in> set (place_names p)" for x using assms(1) that is_name_nonempty by blast
  have "handle_change (server_watcher c) fs garbage ch w =
      (case stamp w of (e, w') \<Rightarrow> send_change c (place_message a p (told_size w fs garbage (place_path p))) e w')"
    using assms(2-4) nonempty place_denotes [OF assms(1)] place_path_kept [OF assms(1)]
    by (cases p; cases a)
      (auto simp: handle_change_def server_watcher_def announce_added_def announce_deleted_def announce_modified_def
        modifiable_def told_size_def stamp_def)
  with said show ?thesis by simp
qed

lemma announcements_append:
  "announcements c clock k (ms @ ms') = announcements c clock k ms @ announcements c clock (k + length ms) ms'"
  by (induction ms arbitrary: k) simp_all

lemma announces_keeps:
  assumes "announces fs k w w'"
  shows "wa_store w' = wa_store w" "watcher_clock w' = watcher_clock w" "made_envelopes w' = made_envelopes w + k"
    "send_results (wa_logging_sock w') = send_results (wa_logging_sock w)"
    "send_results (change_sock w') = send_results (change_sock w)"
  using assms by (simp_all add: announces_def)

lemma announces_trans: "announces fs k w w1 \<Longrightarrow> announces fs' k' w1 w' \<Longrightarrow> announces (fs @ fs') (k + k') w w'"
  by (simp add: announces_def)

text \<open>
  C26: the server's watcher announces the changes of the store one by one, in their order: a new, deleted
  or modified bucket, stream set or stream is told on the socket of the changes and on the socket of the
  log, by the message of its kind with its names, without the extension of the file, and for a modified
  stream the size of its file; each message has an empty frame before it.
\<close>

theorem changes_announced:
  assumes "list_all2 (\<lambda>ch (a, p). change_path ch = place_path p \<and> change_action ch = a \<and>
      (\<forall>x \<in> set (place_names p). is_name x) \<and> modifiable a p) changes places"
    "\<And>e. Serializable c e" "send_results (wa_logging_sock w) = []" "send_results (change_sock w) = []"
  shows "\<exists>w'. for_each (handle_change (server_watcher c) fs garbage) changes w = (Inr (), w') \<and>
    announces (announcements c (watcher_clock w) (made_envelopes w)
      (map (\<lambda>(a, p). place_message a p (told_size w fs garbage (place_path p))) places)) (length places) w w'"
  using assms
proof (induction changes places arbitrary: w rule: list_all2_induct)
  case Nil
  show ?case by (simp add: announces_def)
next
  case (Cons ch changes x places)
  obtain a p where x: "x = (a, p)" by (cases x)
  let ?m = "\<lambda>(a, p). place_message a p (told_size w fs garbage (place_path p))"
  from place_handled [of p a ch c w fs garbage] Cons.hyps(1) Cons.prems x obtain w1 where
    w1: "handle_change (server_watcher c) fs garbage ch w = (Inr (), w1)"
      "announces (announcements c (watcher_clock w) (made_envelopes w) [?m x]) 1 w w1" by auto
  note k = announces_keeps [OF w1(2)]
  from Cons.IH [of w1] Cons.prems k obtain w' where
    w': "for_each (handle_change (server_watcher c) fs garbage) changes w1 = (Inr (), w')"
      "announces (announcements c (watcher_clock w) (made_envelopes w + 1) (map ?m places)) (length places) w1 w'"
    by (auto simp: told_size_def)
  have "announces (announcements c (watcher_clock w) (made_envelopes w) (map ?m (x # places))) (length (x # places)) w w'"
    using announces_trans [OF w1(2) w'(2)] by simp
  with w1(1) w'(1) show ?case by (auto simp: andThen_Inr)
qed

definition sample_watcher :: watcher where
  "sample_watcher = \<lparr>wa_store = sample_store, wa_id = ''w'', wa_logging_sock = \<lparr>sent = [], send_results = [], inbox = []\<rparr>,
     change_sock = \<lparr>sent = [], send_results = [], inbox = []\<rparr>, directory_watcher = empty_watcher,
     watcher_clock = (\<lambda>_. 5), made_envelopes = 0\<rparr>"

lemma changes_announced_witness:
  "\<exists>w. for_each (handle_change (server_watcher sample_codec) sample_tree \<lparr>type = UNKNOWN, size = 7\<rparr>)
      [\<lparr>change_path = ''/b'', change_action = ADDED\<rparr>, \<lparr>change_path = ''/b/s/n.zippylog'', change_action = MODIFIED\<rparr>]
      sample_watcher = (Inr (), w) \<and>
    sent (change_sock w) = [([], True), (char_of (100 :: nat) # ''m'', False), ([], True), (char_of (99 :: nat) # ''m'', False)]"
proof -
  let ?chs = "[\<lparr>change_path = ''/b'', change_action = ADDED\<rparr>, \<lparr>change_path = ''/b/s/n.zippylog'', change_action = MODIFIED\<rparr>]"
  have l: "list_all2 (\<lambda>ch (a, p). change_path ch = place_path p \<and> change_action ch = a \<and>
      (\<forall>x \<in> set (place_names p). is_name x) \<and> modifiable a p) ?chs [(ADDED, InBucket ''b''), (MODIFIED, InStream ''b'' ''s'' ''n'')]"
    using sample_names by (simp add: path_defs extension_def modifiable_def)
  have q: "send_results (wa_logging_sock sample_watcher) = []" "send_results (change_sock sample_watcher) = []"
    by (simp_all add: sample_watcher_def)
  from changes_announced [where c = sample_codec and fs = sample_tree and garbage = "\<lparr>type = UNKNOWN, size = 7\<rparr>", OF l _ q]
  show ?thesis
    by (auto simp: announces_def sample_watcher_def wire_bytes_def add_to_envelope_def AddMessage_def new_Envelope_def of_pb_def
        empty_envelope_def message_namespace_def)
qed

section \<open>What ends the watcher\<close>

text \<open>
  A file in the store's directory, or in the directory of a bucket, whose name could be the name of a
  bucket or a stream set ends the watcher's thread as soon as it is written to: the change is read as a
  change of that bucket or stream set, and the exception for it is caught by nobody but the thread. The
  thread reports the failure and is not running afterwards.
\<close>

lemma foreign_file_ends_watcher:
  assumes "dev s = (w, u0)" "\<not> cw (waits s)" "\<not> cw (waits s + 1)"
    "around (waits s + 1) = \<lparr>polled = Events [\<lparr>ev_wd = wd, ev_mask = IN_MODIFY, ev_name = name\<rparr>], tree_read = fs, tree_handled = fs'\<rparr>"
    "dw_changes (directory_watcher w) = []"
    "map_of (directories (directory_watcher w)) wd = Some dir" "PathJoin dir (c_str name) = place_path p"
    "\<forall>x \<in> set (place_names p). is_name x" "\<not> modifiable MODIFIED p"
  shows "\<exists>s'. AsyncExecStart cw (watcher_env around) (watcher_ops c garbage) s = Some (Inr 1, s') \<and> \<not> dev_running s'"
proof -
  let ?V = "watcher_ops c garbage" and ?err = "RuntimeException ''how did we get here?''"
  let ?u = "around (waits s + 1)"
  obtain w1 where w1: "watcher_OnRunStart c w = (Inr (), w1)" "directory_watcher w1 = directory_watcher w"
    by (simp add: watcher_OnRunStart_def watcher_logs_def stamp_def split_beta Let_def)
  have bits: "\<not> has_bit IN_IGNORED e" "\<not> has_bit IN_CREATE e" "\<not> has_bit IN_DELETE e" "has_bit IN_MODIFY e"
    if "ev_mask e = IN_MODIFY" for e
    using that by (simp_all add: has_bit_def IN_MODIFY_def IN_CREATE_def IN_DELETE_def IN_IGNORED_def)
  let ?d = "directory_watcher w"
  have wait: "WaitForChanges (tree_read ?u) (polled ?u) ?d =
      (Inr True, ?d\<lparr>dw_changes := [\<lparr>change_path = place_path p, change_action = MODIFIED\<rparr>]\<rparr>)"
    using assms(4-7) bits [of "\<lparr>ev_wd = wd, ev_mask = IN_MODIFY, ev_name = name\<rparr>"]
    by (simp add: WaitForChanges_def read_event_def collect_change_def modify_def andThen_def Let_def)
  have throws: "\<exists>v'. handle_change (server_watcher c) fs'' garbage \<lparr>change_path = place_path p, change_action = MODIFIED\<rparr> v = (Inl ?err, v')" for v fs''
    using place_denotes [OF assms(8)] place_path_kept [OF assms(8)] assms(9)
    by (cases p) (auto simp: handle_change_def server_watcher_def announce_modified_def modifiable_def stamp_def)
  obtain w2 where pump: "StoreWatcher_Pump (server_watcher c) garbage ?u w1 = (Inl ?err, w2)"
    using wait w1(2) throws [of "tree_handled ?u" "w1\<lparr>directory_watcher := ?d\<lparr>dw_changes := []\<rparr>\<rparr>"]
    by (auto simp: StoreWatcher_Pump_def GetChanges_def andThen_def)
  obtain w3 where w3: "watcher_OnRunFinish c w2 = (Inr (), w3)"
    by (simp add: watcher_OnRunFinish_def watcher_logs_def stamp_def split_beta Let_def)
  have p: "Pump_op ?V (watcher_env around (waits s + 1) (w1, u0)) = (Inl ?err, (w2, ?u))"
    using pump by (simp add: watcher_ops_def watcher_env_def Let_def)
  have "\<exists>s'. AsyncExecStart cw (watcher_env around) ?V s = Some (Inr (thread_status ?err), s') \<and> \<not> dev_running s' \<and> dev s' = (w3, ?u)"
    using assms(1) w1(1) w3 by (intro first_pump_ends [where cw = cw and s = s and V = ?V and env = "watcher_env around" and ?d0.0 = "(w, u0)", OF assms(2,3) _ _ p]) (simp_all add: watcher_ops_def Let_def)
  then show ?thesis by (auto simp: thread_status_def)
qed

lemma foreign_file_ends_watcher_witness:
  "\<exists>s'. AsyncExecStart (\<lambda>k. 9 \<le> k)
      (watcher_env (\<lambda>_. \<lparr>polled = Events [\<lparr>ev_wd = 1, ev_mask = IN_MODIFY, ev_name = ''README''\<rparr>],
         tree_read = sample_tree, tree_handled = sample_tree\<rparr>))
      (watcher_ops sample_codec \<lparr>type = UNKNOWN, size = 7\<rparr>)
      \<lparr>dev = (sample_watcher, \<lparr>polled = NoEvents, tree_read = sample_tree, tree_handled = sample_tree\<rparr>), dev_thread = True,
       dev_running = False, has_ran = False, async_signaled = False, waits = 0\<rparr> = Some (Inr 1, s')"
proof -
  let ?u = "\<lparr>polled = Events [\<lparr>ev_wd = 1, ev_mask = IN_MODIFY, ev_name = ''README''\<rparr>],
    tree_read = sample_tree, tree_handled = sample_tree\<rparr>"
  let ?s = "\<lparr>dev = (sample_watcher, \<lparr>polled = NoEvents, tree_read = sample_tree, tree_handled = sample_tree\<rparr>), dev_thread = True,
     dev_running = False, has_ran = False, async_signaled = False, waits = 0\<rparr>"
  have "is_name ''README''" by (simp add: is_name_def name_char_def char_value_def)
  moreover have "PathJoin [] (c_str ''README'') = place_path (InBucket ''README'')" by (simp add: PathJoin_def c_str_def path_defs)
  moreover have "\<not> modifiable MODIFIED (InBucket ''README'')" by (simp add: modifiable_def)
  ultimately show ?thesis
    using foreign_file_ends_watcher [where s = ?s and around = "\<lambda>_. ?u" and cw = "\<lambda>k. 9 \<le> k" and p = "InBucket ''README''"
        and w = sample_watcher and dir = "[]" and c = sample_codec and garbage = "\<lparr>type = UNKNOWN, size = 7\<rparr>", OF _ _ _ refl]
    by (auto simp: sample_watcher_def empty_watcher_def)
qed

end
