(* ===== verification/Persisted_State.thy ===== *)
theory Persisted_State
  imports Sorted_Map Subscription Store Lua_State
begin

text \<open>
  The persisted state manager (src/zippylog/persisted_state_manager.cpp): the subscriptions of the
  server, which expire unless they are renewed, and the reaction to changes of the store. The state is
  the record \<open>psm\<close>; its two maps are association lists in the order of their keys. \<open>now\<close> is the
  monotonic clock in microseconds, \<open>wall\<close> the time a new envelope gets.
\<close>

section \<open>The state\<close>

record SubscriptionRec =
  sub_si :: SubscriptionInfo
  expiration_timer :: Timer
  sub_lua :: "LuaState option"

definition new_SubscriptionRec :: "SubscriptionInfo \<Rightarrow> u32 \<Rightarrow> SubscriptionRec" where
  "new_SubscriptionRec subscription ttl = \<lparr>sub_si = subscription, expiration_timer = new_Timer ttl, sub_lua = None\<rparr>"

record psm_params =
  pp_store_uri :: string
  pp_subscription_ttl :: u32
  pp_lua_allow :: bool
  pp_lua_memory_ceiling :: u32
  pp_plugin_allow :: bool
  pp_plugin_lua_memory_ceiling :: u32

definition new_psm_params :: psm_params where
  "new_psm_params = \<lparr>pp_store_uri = [], pp_subscription_ttl = 60000, pp_lua_allow = False,
     pp_lua_memory_ceiling = 524288, pp_plugin_allow = True, pp_plugin_lua_memory_ceiling = 128000\<rparr>"

record psm =
  store_uri :: string
  psm_ttl :: u32
  subscription_lua_allow :: bool
  subscription_lua_memory_ceiling :: u32
  psm_store :: Store
  subscriptions :: "(string \<times> SubscriptionRec) list"
  stream_read_offsets :: "(string \<times> u64) list"

definition stream_lengths :: "store_ops \<Rightarrow> Store \<Rightarrow> string list \<Rightarrow> (string \<times> u64) list" where
  "stream_lengths V s paths =
     fold (\<lambda>p m. case StreamLength V s p of None \<Rightarrow> m | Some len \<Rightarrow> map_put p (word_of_int len) m) paths []"

definition new_psm :: "store_ops \<Rightarrow> FileType \<Rightarrow> filesystem \<Rightarrow> psm_params \<Rightarrow> psm res" where
  "new_psm V garbage fs params =
     (if pp_store_uri params = [] then Inl (InvalidArgument ''store URI must be defined'')
      else
        rbind (CreateStore garbage fs (pp_store_uri params)) (\<lambda>store.
          Inr \<lparr>store_uri = pp_store_uri params, psm_ttl = pp_subscription_ttl params,
               subscription_lua_allow = pp_lua_allow params,
               subscription_lua_memory_ceiling = pp_lua_memory_ceiling params, psm_store = store,
               subscriptions = [], stream_read_offsets = stream_lengths V store (snd (StreamPaths V store))\<rparr>))"

text \<open>The destructor: the store writes what it has buffered.\<close>

definition delete_PersistedStateManager :: "psm \<Rightarrow> filesystem" where
  "delete_PersistedStateManager s = delete_Store (psm_store s)"

section \<open>Subscriptions\<close>

fun reap :: "nat \<Rightarrow> (string \<times> SubscriptionRec) list \<Rightarrow> int \<times> (string \<times> SubscriptionRec) list" where
  "reap now [] = (0, [])"
| "reap now ((k, r) # m) =
     (let (sig, t) = Timer_Signaled now (expiration_timer r); (removed, m) = reap now m in
      if sig then (removed + 1, m) else (removed, (k, r\<lparr>expiration_timer := t\<rparr>) # m))"

definition RemoveExpiredSubscriptions :: "nat \<Rightarrow> (psm, int) action" where
  "RemoveExpiredSubscriptions now s =
     (let (removed, m) = reap now (subscriptions s) in (Inr removed, s\<lparr>subscriptions := m\<rparr>))"

definition IsPathSubscribed :: "string \<Rightarrow> SubscriptionRec \<Rightarrow> bool" where
  "IsPathSubscribed path r =
     list_ex (\<lambda>p. \<not> length p > length path \<and> take (length p) path = p) (si_paths (sub_si r))"

definition HaveStoreChangeSubscriptions_path :: "string \<Rightarrow> psm \<Rightarrow> bool" where
  "HaveStoreChangeSubscriptions_path path s =
     list_ex (\<lambda>(_, r). si_type (sub_si r) = STORE_CHANGE \<and> IsPathSubscribed path r) (subscriptions s)"

definition HaveStoreChangeSubscriptions :: "psm \<Rightarrow> bool" where
  "HaveStoreChangeSubscriptions s = list_ex (\<lambda>(_, r). si_type (sub_si r) = STORE_CHANGE) (subscriptions s)"

definition HaveEnvelopeSubscription :: "string \<Rightarrow> psm \<Rightarrow> bool" where
  "HaveEnvelopeSubscription path s =
     list_ex (\<lambda>(_, r). si_type (sub_si r) = ENVELOPE \<and> IsPathSubscribed path r) (subscriptions s)"

definition HasSubscription :: "string \<Rightarrow> psm \<Rightarrow> bool" where
  "HasSubscription i s \<longleftrightarrow> map_of (subscriptions s) i \<noteq> None"

text \<open>The lifetime in microseconds, at the width the code computes it with.\<close>

definition ttl_micros :: "psm \<Rightarrow> u32" where
  "ttl_micros s = psm_ttl s * 1000"

definition restart :: "nat \<Rightarrow> psm \<Rightarrow> SubscriptionRec \<Rightarrow> SubscriptionRec" where
  "restart now s r = r\<lparr>expiration_timer := snd (Timer_Start now (ttl_micros s) (expiration_timer r))\<rparr>"

definition RegisterSubscription :: "nat \<Rightarrow> SubscriptionInfo \<Rightarrow> (psm, unit) action" where
  "RegisterSubscription now subscription s =
     (if si_id subscription = [] then throw (InvalidArgument ''subscription must have id defined'') s
      else if HasSubscription (si_id subscription) s
      then throw (RuntimeException ''subscription with that ID is already registered'') s
      else
        let r = restart now s (new_SubscriptionRec subscription (ttl_micros s))
        in ret () (s\<lparr>subscriptions := map_put (si_id subscription) r (subscriptions s)\<rparr>))"

definition RenewSubscriptions :: "nat \<Rightarrow> string list \<Rightarrow> (psm, bool) action" where
  "RenewSubscriptions now ids s =
     ret True (s\<lparr>subscriptions :=
       map (\<lambda>(k, r). (k, if list_ex (\<lambda>i. k = i) ids then restart now s r else r)) (subscriptions s)\<rparr>)"

definition RenewSubscription :: "nat \<Rightarrow> string \<Rightarrow> (psm, bool) action" where
  "RenewSubscription now i = RenewSubscriptions now [i]"

section \<open>Changes of the store\<close>

text \<open>
  The callbacks are optional function pointers; a missing one is refused. The loops over the
  subscriptions of a path that was added or deleted find the interested ones and do nothing with them:
  they read only, so that nothing of them is left here.
\<close>

definition ProcessStoreChangePathAdded :: "string \<Rightarrow> 'cb option \<Rightarrow> (psm, unit) action" where
  "ProcessStoreChangePathAdded path cb s =
     (if cb = None then throw (InvalidArgument ''callback parameter not defined'') s
      else ret () (if IsStreamPath path then s\<lparr>stream_read_offsets := map_put path 0 (stream_read_offsets s)\<rparr> else s))"

definition ProcessStoreChangePathDeleted :: "string \<Rightarrow> 'cb option \<Rightarrow> (psm, unit) action" where
  "ProcessStoreChangePathDeleted path cb s =
     (if cb = None then throw (InvalidArgument ''callback parameter not defined'') s else ret () s)"

datatype verdict = Deliver | Drop | FilterFailed string

definition filter_envelope :: "Envelope \<Rightarrow> string \<Rightarrow> LuaState option \<Rightarrow> verdict res \<times> LuaState option" where
  "filter_envelope env path L =
     (case L of
        None \<Rightarrow> (Inr Deliver, L)
      | Some l \<Rightarrow>
          if \<not> have_subscription_envelope_filter l then (Inr Deliver, L)
          else
            (case ExecuteSubscriptionEnvelopeFilter env path new_EnvelopeFilterResult l of
               (Inl x, l) \<Rightarrow> (Inl x, Some l)
             | (Inr (False, _), l) \<Rightarrow> (Inl (RuntimeException ''envelope filter not executed. very weird''), Some l)
             | (Inr (True, r), l) \<Rightarrow>
                 (Inr (if \<not> ef_success r then FilterFailed (ef_error r)
                       else if ef_type r \<noteq> Some FTRUE then Drop else Deliver), Some l)))"

text \<open>A callback may change the response state and the data it is given.\<close>

type_synonym 'd appended_callback = "SubscriptionInfo \<Rightarrow> ResponseState \<Rightarrow> 'd \<Rightarrow> ResponseState \<times> 'd"

text \<open>
  The loop over the envelopes of the stream up to \<open>stream_length\<close>. Whether it ends is a matter of the
  stream that is read, so the result is an option: \<open>None\<close> is a loop that does not return.
\<close>

partial_function (option) deliver_loop ::
  "codec \<Rightarrow> u64 \<Rightarrow> 'd appended_callback \<Rightarrow> string \<Rightarrow> u64 \<Rightarrow> SubscriptionInfo \<Rightarrow> u64 \<Rightarrow> InputStream \<Rightarrow>
   LuaState option \<Rightarrow> ResponseState \<Rightarrow> 'd \<Rightarrow> (unit res \<times> InputStream \<times> LuaState option \<times> 'd) option" where
  "deliver_loop c wall cb path stream_length si off is L st d =
     (if \<not> off < stream_length then Some (Inr (), is, L, d)
      else
        (case ReadEnvelope c (new_Envelope wall) is of ((ok, env, read), is) \<Rightarrow>
           if \<not> ok then Some (Inr (), is, L, d)
           else
             (case filter_envelope env path L of
                (Inl x, L) \<Rightarrow> Some (Inl x, is, L, d)
              | (Inr Drop, L) \<Rightarrow> deliver_loop c wall cb path stream_length si (off + ucast read) is L st d
              | (Inr (FilterFailed msg), L) \<Rightarrow>
                  (case RegisterError LUA_ERROR msg st of
                     (Inl x, _) \<Rightarrow> Some (Inl x, is, L, d)
                   | (Inr _, st) \<Rightarrow> (case cb si st d of (st, d) \<Rightarrow> Some (Inr (), is, L, d)))
              | (Inr Deliver, L) \<Rightarrow>
                  (case cb si (AddEnvelope c env st) d of (st, d) \<Rightarrow>
                     deliver_loop c wall cb path stream_length si (off + ucast read) is L st d))))"

text \<open>The loop over the subscriptions, on the stream that the offset of \<open>path\<close> belongs to.\<close>

fun deliver_all ::
  "codec \<Rightarrow> u64 \<Rightarrow> 'd appended_callback \<Rightarrow> string \<Rightarrow> u64 \<Rightarrow> (string \<times> u64) list \<Rightarrow> InputStream \<Rightarrow> 'd \<Rightarrow>
   (string \<times> SubscriptionRec) list \<Rightarrow> (unit res \<times> 'd \<times> (string \<times> SubscriptionRec) list) option" where
  "deliver_all c wall cb path stream_length offsets is d [] = Some (Inr (), d, [])"
| "deliver_all c wall cb path stream_length offsets is d ((k, r) # m) =
     (if si_type (sub_si r) \<noteq> ENVELOPE \<or> \<not> IsPathSubscribed path r then
        (case deliver_all c wall cb path stream_length offsets is d m of
           None \<Rightarrow> None
         | Some (x, d, m) \<Rightarrow> Some (x, d, (k, r) # m))
      else
        (case map_of offsets path of
           None \<Rightarrow> Some (Inl (RuntimeException ''unknown stream encountered''), d, (k, r) # m)
         | Some off \<Rightarrow>
             (case SetAbsoluteOffset (to_int64 (uint off)) is of
                (Inl x, is) \<Rightarrow> Some (Inl x, d, (k, r) # m)
              | (Inr False, is) \<Rightarrow> Some (Inl (RuntimeException ''could not set stream offset''), d, (k, r) # m)
              | (Inr True, is) \<Rightarrow>
                  (case deliver_loop c wall cb path stream_length (sub_si r) off is (sub_lua r)
                          (new_ResponseState (sub_si r)) d of
                     None \<Rightarrow> None
                   | Some (Inl x, is, L, d) \<Rightarrow> Some (Inl x, d, (k, r\<lparr>sub_lua := L\<rparr>) # m)
                   | Some (Inr _, is, L, d) \<Rightarrow>
                       (case deliver_all c wall cb path stream_length offsets is d m of
                          None \<Rightarrow> None
                        | Some (x, d, m) \<Rightarrow> Some (x, d, (k, r\<lparr>sub_lua := L\<rparr>) # m))))))"

definition ProcessStoreChangeStreamAppended ::
  "store_ops \<Rightarrow> codec \<Rightarrow> u64 \<Rightarrow> string \<Rightarrow> u64 \<Rightarrow> 'd appended_callback option \<Rightarrow> 'd \<Rightarrow> psm \<Rightarrow> (unit res \<times> 'd \<times> psm) option" where
  "ProcessStoreChangeStreamAppended V c wall path stream_length cb d s =
     (case cb of
        None \<Rightarrow> Some (Inl (InvalidArgument ''callback not defined''), d, s)
      | Some cb \<Rightarrow>
          let s = s\<lparr>stream_read_offsets := map_put path stream_length (stream_read_offsets s)\<rparr> in
          if subscriptions s = [] then Some (Inr (), d, s)
          else
            (case GetInputStream V path (psm_store s) of
               (Inl x, store) \<Rightarrow> Some (Inl x, d, s\<lparr>psm_store := store\<rparr>)
             | (Inr None, store) \<Rightarrow> Some (Inr (), d, s\<lparr>psm_store := store\<rparr>)
             | (Inr (Some is), store) \<Rightarrow>
                 (case deliver_all c wall cb path stream_length (stream_read_offsets s) is d (subscriptions s) of
                    None \<Rightarrow> None
                  | Some (x, d, m) \<Rightarrow> Some (x, d, s\<lparr>psm_store := store, subscriptions := m\<rparr>))))"

section \<open>The manager as a map of lifetimes\<close>

text \<open>A timer that has been started with a time that is not zero and has not been seen to expire.\<close>

definition armed :: "Timer \<Rightarrow> bool" where
  "armed t \<longleftrightarrow> initialized t \<and> running t \<and> \<not> signaled t \<and> deadline t \<noteq> None"

definition expiry :: "SubscriptionRec \<Rightarrow> nat" where
  "expiry r = the (deadline (expiration_timer r))"

lemma Timer_Signaled_armed:
  assumes "armed (expiration_timer r)"
  shows "fst (Timer_Signaled now (expiration_timer r)) \<longleftrightarrow> expiry r \<le> now"
    "now < expiry r \<Longrightarrow> Timer_Signaled now (expiration_timer r) = (False, expiration_timer r)"
  using assms by (auto simp: armed_def expiry_def Timer_Signaled_def)

lemma Timer_Start_armed:
  assumes "us \<noteq> 0" "armed t \<or> t = new_Timer us"
  shows "armed (snd (Timer_Start now us t)) \<and> the (deadline (snd (Timer_Start now us t))) = now + unat us"
proof -
  have "\<not> (us div 1000000 = 0 \<and> (us mod 1000000) * 1000 = 0)"
    using micros_split [of us] assms(1) by (metis add_0 div_0 mult_0 unat_0 unat_eq_zero)
  then show ?thesis
    using assms micros_split [of us]
    by (auto simp: armed_def new_Timer_def Timer_Start_def Timer_Initialize_def Timer_Reset_def Let_def word_neq_0_conv)
qed

definition psm_ok :: "psm \<Rightarrow> bool" where
  "psm_ok s \<longleftrightarrow> ordered (subscriptions s) \<and>
     list_all (\<lambda>(k, r). k \<noteq> [] \<and> k = si_id (sub_si r) \<and> armed (expiration_timer r) \<and> sub_lua r = None) (subscriptions s)"

definition lifetimes :: "psm \<Rightarrow> string \<Rightarrow> (SubscriptionInfo \<times> nat) option" where
  "lifetimes s i = map_option (\<lambda>r. (sub_si r, expiry r)) (map_of (subscriptions s) i)"

datatype psm_event = Register SubscriptionInfo | Renew "string list" | Reap | PathAdded string | PathDeleted string
  | Appended string u64

text \<open>The abstract manager: a map from ids to subscriptions and the times they expire.\<close>

definition spec_step :: "nat \<Rightarrow> nat \<times> psm_event \<Rightarrow> (string \<rightharpoonup> SubscriptionInfo \<times> nat) \<Rightarrow> (string \<rightharpoonup> SubscriptionInfo \<times> nat)" where
  "spec_step ttl x m =
     (case x of
        (now, Register si) \<Rightarrow> if si_id si = [] \<or> si_id si \<in> dom m then m else m(si_id si \<mapsto> (si, now + ttl))
      | (now, Renew ids) \<Rightarrow> (\<lambda>i. if i \<in> set ids then map_option (\<lambda>(si, _). (si, now + ttl)) (m i) else m i)
      | (now, Reap) \<Rightarrow> (\<lambda>i. case m i of None \<Rightarrow> None | Some (si, d) \<Rightarrow> if now < d then Some (si, d) else None)
      | _ \<Rightarrow> m)"

text \<open>The calls of the manager, with the data of the callback; a call that does not return has no result.\<close>

definition psm_step ::
  "store_ops \<Rightarrow> codec \<Rightarrow> u64 \<Rightarrow> 'd appended_callback \<Rightarrow> nat \<times> psm_event \<Rightarrow> 'd \<times> psm \<Rightarrow> ('d \<times> psm) option" where
  "psm_step V c wall cb x y =
     (case (x, y) of
        ((now, Register si), (d, s)) \<Rightarrow> Some (d, snd (RegisterSubscription now si s))
      | ((now, Renew ids), (d, s)) \<Rightarrow> Some (d, snd (RenewSubscriptions now ids s))
      | ((now, Reap), (d, s)) \<Rightarrow> Some (d, snd (RemoveExpiredSubscriptions now s))
      | ((now, PathAdded path), (d, s)) \<Rightarrow> Some (d, snd (ProcessStoreChangePathAdded path (Some cb) s))
      | ((now, PathDeleted path), (d, s)) \<Rightarrow> Some (d, snd (ProcessStoreChangePathDeleted path (Some cb) s))
      | ((now, Appended path len), (d, s)) \<Rightarrow>
          (case ProcessStoreChangeStreamAppended V c wall path len (Some cb) d s of
             None \<Rightarrow> None
           | Some (_, d, s) \<Rightarrow> Some (d, s)))"

fun psm_run ::
  "store_ops \<Rightarrow> codec \<Rightarrow> u64 \<Rightarrow> 'd appended_callback \<Rightarrow> (nat \<times> psm_event) list \<Rightarrow> 'd \<times> psm \<Rightarrow> ('d \<times> psm) option" where
  "psm_run V c wall cb [] y = Some y"
| "psm_run V c wall cb (x # xs) y =
     (case psm_step V c wall cb x y of None \<Rightarrow> None | Some y \<Rightarrow> psm_run V c wall cb xs y)"

section \<open>Each operation implements the abstract one\<close>

lemma reap_filter:
  "list_all (\<lambda>(_, r). armed (expiration_timer r)) m \<Longrightarrow> snd (reap now m) = filter (\<lambda>(_, r). now < expiry r) m"
proof (induction m)
  case (Cons x m)
  obtain k r where x: "x = (k, r)" by (cases x)
  with Cons.prems have "armed (expiration_timer r)" by simp
  note sig = Timer_Signaled_armed [OF this, of now]
  show ?case
    using Cons sig unfolding x
    by (cases "Timer_Signaled now (expiration_timer r)") (auto simp: split_beta not_less split: prod.splits)
qed simp

lemma map_of_filter_values:
  "distinct (map fst m) \<Longrightarrow> map_of (filter (\<lambda>(_, r). Q r) m) i = (case map_of m i of None \<Rightarrow> None | Some r \<Rightarrow> if Q r then Some r else None)"
proof (induction m)
  case (Cons x m)
  then show ?case by (cases x) (auto simp: image_iff split: option.splits dest: map_of_SomeD)
qed simp

lemma map_of_map_keyed: "map_of (map (\<lambda>(k, r). (k, f k r)) m) i = map_option (f i) (map_of m i)"
  by (induction m) auto

lemma ordered_filter: "ordered m \<Longrightarrow> ordered (filter P m)"
  using sorted_filter [of fst m P] by (simp add: ordered_def distinct_map_filter)

lemma register_implements:
  assumes "psm_ok s" "ttl_micros s \<noteq> 0"
  shows "psm_ok (snd (RegisterSubscription now si s)) \<and>
    lifetimes (snd (RegisterSubscription now si s)) = spec_step (unat (ttl_micros s)) (now, Register si) (lifetimes s)"
proof -
  have dom: "si_id si \<in> dom (lifetimes s) \<longleftrightarrow> HasSubscription (si_id si) s"
    by (auto simp: lifetimes_def HasSubscription_def dom_def)
  show ?thesis
  proof (cases "si_id si = [] \<or> HasSubscription (si_id si) s")
    case True
    then show ?thesis using assms dom by (auto simp: RegisterSubscription_def spec_step_def)
  next
    case False
    let ?r = "restart now s (new_SubscriptionRec si (ttl_micros s))"
    have r: "armed (expiration_timer ?r)" "expiry ?r = now + unat (ttl_micros s)" "sub_si ?r = si" "sub_lua ?r = None"
      using Timer_Start_armed [OF assms(2), of "new_Timer (ttl_micros s)"]
      by (simp_all add: restart_def new_SubscriptionRec_def expiry_def)
    have s': "snd (RegisterSubscription now si s) = s\<lparr>subscriptions := map_put (si_id si) ?r (subscriptions s)\<rparr>"
      using False by (simp add: RegisterSubscription_def Let_def)
    have "psm_ok (s\<lparr>subscriptions := map_put (si_id si) ?r (subscriptions s)\<rparr>)"
      using assms(1) False r by (auto simp: psm_ok_def list_all_iff set_put)
    moreover have "lifetimes (s\<lparr>subscriptions := map_put (si_id si) ?r (subscriptions s)\<rparr>) =
        (lifetimes s)(si_id si \<mapsto> (si, now + unat (ttl_micros s)))"
      using r by (auto simp: lifetimes_def)
    ultimately show ?thesis using False dom s' by (simp add: spec_step_def)
  qed
qed

lemma renew_implements:
  assumes "psm_ok s" "ttl_micros s \<noteq> 0"
  shows "psm_ok (snd (RenewSubscriptions now ids s)) \<and>
    lifetimes (snd (RenewSubscriptions now ids s)) = spec_step (unat (ttl_micros s)) (now, Renew ids) (lifetimes s)"
proof -
  let ?f = "\<lambda>k r. if k \<in> set ids then restart now s r else r"
  have s': "snd (RenewSubscriptions now ids s) = s\<lparr>subscriptions := map (\<lambda>(k, r). (k, ?f k r)) (subscriptions s)\<rparr>"
    by (simp add: RenewSubscriptions_def list_ex_iff)
  have r: "armed (expiration_timer (restart now s r)) \<and> expiry (restart now s r) = now + unat (ttl_micros s)"
    if "armed (expiration_timer r)" for r
    using Timer_Start_armed [OF assms(2)] that by (simp add: restart_def expiry_def)
  have fst: "fst \<circ> (\<lambda>(k, r). (k, ?f k r)) = fst" by auto
  have armed: "map_of (subscriptions s) i = Some r \<Longrightarrow> armed (expiration_timer r)" for i r
    using assms(1) by (auto simp: psm_ok_def list_all_iff dest!: map_of_SomeD)
  have "psm_ok (snd (RenewSubscriptions now ids s))"
    using assms(1) r unfolding s' by (auto simp: psm_ok_def ordered_def list_all_iff fst restart_def)
  moreover have "lifetimes (snd (RenewSubscriptions now ids s)) i =
      spec_step (unat (ttl_micros s)) (now, Renew ids) (lifetimes s) i" for i
    unfolding s' using r armed
    by (cases "map_of (subscriptions s) i")
      (auto simp: lifetimes_def spec_step_def map_of_map_keyed [of ?f] restart_def)
  ultimately show ?thesis by auto
qed

lemma reap_implements:
  assumes "psm_ok s"
  shows "psm_ok (snd (RemoveExpiredSubscriptions now s)) \<and>
    lifetimes (snd (RemoveExpiredSubscriptions now s)) = spec_step ttl (now, Reap) (lifetimes s)"
proof -
  have "list_all (\<lambda>(_, r). armed (expiration_timer r)) (subscriptions s)"
    using assms by (auto simp: psm_ok_def list_all_iff)
  then have s': "snd (RemoveExpiredSubscriptions now s) = s\<lparr>subscriptions := filter (\<lambda>(_, r). now < expiry r) (subscriptions s)\<rparr>"
    by (simp add: RemoveExpiredSubscriptions_def split_beta reap_filter)
  have d: "distinct (map fst (subscriptions s))" using assms by (simp add: psm_ok_def ordered_def)
  have "lifetimes (snd (RemoveExpiredSubscriptions now s)) i = spec_step ttl (now, Reap) (lifetimes s) i" for i
    unfolding s' by (simp add: lifetimes_def spec_step_def map_of_filter_values [OF d] split: option.split)
  moreover have "psm_ok (snd (RemoveExpiredSubscriptions now s))"
    using assms unfolding s' by (auto simp: psm_ok_def ordered_filter list_all_iff)
  ultimately show ?thesis by auto
qed

text \<open>The offset that the loop starts from is the end of the stream, so that it is left at once.\<close>

lemma deliver_loop_at_end: "deliver_loop c wall cb path len si len is L st d = Some (Inr (), is, L, d)"
  by (subst deliver_loop.simps) simp

lemma SetAbsoluteOffset_cases: "SetAbsoluteOffset off is = (x, is') \<Longrightarrow> x \<noteq> Inr False"
  by (auto simp: SetAbsoluteOffset_def split: if_splits)

lemma deliver_all_nothing:
  assumes "map_of offsets path = Some len"
  shows "\<exists>x. deliver_all c wall cb path len offsets is d m = Some (x, d, m)"
proof (induction m arbitrary: "is")
  case (Cons y m)
  obtain k r where y: "y = (k, r)" by (cases y)
  obtain x is' where seek: "SetAbsoluteOffset (to_int64 (uint len)) is = (x, is')" by (cases "SetAbsoluteOffset (to_int64 (uint len)) is")
  obtain z z' where "deliver_all c wall cb path len offsets is d m = Some (z, d, m)"
    "deliver_all c wall cb path len offsets is' d m = Some (z', d, m)" using Cons.IH by blast
  with SetAbsoluteOffset_cases [OF seek] show ?case
    by (auto simp: y assms seek deliver_loop_at_end split: sum.split)
qed simp

lemma appended_nothing:
  "\<exists>x s'. ProcessStoreChangeStreamAppended V c wall path len (Some cb) d s = Some (x, d, s') \<and>
     subscriptions s' = subscriptions s \<and> psm_ttl s' = psm_ttl s \<and>
     stream_read_offsets s' = map_put path len (stream_read_offsets s)"
proof -
  let ?s = "s\<lparr>stream_read_offsets := map_put path len (stream_read_offsets s)\<rparr>"
  have m: "\<exists>x. deliver_all c wall cb path len (map_put path len (stream_read_offsets s)) is d (subscriptions s) =
      Some (x, d, subscriptions s)" for "is"
    by (rule deliver_all_nothing) simp
  show ?thesis
  proof (cases "subscriptions s = []")
    case True
    then show ?thesis by (simp add: ProcessStoreChangeStreamAppended_def Let_def)
  next
    case False
    obtain x store where g: "GetInputStream V path (psm_store s) = (x, store)" by (cases "GetInputStream V path (psm_store s)")
    show ?thesis
    proof (cases x)
      case (Inr i)
      show ?thesis
      proof (cases i)
        case None
        with False g Inr show ?thesis by (simp add: ProcessStoreChangeStreamAppended_def Let_def)
      next
        case (Some "is")
        from m [of "is"] obtain z where "deliver_all c wall cb path len (map_put path len (stream_read_offsets s)) is d (subscriptions s) =
          Some (z, d, subscriptions s)" ..
        with False g Inr Some show ?thesis by (simp add: ProcessStoreChangeStreamAppended_def Let_def)
      qed
    qed (use False g in \<open>simp add: ProcessStoreChangeStreamAppended_def Let_def\<close>)
  qed
qed

lemma psm_ok_cong: "subscriptions s' = subscriptions s \<Longrightarrow> psm_ok s' = psm_ok s"
  by (simp add: psm_ok_def)

lemma lifetimes_cong: "subscriptions s' = subscriptions s \<Longrightarrow> lifetimes s' = lifetimes s"
  by (simp add: lifetimes_def fun_eq_iff)

lemma psm_step_implements:
  assumes "psm_ok s" "ttl_micros s \<noteq> 0"
  shows "\<exists>s'. psm_step V c wall cb x (d, s) = Some (d, s') \<and> psm_ok s' \<and> psm_ttl s' = psm_ttl s \<and>
    lifetimes s' = spec_step (unat (ttl_micros s)) x (lifetimes s)"
proof -
  obtain now ev where x: "x = (now, ev)" by (cases x)
  show ?thesis
  proof (cases ev)
    case (Register si)
    with register_implements [OF assms] show ?thesis
      by (auto simp: x psm_step_def RegisterSubscription_def Let_def)
  next
    case (Renew ids)
    with renew_implements [OF assms] show ?thesis
      by (auto simp: x psm_step_def RenewSubscriptions_def)
  next
    case Reap
    with reap_implements [OF assms(1)] show ?thesis
      by (auto simp: x psm_step_def RemoveExpiredSubscriptions_def split_beta)
  next
    case (PathAdded path)
    then show ?thesis
      using assms by (simp add: x psm_step_def spec_step_def ProcessStoreChangePathAdded_def psm_ok_def fun_eq_iff lifetimes_def)
  next
    case (PathDeleted path)
    then show ?thesis
      using assms by (simp add: x psm_step_def spec_step_def ProcessStoreChangePathDeleted_def)
  next
    case (Appended path len)
    obtain z s' where a: "ProcessStoreChangeStreamAppended V c wall path len (Some cb) d s = Some (z, d, s')"
      and s': "subscriptions s' = subscriptions s" "psm_ttl s' = psm_ttl s"
      using appended_nothing [of V c wall path len cb d s] by blast
    with assms psm_ok_cong [OF s'(1)] lifetimes_cong [OF s'(1)] show ?thesis
      by (simp add: x Appended psm_step_def spec_step_def)
  qed
qed

lemma psm_run_implements:
  "psm_ok s \<Longrightarrow> ttl_micros s \<noteq> 0 \<Longrightarrow>
   \<exists>s'. psm_run V c wall cb xs (d, s) = Some (d, s') \<and> psm_ok s' \<and>
     lifetimes s' = fold (spec_step (unat (ttl_micros s))) xs (lifetimes s)"
proof (induction xs arbitrary: s)
  case (Cons x xs)
  obtain s' where s': "psm_step V c wall cb x (d, s) = Some (d, s')" "psm_ok s'" "psm_ttl s' = psm_ttl s"
    "lifetimes s' = spec_step (unat (ttl_micros s)) x (lifetimes s)"
    using psm_step_implements [OF Cons.prems, of V c wall cb x d] by blast
  then have "ttl_micros s' = ttl_micros s" by (simp add: ttl_micros_def)
  with Cons.IH [of s'] Cons.prems(2) s' show ?case by simp
qed simp

section \<open>Properties\<close>

definition spec_of :: "psm_params \<Rightarrow> (nat \<times> psm_event) list \<Rightarrow> string \<rightharpoonup> SubscriptionInfo \<times> nat" where
  "spec_of params xs = fold (spec_step (unat (pp_subscription_ttl params * 1000))) xs Map.empty"

lemma new_psm_ok:
  assumes "new_psm V garbage fs params = Inr s"
  shows "psm_ok s \<and> lifetimes s = Map.empty \<and> ttl_micros s = pp_subscription_ttl params * 1000"
  using assms by (auto simp: new_psm_def rbind_Inr_iff psm_ok_def ordered_def lifetimes_def ttl_micros_def fun_eq_iff split: if_splits)

lemma list_ex_map_of:
  "distinct (map fst m) \<Longrightarrow> list_ex (\<lambda>(_, r). Q r) m \<longleftrightarrow> (\<exists>k r. map_of m k = Some r \<and> Q r)"
  by (force simp: list_ex_iff)

text \<open>The subscriptions of a type that a path is a matter of, by the abstract map.\<close>

definition concerned :: "SubscriptionType \<Rightarrow> string \<Rightarrow> (string \<rightharpoonup> SubscriptionInfo \<times> nat) \<Rightarrow> bool" where
  "concerned ty path m \<longleftrightarrow> (\<exists>i si d. m i = Some (si, d) \<and> si_type si = ty \<and> (\<exists>p \<in> set (si_paths si). \<exists>rest. path = p @ rest))"

lemma prefix_take: "(\<not> length path < length p \<and> take (length p) path = p) \<longleftrightarrow> (\<exists>rest. path = p @ rest)"
  by (metis append_eq_conv_conj append_take_drop_id length_append not_add_less1)

lemma IsPathSubscribed_prefix: "IsPathSubscribed path r \<longleftrightarrow> (\<exists>p \<in> set (si_paths (sub_si r)). \<exists>rest. path = p @ rest)"
  by (simp add: IsPathSubscribed_def list_ex_iff prefix_take)

lemma concerned_list:
  assumes "psm_ok s"
  shows "list_ex (\<lambda>(_, r). si_type (sub_si r) = ty \<and> IsPathSubscribed path r) (subscriptions s) \<longleftrightarrow> concerned ty path (lifetimes s)"
proof -
  have "distinct (map fst (subscriptions s))" using assms by (simp add: psm_ok_def ordered_def)
  from list_ex_map_of [OF this] show ?thesis
    by (auto simp: concerned_def lifetimes_def IsPathSubscribed_prefix)
qed

text \<open>
  C27: the persisted state manager is a map from ids to subscriptions with the times they expire:
  whatever sequence of calls it gets, every call returns, a registration enters the subscription with a
  lifetime from now unless its id is empty or taken, a renewal extends the lifetimes of the ids it names,
  a reaping removes exactly the expired ones, and changes of the store remove and add none. The queries
  read this map, a path being a matter of a subscription if one of its paths is a prefix of it. No
  change of the store calls the callback, so that nobody is notified: the data \<open>d\<close> of the callback is
  never touched.
\<close>

theorem manager_refines:
  assumes "new_psm V garbage fs params = Inr s0" "pp_subscription_ttl params * 1000 \<noteq> 0"
  shows "\<exists>s. psm_run V c wall cb xs (d, s0) = Some (d, s) \<and>
    lifetimes s = spec_of params xs \<and>
    (\<forall>i. HasSubscription i s \<longleftrightarrow> i \<in> dom (spec_of params xs)) \<and>
    (\<forall>path. HaveStoreChangeSubscriptions_path path s \<longleftrightarrow> concerned STORE_CHANGE path (spec_of params xs)) \<and>
    (\<forall>path. HaveEnvelopeSubscription path s \<longleftrightarrow> concerned ENVELOPE path (spec_of params xs))"
proof -
  note new = new_psm_ok [OF assms(1)]
  obtain s where s: "psm_run V c wall cb xs (d, s0) = Some (d, s)" "psm_ok s" "lifetimes s = spec_of params xs"
    using psm_run_implements [of s0 V c wall cb xs d] new assms(2) by (auto simp: spec_of_def)
  have "HasSubscription i s \<longleftrightarrow> i \<in> dom (lifetimes s)" for i
    by (auto simp: HasSubscription_def lifetimes_def)
  with s concerned_list [OF s(2)] show ?thesis
    by (auto simp: HaveStoreChangeSubscriptions_path_def HaveEnvelopeSubscription_def)
qed

definition sample_subscription :: SubscriptionInfo where
  "sample_subscription = new_SubscriptionInfo\<lparr>si_type := STORE_CHANGE, si_id := ''id'', si_paths := [''/b'']\<rparr>"

definition sample_psm_params :: psm_params where
  "sample_psm_params = new_psm_params\<lparr>pp_store_uri := ''simpledirectory:///r''\<rparr>"

lemma sample_CreateStore: "CreateStore UNKNOWN (files sample_store) ''simpledirectory:///r'' = Inr sample_store"
  by code_simp

lemma sample_psm: "\<exists>s. new_psm (sds_ops sample_codec) UNKNOWN (files sample_store) sample_psm_params = Inr s"
  by (simp add: new_psm_def sample_psm_params_def new_psm_params_def sample_CreateStore)

text \<open>A subscription of one minute that is renewed after half a minute outlives the first minute.\<close>

lemma manager_refines_witness:
  "\<exists>s0 s. new_psm (sds_ops sample_codec) UNKNOWN (files sample_store) sample_psm_params = Inr s0 \<and>
     psm_run (sds_ops sample_codec) sample_codec 0 (\<lambda>_ r d. (r, d))
       [(0, Register sample_subscription), (30000000, Renew [''id'']), (70000000, Reap)] ((), s0) = Some ((), s) \<and>
     HasSubscription ''id'' s \<and> HaveStoreChangeSubscriptions_path ''/bucket'' s"
proof -
  obtain s0 where s0: "new_psm (sds_ops sample_codec) UNKNOWN (files sample_store) sample_psm_params = Inr s0"
    using sample_psm by blast
  have ttl: "pp_subscription_ttl sample_psm_params * 1000 = 60000000" by (simp add: sample_psm_params_def new_psm_params_def)
  let ?xs = "[(0, Register sample_subscription), (30000000, Renew [''id'']), (70000000, Reap)]"
  have m: "spec_of sample_psm_params ?xs = [''id'' \<mapsto> (sample_subscription, 90000000)]"
    by (simp add: spec_of_def spec_step_def ttl sample_subscription_def fun_eq_iff)
  have c: "concerned STORE_CHANGE ''/bucket'' [''id'' \<mapsto> (sample_subscription, 90000000)]"
    by (auto simp: concerned_def sample_subscription_def)
  from manager_refines [OF s0, of sample_codec 0 "\<lambda>_ r d. (r, d)" ?xs "()"] ttl s0 m c show ?thesis
    by auto
qed

text \<open>
  A new subscription lives for its lifetime in milliseconds times 1000 microseconds, modulo \<open>2 ^ 32\<close>:
  a lifetime of more than 71 minutes is cut to what is left of it after whole turns of 71.6 minutes.
\<close>

lemma subscription_lifetime:
  assumes "psm_ok s" "si_id si \<noteq> []" "\<not> HasSubscription (si_id si) s" "1000 * unat (psm_ttl s) mod 2 ^ 32 \<noteq> 0"
  shows "HasSubscription (si_id si) (snd (RemoveExpiredSubscriptions later (snd (RegisterSubscription now si s)))) \<longleftrightarrow>
    later < now + 1000 * unat (psm_ttl s) mod 2 ^ 32"
proof -
  have ttl: "unat (ttl_micros s) = 1000 * unat (psm_ttl s) mod 2 ^ 32"
    by (simp add: ttl_micros_def unat_word_ariths mult.commute)
  with assms(4) have nz: "ttl_micros s \<noteq> 0" by auto
  let ?s = "snd (RegisterSubscription now si s)" and ?ttl = "unat (ttl_micros s)"
  note reg = register_implements [OF assms(1) nz, of now si]
  then have "lifetimes (snd (RemoveExpiredSubscriptions later ?s)) =
      spec_step ?ttl (later, Reap) (spec_step ?ttl (now, Register si) (lifetimes s))"
    using reap_implements [of ?s later ?ttl] by simp
  moreover have "HasSubscription i u \<longleftrightarrow> lifetimes u i \<noteq> None" for i u by (simp add: HasSubscription_def lifetimes_def)
  ultimately show ?thesis
    unfolding ttl [symmetric] using assms(2,3) by (simp add: spec_step_def dom_def)
qed

text \<open>With a lifetime of 4294968 ms a subscription is gone after a millisecond.\<close>

lemma subscription_lifetime_witness:
  "\<not> HasSubscription ''id'' (snd (RemoveExpiredSubscriptions 1000 (snd (RegisterSubscription 0 sample_subscription
     \<lparr>store_uri = [], psm_ttl = 4294968, subscription_lua_allow = False, subscription_lua_memory_ceiling = 0,
      psm_store = sample_store, subscriptions = [], stream_read_offsets = []\<rparr>))))"
proof -
  let ?s = "\<lparr>store_uri = [], psm_ttl = 4294968, subscription_lua_allow = False, subscription_lua_memory_ceiling = 0,
      psm_store = sample_store, subscriptions = [], stream_read_offsets = []\<rparr>"
  have ok: "psm_ok ?s" "si_id sample_subscription \<noteq> []" "\<not> HasSubscription (si_id sample_subscription) ?s"
    "1000 * unat (psm_ttl ?s) mod 2 ^ 32 \<noteq> 0" "si_id sample_subscription = ''id''"
    by (simp_all add: psm_ok_def ordered_def HasSubscription_def sample_subscription_def)
  from subscription_lifetime [OF ok(1-4), of 1000 0] show ?thesis by (simp add: ok(5))
qed

end
