(* ===== verification/State_Reactor.thy ===== *)
theory State_Reactor
  imports Persisted_State Device Server_Worker
begin

text \<open>
  The persisted state reactor (src/zippylog/device/persisted_state_reactor.cpp): the device that holds
  the persisted state manager and feeds it the subscriptions, the keepalives and the changes of the
  store that arrive on its sockets; and its composition with the server's request processor, which is
  the peer of two of these sockets.
\<close>

section \<open>The device\<close>

record reactor =
  pr_manager :: psm
  store_changes_sock :: socket
  pr_client_sock :: socket
  subscription_sock :: socket
  pr_subscription_updates_sock :: socket

record reactor_params =
  pr_ctx :: bool
  pr_active :: bool
  store_change_endpoint :: string
  client_endpoint :: string
  subscription_endpoint :: string
  subscription_updates_endpoint :: string
  logger_endpoint :: string
  manager_params :: psm_params

text \<open>The constructor with \<open>Initialize\<close>; \<open>new_sock\<close> is a connected socket, \<open>pr_ctx\<close> and \<open>pr_active\<close> whether
  a context and a condition are given: the constructor of \<open>Device\<close> refuses to run without one.\<close>

definition new_PersistedStateReactor :: "store_ops \<Rightarrow> FileType \<Rightarrow> filesystem \<Rightarrow> socket \<Rightarrow> reactor_params \<Rightarrow> reactor res" where
  "new_PersistedStateReactor V garbage fs new_sock p =
     (if \<not> pr_active p then Inl (InvalidArgument ''ConditionalWait parameter not defined'')
      else if \<not> pr_ctx p then Inl (InvalidArgument ''0MQ context must be defined'')
      else if store_change_endpoint p = [] then Inl (InvalidArgument ''store changes endpoint not defined'')
      else if client_endpoint p = [] then Inl (InvalidArgument ''client endpoint not defined'')
      else if subscription_endpoint p = [] then Inl (InvalidArgument ''subscription endpoint not defined'')
      else if subscription_updates_endpoint p = [] then Inl (InvalidArgument ''subscription updates endpoint not defined'')
      else if logger_endpoint p = [] then Inl (InvalidArgument ''logger endpoint not defined'')
      else
        rbind (new_psm V garbage fs (manager_params p)) (\<lambda>manager.
          Inr \<lparr>pr_manager = manager, store_changes_sock = new_sock, pr_client_sock = new_sock,
               subscription_sock = new_sock, pr_subscription_updates_sock = new_sock\<rparr>))"

definition on_manager :: "(psm, 'a) action \<Rightarrow> (reactor, 'a) action" where
  "on_manager f r = (let (x, m) = f (pr_manager r) in (x, r\<lparr>pr_manager := m\<rparr>))"

text \<open>The callbacks, on the socket to the clients.\<close>

definition PathAddedCallback :: "codec \<Rightarrow> u64 \<Rightarrow> SubscriptionInfo \<Rightarrow> string \<Rightarrow> (socket, unit) action" where
  "PathAddedCallback c wall subscription path = andThen (SendPathAdded c wall subscription path) (\<lambda>_. ret ())"

definition PathDeletedCallback :: "codec \<Rightarrow> u64 \<Rightarrow> SubscriptionInfo \<Rightarrow> string \<Rightarrow> (socket, unit) action" where
  "PathDeletedCallback c wall subscription path = andThen (SendPathDeleted c wall subscription path) (\<lambda>_. ret ())"

definition StreamAppendedCallback :: "codec \<Rightarrow> u64 \<Rightarrow> socket appended_callback" where
  "StreamAppendedCallback c wall subscription state sock =
     (let (_, state, sock) = SendSubscriptionEnvelopeResponse c wall state sock in (state, sock))"

text \<open>
  The messages of an envelope by index: \<open>GetMessage\<close> with a pointer that is dereferenced at once, and
  the number of a repeated field.
\<close>

definition message_at_0 :: "codec \<Rightarrow> registrar \<Rightarrow> Envelope \<Rightarrow> Message res" where
  "message_at_0 c reg e =
     rbind (fst (GetMessage c reg 0 e)) (\<lambda>m.
       case m of None \<Rightarrow> Inl (Undefined ''null message'') | Some m \<Rightarrow> Inr m)"

definition number_at_0 :: "u32 list \<Rightarrow> u32 res" where
  "number_at_0 xs = (case xs of [] \<Rightarrow> Inl (Undefined ''repeated field index'') | x # _ \<Rightarrow> Inr x)"

text \<open>
  Only a \<open>DeserializeException\<close> is caught, so that the \<open>invalid_argument\<close> for a message of one byte or
  none gets through.
\<close>

definition open_envelope :: "codec \<Rightarrow> string \<Rightarrow> string \<Rightarrow> Envelope res" where
  "open_envelope c err msg =
     (case Envelope_of_zmq c msg 0 of
        Inl DeserializeException \<Rightarrow> Inl (RuntimeException err)
      | Inl x \<Rightarrow> Inl x
      | Inr e \<Rightarrow> Inr e)"

text \<open>
  What is done for a change of the store. The reactor gives no callback for appended streams. A call
  of the manager that does not return cannot occur then; it has no outcome of its own here.
\<close>

definition stream_appended :: "store_ops \<Rightarrow> codec \<Rightarrow> u64 \<Rightarrow> string \<Rightarrow> u64 \<Rightarrow> (reactor, unit) action" where
  "stream_appended V c wall path len r =
     (case ProcessStoreChangeStreamAppended V c wall path len (None :: socket appended_callback option) (pr_client_sock r) (pr_manager r) of
        Some (x, sock, m) \<Rightarrow> (x, r\<lparr>pr_client_sock := sock, pr_manager := m\<rparr>)
      | None \<Rightarrow> (Inl (Undefined ''the loop does not end''), r))"

definition store_change :: "store_ops \<Rightarrow> codec \<Rightarrow> u64 \<Rightarrow> u32 \<Rightarrow> Message \<Rightarrow> (reactor, unit) action" where
  "store_change V c wall ty m =
     (let added = (\<lambda>path. on_manager (ProcessStoreChangePathAdded path (Some (PathAddedCallback c wall))));
          deleted = (\<lambda>path. on_manager (ProcessStoreChangePathDeleted path (Some (PathDeletedCallback c wall))))
      in if message_enumeration m \<noteq> (message_namespace, ty) then throw (Undefined ''message of another type'')
         else case m of
           StoreChangeBucketAddedV1 b \<Rightarrow> added (BucketPath b)
         | StoreChangeBucketDeletedV1 b \<Rightarrow> deleted (BucketPath b)
         | StoreChangeStreamSetAddedV1 b s \<Rightarrow> added (StreamsetPath b s)
         | StoreChangeStreamSetDeletedV1 b s \<Rightarrow> deleted (StreamsetPath b s)
         | StoreChangeStreamAddedV1 b s n \<Rightarrow> added (StreamPath b s n)
         | StoreChangeStreamDeletedV1 b s n \<Rightarrow> deleted (StreamPath b s n)
         | StoreChangeStreamAppendedV1 b s n len \<Rightarrow> stream_appended V c wall (StreamPath b s n) len
         | _ \<Rightarrow> throw (Undefined ''message of another type''))"

definition ProcessStoreChangeMessage :: "store_ops \<Rightarrow> codec \<Rightarrow> registrar \<Rightarrow> u64 \<Rightarrow> string \<Rightarrow> (reactor, unit) action" where
  "ProcessStoreChangeMessage V c reg wall msg =
     andThen (lift_res (open_envelope c ''deserialization error on receives store change envelope'' msg)) (\<lambda>e.
     let invalid = throw (RuntimeException ''received store change envelope contains no messages'') in
     if MessageCount e = 0 then invalid
     else andThen (lift_res (number_at_0 (message_ns (envelope e)))) (\<lambda>ns.
       if ns \<noteq> message_namespace then invalid
       else andThen (lift_res (number_at_0 (message_ty (envelope e)))) (\<lambda>ty.
         if ty \<notin> {97, 98, 99, 100, 101, 102, 103}
         then throw (RuntimeException ''unhandled message type in store change envelope'')
         else andThen (lift_res (message_at_0 c reg e)) (store_change V c wall ty))))"

text \<open>Keepalives: written for the socket of the subscription updates, whose messages \<open>Pump\<close> leaves there.\<close>

definition ProcessSubscriptionUpdate :: "codec \<Rightarrow> registrar \<Rightarrow> nat \<Rightarrow> string \<Rightarrow> (reactor, unit) action" where
  "ProcessSubscriptionUpdate c reg now msg =
     andThen (lift_res (open_envelope c ''deserialization error on subscription update message'' msg)) (\<lambda>e.
     let invalid = throw (RuntimeException ''subscription update Envelope does not conform to expected'') in
     if MessageCount e \<noteq> 1 then invalid
     else andThen (lift_res (number_at_0 (message_ns (envelope e)))) (\<lambda>ns.
       if ns \<noteq> message_namespace then invalid
       else andThen (lift_res (number_at_0 (message_ty (envelope e)))) (\<lambda>ty.
         if ty \<noteq> 82 then throw (RuntimeException ''unknown type of subscription update message'')
         else andThen (lift_res (fst (GetMessage c reg 0 e))) (\<lambda>m.
           case m of
             None \<Rightarrow> throw (RuntimeException ''could not obtain keepalive message'')
           | Some (SubscribeKeepaliveV1 ids) \<Rightarrow> andThen (on_manager (RenewSubscriptions now ids)) (\<lambda>_. ret ())
           | _ \<Rightarrow> throw (Undefined ''message of another type'')))))"

text \<open>The receipt of a subscription: the one frame after the delimiter is the envelope with its record.\<close>

definition register_record :: "codec \<Rightarrow> registrar \<Rightarrow> nat \<Rightarrow> string \<Rightarrow> (reactor, unit) action" where
  "register_record c reg now msg =
     andThen (lift_res (Envelope_of_zmq c msg 0)) (\<lambda>e.
     if MessageCount e \<noteq> 1 then throw (RuntimeException ''unknown envelope payload received'')
     else andThen (lift_res (number_at_0 (message_ns (envelope e)))) (\<lambda>ns.
       if ns \<noteq> message_namespace then throw (RuntimeException ''invalid namespace seen on first message'')
       else andThen (lift_res (number_at_0 (message_ty (envelope e)))) (\<lambda>ty.
         if ty \<noteq> 119 then throw (RuntimeException ''unknown message type seen on subscriptions sock'')
         else andThen (lift_res (message_at_0 c reg e)) (\<lambda>m.
           case m of
             SubscriptionRecordMsg sr \<Rightarrow>
               andThen (lift_res (SubscriptionInfo_of_record sr)) (\<lambda>si. on_manager (RegisterSubscription now si))
           | _ \<Rightarrow> throw (Undefined ''message of another type'')))))"

text \<open>The receive waits for what is missing of a message; it does not fail.\<close>

definition receive_subscription :: "codec \<Rightarrow> registrar \<Rightarrow> nat \<Rightarrow> (reactor, unit) action" where
  "receive_subscription c reg now r =
     (let (ok, mc, sock) = ReceiveMessage (subscription_sock r); r = r\<lparr>subscription_sock := sock\<rparr> in
      if \<not> ok then throw Blocked r
      else
        (case mc_messages mc of
           [] \<Rightarrow> throw (RuntimeException ''didn't receive valid payload on subscriptions sock'') r
         | msg # _ \<Rightarrow> register_record c reg now msg r))"

text \<open>\<open>recv\<close> takes one frame.\<close>

definition receive_store_change :: "store_ops \<Rightarrow> codec \<Rightarrow> registrar \<Rightarrow> u64 \<Rightarrow> (reactor, unit) action" where
  "receive_store_change V c reg wall r =
     (case inbox (store_changes_sock r) of
        [] \<Rightarrow> throw (RuntimeException ''error receiving 0MQ message on store changes socket'') r
      | (msg, _) # fs \<Rightarrow>
          ProcessStoreChangeMessage V c reg wall msg
            (r\<lparr>store_changes_sock := (store_changes_sock r)\<lparr>inbox := fs\<rparr>\<rparr>))"

definition reap_expired :: "nat \<Rightarrow> (reactor, unit) action" where
  "reap_expired now = andThen (on_manager (RemoveExpiredSubscriptions now)) (\<lambda>_. ret ())"

text \<open>
  \<open>poll\<close> reports a socket when something has arrived on it. The socket of the updates is polled and
  nothing is done for it.
\<close>

definition poll_none :: "reactor \<Rightarrow> bool" where
  "poll_none r \<longleftrightarrow> inbox (store_changes_sock r) = [] \<and> inbox (subscription_sock r) = [] \<and>
     inbox (pr_subscription_updates_sock r) = []"

definition PersistedStateReactor_Pump ::
  "store_ops \<Rightarrow> codec \<Rightarrow> registrar \<Rightarrow> u64 \<Rightarrow> nat \<Rightarrow> (reactor, PumpResult) action" where
  "PersistedStateReactor_Pump V c reg wall now r =
     (if poll_none r then seq (reap_expired now) (ret MakeWorkDone) r
      else
        let subscriptions_in = inbox (subscription_sock r) \<noteq> []; changes_in = inbox (store_changes_sock r) \<noteq> [] in
        seq (reap_expired now)
        (seq (if subscriptions_in then receive_subscription c reg now else ret ())
        (seq (if changes_in then receive_store_change V c reg wall else ret ())
        (ret MakeWorkDone))) r)"

section \<open>What a pump does to the manager\<close>

text \<open>
  Every action on the device keeps the manager's invariant, its lifetime and the socket of the updates,
  and changes the map of lifetimes in one of few ways: not at all, by a reaping, or by a registration.
\<close>

type_synonym lifetime_map = "string \<rightharpoonup> SubscriptionInfo \<times> nat"

definition effect :: "(nat \<Rightarrow> lifetime_map \<Rightarrow> lifetime_map \<Rightarrow> bool) \<Rightarrow> (reactor, 'a) action \<Rightarrow> bool" where
  "effect R m \<longleftrightarrow> (\<forall>r. psm_ok (pr_manager r) \<longrightarrow> ttl_micros (pr_manager r) \<noteq> 0 \<longrightarrow>
     (let r' = snd (m r) in psm_ok (pr_manager r') \<and> psm_ttl (pr_manager r') = psm_ttl (pr_manager r) \<and>
        pr_subscription_updates_sock r' = pr_subscription_updates_sock r \<and>
        R (unat (ttl_micros (pr_manager r))) (lifetimes (pr_manager r)) (lifetimes (pr_manager r'))))"

definition unchanged :: "nat \<Rightarrow> lifetime_map \<Rightarrow> lifetime_map \<Rightarrow> bool" where
  "unchanged ttl a b \<longleftrightarrow> b = a"

definition registers :: "nat \<Rightarrow> nat \<Rightarrow> lifetime_map \<Rightarrow> lifetime_map \<Rightarrow> bool" where
  "registers now ttl a b \<longleftrightarrow> b = a \<or> (\<exists>si. b = spec_step ttl (now, Register si) a)"

definition reaps :: "nat \<Rightarrow> nat \<Rightarrow> lifetime_map \<Rightarrow> lifetime_map \<Rightarrow> bool" where
  "reaps now ttl a b \<longleftrightarrow> b = spec_step ttl (now, Reap) a"

definition reaps_and_registers :: "nat \<Rightarrow> nat \<Rightarrow> lifetime_map \<Rightarrow> lifetime_map \<Rightarrow> bool" where
  "reaps_and_registers now ttl a b \<longleftrightarrow> registers now ttl (spec_step ttl (now, Reap) a) b"

named_theorems effects \<open>the effect of an action on the manager\<close>

lemma effectD:
  assumes "effect R m" "psm_ok (pr_manager r)" "ttl_micros (pr_manager r) \<noteq> 0" "m r = (x, r')"
  shows "psm_ok (pr_manager r')" "psm_ttl (pr_manager r') = psm_ttl (pr_manager r)"
    "ttl_micros (pr_manager r') = ttl_micros (pr_manager r)"
    "pr_subscription_updates_sock r' = pr_subscription_updates_sock r"
    "R (unat (ttl_micros (pr_manager r))) (lifetimes (pr_manager r)) (lifetimes (pr_manager r'))"
  using assms by (auto simp: effect_def Let_def ttl_micros_def)

lemma effectI:
  assumes "\<And>r x r'. psm_ok (pr_manager r) \<Longrightarrow> ttl_micros (pr_manager r) \<noteq> 0 \<Longrightarrow> m r = (x, r') \<Longrightarrow>
     psm_ok (pr_manager r') \<and> psm_ttl (pr_manager r') = psm_ttl (pr_manager r) \<and>
     pr_subscription_updates_sock r' = pr_subscription_updates_sock r \<and>
     R (unat (ttl_micros (pr_manager r))) (lifetimes (pr_manager r)) (lifetimes (pr_manager r'))"
  shows "effect R m"
  unfolding effect_def Let_def using assms by (metis prod.collapse)

lemma effect_quiet_then:
  assumes m: "effect unchanged m" and f: "\<And>x. effect R (f x)" and R: "\<And>ttl a. R ttl a a"
  shows "effect R (andThen m f)"
proof (rule effectI)
  fix r z r'
  assume ok: "psm_ok (pr_manager r)" "ttl_micros (pr_manager r) \<noteq> 0" and run: "andThen m f r = (z, r')"
  obtain x r1 where m1: "m r = (x, r1)" by (cases "m r")
  note e = effectD [OF m ok m1, unfolded unchanged_def]
  show "psm_ok (pr_manager r') \<and> psm_ttl (pr_manager r') = psm_ttl (pr_manager r) \<and>
     pr_subscription_updates_sock r' = pr_subscription_updates_sock r \<and>
     R (unat (ttl_micros (pr_manager r))) (lifetimes (pr_manager r)) (lifetimes (pr_manager r'))"
  proof (cases x)
    case (Inl err)
    with run m1 have "r' = r1" by (simp add: andThen_def)
    with e R show ?thesis by simp
  next
    case (Inr v)
    with run m1 have "f v r1 = (z, r')" by (simp add: andThen_def)
    from effectD [OF f e(1) _ this] e ok(2) show ?thesis by simp
  qed
qed

lemma effect_then_quiet:
  assumes m: "effect R m" and f: "\<And>x. effect unchanged (f x)"
  shows "effect R (andThen m f)"
proof (rule effectI)
  fix r z r'
  assume ok: "psm_ok (pr_manager r)" "ttl_micros (pr_manager r) \<noteq> 0" and run: "andThen m f r = (z, r')"
  obtain x r1 where m1: "m r = (x, r1)" by (cases "m r")
  note e = effectD [OF m ok m1]
  show "psm_ok (pr_manager r') \<and> psm_ttl (pr_manager r') = psm_ttl (pr_manager r) \<and>
     pr_subscription_updates_sock r' = pr_subscription_updates_sock r \<and>
     R (unat (ttl_micros (pr_manager r))) (lifetimes (pr_manager r)) (lifetimes (pr_manager r'))"
  proof (cases x)
    case (Inl err)
    with run m1 have "r' = r1" by (simp add: andThen_def)
    with e show ?thesis by simp
  next
    case (Inr v)
    with run m1 have "f v r1 = (z, r')" by (simp add: andThen_def)
    from effectD [OF f e(1) _ this] e ok(2) show ?thesis by (simp add: unchanged_def)
  qed
qed

lemma unchanged_refl: "unchanged ttl a a" by (simp add: unchanged_def)
lemma registers_refl: "registers now ttl a a" by (simp add: registers_def)

lemmas effect_quiet_quiet [effects] = effect_quiet_then [of _ unchanged, OF _ _ unchanged_refl]
lemmas effect_quiet_registers = effect_quiet_then [of _ "registers now" for now, OF _ _ registers_refl]

lemma effect_lift [effects]: "effect unchanged (lift_res x)"
  by (simp add: effect_def unchanged_def)

lemma effect_ret [effects]: "effect unchanged (ret x)"
  by (simp add: effect_def unchanged_def)

lemma effect_throw [effects]: "effect unchanged (throw x)"
  by (simp add: effect_def unchanged_def)

lemma effect_throw_registers: "effect (registers now) (throw x)"
  by (simp add: effect_def registers_def)

lemma effect_if [effects]: "effect R f \<Longrightarrow> effect R g \<Longrightarrow> effect R (if b then f else g)"
  by simp

section \<open>The effects of the device's functions\<close>

lemma effect_path_added [effects]: "effect unchanged (on_manager (ProcessStoreChangePathAdded path cb))"
  by (auto simp: effect_def unchanged_def on_manager_def ProcessStoreChangePathAdded_def split_beta Let_def psm_ok_def fun_eq_iff lifetimes_def)

lemma effect_path_deleted [effects]: "effect unchanged (on_manager (ProcessStoreChangePathDeleted path cb))"
  by (auto simp: effect_def unchanged_def on_manager_def ProcessStoreChangePathDeleted_def split_beta Let_def)

lemma stream_appended_throws:
  "stream_appended V c wall path len r = (Inl (InvalidArgument ''callback not defined''), r)"
  by (simp add: stream_appended_def ProcessStoreChangeStreamAppended_def)

lemma effect_stream_appended [effects]: "effect unchanged (stream_appended V c wall path len)"
  by (simp add: effect_def unchanged_def stream_appended_throws)

lemma effect_store_change [effects]: "effect unchanged (store_change V c wall ty m)"
  unfolding store_change_def Let_def by (rule effect_if) (auto intro: effects split: Message.split)

lemma effect_store_change_message: "effect unchanged (ProcessStoreChangeMessage V c reg wall msg)"
  unfolding ProcessStoreChangeMessage_def Let_def by (intro effects)

lemma effect_receive_store_change: "effect unchanged (receive_store_change V c reg wall)"
proof (rule effectI)
  fix r x r'
  assume ok: "psm_ok (pr_manager r)" "ttl_micros (pr_manager r) \<noteq> 0" and run: "receive_store_change V c reg wall r = (x, r')"
  show "psm_ok (pr_manager r') \<and> psm_ttl (pr_manager r') = psm_ttl (pr_manager r) \<and>
     pr_subscription_updates_sock r' = pr_subscription_updates_sock r \<and>
     unchanged (unat (ttl_micros (pr_manager r))) (lifetimes (pr_manager r)) (lifetimes (pr_manager r'))"
  proof (cases "inbox (store_changes_sock r)")
    case Nil
    with run ok show ?thesis by (simp add: receive_store_change_def unchanged_def)
  next
    case (Cons f fs)
    obtain msg more' where f: "f = (msg, more')" by (cases f)
    let ?r = "r\<lparr>store_changes_sock := (store_changes_sock r)\<lparr>inbox := fs\<rparr>\<rparr>"
    have "ProcessStoreChangeMessage V c reg wall msg ?r = (x, r')" using run Cons f by (simp add: receive_store_change_def)
    from effectD [OF effect_store_change_message _ _ this] ok show ?thesis by simp
  qed
qed

lemma effect_register: "effect (registers now) (on_manager (RegisterSubscription now si))"
proof (rule effectI)
  fix r x r'
  assume ok: "psm_ok (pr_manager r)" "ttl_micros (pr_manager r) \<noteq> 0" and run: "on_manager (RegisterSubscription now si) r = (x, r')"
  then have "r' = r\<lparr>pr_manager := snd (RegisterSubscription now si (pr_manager r))\<rparr>" by (auto simp: on_manager_def split_beta)
  moreover have "psm_ttl (snd (RegisterSubscription now si m)) = psm_ttl m" for m
    by (simp add: RegisterSubscription_def Let_def)
  ultimately show "psm_ok (pr_manager r') \<and> psm_ttl (pr_manager r') = psm_ttl (pr_manager r) \<and>
     pr_subscription_updates_sock r' = pr_subscription_updates_sock r \<and>
     registers now (unat (ttl_micros (pr_manager r))) (lifetimes (pr_manager r)) (lifetimes (pr_manager r'))"
    using register_implements [OF ok, of now si] by (auto simp: registers_def)
qed

lemma effect_register_record: "effect (registers now) (register_record c reg now msg)"
  unfolding register_record_def
  by (intro effect_quiet_registers effect_if effect_throw_registers effect_lift)
    (auto intro: effect_throw_registers effect_quiet_registers effect_lift effect_register split: Message.split)

lemma effect_receive_subscription: "effect (registers now) (receive_subscription c reg now)"
proof (rule effectI)
  fix r x r'
  assume ok: "psm_ok (pr_manager r)" "ttl_micros (pr_manager r) \<noteq> 0" and run: "receive_subscription c reg now r = (x, r')"
  obtain b mc sock where rec: "ReceiveMessage (subscription_sock r) = (b, mc, sock)" by (cases "ReceiveMessage (subscription_sock r)")
  let ?r = "r\<lparr>subscription_sock := sock\<rparr>"
  have r': "r' = ?r \<or> (\<exists>msg. register_record c reg now msg ?r = (x, r'))"
    using run rec by (cases b; cases "mc_messages mc") (auto simp: receive_subscription_def Let_def)
  show "psm_ok (pr_manager r') \<and> psm_ttl (pr_manager r') = psm_ttl (pr_manager r) \<and>
     pr_subscription_updates_sock r' = pr_subscription_updates_sock r \<and>
     registers now (unat (ttl_micros (pr_manager r))) (lifetimes (pr_manager r)) (lifetimes (pr_manager r'))"
  proof (cases "r' = ?r")
    case True
    with ok show ?thesis by (simp add: registers_def)
  next
    case False
    with r' obtain msg where "register_record c reg now msg ?r = (x, r')" by blast
    from effectD [OF effect_register_record _ _ this] ok show ?thesis by simp
  qed
qed

lemma reap_expired_run:
  "reap_expired now r = (Inr (), r\<lparr>pr_manager := snd (RemoveExpiredSubscriptions now (pr_manager r))\<rparr>)"
  by (simp add: reap_expired_def on_manager_def RemoveExpiredSubscriptions_def andThen_def split_beta)

lemma effect_rest_of_pump:
  "effect (registers now)
     (seq (if b then receive_subscription c reg now else ret ())
     (seq (if b' then receive_store_change V c reg wall else ret ()) (ret x)))"
proof -
  have "effect (registers now) (if b then receive_subscription c reg now else ret ())"
    using effect_receive_subscription effect_ret by (auto simp: effect_def registers_def unchanged_def)
  moreover have "effect unchanged (seq (if b' then receive_store_change V c reg wall else ret ()) (ret x))"
    by (intro effects effect_receive_store_change)
  ultimately show ?thesis by (rule effect_then_quiet)
qed

lemma effect_pump: "effect (reaps_and_registers now) (PersistedStateReactor_Pump V c reg wall now)"
proof (rule effectI)
  fix r x r'
  assume ok: "psm_ok (pr_manager r)" "ttl_micros (pr_manager r) \<noteq> 0"
    and run: "PersistedStateReactor_Pump V c reg wall now r = (x, r')"
  let ?r = "r\<lparr>pr_manager := snd (RemoveExpiredSubscriptions now (pr_manager r))\<rparr>"
  let ?ttl = "unat (ttl_micros (pr_manager r))"
  have ttl: "psm_ttl (pr_manager ?r) = psm_ttl (pr_manager r)" by (simp add: RemoveExpiredSubscriptions_def split_beta)
  have reap: "psm_ok (pr_manager ?r)" "lifetimes (pr_manager ?r) = spec_step ?ttl (now, Reap) (lifetimes (pr_manager r))"
    using reap_implements [OF ok(1), of now ?ttl] by simp_all
  have "registers now ?ttl (lifetimes (pr_manager ?r)) (lifetimes (pr_manager r')) \<and> psm_ok (pr_manager r') \<and>
      psm_ttl (pr_manager r') = psm_ttl (pr_manager r) \<and> pr_subscription_updates_sock r' = pr_subscription_updates_sock r"
  proof (cases "poll_none r")
    case True
    with run have "r' = ?r" by (simp add: PersistedStateReactor_Pump_def andThen_Inr [OF reap_expired_run])
    with reap ttl show ?thesis by (simp add: registers_def)
  next
    case False
    then have "seq (if inbox (subscription_sock r) \<noteq> [] then receive_subscription c reg now else ret ())
     (seq (if inbox (store_changes_sock r) \<noteq> [] then receive_store_change V c reg wall else ret ()) (ret MakeWorkDone)) ?r = (x, r')"
      using run by (simp add: PersistedStateReactor_Pump_def andThen_Inr [OF reap_expired_run] Let_def)
    from effectD [OF effect_rest_of_pump _ _ this] ok reap ttl show ?thesis by (simp add: ttl_micros_def)
  qed
  then show "psm_ok (pr_manager r') \<and> psm_ttl (pr_manager r') = psm_ttl (pr_manager r) \<and>
     pr_subscription_updates_sock r' = pr_subscription_updates_sock r \<and>
     reaps_and_registers now ?ttl (lifetimes (pr_manager r)) (lifetimes (pr_manager r'))"
    unfolding reaps_and_registers_def reap(2) [symmetric] by simp
qed

section \<open>Properties\<close>

lemma reap_cases: "spec_step ttl (now, Reap) a i = Some (si, d) \<longleftrightarrow> a i = Some (si, d) \<and> now < d"
  by (auto simp: spec_step_def split: option.split)

lemma registers_cases:
  assumes "registers now ttl (spec_step ttl (now, Reap) a) b" "0 < ttl"
  shows "b i = Some (si, d) \<Longrightarrow> now < d \<and> (a i = Some (si, d) \<or> si_id si = i \<and> d = now + ttl \<and>
      (\<forall>si' d'. a i = Some (si', d') \<longrightarrow> d' \<le> now))"
    "a i = Some (si, d) \<Longrightarrow> now < d \<Longrightarrow> b i = Some (si, d)"
proof -
  let ?a = "spec_step ttl (now, Reap) a"
  consider "b = ?a" | s where "b = ?a(si_id s \<mapsto> (s, now + ttl))" "?a (si_id s) = None"
  proof (cases "b = ?a")
    case False
    then obtain s where s: "b = spec_step ttl (now, Register s) ?a" using assms(1) by (auto simp: registers_def)
    show ?thesis
    proof (cases "si_id s = [] \<or> si_id s \<in> dom ?a")
      case True
      with s have "b = ?a" by (simp add: spec_step_def [of ttl "(now, Register s)"])
      with False show ?thesis by simp
    next
      case new: False
      with s have "b = ?a(si_id s \<mapsto> (s, now + ttl))" by (simp add: spec_step_def [of ttl "(now, Register s)"])
      moreover have "?a (si_id s) = None" using new by blast
      ultimately show ?thesis by (rule that(2))
    qed
  qed (rule that(1))
  note c = this
  have none: "?a i = None \<Longrightarrow> \<forall>si' d'. a i = Some (si', d') \<longrightarrow> d' \<le> now" for i
    using reap_cases [of ttl now a i] by (auto simp: not_less)
  show "b i = Some (si, d) \<Longrightarrow> now < d \<and> (a i = Some (si, d) \<or> si_id si = i \<and> d = now + ttl \<and>
      (\<forall>si' d'. a i = Some (si', d') \<longrightarrow> d' \<le> now))"
    using c
  proof cases
    case 2
    then show "b i = Some (si, d) \<Longrightarrow> ?thesis"
      using none [of i] assms(2) reap_cases [of ttl now a i] by (cases "i = si_id s") auto
  qed (simp add: reap_cases)
  show "a i = Some (si, d) \<Longrightarrow> now < d \<Longrightarrow> b i = Some (si, d)"
    using c reap_cases [of ttl now a i si d] by (cases rule: c) auto
qed

text \<open>
  A pump of the reactor drops the subscriptions that have expired, keeps every other one with its
  time, and adds at most one, which lives from now on: nothing ever extends a lifetime, because the
  keepalives stay unread on the socket of the updates. So every subscription ends one lifetime after it
  was registered, however often its client renews it.
\<close>

lemma pump_never_renews:
  assumes "psm_ok (pr_manager r)" "ttl_micros (pr_manager r) \<noteq> 0"
    "PersistedStateReactor_Pump V c reg wall now r = (x, r')"
  shows "psm_ok (pr_manager r') \<and> pr_subscription_updates_sock r' = pr_subscription_updates_sock r \<and>
    (\<forall>i si d. lifetimes (pr_manager r') i = Some (si, d) \<longrightarrow>
       now < d \<and> (lifetimes (pr_manager r) i = Some (si, d) \<or>
         si_id si = i \<and> d = now + unat (ttl_micros (pr_manager r)) \<and>
         (\<forall>si' d'. lifetimes (pr_manager r) i = Some (si', d') \<longrightarrow> d' \<le> now))) \<and>
    (\<forall>i si d. lifetimes (pr_manager r) i = Some (si, d) \<longrightarrow> now < d \<longrightarrow> lifetimes (pr_manager r') i = Some (si, d))"
proof -
  let ?ttl = "unat (ttl_micros (pr_manager r))" and ?a = "lifetimes (pr_manager r)" and ?b = "lifetimes (pr_manager r')"
  note e = effectD [OF effect_pump assms, unfolded reaps_and_registers_def]
  have "0 < ?ttl" using assms(2) by (simp add: unat_gt_0)
  note b = registers_cases [OF e(5) this]
  have "\<forall>i si d. ?b i = Some (si, d) \<longrightarrow> now < d \<and> (?a i = Some (si, d) \<or> si_id si = i \<and> d = now + ?ttl \<and>
         (\<forall>si' d'. ?a i = Some (si', d') \<longrightarrow> d' \<le> now))" by (intro allI impI b(1))
  moreover have "\<forall>i si d. ?a i = Some (si, d) \<longrightarrow> now < d \<longrightarrow> ?b i = Some (si, d)" by (intro allI impI b(2))
  ultimately show ?thesis using e(1,4) by blast
qed

definition sample_manager :: psm where
  "sample_manager = \<lparr>store_uri = ''simpledirectory:///r'', psm_ttl = 60000, subscription_lua_allow = False,
     subscription_lua_memory_ceiling = 524288, psm_store = sample_store, subscriptions = [], stream_read_offsets = []\<rparr>"

lemma sample_manager_ok: "psm_ok sample_manager" "ttl_micros sample_manager = 60000000"
  by (simp_all add: psm_ok_def ordered_def sample_manager_def ttl_micros_def)

definition quiet_socket :: "(string \<times> bool) list \<Rightarrow> socket" where
  "quiet_socket fs = \<lparr>sent = [], send_results = [], inbox = fs\<rparr>"

definition sample_reactor :: "psm \<Rightarrow> (string \<times> bool) list \<Rightarrow> (string \<times> bool) list \<Rightarrow> reactor" where
  "sample_reactor m subs updates = \<lparr>pr_manager = m, store_changes_sock = quiet_socket [], pr_client_sock = quiet_socket [],
     subscription_sock = quiet_socket subs, pr_subscription_updates_sock = quiet_socket updates\<rparr>"

text \<open>A subscription whose keepalive has arrived keeps the end of its minute.\<close>

lemma pump_never_renews_witness:
  "lifetimes (pr_manager (snd (PersistedStateReactor_Pump (sds_ops sample_codec) sample_codec sample_types 0 59000000
     (sample_reactor (snd (RegisterSubscription 0 sample_subscription sample_manager)) [] [(''keepalive'', False)])))) ''id'' =
   Some (sample_subscription, 60000000)"
proof -
  let ?m = "snd (RegisterSubscription 0 sample_subscription sample_manager)"
  let ?r = "sample_reactor ?m [] [(''keepalive'', False)]"
  have nz: "ttl_micros sample_manager \<noteq> 0" by (simp add: sample_manager_ok)
  have ttl: "ttl_micros ?m = ttl_micros sample_manager" by (simp add: RegisterSubscription_def ttl_micros_def Let_def)
  have id: "si_id sample_subscription = ''id''" by (simp add: sample_subscription_def)
  have no: "lifetimes sample_manager = Map.empty" by (simp add: lifetimes_def sample_manager_def fun_eq_iff)
  have m: "psm_ok ?m" "lifetimes ?m = [''id'' \<mapsto> (sample_subscription, 60000000)]"
    using register_implements [OF sample_manager_ok(1) nz, of 0 sample_subscription]
    by (simp_all add: spec_step_def id no sample_manager_ok(2))
  obtain x r' where run: "PersistedStateReactor_Pump (sds_ops sample_codec) sample_codec sample_types 0 59000000 ?r = (x, r')"
    by fastforce
  have "psm_ok (pr_manager ?r)" "ttl_micros (pr_manager ?r) \<noteq> 0" using m ttl nz by (simp_all add: sample_reactor_def)
  from pump_never_renews [OF this run]
  have "lifetimes (pr_manager ?r) ''id'' = Some (sample_subscription, 60000000) \<longrightarrow> 59000000 < (60000000 :: nat) \<longrightarrow>
      lifetimes (pr_manager r') ''id'' = Some (sample_subscription, 60000000)" by (elim conjE) blast
  moreover have "lifetimes (pr_manager ?r) ''id'' = Some (sample_subscription, 60000000)" by (simp add: sample_reactor_def m(2))
  ultimately have "lifetimes (pr_manager r') ''id'' = Some (sample_subscription, 60000000)" by simp
  with run show ?thesis by simp
qed

section \<open>The request processor and the reactor together\<close>

text \<open>The frames that a handler has put on the subscriptions socket.\<close>

definition forwarded_frames :: "server_impl \<Rightarrow> server_impl \<Rightarrow> (string \<times> bool) list" where
  "forwarded_frames i i' = drop (length (sent (subscriptions_sock i))) (sent (subscriptions_sock i'))"

lemma accepted_frames:
  assumes "sr_HandleSubscriptionRequest c si i = (Inr res, i')" "send_results (subscriptions_sock i) = []"
  shows "is_subscription res \<and> (\<exists>msg. forwarded_frames i i' = [(msg, False)] \<or> forwarded_frames i i' = [])"
  using assms
  by (auto simp: sr_HandleSubscriptionRequest_def forwarded_frames_def SendEnvelope_def send_def Let_def no_flags_def
      MakeSubscriptionAccepted_def split: sum.splits option.splits if_splits)

lemma receive_identity_only:
  assumes "inbox (subscription_sock r) = [(msg, False)]" "msg \<noteq> []"
  shows "receive_subscription c reg now r =
    (Inl (RuntimeException ''didn't receive valid payload on subscriptions sock''),
     r\<lparr>subscription_sock := (subscription_sock r)\<lparr>inbox := []\<rparr>\<rparr>)"
  using assms by (simp add: receive_subscription_def ReceiveMessage_def empty_container_def AddIdentity_def Let_def)

text \<open>
  What the server's request processor has sent for a subscription, an envelope without the delimiter
  before it, makes the reactor's pump throw without registering anything.
\<close>

lemma accepted_subscription_lost:
  assumes "sr_HandleSubscriptionRequest c si i = (Inr res, i')" "send_results (subscriptions_sock i) = []"
    "forwarded_frames i i' \<noteq> []" "([], False) \<notin> set (forwarded_frames i i')"
    "inbox (subscription_sock r) = forwarded_frames i i'"
    "PersistedStateReactor_Pump V c reg wall now r = (x, r')"
  shows "is_subscription res \<and>
    x = Inl (RuntimeException ''didn't receive valid payload on subscriptions sock'') \<and>
    subscriptions (pr_manager r') = snd (reap now (subscriptions (pr_manager r)))"
proof -
  obtain msg where msg: "forwarded_frames i i' = [(msg, False)]" "msg \<noteq> []"
    using accepted_frames [OF assms(1,2)] assms(3,4) by auto
  let ?r = "r\<lparr>pr_manager := snd (RemoveExpiredSubscriptions now (pr_manager r))\<rparr>"
  have "inbox (subscription_sock ?r) = [(msg, False)]" using assms(5) msg(1) by simp
  note rec = receive_identity_only [OF this msg(2), of c reg now]
  have "\<not> poll_none r" "inbox (subscription_sock r) \<noteq> []" using assms(5) msg(1) by (simp_all add: poll_none_def)
  then have "x = Inl (RuntimeException ''didn't receive valid payload on subscriptions sock'')" "pr_manager r' = pr_manager ?r"
    using assms(6) rec
    by (auto simp: PersistedStateReactor_Pump_def andThen_Inr [OF reap_expired_run] andThen_def Let_def)
  with accepted_frames [OF assms(1,2)] show ?thesis
    by (simp add: RemoveExpiredSubscriptions_def split_beta)
qed

end
