(* ===== verification/Reactor_Device.thy ===== *)
theory Reactor_Device
  imports State_Reactor Device_Loop
begin

text \<open>
  The persisted state reactor as a device: its pump in the run loop, with the messages that arrive and
  the time that passes between two pumps. The contract of the run loop's invariants is interpreted on it.
\<close>

type_synonym arrivals = "(string \<times> bool) list \<times> (string \<times> bool) list \<times> (string \<times> bool) list"

definition more_frames :: "(string \<times> bool) list \<Rightarrow> socket \<Rightarrow> socket" where
  "more_frames fs s = s\<lparr>inbox := inbox s @ fs\<rparr>"

text \<open>The outside: frames for the three sockets, and the microseconds until the next pump.\<close>

definition reactor_env :: "(nat \<Rightarrow> arrivals) \<Rightarrow> (nat \<Rightarrow> nat) \<Rightarrow> nat \<Rightarrow> reactor \<times> nat \<Rightarrow> reactor \<times> nat" where
  "reactor_env arrive elapsed k x =
     (case (x, arrive k) of ((r, now), (changes, subs, updates)) \<Rightarrow>
        (r\<lparr>store_changes_sock := more_frames changes (store_changes_sock r),
           subscription_sock := more_frames subs (subscription_sock r),
           pr_subscription_updates_sock := more_frames updates (pr_subscription_updates_sock r)\<rparr>, now + elapsed k))"

text \<open>The reactor overrides none of the hooks.\<close>

definition reactor_ops :: "store_ops \<Rightarrow> codec \<Rightarrow> registrar \<Rightarrow> u64 \<Rightarrow> (reactor \<times> nat) device_ops" where
  "reactor_ops V c reg wall =
     \<lparr>Pump_op = (\<lambda>(r, now). let (x, r') = PersistedStateReactor_Pump V c reg wall now r in (x, (r', now))),
      OnFirstRun_op = ret (), OnRunStart_op = ret (), OnRunFinish_op = ret ()\<rparr>"

definition reactor_inv :: "u32 \<Rightarrow> reactor \<times> nat \<Rightarrow> bool" where
  "reactor_inv ttl x =
     (case x of (r, now) \<Rightarrow> psm_ok (pr_manager r) \<and> ttl_micros (pr_manager r) = ttl \<and> ttl \<noteq> 0 \<and>
        (\<forall>i si d. lifetimes (pr_manager r) i = Some (si, d) \<longrightarrow> d \<le> now + unat ttl))"

lemma reactor_pump_inv:
  assumes "reactor_inv ttl (r, now)" "PersistedStateReactor_Pump V c reg wall now r = (x, r')"
  shows "reactor_inv ttl (r', now)"
proof -
  have ok: "psm_ok (pr_manager r)" "ttl_micros (pr_manager r) \<noteq> 0" "ttl_micros (pr_manager r) = ttl"
    and le: "\<And>i si d. lifetimes (pr_manager r) i = Some (si, d) \<Longrightarrow> d \<le> now + unat ttl"
    using assms(1) by (auto simp: reactor_inv_def)
  note e = effectD [OF effect_pump ok(1,2) assms(2), unfolded reaps_and_registers_def]
  have "0 < unat (ttl_micros (pr_manager r))" using ok(2) by (simp add: unat_gt_0)
  note b = registers_cases [OF e(5) this]
  have "d \<le> now + unat ttl" if "lifetimes (pr_manager r') i = Some (si, d)" for i si d
    using b(1) [OF that] le [of i si d] ok(3) by auto
  with e(1,3) ok show ?thesis by (simp add: reactor_inv_def)
qed

interpretation reactor_device: device_invariant "reactor_ops V c reg wall" "reactor_env arrive elapsed" "reactor_inv ttl"
  for V c reg wall arrive elapsed ttl
proof
  fix d :: "reactor \<times> nat" and k
  assume inv: "reactor_inv ttl d"
  obtain r now where d: "d = (r, now)" by (cases d)
  show "reactor_inv ttl (reactor_env arrive elapsed k d)"
    using inv by (cases "arrive k") (fastforce simp: d reactor_env_def reactor_inv_def)
  show "reactor_inv ttl (snd (Pump_op (reactor_ops V c reg wall) d))"
    using inv reactor_pump_inv [of ttl r now V c reg wall]
    by (cases "PersistedStateReactor_Pump V c reg wall now r") (simp add: d reactor_ops_def)
qed (simp_all add: reactor_ops_def)

text \<open>
  C30: whatever messages arrive on the reactor's sockets, well-formed or not, and however its thread ends,
  the manager keeps its invariant: the ids are distinct and in order, every subscription stands under its
  own id with a running timer, and none has more than one lifetime left.
\<close>

theorem reactor_thread_invariant:
  assumes "AsyncExecStart cw (reactor_env arrive elapsed) (reactor_ops V c reg wall) s = Some (x, s')"
    "reactor_inv ttl (dev s)"
  shows "reactor_inv ttl (dev s')"
  using reactor_device.async_keeps [OF assms(2,1)] .

definition sample_device :: "reactor \<times> nat \<Rightarrow> (reactor \<times> nat) device" where
  "sample_device d = \<lparr>dev = d, dev_thread = True, dev_running = False, has_ran = False, async_signaled = False, waits = 0\<rparr>"

lemma sample_inv: "reactor_inv 60000000 (sample_reactor sample_manager [] [], 0)"
  using sample_manager_ok by (simp add: reactor_inv_def sample_reactor_def lifetimes_def sample_manager_def)

lemma reactor_thread_invariant_witness:
  "\<exists>x s'. AsyncExecStart (\<lambda>k. 9 \<le> k) (reactor_env (\<lambda>_. ([(''x'', False)], [], [])) (\<lambda>_. 10))
      (reactor_ops (sds_ops sample_codec) sample_codec sample_types 0) (sample_device (sample_reactor sample_manager [] [], 0)) = Some (x, s') \<and>
     reactor_inv 60000000 (dev s')"
proof -
  let ?V = "reactor_ops (sds_ops sample_codec) sample_codec sample_types 0"
  let ?env = "reactor_env (\<lambda>_. ([(''x'', False)], [], [])) (\<lambda>_. 10)"
  let ?s = "sample_device (sample_reactor sample_manager [] [], 0)"
  have "\<exists>x s'. AsyncExecStart (\<lambda>k. 9 \<le> k) ?env ?V ?s = Some (x, s')"
    using async_returns [where cw = "\<lambda>k. 9 \<le> k" and s = ?s and k = 9 and V = ?V and env = ?env] by (simp add: sample_device_def)
  then obtain x s' where run: "AsyncExecStart (\<lambda>k. 9 \<le> k) ?env ?V ?s = Some (x, s')" by blast
  have "reactor_inv 60000000 (dev ?s)" using sample_inv by (simp add: sample_device_def)
  from reactor_thread_invariant [OF run this] run show ?thesis by blast
qed

text \<open>
  C28: no subscription ever reaches the manager: the server's request processor accepts a subscription
  and tells the client so, but what it has sent to the reactor ends the reactor's thread with an
  exception at the next pump, without registering anything: the envelope is sent without the delimiter
  that the reactor expects before it.
\<close>

theorem subscription_ends_reactor:
  assumes "sr_HandleSubscriptionRequest c si i = (Inr res, i')" "send_results (subscriptions_sock i) = []"
    "forwarded_frames i i' \<noteq> []" "([], False) \<notin> set (forwarded_frames i i')"
    "dev s = (r, now)" "inbox (subscription_sock r) = []"
    "\<not> cw (waits s)" "\<not> cw (waits s + 1)" "arrive (waits s + 1) = (changes, forwarded_frames i i', updates)"
  shows "\<exists>s'. AsyncExecStart cw (reactor_env arrive elapsed) (reactor_ops V c reg wall) s = Some (Inr 1, s') \<and>
    is_subscription res \<and> \<not> dev_running s' \<and>
    subscriptions (pr_manager (fst (dev s'))) =
      snd (reap (now + elapsed (waits s + 1)) (subscriptions (pr_manager r)))"
proof -
  let ?V = "reactor_ops V c reg wall" and ?env = "reactor_env arrive elapsed"
  let ?now = "now + elapsed (waits s + 1)" and ?err = "RuntimeException ''didn't receive valid payload on subscriptions sock''"
  obtain r1 where r1: "?env (waits s + 1) (r, now) = (r1, ?now)" "inbox (subscription_sock r1) = forwarded_frames i i'"
      "pr_manager r1 = pr_manager r"
    using assms(6,9) by (simp add: reactor_env_def more_frames_def)
  obtain x r' where pump: "PersistedStateReactor_Pump V c reg wall ?now r1 = (x, r')"
    by (cases "PersistedStateReactor_Pump V c reg wall ?now r1")
  note lost = accepted_subscription_lost [OF assms(1-4) r1(2) pump]
  have p: "Pump_op ?V (?env (waits s + 1) (r, now)) = (Inl ?err, (r', ?now))"
    using r1(1) pump lost by (simp add: reactor_ops_def)
  have "\<exists>s'. AsyncExecStart cw ?env ?V s = Some (Inr (thread_status ?err), s') \<and> \<not> dev_running s' \<and> dev s' = (r', ?now)"
    using assms(5) by (intro first_pump_ends [where cw = cw and s = s and V = ?V and env = ?env, OF assms(7,8) _ _ p]) (simp_all add: reactor_ops_def)
  with lost r1(3) show ?thesis by (auto simp: thread_status_def)
qed

lemma subscription_ends_reactor_witness:
  "\<exists>res i' s'. sr_HandleSubscriptionRequest sample_codec sample_subscription sample_impl = (Inr res, i') \<and> is_subscription res \<and>
     AsyncExecStart (\<lambda>k. 9 \<le> k) (reactor_env (\<lambda>_. ([], forwarded_frames sample_impl i', [])) (\<lambda>_. 10))
       (reactor_ops (sds_ops sample_codec) sample_codec sample_types 0) (sample_device (sample_reactor sample_manager [] [], 0)) =
     Some (Inr 1, s')"
proof -
  obtain res i' where run: "sr_HandleSubscriptionRequest sample_codec sample_subscription sample_impl = (Inr res, i')"
    and f: "forwarded_frames sample_impl i' \<noteq> []" "([], False) \<notin> set (forwarded_frames sample_impl i')"
    by (simp add: sr_HandleSubscriptionRequest_def sample_subscription_def new_SubscriptionInfo_def ToProtocolBuffer_def
        SendEnvelope_def serialize_for_def ToZmqMessage_def add_to_envelope_def AddMessage_def sample_codec_def sample_impl_def
        new_Envelope_def of_pb_def empty_envelope_def send_def forwarded_frames_def Let_def)
  have e: "send_results (subscriptions_sock sample_impl) = []" "inbox (subscription_sock (sample_reactor sample_manager [] [])) = []"
    "dev (sample_device (sample_reactor sample_manager [] [], 0)) = (sample_reactor sample_manager [] [], 0)"
    "waits (sample_device (sample_reactor sample_manager [] [], 0)) = 0"
    by (simp_all add: sample_impl_def sample_reactor_def quiet_socket_def sample_device_def)
  from subscription_ends_reactor [where cw = "\<lambda>k. 9 \<le> k" and arrive = "\<lambda>_. ([], forwarded_frames sample_impl i', [])"
      and elapsed = "\<lambda>_. 10" and V = "sds_ops sample_codec" and reg = sample_types and wall = 0, OF run e(1) f e(3,2) _ _ refl] run
  show ?thesis by (auto simp: e(4))
qed

end
