(* ===== verification/Watcher_Reactor.thy ===== *)
theory Watcher_Reactor
  imports Store_Watcher Reactor_Device
begin

text \<open>
  The server's watcher and the persisted state reactor together: what the watcher sends about a change of
  the store reaches every reactor through two sockets of the server, which only moves the frames.
\<close>

text \<open>The first frame of what the watcher sends ends the thread of a reactor that has nothing else to do.\<close>

lemma empty_frame_ends_reactor:
  assumes "dev s = (r, now)" "poll_none r" "\<not> cw (waits s)" "\<not> cw (waits s + 1)"
    "arrive (waits s + 1) = (([], b) # fs, [], [])"
  shows "\<exists>s'. AsyncExecStart cw (reactor_env arrive elapsed) (reactor_ops V c reg wall) s = Some (Inr 1, s') \<and>
    \<not> dev_running s' \<and> pr_client_sock (fst (dev s')) = pr_client_sock r"
proof -
  let ?V = "reactor_ops V c reg wall" and ?env = "reactor_env arrive elapsed"
  let ?now = "now + elapsed (waits s + 1)" and ?err = "InvalidArgument ''0MQ message is empty''"
  obtain r1 where r1: "?env (waits s + 1) (r, now) = (r1, ?now)" "inbox (store_changes_sock r1) = ([], b) # fs"
      "inbox (subscription_sock r1) = []" "pr_client_sock r1 = pr_client_sock r"
    using assms(2,5) by (simp add: reactor_env_def more_frames_def poll_none_def)
  obtain r2 where r2: "reap_expired ?now r1 = (Inr (), r2)" "store_changes_sock r2 = store_changes_sock r1"
      "pr_client_sock r2 = pr_client_sock r1"
    by (simp add: reap_expired_def on_manager_def RemoveExpiredSubscriptions_def andThen_def split_beta)
  let ?r3 = "r2\<lparr>store_changes_sock := (store_changes_sock r2)\<lparr>inbox := fs\<rparr>\<rparr>"
  have "receive_store_change V c reg wall r2 = (Inl ?err, ?r3)"
    using r1(2) r2(2) by (simp add: receive_store_change_def ProcessStoreChangeMessage_def open_envelope_def Envelope_of_zmq_def andThen_def)
  with r1 r2 have p: "Pump_op ?V (?env (waits s + 1) (r, now)) = (Inl ?err, (?r3, ?now))"
    by (simp add: reactor_ops_def PersistedStateReactor_Pump_def poll_none_def andThen_def)
  have "\<exists>s'. AsyncExecStart cw ?env ?V s = Some (Inr (thread_status ?err), s') \<and> \<not> dev_running s' \<and> dev s' = (?r3, ?now)"
    using assms(1) by (intro first_pump_ends [where cw = cw and s = s and V = ?V and env = ?env, OF assms(3,4) _ _ p]) (simp_all add: reactor_ops_def)
  with r1(4) r2(3) show ?thesis by (auto simp: thread_status_def)
qed

text \<open>
  C25: no change of the store is ever told to a subscriber. The watcher puts an empty frame before the
  message, and a reactor takes one frame for the message: it finds it too short to be an envelope and
  throws, and its thread ends, with the subscriptions it has and without having sent anything.
\<close>

theorem change_ends_reactor:
  assumes "\<forall>x \<in> set (place_names p). is_name x" "modifiable a p" "change_path ch = place_path p" "change_action ch = a"
    "\<And>e. Serializable c e" "send_results (wa_logging_sock w) = []" "send_results (change_sock w) = []" "sent (change_sock w) = []"
    "send_results output = []" "sent output = []"
    "handle_change (server_watcher c) fs garbage ch w = (x, w')"
    "TransferMessage (input\<lparr>inbox := sent (change_sock w')\<rparr>) output = (ok, input', output')"
    "arrive (waits s + 1) = (sent output', [], [])"
    "dev s = (r, now)" "poll_none r" "\<not> cw (waits s)" "\<not> cw (waits s + 1)"
  shows "x = Inr () \<and> ok \<and> sent output' \<noteq> [] \<and>
    (\<exists>s'. AsyncExecStart cw (reactor_env arrive elapsed) (reactor_ops V c reg wall) s = Some (Inr 1, s') \<and>
      \<not> dev_running s' \<and> pr_client_sock (fst (dev s')) = pr_client_sock r)"
proof -
  let ?m = "place_message a p (told_size w fs garbage (place_path p))"
  let ?fs = "[([], True), (wire_bytes c (watcher_clock w) (made_envelopes w) ?m, False)]"
  from place_handled [OF assms(1-7), of fs garbage] assms(11) have x: "x = Inr ()"
    and sent: "sent (change_sock w') = ?fs" using assms(8) by (auto simp: announces_def)
  have out: "ok" "sent output' = ?fs"
    using assms(9,10,12) by (auto simp: sent TransferMessage_def send_def more_flag_def no_flags_def)
  from empty_frame_ends_reactor [where cw = cw and s = s and arrive = arrive, OF assms(14-17) assms(13) [unfolded out(2)]] x out show ?thesis by simp
qed

lemma change_ends_reactor_witness:
  "\<exists>w' input' output' s'.
     handle_change (server_watcher sample_codec) sample_tree \<lparr>type = UNKNOWN, size = 7\<rparr>
       \<lparr>change_path = ''/b'', change_action = ADDED\<rparr> sample_watcher = (Inr (), w') \<and>
     TransferMessage (quiet_socket (sent (change_sock w'))) (quiet_socket []) = (True, input', output') \<and>
     AsyncExecStart (\<lambda>k. 9 \<le> k) (reactor_env (\<lambda>_. (sent output', [], [])) (\<lambda>_. 10))
       (reactor_ops (sds_ops sample_codec) sample_codec sample_types 0) (sample_device (sample_reactor sample_manager [] [], 0)) =
     Some (Inr 1, s')"
proof -
  let ?ch = "\<lparr>change_path = ''/b'', change_action = ADDED\<rparr>" and ?g = "\<lparr>type = UNKNOWN, size = 7\<rparr>"
  have p: "\<forall>x \<in> set (place_names (InBucket ''b'')). is_name x" "modifiable ADDED (InBucket ''b'')"
    "change_path ?ch = place_path (InBucket ''b'')" "change_action ?ch = ADDED" "\<And>e. Serializable sample_codec e"
    using sample_names by (simp_all add: modifiable_def path_defs)
  have q: "send_results (wa_logging_sock sample_watcher) = []" "send_results (change_sock sample_watcher) = []"
    "sent (change_sock sample_watcher) = []" "send_results (quiet_socket []) = []" "sent (quiet_socket []) = []"
    by (simp_all add: sample_watcher_def quiet_socket_def)
  obtain x w' where h: "handle_change (server_watcher sample_codec) sample_tree ?g ?ch sample_watcher = (x, w')"
    by (cases "handle_change (server_watcher sample_codec) sample_tree ?g ?ch sample_watcher")
  obtain ok input' output' where
    t: "TransferMessage ((quiet_socket [])\<lparr>inbox := sent (change_sock w')\<rparr>) (quiet_socket []) = (ok, input', output')"
    by (cases "TransferMessage ((quiet_socket [])\<lparr>inbox := sent (change_sock w')\<rparr>) (quiet_socket [])")
  have e: "dev (sample_device (sample_reactor sample_manager [] [], 0)) = (sample_reactor sample_manager [] [], 0)"
    "poll_none (sample_reactor sample_manager [] [])"
    "waits (sample_device (sample_reactor sample_manager [] [], 0)) = 0"
    by (simp_all add: sample_reactor_def quiet_socket_def sample_device_def poll_none_def)
  from change_ends_reactor [where cw = "\<lambda>k. 9 \<le> k" and arrive = "\<lambda>_. (sent output', [], [])" and elapsed = "\<lambda>_. 10"
      and V = "sds_ops sample_codec" and reg = sample_types and wall = 0, OF p q h t refl e(1,2)] e(3) h t
  show ?thesis by (auto simp: quiet_socket_def)
qed

end
