(* ===== verification/Conditional_Wait.thy ===== *)
theory Conditional_Wait
  imports Prelude
begin

text \<open>
  The condition variable of the platform layer (\<open>ConditionalWait\<close> in src/zippylog/platform.cpp, the POSIX
  branch): a flag that, once signalled, lets every wait return at once. The system's condition is a
  parameter: what \<open>pthread_cond_timedwait\<close> returns for a deadline after it is no longer interrupted.
\<close>

datatype cond_result = Woken | TimedOut | Failed nat

record ConditionalWait =
  cw_signaled :: bool

definition new_ConditionalWait :: ConditionalWait where
  "new_ConditionalWait = \<lparr>cw_signaled = False\<rparr>"

definition Signal :: "ConditionalWait \<Rightarrow> bool \<times> ConditionalWait" where
  "Signal cw = (True, cw\<lparr>cw_signaled := True\<rparr>)"

definition Reset :: "ConditionalWait \<Rightarrow> bool \<times> ConditionalWait" where
  "Reset cw = (True, cw\<lparr>cw_signaled := False\<rparr>)"

text \<open>
  The deadline, from the time \<open>(sec, usec)\<close> of the system. A count of nanoseconds that is exactly one
  second is not carried over.
\<close>

definition wait_deadline :: "int \<times> int \<Rightarrow> int \<Rightarrow> int \<times> int" where
  "wait_deadline now microseconds =
     (case now of (sec, usec) \<Rightarrow>
        let sec = sec + microseconds div 1000000; nsec = usec * 1000 + 1000 * (microseconds mod 1000000) in
        if nsec > 1000000000 then (sec + 1, nsec - 1000000000) else (sec, nsec))"

text \<open>Adding an error number to a string literal moves the start of the message.\<close>

definition unknown_result :: "nat \<Rightarrow> exn" where
  "unknown_result n =
     (let s = ''Unknown result code from pthread_cond_timedwait(): '' in
      if n \<le> length s then LogicError (drop n s) else Undefined ''string literal'')"

text \<open>\<open>busy\<close> is whether another thread holds the mutex. A wait without a deadline ends by being woken.\<close>

definition Wait :: "bool \<Rightarrow> int \<times> int \<Rightarrow> (int \<times> int \<Rightarrow> cond_result) \<Rightarrow> int \<Rightarrow> ConditionalWait \<Rightarrow> bool res" where
  "Wait busy now timedwait microseconds cw =
     (if microseconds < - 1 then Inl (InvalidArgument ''timeout cannot be less than -1'')
      else if cw_signaled cw then Inr True
      else if microseconds = - 1 then Inr True
      else if microseconds = 0 \<and> busy then Inr False
      else
        (case timedwait (wait_deadline now microseconds) of
           Woken \<Rightarrow> Inr True
         | TimedOut \<Rightarrow> Inr False
         | Failed n \<Rightarrow> Inl (unknown_result n)))"

text \<open>
  With a system that refuses, with the error EINVAL (22), exactly the deadlines whose nanoseconds are
  not below one second, a wait with a timeout that is not negative throws when the nanoseconds of the
  deadline add up to exactly one second, and in no other case; and one that is signalled never fails.
\<close>

lemma wait_fails_on_full_second:
  assumes "0 \<le> usec" "usec < 1000000" "0 \<le> microseconds"
    "\<And>s n. timedwait (s, n) = Failed 22 \<longleftrightarrow> \<not> (0 \<le> n \<and> n < 1000000000)"
    "\<And>ts e. timedwait ts = Failed e \<Longrightarrow> e = 22"
  shows "if \<not> cw_signaled cw \<and> usec + microseconds mod 1000000 = 1000000
    then Wait busy (sec, usec) timedwait microseconds cw = Inl (LogicError ''om pthread_cond_timedwait(): '')
    else \<exists>b. Wait busy (sec, usec) timedwait microseconds cw = Inr b \<and> (cw_signaled cw \<longrightarrow> b)"
proof -
  let ?m = "microseconds mod 1000000"
  have m: "0 \<le> ?m" "?m < 1000000" by simp_all
  obtain s n where d: "wait_deadline (sec, usec) microseconds = (s, n)" by (cases "wait_deadline (sec, usec) microseconds")
  then have n: "\<not> (0 \<le> n \<and> n < 1000000000) \<longleftrightarrow> usec + ?m = 1000000"
    using assms(1,2) m by (auto simp: wait_deadline_def Let_def split: if_splits)
  have u: "unknown_result 22 = LogicError ''om pthread_cond_timedwait(): ''" by code_simp
  show ?thesis
  proof (cases "usec + ?m = 1000000")
    case True
    with n assms(4) have "timedwait (s, n) = Failed 22" by simp
    moreover have "microseconds \<noteq> 0" using True assms(2) by auto
    ultimately show ?thesis using True assms(3) by (auto simp: Wait_def d u)
  next
    case False
    with n assms(4) have "timedwait (s, n) \<noteq> Failed 22" by simp
    with assms(5) have "\<exists>b. (case timedwait (s, n) of Woken \<Rightarrow> Inr True | TimedOut \<Rightarrow> Inr False | Failed k \<Rightarrow> Inl (unknown_result k)) = Inr b"
      by (cases "timedwait (s, n)") auto
    with False assms(3) show ?thesis by (auto simp: Wait_def d)
  qed
qed

lemma wait_fails_on_full_second_witness:
  "Wait False (7, 999990) (\<lambda>(s, n). if 0 \<le> n \<and> n < 1000000000 then TimedOut else Failed 22) 10 new_ConditionalWait =
   Inl (LogicError ''om pthread_cond_timedwait(): '')"
proof -
  let ?t = "\<lambda>(s :: int, n). if 0 \<le> n \<and> n < (1000000000 :: int) then TimedOut else Failed 22"
  have t: "\<And>s n. ?t (s, n) = Failed 22 \<longleftrightarrow> \<not> (0 \<le> n \<and> n < 1000000000)" "\<And>ts e. ?t ts = Failed e \<Longrightarrow> e = 22"
    by (auto split: if_splits prod.splits)
  have r: "(0 :: int) \<le> 999990" "(999990 :: int) < 1000000" "(0 :: int) \<le> 10" by simp_all
  from wait_fails_on_full_second [OF r t, where cw = new_ConditionalWait and busy = False and sec = 7] show ?thesis
    by (simp add: new_ConditionalWait_def)
qed

end
