(* ===== verification/Server_State.thy ===== *)
theory Server_State
  imports Conditional_Wait Store_Writer Server_Worker Reactor_Device Store_Watcher
begin

text \<open>
  The server device (src/zippylog/device/server.cpp, server.hpp): its parameters and state, its
  construction, its start with the devices it makes, and its shutdown.
\<close>

section \<open>Parameters\<close>

record ServerStartParams =
  sp_active :: bool
  sp_ctx :: bool
  sp_store_path :: string
  sp_listen_endpoints :: "string list"
  worker_threads :: u32
  persisted_state_reactor_threads :: u32
  sp_subscription_ttl :: u32
  sp_log_bucket :: string
  sp_log_stream_set :: string
  sp_stream_flush_interval :: int
  sp_lua_execute_client_code :: bool
  sp_lua_streaming_max_memory :: u32

definition default_server_params :: ServerStartParams where
  "default_server_params = \<lparr>sp_active = False, sp_ctx = False, sp_store_path = [], sp_listen_endpoints = [],
     worker_threads = 2, persisted_state_reactor_threads = 1, sp_subscription_ttl = 60000,
     sp_log_bucket = ''zippylog'', sp_log_stream_set = ''server'', sp_stream_flush_interval = 5000,
     sp_lua_execute_client_code = False, sp_lua_streaming_max_memory = 524288\<rparr>"

section \<open>State\<close>

text \<open>
  The sockets inside the process have endpoints made of the server's id and a descriptor. The devices are
  those of the other theories in the run loop's record; a pointer to one is an option. \<open>server_clock\<close>
  gives the creation times of the log envelopes, as often as \<open>server_made\<close> counts.
\<close>

datatype inproc =
    WORKERS | STREAMING | LOGGER | WORKER_SUBSCRIPTIONS | STREAMING_SUBSCRIPTIONS | WORKER_STREAMING_NOTIFY
  | STREAMING_STREAMING_NOTIFY | STORE_WRITER_PULL | STORE_WRITER_REP | STORE_CHANGES_INPUT | STORE_CHANGES_OUTPUT

fun descriptor :: "inproc \<Rightarrow> string" where
  "descriptor WORKERS = ''workers''"
| "descriptor STREAMING = ''streaming''"
| "descriptor LOGGER = ''logger''"
| "descriptor WORKER_SUBSCRIPTIONS = ''worker_subscriptions''"
| "descriptor STREAMING_SUBSCRIPTIONS = ''streaming_subscriptions''"
| "descriptor WORKER_STREAMING_NOTIFY = ''worker_streaming_notify''"
| "descriptor STREAMING_STREAMING_NOTIFY = ''streaming_notify''"
| "descriptor STORE_WRITER_PULL = ''store_writer_envelope_pull''"
| "descriptor STORE_WRITER_REP = ''store_writer_envelope_rep''"
| "descriptor STORE_CHANGES_INPUT = ''store_changes_input''"
| "descriptor STORE_CHANGES_OUTPUT = ''store_changes_output''"

record Server =
  sv_id :: string
  uuid_text :: string
  sv_store_path :: string
  listen_endpoints :: "string list"
  number_worker_threads :: u32
  number_persisted_reactor_threads :: u32
  sv_subscription_ttl :: u32
  log_bucket :: string
  log_stream_set :: string
  write_logs :: bool
  stream_flush_interval :: int
  lua_execute_client_code :: bool
  lua_streaming_max_memory :: u32
  sv_store :: Store
  start_started :: bool
  sv_initialized :: bool
  sv_active :: ConditionalWait
  own_context :: bool
  workers_sock :: "socket option"
  clients_sock :: "socket option"
  streaming_sock :: "socket option"
  worker_subscriptions_sock :: "socket option"
  streaming_subscriptions_sock :: "socket option"
  worker_streaming_notify_sock :: "socket option"
  streaming_streaming_notify_sock :: "socket option"
  store_changes_input_sock :: "socket option"
  store_changes_output_sock :: "socket option"
  sv_logger_sock :: "socket option"
  log_client_sock :: "socket option"
  stream_flush_timer :: Timer
  thread_check_timer :: Timer
  sv_writer :: "store_writer device option"
  sv_watcher :: "watcher device option"
  request_processors :: "server_impl rp device option list"
  persisted_state_reactors :: "reactor device option list"
  server_clock :: "nat \<Rightarrow> u64"
  server_made :: nat

definition inproc_endpoint :: "Server \<Rightarrow> inproc \<Rightarrow> string" where
  "inproc_endpoint s e = ''inproc://'' @ uuid_text s @ descriptor e"

text \<open>\<open>uuid\<close> is what \<open>CreateUUID\<close> and \<open>FormatUUID\<close> give. A product that overflows an \<open>int\<close> wraps.\<close>

definition new_Server :: "FileType \<Rightarrow> filesystem \<Rightarrow> string \<times> string \<Rightarrow> (nat \<Rightarrow> u64) \<Rightarrow> ServerStartParams \<Rightarrow> Server res" where
  "new_Server garbage fs uuid clock p =
     (if \<not> sp_active p then Inl (InvalidArgument ''ConditionalWait parameter not defined'')
      else if sp_listen_endpoints p = [] then Inl (InvalidArgument ''a listen endpoint must be defined to create a server'')
      else if sp_store_path p = [] then Inl (InvalidArgument ''a store path must be defined to create a server'')
      else
        rbind (CreateStore garbage fs (sp_store_path p)) (\<lambda>store.
          Inr \<lparr>sv_id = fst uuid, uuid_text = snd uuid, sv_store_path = sp_store_path p,
               listen_endpoints = sp_listen_endpoints p, number_worker_threads = worker_threads p,
               number_persisted_reactor_threads = persisted_state_reactor_threads p,
               sv_subscription_ttl = sp_subscription_ttl p, log_bucket = sp_log_bucket p,
               log_stream_set = sp_log_stream_set p,
               write_logs = (length (sp_log_bucket p) \<noteq> 0 \<and> length (sp_log_stream_set p) \<noteq> 0),
               stream_flush_interval = to_int32 (sp_stream_flush_interval p * 1000),
               lua_execute_client_code = sp_lua_execute_client_code p,
               lua_streaming_max_memory = sp_lua_streaming_max_memory p, sv_store = store,
               start_started = False, sv_initialized = False, sv_active = new_ConditionalWait,
               own_context = (\<not> sp_ctx p), workers_sock = None, clients_sock = None, streaming_sock = None,
               worker_subscriptions_sock = None, streaming_subscriptions_sock = None,
               worker_streaming_notify_sock = None, streaming_streaming_notify_sock = None,
               store_changes_input_sock = None, store_changes_output_sock = None, sv_logger_sock = None,
               log_client_sock = None, stream_flush_timer = new_Timer (word_of_int (sp_stream_flush_interval p * 1000)),
               thread_check_timer = new_Timer 5000000, sv_writer = None, sv_watcher = None,
               request_processors = [], persisted_state_reactors = [], server_clock = clock, server_made = 0\<rparr>))"

section \<open>Logging\<close>

text \<open>
  \<open>LOG_MESSAGE\<close> sends through a socket pointer, and does not look at the result. The socket is connected to
  the server's own logger socket: a message arrives there when all its frames have been sent.
\<close>

definition whole :: "(string \<times> bool) list \<Rightarrow> (string \<times> bool) list" where
  "whole fs = rev (dropWhile snd (rev fs))"

definition deliver :: "(string \<times> bool) list \<Rightarrow> socket option \<Rightarrow> socket option" where
  "deliver fs = map_option (\<lambda>k. k\<lparr>inbox := inbox k @ fs\<rparr>)"

definition server_logs :: "codec \<Rightarrow> server_log \<Rightarrow> (Server, unit) action" where
  "server_logs c l s =
     (let e = add_to_envelope c (ServerLog l (sv_id s)) (new_Envelope (server_clock s (server_made s)));
          s = s\<lparr>server_made := server_made s + 1\<rparr> in
      case log_client_sock s of
        None \<Rightarrow> throw (Undefined ''null socket'') s
      | Some sock \<Rightarrow>
          let (_, sock') = SendEnvelope_pointer c e False \<lparr>SNDMORE = False, DONTWAIT = True\<rparr> sock;
              arrived = drop (length (whole (sent sock))) (whole (sent sock'))
          in ret () (s\<lparr>log_client_sock := Some sock', sv_logger_sock := deliver arrived (sv_logger_sock s)\<rparr>))"

section \<open>Devices\<close>

text \<open>
  What the system gives the server at a time: which endpoints it can bind, new sockets, what inotify and
  an uninitialised \<open>FileStat\<close> hold, ids, the clocks, and whether threads are alive and can be joined.
\<close>

record system =
  can_bind :: "string \<Rightarrow> bool"
  fresh_socket :: socket
  inotify_of :: "(nat \<Rightarrow> string \<Rightarrow> int) \<times> int"
  sys_garbage :: FileType
  device_id :: string
  id_at :: "nat \<Rightarrow> string"
  clock_at :: "nat \<Rightarrow> u64"
  thread_alive :: bool
  thread_joins :: bool
  monotonic :: nat
  wall :: "int \<times> int"

definition address_in_use :: exn where
  "address_in_use = RuntimeException ''Address already in use''"

text \<open>
  \<open>RunAsync\<close> and what the new thread does until it lets the caller go on: it is running then. A device
  whose thread ends before that never lets the caller go on.
\<close>

definition launch :: "ConditionalWait \<Rightarrow> 'd device \<Rightarrow> 'd device res" where
  "launch cw h =
     (case RunAsync (\<lambda>_. cw_signaled cw) h of
        (Inl x, _) \<Rightarrow> Inl x
      | (Inr False, h) \<Rightarrow> Inr h
      | (Inr True, h) \<Rightarrow> Inr (h\<lparr>dev_running := True, has_ran := True, async_signaled := True\<rparr>))"

definition device_of :: "'d res \<Rightarrow> 'd device res" where
  "device_of r = rbind r (new_Device True)"

end
