(* ===== verification/Server_Device.thy ===== *)
theory Server_Device
  imports Server_State
begin

text \<open>
  The operations of the server device (src/zippylog/device/server.cpp): \<open>Start\<close> with the devices it makes,
  the check of the devices, \<open>Shutdown\<close>, the hooks of the run loop, and \<open>Pump\<close>, which moves one message.
\<close>

section \<open>Start\<close>

definition bind_socket :: "system \<Rightarrow> inproc \<Rightarrow> (socket \<Rightarrow> Server \<Rightarrow> Server) \<Rightarrow> (Server, unit) action" where
  "bind_socket y e put s =
     (if can_bind y (c_str (inproc_endpoint s e)) then ret () (put (fresh_socket y) s)
      else throw address_in_use (put (fresh_socket y) s))"

definition open_sockets :: "system \<Rightarrow> (Server, unit) action" where
  "open_sockets y =
     seq (bind_socket y LOGGER (\<lambda>k s. s\<lparr>sv_logger_sock := Some k\<rparr>))
     (seq (modify (\<lambda>s. s\<lparr>log_client_sock := Some (fresh_socket y)\<rparr>))
     (seq (bind_socket y WORKERS (\<lambda>k s. s\<lparr>workers_sock := Some k\<rparr>))
     (seq (bind_socket y STREAMING (\<lambda>k s. s\<lparr>streaming_sock := Some k\<rparr>))
     (seq (bind_socket y WORKER_SUBSCRIPTIONS (\<lambda>k s. s\<lparr>worker_subscriptions_sock := Some k\<rparr>))
     (seq (bind_socket y WORKER_STREAMING_NOTIFY (\<lambda>k s. s\<lparr>worker_streaming_notify_sock := Some k\<rparr>))
     (seq (bind_socket y STREAMING_SUBSCRIPTIONS (\<lambda>k s. s\<lparr>streaming_subscriptions_sock := Some k\<rparr>))
     (seq (bind_socket y STREAMING_STREAMING_NOTIFY (\<lambda>k s. s\<lparr>streaming_streaming_notify_sock := Some k\<rparr>))
     (seq (bind_socket y STORE_CHANGES_INPUT (\<lambda>k s. s\<lparr>store_changes_input_sock := Some k\<rparr>))
     (bind_socket y STORE_CHANGES_OUTPUT (\<lambda>k s. s\<lparr>store_changes_output_sock := Some k\<rparr>))))))))))"

text \<open>A device behind a pointer is in its place before it runs; one of a vector is added afterwards.\<close>

definition place_device :: "('d device \<Rightarrow> Server \<Rightarrow> Server) \<Rightarrow> 'd device res \<Rightarrow> (Server, unit) action" where
  "place_device put built s =
     (case built of
        Inl x \<Rightarrow> throw x s
      | Inr h \<Rightarrow> (case launch (sv_active s) h of Inl x \<Rightarrow> throw x (put h s) | Inr h \<Rightarrow> ret () (put h s)))"

definition add_device :: "('d device \<Rightarrow> Server \<Rightarrow> Server) \<Rightarrow> 'd device res \<Rightarrow> (Server, unit) action" where
  "add_device put built s =
     (case rbind built (launch (sv_active s)) of Inl x \<Rightarrow> throw x s | Inr h \<Rightarrow> ret () (put h s))"

definition start_writer :: "system \<Rightarrow> (Server, unit) action" where
  "start_writer y s =
     place_device (\<lambda>h s. s\<lparr>sv_writer := Some h\<rparr>)
       (device_of (new_StoreWriter (sys_garbage y) (files (sv_store s)) (fresh_socket y)
         \<lparr>sw_active = True, sw_store_path = sv_store_path s,
          envelope_pull_endpoint = inproc_endpoint s STORE_WRITER_PULL,
          envelope_rep_endpoint = inproc_endpoint s STORE_WRITER_REP\<rparr>)) s"

definition start_watcher :: "codec \<Rightarrow> system \<Rightarrow> (Server, unit) action" where
  "start_watcher c y s =
     place_device (\<lambda>h s. s\<lparr>sv_watcher := Some h\<rparr>)
       (device_of (new_Watcher c (sys_garbage y) (files (sv_store s)) (inotify_of y) (device_id y) (clock_at y) (fresh_socket y)
         \<lparr>wp_active = True, wp_zctx = True, wp_store_path = root_path (sv_store s),
          wp_logging_endpoint = inproc_endpoint s LOGGER\<rparr>)) s"

text \<open>The store sender that the implementation makes besides is never used.\<close>

definition new_ServerRequestProcessor :: "system \<Rightarrow> server_impl" where
  "new_ServerRequestProcessor y =
     \<lparr>subscriptions_sock = fresh_socket y, subscription_updates_sock = fresh_socket y, uuid_at = id_at y,
      sr_now = clock_at y, created = 0\<rparr>"

definition CreateRequestProcessorDevice :: "server_impl rp_env \<Rightarrow> system \<Rightarrow> (Server, bool) action" where
  "CreateRequestProcessorDevice E y s =
     andThen (add_device (\<lambda>h s. s\<lparr>request_processors := request_processors s @ [Some h]\<rparr>)
       (device_of (new_RequestProcessor E
         (default_params\<lparr>store_path := sv_store_path s, has_ctx := True, has_implementation := True\<rparr>)
         (sys_garbage y) (files (sv_store s)) (device_id y) (new_ServerRequestProcessor y) (fresh_socket y) (fresh_socket y) (clock_at y))))
       (\<lambda>_. ret True) s"

definition CreatePersistedStateReactorDevice :: "codec \<Rightarrow> system \<Rightarrow> (Server, bool) action" where
  "CreatePersistedStateReactorDevice c y s =
     andThen (add_device (\<lambda>h s. s\<lparr>persisted_state_reactors := persisted_state_reactors s @ [Some h]\<rparr>)
       (device_of (new_PersistedStateReactor (sds_ops c) (sys_garbage y) (files (sv_store s)) (fresh_socket y)
         \<lparr>pr_ctx = True, pr_active = True, store_change_endpoint = inproc_endpoint s STORE_CHANGES_OUTPUT,
          client_endpoint = inproc_endpoint s STREAMING, subscription_endpoint = inproc_endpoint s STREAMING_SUBSCRIPTIONS,
          subscription_updates_endpoint = inproc_endpoint s STREAMING_STREAMING_NOTIFY,
          logger_endpoint = inproc_endpoint s LOGGER,
          manager_params = new_psm_params\<lparr>pp_store_uri := sv_store_path s, pp_subscription_ttl := sv_subscription_ttl s,
            pp_lua_allow := lua_execute_client_code s, pp_lua_memory_ceiling := lua_streaming_max_memory s\<rparr>\<rparr>)))
       (\<lambda>_. ret True) s"

text \<open>\<open>for (int i = n; i; --i) { if (!f()) return false; }\<close>\<close>

fun times :: "nat \<Rightarrow> (Server, bool) action \<Rightarrow> (Server, bool) action" where
  "times 0 f = ret True"
| "times (Suc n) f = andThen f (\<lambda>ok. if ok then times n f else ret False)"

definition start_timer :: "(Server \<Rightarrow> Timer) \<Rightarrow> (Timer \<Rightarrow> Server \<Rightarrow> Server) \<Rightarrow> system \<Rightarrow> string \<Rightarrow> (Server, unit) action" where
  "start_timer timer put y error s =
     (let (ok, t) = Timer_Start (monotonic y) 0 (timer s) in
      if ok then ret () (put t s) else throw (RuntimeException error) (put t s))"

abbreviation put_flush_timer :: "Timer \<Rightarrow> Server \<Rightarrow> Server" where
  "put_flush_timer t s \<equiv> s\<lparr>stream_flush_timer := t\<rparr>"

abbreviation put_check_timer :: "Timer \<Rightarrow> Server \<Rightarrow> Server" where
  "put_check_timer t s \<equiv> s\<lparr>thread_check_timer := t\<rparr>"

definition listen :: "system \<Rightarrow> (Server, unit) action" where
  "listen y s =
     for_each (\<lambda>e. if can_bind y (c_str e) then ret () else throw address_in_use) (listen_endpoints s)
       (s\<lparr>clients_sock := Some (fresh_socket y)\<rparr>)"

definition Start :: "server_impl rp_env \<Rightarrow> system \<Rightarrow> (Server, bool) action" where
  "Start E y s =
     (if start_started s \<and> \<not> sv_initialized s
      then throw (RuntimeException ''Start() already called but it hasn't finished yet'') s
      else if sv_initialized s then ret True s
      else
        seq (open_sockets y) (seq (start_writer y) (seq (start_watcher (cdc E) y)
          (andThen (times (unat (number_worker_threads s)) (CreateRequestProcessorDevice E y)) (\<lambda>ok. if \<not> ok then ret False else
           andThen (times (unat (number_persisted_reactor_threads s)) (CreatePersistedStateReactorDevice (cdc E) y)) (\<lambda>ok.
             if \<not> ok then ret False else
             seq (listen y)
             (seq (start_timer stream_flush_timer put_flush_timer y ''could not start stream flush timer'')
             (seq (start_timer thread_check_timer put_check_timer y ''TODO handle failure to start time'')
             (seq (modify (\<lambda>s. s\<lparr>sv_initialized := True\<rparr>)) (ret True)))))))))
          (s\<lparr>start_started := True, sv_active := snd (Reset (sv_active s))\<rparr>))"

section \<open>Shutdown\<close>

text \<open>
  \<open>StopAsync\<close> and the deletion of devices, which leave null pointers; an exception leaves the rest of
  them as they are.
\<close>

fun stop_all :: "system \<Rightarrow> 'd device option list \<Rightarrow> unit res \<times> 'd device option list" where
  "stop_all y [] = (Inr (), [])"
| "stop_all y (None # hs) = (Inl (Undefined ''null device''), None # hs)"
| "stop_all y (Some h # hs) =
     (case StopAsync (thread_alive y) (thread_joins y) h of
        (Inl x, h) \<Rightarrow> (Inl x, Some h # hs)
      | (Inr _, _) \<Rightarrow> (let (x, hs) = stop_all y hs in (x, None # hs)))"

definition stop_pointer :: "system \<Rightarrow> 'd device option \<Rightarrow> unit res \<times> 'd device option" where
  "stop_pointer y h =
     (case h of
        None \<Rightarrow> (Inr (), None)
      | Some h \<Rightarrow>
          (case StopAsync (thread_alive y) (thread_joins y) h of
             (Inl x, h) \<Rightarrow> (Inl x, Some h)
           | (Inr _, _) \<Rightarrow> (Inr (), None)))"

definition stop_processors :: "system \<Rightarrow> (Server, unit) action" where
  "stop_processors y s =
     (case stop_all y (request_processors s) of
        (Inl x, hs) \<Rightarrow> throw x (s\<lparr>request_processors := hs\<rparr>)
      | (Inr _, _) \<Rightarrow> ret () (s\<lparr>request_processors := []\<rparr>))"

definition stop_reactors :: "system \<Rightarrow> (Server, unit) action" where
  "stop_reactors y s =
     (case stop_all y (persisted_state_reactors s) of
        (Inl x, hs) \<Rightarrow> throw x (s\<lparr>persisted_state_reactors := hs\<rparr>)
      | (Inr _, _) \<Rightarrow> ret () (s\<lparr>persisted_state_reactors := []\<rparr>))"

definition stop_watcher :: "system \<Rightarrow> (Server, unit) action" where
  "stop_watcher y s = (let (x, h) = stop_pointer y (sv_watcher s) in (x, s\<lparr>sv_watcher := h\<rparr>))"

definition stop_writer :: "system \<Rightarrow> (Server, unit) action" where
  "stop_writer y s = (let (x, h) = stop_pointer y (sv_writer s) in (x, s\<lparr>sv_writer := h\<rparr>))"

definition Shutdown :: "system \<Rightarrow> (Server, unit) action" where
  "Shutdown y =
     seq (modify (\<lambda>s. s\<lparr>sv_active := snd (Signal (sv_active s))\<rparr>))
     (seq (stop_processors y) (seq (stop_reactors y) (seq (stop_watcher y) (stop_writer y))))"

definition stopped :: "'d device option \<Rightarrow> bool" where
  "stopped h \<longleftrightarrow> (case h of None \<Rightarrow> True | Some h \<Rightarrow> \<not> dev_running h)"

fun any_stopped :: "'d device option list \<Rightarrow> bool res" where
  "any_stopped [] = Inr False"
| "any_stopped (None # hs) = Inl (Undefined ''null device'')"
| "any_stopped (Some h # hs) = (if \<not> dev_running h then Inr True else any_stopped hs)"

definition CheckDevices :: "system \<Rightarrow> (Server, unit) action" where
  "CheckDevices y s =
     (if stopped (sv_writer s) then Shutdown y s
      else if stopped (sv_watcher s) then Shutdown y s
      else
        andThen (lift_res (any_stopped (request_processors s))) (\<lambda>dead.
          if dead then Shutdown y
          else andThen (lift_res (any_stopped (persisted_state_reactors s))) (\<lambda>dead. if dead then Shutdown y else ret ())) s)"

text \<open>The destructor shuts down and deletes the sockets and the store, which flushes it.\<close>

definition delete_Server :: "system \<Rightarrow> Server \<Rightarrow> unit res \<times> filesystem" where
  "delete_Server y s = (case Shutdown y s of (Inl x, s) \<Rightarrow> (Inl x, files (sv_store s)) | (Inr _, s) \<Rightarrow> (Inr (), delete_Store (sv_store s)))"

section \<open>Hooks\<close>

definition Server_OnFirstRun :: "server_impl rp_env \<Rightarrow> system \<Rightarrow> (Server, unit) action" where
  "Server_OnFirstRun E y =
     andThen (Start E y) (\<lambda>_ s. server_logs (cdc E) (ServerCreate (sv_store_path s) (listen_endpoints s)) s)"

definition Server_OnRunStart :: "server_impl rp_env \<Rightarrow> system \<Rightarrow> (Server, unit) action" where
  "Server_OnRunStart E y = andThen (Start E y) (\<lambda>_. server_logs (cdc E) ServerRunStart)"

definition Server_OnRunFinish :: "codec \<Rightarrow> system \<Rightarrow> (Server, unit) action" where
  "Server_OnRunFinish c y = seq (Shutdown y) (server_logs c ServerRunFinish)"

section \<open>The pump\<close>

definition on_store :: "(Store, 'a) action \<Rightarrow> (Server, 'a) action" where
  "on_store f s = (let (x, st) = f (sv_store s) in (x, s\<lparr>sv_store := st\<rparr>))"

text \<open>The two background activities; their result is whether they were due.\<close>

definition flush_streams :: "codec \<Rightarrow> system \<Rightarrow> (Server, bool) action" where
  "flush_streams c y s =
     (let (due, t) = Timer_Signaled (monotonic y) (stream_flush_timer s); s = s\<lparr>stream_flush_timer := t\<rparr> in
      if \<not> due then ret False s
      else
        seq (server_logs c ServerFlushOutputStreams)
        (seq (andThen (on_store FlushOutputStreams) (\<lambda>_. ret ()))
        (seq (start_timer stream_flush_timer put_flush_timer y ''could not restart stream flush timer'') (ret True))) s)"

definition check_threads :: "system \<Rightarrow> (Server, bool) action" where
  "check_threads y s =
     (let (due, t) = Timer_Signaled (monotonic y) (thread_check_timer s); s = s\<lparr>thread_check_timer := t\<rparr> in
      if \<not> due then ret False s
      else
        seq (CheckDevices y)
        (seq (start_timer thread_check_timer put_check_timer y ''TODO handle failure of timer to start'') (ret True)) s)"

text \<open>Every frame of a log message is written as an envelope of its own; the result is whether a receive failed.\<close>

fun log_frames :: "(string \<Rightarrow> (Store, unit) action) \<Rightarrow> (string \<times> bool) list \<Rightarrow> Store \<Rightarrow> bool res \<times> (string \<times> bool) list \<times> Store" where
  "log_frames W [] st = (Inr True, [], st)"
| "log_frames W ((msg, rcvmore) # fs) st =
     (case W msg st of
        (Inl x, st) \<Rightarrow> (Inl x, fs, st)
      | (Inr _, st) \<Rightarrow> if \<not> rcvmore then (Inr False, fs, st) else log_frames W fs st)"

definition write_log :: "codec \<Rightarrow> system \<Rightarrow> Server \<Rightarrow> string \<Rightarrow> (Store, unit) action" where
  "write_log c y s msg =
     (if write_logs s
      then andThen (Store_WriteEnvelope_data (sds_ops c) c (wall y) (log_bucket s) (log_stream_set s) msg (- 1)) (\<lambda>_. ret ())
      else ret ())"

definition receive_log :: "codec \<Rightarrow> system \<Rightarrow> socket \<Rightarrow> (Server, PumpResult) action" where
  "receive_log c y sock s =
     (let (x, fs, st) = log_frames (write_log c y s) (inbox sock) (sv_store s);
          s = s\<lparr>sv_logger_sock := Some (sock\<lparr>inbox := fs\<rparr>), sv_store := st\<rparr> in
      case x of
        Inl e \<Rightarrow> throw e s
      | Inr error \<Rightarrow> ret (if error then MakeError_pump else MakeWorkDone) s)"

text \<open>
  Moving a message between two of the sockets, with what is logged if it has been moved. The sockets to the
  clients, for store changes and for notices (\<open>XREP\<close>, \<open>PUB\<close>) never wait in \<open>send\<close>; the others (\<open>XREQ\<close> to
  the workers, \<open>PUSH\<close> to the reactors) wait while nothing is connected to them. A device connects when
  it is made and is connected until it is deleted; only this thread makes and deletes devices, so that
  a send to none never ends, with the first frame already received.
\<close>

definition workers_connected :: "Server \<Rightarrow> bool" where
  "workers_connected s \<longleftrightarrow> (\<exists>h \<in> set (request_processors s). h \<noteq> None)"

definition reactors_connected :: "Server \<Rightarrow> bool" where
  "reactors_connected s \<longleftrightarrow> (\<exists>h \<in> set (persisted_state_reactors s). h \<noteq> None)"

definition never_waits :: "Server \<Rightarrow> bool" where
  "never_waits s \<longleftrightarrow> True"

definition move :: "(Server \<Rightarrow> bool) \<Rightarrow> (Server \<Rightarrow> socket option) \<Rightarrow> (socket \<Rightarrow> Server \<Rightarrow> Server) \<Rightarrow> (Server \<Rightarrow> socket option) \<Rightarrow> (socket \<Rightarrow> Server \<Rightarrow> Server) \<Rightarrow>
    (Server, unit) action \<Rightarrow> (Server, PumpResult) action" where
  "move peers src put_from dst put_to logged s =
     (case (src s, dst s) of
        (Some receiver, Some sender) \<Rightarrow>
          if inbox receiver \<noteq> [] \<and> \<not> peers s
          then throw Blocked (put_from (receiver\<lparr>inbox := tl (inbox receiver)\<rparr>) s)
          else
          let (ok, receiver, sender) = TransferMessage receiver sender in
          seq (if ok then logged else ret ()) (ret (if ok then MakeWorkDone else MakeNoWorkDone)) (put_to sender (put_from receiver s))
      | _ \<Rightarrow> throw (Undefined ''null socket'') s)"

definition ready :: "socket option \<Rightarrow> bool" where
  "ready sock \<longleftrightarrow> (case sock of None \<Rightarrow> False | Some k \<Rightarrow> inbox k \<noteq> [])"

abbreviation put_workers :: "socket \<Rightarrow> Server \<Rightarrow> Server" where "put_workers k s \<equiv> s\<lparr>workers_sock := Some k\<rparr>"
abbreviation put_clients :: "socket \<Rightarrow> Server \<Rightarrow> Server" where "put_clients k s \<equiv> s\<lparr>clients_sock := Some k\<rparr>"
abbreviation put_streaming :: "socket \<Rightarrow> Server \<Rightarrow> Server" where "put_streaming k s \<equiv> s\<lparr>streaming_sock := Some k\<rparr>"
abbreviation put_worker_subs :: "socket \<Rightarrow> Server \<Rightarrow> Server" where "put_worker_subs k s \<equiv> s\<lparr>worker_subscriptions_sock := Some k\<rparr>"
abbreviation put_streaming_subs :: "socket \<Rightarrow> Server \<Rightarrow> Server" where "put_streaming_subs k s \<equiv> s\<lparr>streaming_subscriptions_sock := Some k\<rparr>"
abbreviation put_changes_in :: "socket \<Rightarrow> Server \<Rightarrow> Server" where "put_changes_in k s \<equiv> s\<lparr>store_changes_input_sock := Some k\<rparr>"
abbreviation put_changes_out :: "socket \<Rightarrow> Server \<Rightarrow> Server" where "put_changes_out k s \<equiv> s\<lparr>store_changes_output_sock := Some k\<rparr>"
abbreviation put_notify_in :: "socket \<Rightarrow> Server \<Rightarrow> Server" where "put_notify_in k s \<equiv> s\<lparr>worker_streaming_notify_sock := Some k\<rparr>"
abbreviation put_notify_out :: "socket \<Rightarrow> Server \<Rightarrow> Server" where "put_notify_out k s \<equiv> s\<lparr>streaming_streaming_notify_sock := Some k\<rparr>"

text \<open>\<open>poll\<close> reports the sockets on which something has arrived; the first of this order is served.\<close>

definition serve :: "codec \<Rightarrow> system \<Rightarrow> (Server, PumpResult) action" where
  "serve c y s =
     (if ready (sv_logger_sock s) then receive_log c y (the (sv_logger_sock s)) s
      else if ready (workers_sock s)
        then move never_waits workers_sock put_workers clients_sock put_clients (server_logs c ServerSendClientMessage) s
      else if ready (streaming_sock s)
        then move never_waits streaming_sock put_streaming clients_sock put_clients (server_logs c ServerSendClientMessage) s
      else if ready (worker_subscriptions_sock s)
        then move reactors_connected worker_subscriptions_sock put_worker_subs streaming_subscriptions_sock put_streaming_subs (ret ()) s
      else if ready (store_changes_input_sock s)
        then move never_waits store_changes_input_sock put_changes_in store_changes_output_sock put_changes_out (ret ()) s
      else if ready (worker_streaming_notify_sock s)
        then move never_waits worker_streaming_notify_sock put_notify_in streaming_streaming_notify_sock put_notify_out (ret ()) s
      else if ready (clients_sock s)
        then move workers_connected clients_sock put_clients workers_sock put_workers (server_logs c ServerReceiveClientMessage) s
      else ret MakeNoWorkDone s)"

text \<open>
  The poll items are set by \<open>Start\<close>, right after the socket for the clients. The results for work done and
  for none are the same value.
\<close>

definition Server_Pump :: "codec \<Rightarrow> system \<Rightarrow> (Server, PumpResult) action" where
  "Server_Pump c y =
     andThen (flush_streams c y) (\<lambda>flushed.
     andThen (check_threads y) (\<lambda>checked s.
       if clients_sock s = None then throw (Undefined ''poll items not set'') s
       else andThen (serve c y) (\<lambda>r. ret (if is_error r then MakeError_pump else if flushed \<or> checked then MakeWorkDone else r)) s))"

text \<open>The server in the run loop, with the system as it is at the next step.\<close>

definition with_system :: "(system \<Rightarrow> (Server, 'a) action) \<Rightarrow> (Server \<times> system, 'a) action" where
  "with_system f x = (let (r, s) = f (snd x) (fst x) in (r, (s, snd x)))"

definition server_ops :: "server_impl rp_env \<Rightarrow> (Server \<times> system) device_ops" where
  "server_ops E =
     \<lparr>Pump_op = with_system (Server_Pump (cdc E)), OnFirstRun_op = with_system (Server_OnFirstRun E),
      OnRunStart_op = with_system (Server_OnRunStart E), OnRunFinish_op = with_system (Server_OnRunFinish (cdc E))\<rparr>"

end
