(* ===== verification/Server_Check.thy ===== *)
theory Server_Check
  imports Server_Device
begin

text \<open>
  The background activities of the server's pump: the check of its devices, the restart of its timers, and
  the flush of its store's streams (src/zippylog/device/server.cpp).
\<close>

section \<open>The end of a device\<close>

text \<open>Every device that the server has runs in a thread, as \<open>Start\<close> leaves them.\<close>

definition threaded :: "'d device option \<Rightarrow> bool" where
  "threaded h \<longleftrightarrow> (case h of None \<Rightarrow> False | Some h \<Rightarrow> dev_thread h)"

definition attended :: "Server \<Rightarrow> bool" where
  "attended s \<longleftrightarrow> (\<forall>h \<in> set (request_processors s). threaded h) \<and> (\<forall>h \<in> set (persisted_state_reactors s). threaded h) \<and>
     (sv_watcher s = None \<or> threaded (sv_watcher s)) \<and> (sv_writer s = None \<or> threaded (sv_writer s))"

definition some_device_ended :: "Server \<Rightarrow> bool" where
  "some_device_ended s \<longleftrightarrow> stopped (sv_writer s) \<or> stopped (sv_watcher s) \<or>
     (\<exists>h \<in> set (request_processors s). stopped h) \<or> (\<exists>h \<in> set (persisted_state_reactors s). stopped h)"

definition without_devices :: "Server \<Rightarrow> Server" where
  "without_devices s = s\<lparr>sv_active := \<lparr>cw_signaled = True\<rparr>, request_processors := [], persisted_state_reactors := [],
     sv_watcher := None, sv_writer := None\<rparr>"

lemma stop_all_threaded: "\<forall>h \<in> set hs. threaded h \<Longrightarrow> stop_all y hs = (Inr (), map (\<lambda>_. None) hs)"
  by (induction y hs rule: stop_all.induct) (auto simp: threaded_def StopAsync_def)

lemma stop_pointer_threaded: "h = None \<or> threaded h \<Longrightarrow> stop_pointer y h = (Inr (), None)"
  by (cases h) (auto simp: threaded_def stop_pointer_def StopAsync_def)

lemma Shutdown_attended: "attended s \<Longrightarrow> Shutdown y s = (Inr (), without_devices s)"
  by (cases s)
    (simp add: attended_def Shutdown_def andThen_def modify_def Signal_def stop_processors_def stop_reactors_def
      stop_watcher_def stop_writer_def stop_all_threaded stop_pointer_threaded without_devices_def)

lemma any_stopped_threaded: "\<forall>h \<in> set hs. threaded h \<Longrightarrow> any_stopped hs = Inr (\<exists>h \<in> set hs. stopped h)"
  by (induction hs rule: any_stopped.induct) (auto simp: threaded_def stopped_def)

lemma CheckDevices_attended:
  assumes "attended s"
  shows "CheckDevices y s = (Inr (), if some_device_ended s then without_devices s else s)"
proof -
  have "any_stopped (request_processors s) = Inr (\<exists>h \<in> set (request_processors s). stopped h)"
    "any_stopped (persisted_state_reactors s) = Inr (\<exists>h \<in> set (persisted_state_reactors s). stopped h)"
    using assms by (simp_all add: attended_def any_stopped_threaded)
  with Shutdown_attended [OF assms] show ?thesis
    by (auto simp: CheckDevices_def andThen_def lift_res_def some_device_ended_def)
qed

text \<open>The two timers of the server when one of them is due.\<close>

lemma Timer_restarts:
  assumes "Timer_Signaled now t0 = (True, t)" "running t" "initialized t" "0 < microseconds t"
  shows "\<exists>t'. Timer_Start now 0 t = (True, t') \<and> \<not> fst (Timer_Signaled now t')"
proof -
  have "Timer_Start now 0 t = Timer_Start now (microseconds t) t"
    using assms by (simp add: Timer_Start_def Timer_Reset_def Let_def)
  moreover have "fst (Timer_Start now (microseconds t) t)" "\<not> fst (Timer_Signaled now (snd (Timer_Start now (microseconds t) t)))"
    using Timer_Start_deadline(1) [of t "microseconds t" now] Timer_Start_deadline(2) [of t "microseconds t" now now] assms
    by (simp_all add: unat_gt_0)
  ultimately show ?thesis by (metis prod.collapse)
qed

section \<open>Flushing the streams of the store\<close>

text \<open>What is a directory, a file or absent stays so when bytes are appended to files.\<close>

definition shape :: "filesystem \<Rightarrow> string list \<Rightarrow> fnode option" where
  "shape fs p = map_option (\<lambda>n. case n of Reg _ \<Rightarrow> Reg [] | _ \<Rightarrow> n) (node_at fs p)"

lemma shape_append: "shape (sys_append q b fs) = shape fs"
proof
  fix p
  show "shape (sys_append q b fs) p = shape fs p"
    by (cases "node_at fs p"; cases "the (node_at fs p)") (auto simp: shape_def node_at_append)
qed

lemma writable_shape:
  assumes "shape (files s') = shape (files s)" "root_components s' = root_components s"
  shows "writable_place s' b t n = writable_place s b t n"
proof -
  have d: "node_at fs p = Some Dir \<longleftrightarrow> shape fs p = Some Dir" "node_at fs p = None \<longleftrightarrow> shape fs p = None"
    "(case node_at fs p of None \<Rightarrow> True | Some (Reg _) \<Rightarrow> True | _ \<Rightarrow> False) \<longleftrightarrow> shape fs p \<in> {None, Some (Reg [])}" for fs p
    by (cases "node_at fs p"; cases "the (node_at fs p)"; simp add: shape_def)+
  show ?thesis
    unfolding writable_place_def d(3) by (simp add: d(1,2) assms stream_file_def)
qed

lemma flush_shape: "flush_key k s = (x, s') \<Longrightarrow> shape (files s') = shape (files s)"
  by (auto simp: flush_key_def andThen_def on_stream_def OutputStream_Flush_def shape_append ret_run split: option.splits)

lemma flushes_shape: "for_each flush_key ks s = (x, s') \<Longrightarrow> shape (files s') = shape (files s)"
proof (induction ks arbitrary: s)
  case (Cons k ks)
  obtain y s1 where 1: "flush_key k s = (y, s1)" by (cases "flush_key k s")
  with Cons.prems Cons.IH [of s1] flush_shape [OF 1] show ?case by (cases y) (auto simp: andThen_def)
qed (simp add: ret_run)

lemma store_flushed:
  assumes "sds_inv st" "streams_ok st"
  obtains st' where "FlushOutputStreams st = (Inr True, st')" "sds_inv st'" "streams_ok st'"
    "\<And>b t n. writable_place st' b t n = writable_place st b t n"
    "\<And>b t n. is_name b \<Longrightarrow> is_name t \<Longrightarrow> is_name n \<Longrightarrow> content st' b t n = content st b t n"
proof -
  from flush_all [OF assms, of "map fst (out_streams st)"] obtain st' where s':
    "for_each flush_key (map fst (out_streams st)) st = (Inr (), st')" "sds_inv st'" "streams_ok st'"
    "root_components st' = root_components st"
    "\<forall>b t n. is_name b \<and> is_name t \<and> is_name n \<longrightarrow> content st' b t n = content st b t n" by auto
  have "FlushOutputStreams st = (Inr True, st')" using s'(1) by (simp add: FlushOutputStreams_def andThen_def ret_run)
  with s' writable_shape [OF flushes_shape [OF s'(1)] s'(4)] that show thesis by blast
qed

end
