(* ===== verification/Server_Traffic.thy ===== *)
theory Server_Traffic
  imports Server_Check
begin

text \<open>
  The messages that the server moves: an abstract view of its sockets as queues of whole messages, the
  step that a pump is on it, what has been moved when nothing is left, and what holds of the messages
  under every interleaving of arrivals and pumps. The server's own log messages come back to it on its
  logger socket.
\<close>

section \<open>Queues of messages\<close>

text \<open>
  What waits on the seven sockets that are polled, what has been sent on the others, the log messages taken
  off the logger socket, those that the server has sent to it, and how many of them it has made.
\<close>

record traffic =
  logs :: "string list list"
  responses :: "string list list"
  streamed :: "string list list"
  new_subscriptions :: "string list list"
  changes_seen :: "string list list"
  notices :: "string list list"
  requests :: "string list list"
  to_clients :: "string list list"
  to_workers :: "string list list"
  to_one_reactor :: "string list list"
  change_news :: "string list list"
  notice_news :: "string list list"
  log_done :: "string list list"
  own_logged :: "string list list"
  log_count :: nat

datatype port = AtLogger | AtWorkers | AtStreaming | AtSubscriptions | AtChanges | AtNotices | AtClients

text \<open>
  The messages that the \<open>n\<close>-th log of the server puts on its own logger socket: one of two parts, or none
  when the envelope cannot be serialised.
\<close>

type_synonym own_log = "server_log \<Rightarrow> nat \<Rightarrow> string list list"

definition own_log_of :: "codec \<Rightarrow> Server \<Rightarrow> own_log" where
  "own_log_of c s l n =
     (case serialize_for c (add_to_envelope c (ServerLog l (sv_id s)) (new_Envelope (server_clock s n))) False of
        None \<Rightarrow> [] | Some m \<Rightarrow> [[[], m]])"

definition logging :: "own_log \<Rightarrow> server_log \<Rightarrow> traffic \<Rightarrow> traffic" where
  "logging L l q =
     (let ms = L l (log_count q) in q\<lparr>logs := logs q @ ms, own_logged := own_logged q @ ms, log_count := log_count q + 1\<rparr>)"

text \<open>The order of preference: out of the server first, requests last.\<close>

fun traffic_step :: "own_log \<Rightarrow> traffic \<Rightarrow> traffic" where
  "traffic_step L q =
     (case logs q of m # ms \<Rightarrow> q\<lparr>logs := ms, log_done := log_done q @ [m]\<rparr>
      | [] \<Rightarrow> case responses q of m # ms \<Rightarrow>
          logging L ServerSendClientMessage (q\<lparr>responses := ms, to_clients := to_clients q @ [m]\<rparr>)
      | [] \<Rightarrow> case streamed q of m # ms \<Rightarrow>
          logging L ServerSendClientMessage (q\<lparr>streamed := ms, to_clients := to_clients q @ [m]\<rparr>)
      | [] \<Rightarrow> case new_subscriptions q of m # ms \<Rightarrow> q\<lparr>new_subscriptions := ms, to_one_reactor := to_one_reactor q @ [m]\<rparr>
      | [] \<Rightarrow> case changes_seen q of m # ms \<Rightarrow> q\<lparr>changes_seen := ms, change_news := change_news q @ [m]\<rparr>
      | [] \<Rightarrow> case notices q of m # ms \<Rightarrow> q\<lparr>notices := ms, notice_news := notice_news q @ [m]\<rparr>
      | [] \<Rightarrow> case requests q of m # ms \<Rightarrow>
          logging L ServerReceiveClientMessage (q\<lparr>requests := ms, to_workers := to_workers q @ [m]\<rparr>)
      | [] \<Rightarrow> q)"

text \<open>The socket that the next pump serves.\<close>

definition urgent :: "traffic \<Rightarrow> port option" where
  "urgent q =
     (if logs q \<noteq> [] then Some AtLogger else if responses q \<noteq> [] then Some AtWorkers
      else if streamed q \<noteq> [] then Some AtStreaming else if new_subscriptions q \<noteq> [] then Some AtSubscriptions
      else if changes_seen q \<noteq> [] then Some AtChanges else if notices q \<noteq> [] then Some AtNotices
      else if requests q \<noteq> [] then Some AtClients else None)"

text \<open>
  The pumps that what waits needs: one for each message, and one more for the log message that each
  response, streamed envelope and request makes; and the traffic when everything has been moved.
\<close>

definition work :: "traffic \<Rightarrow> nat" where
  "work q = length (logs q) + 2 * length (responses q) + 2 * length (streamed q) + length (new_subscriptions q) +
     length (changes_seen q) + length (notices q) + 2 * length (requests q)"

fun own_logs :: "own_log \<Rightarrow> nat \<Rightarrow> server_log list \<Rightarrow> string list list" where
  "own_logs L n [] = []"
| "own_logs L n (l # ls) = L l n @ own_logs L (Suc n) ls"

definition logs_to_come :: "traffic \<Rightarrow> server_log list" where
  "logs_to_come q = replicate (length (responses q) + length (streamed q)) ServerSendClientMessage @
     replicate (length (requests q)) ServerReceiveClientMessage"

definition drained :: "own_log \<Rightarrow> traffic \<Rightarrow> traffic" where
  "drained L q = (let own = own_logs L (log_count q) (logs_to_come q) in
     q\<lparr>logs := [], responses := [], streamed := [], new_subscriptions := [], changes_seen := [], notices := [],
       requests := [], to_clients := to_clients q @ responses q @ streamed q, to_workers := to_workers q @ requests q,
       to_one_reactor := to_one_reactor q @ new_subscriptions q, change_news := change_news q @ changes_seen q,
       notice_news := notice_news q @ notices q, log_done := log_done q @ logs q @ own, own_logged := own_logged q @ own,
       log_count := log_count q + length (logs_to_come q)\<rparr>)"

lemma logging_simps [simp]:
  "logs (logging L l q) = logs q @ L l (log_count q)" "own_logged (logging L l q) = own_logged q @ L l (log_count q)"
  "log_count (logging L l q) = log_count q + 1" "responses (logging L l q) = responses q" "streamed (logging L l q) = streamed q"
  "new_subscriptions (logging L l q) = new_subscriptions q" "changes_seen (logging L l q) = changes_seen q"
  "notices (logging L l q) = notices q" "requests (logging L l q) = requests q" "to_clients (logging L l q) = to_clients q"
  "to_workers (logging L l q) = to_workers q" "to_one_reactor (logging L l q) = to_one_reactor q"
  "change_news (logging L l q) = change_news q" "notice_news (logging L l q) = notice_news q" "log_done (logging L l q) = log_done q"
  by (simp_all add: logging_def Let_def)

lemma own_log_terse: "length (own_log_of c s l n) \<le> 1"
  by (simp add: own_log_of_def split: option.split)

lemma step_work:
  assumes "\<And>l n. length (L l n) \<le> 1"
  shows "work (traffic_step L q) \<le> work q - 1"
  using assms [of ServerSendClientMessage "log_count q"] assms [of ServerReceiveClientMessage "log_count q"]
  by (auto simp: work_def split: list.split)

lemma step_drained: "drained L (traffic_step L q) = drained L q"
proof -
  have e: "drained L q = drained L q'"
    if "to_one_reactor q @ new_subscriptions q = to_one_reactor q' @ new_subscriptions q'" "change_news q @ changes_seen q = change_news q' @ changes_seen q'"
      "notice_news q @ notices q = notice_news q' @ notices q'" "to_clients q @ responses q @ streamed q = to_clients q' @ responses q' @ streamed q'"
      "to_workers q @ requests q = to_workers q' @ requests q'"
      "log_done q @ logs q @ own_logs L (log_count q) (logs_to_come q) = log_done q' @ logs q' @ own_logs L (log_count q') (logs_to_come q')"
      "own_logged q @ own_logs L (log_count q) (logs_to_come q) = own_logged q' @ own_logs L (log_count q') (logs_to_come q')"
      "log_count q + length (logs_to_come q) = log_count q' + length (logs_to_come q')" for q q'
    using that by (cases q; cases q') (simp only: drained_def Let_def traffic.simps)
  show ?thesis
    by (rule e) (simp_all add: logs_to_come_def split: list.split)
qed

lemma drained_nothing: "work q = 0 \<Longrightarrow> drained L q = q"
  by (cases q) (simp add: work_def drained_def logs_to_come_def)

lemma steps_drain:
  assumes "\<And>l n. length (L l n) \<le> 1"
  shows "work q \<le> n \<Longrightarrow> (traffic_step L ^^ n) q = drained L q"
proof (induction n arbitrary: q)
  case (Suc n)
  have "(traffic_step L ^^ Suc n) q = (traffic_step L ^^ n) (traffic_step L q)" by (simp add: funpow_swap1)
  also have "\<dots> = drained L (traffic_step L q)" using Suc.prems step_work [of L q, OF assms] by (intro Suc.IH) linarith
  finally show ?case by (simp only: step_drained)
qed (simp add: drained_nothing)

section \<open>The server's sockets as queues\<close>

definition message_frames :: "string list list \<Rightarrow> (string \<times> bool) list" where
  "message_frames ms = concat (map frames ms)"

definition holds :: "socket option \<Rightarrow> string list list \<Rightarrow> string list list \<Rightarrow> bool" where
  "holds k waiting moved \<longleftrightarrow> (\<forall>m \<in> set waiting. m \<noteq> []) \<and>
     (case k of None \<Rightarrow> False
      | Some b \<Rightarrow> inbox b = message_frames waiting \<and> sent b = message_frames moved \<and> send_results b = [])"

definition conveys :: "codec \<Rightarrow> own_log \<Rightarrow> Server \<Rightarrow> traffic \<Rightarrow> bool" where
  "conveys c L s q \<longleftrightarrow>
     holds (sv_logger_sock s) (logs q) [] \<and> holds (workers_sock s) (responses q) (to_workers q) \<and>
     holds (streaming_sock s) (streamed q) [] \<and> holds (worker_subscriptions_sock s) (new_subscriptions q) [] \<and>
     holds (store_changes_input_sock s) (changes_seen q) [] \<and> holds (worker_streaming_notify_sock s) (notices q) [] \<and>
     holds (clients_sock s) (requests q) (to_clients q) \<and> holds (streaming_subscriptions_sock s) [] (to_one_reactor q) \<and>
     holds (store_changes_output_sock s) [] (change_news q) \<and> holds (streaming_streaming_notify_sock s) [] (notice_news q) \<and>
     holds (log_client_sock s) [] (own_logged q) \<and> server_made s = log_count q \<and> own_log_of c s = L"

text \<open>The log can be written when it is to be: its stream of the hour is one the store can append to.\<close>

definition log_ready :: "system \<Rightarrow> Server \<Rightarrow> bool" where
  "log_ready y s \<longleftrightarrow> (write_logs s \<longrightarrow> is_name (log_bucket s) \<and> is_name (log_stream_set s) \<and>
     writer_ready (sv_store s) (log_bucket s) (log_stream_set s) (hour_stream (wall y) (- 1)))"

text \<open>Whether the background activities are due, and what they need.\<close>

definition flush_due :: "system \<Rightarrow> Server \<Rightarrow> bool" where
  "flush_due y s \<longleftrightarrow> fst (Timer_Signaled (monotonic y) (stream_flush_timer s))"

definition check_due :: "system \<Rightarrow> Server \<Rightarrow> bool" where
  "check_due y s \<longleftrightarrow> fst (Timer_Signaled (monotonic y) (thread_check_timer s))"

definition restartable :: "Timer \<Rightarrow> bool" where
  "restartable t \<longleftrightarrow> running t \<and> initialized t \<and> 0 < microseconds t"

definition flush_ok :: "system \<Rightarrow> Server \<Rightarrow> bool" where
  "flush_ok y s \<longleftrightarrow> (flush_due y s \<longrightarrow> sds_inv (sv_store s) \<and> streams_ok (sv_store s) \<and> restartable (stream_flush_timer s))"

definition background_ok :: "system \<Rightarrow> Server \<Rightarrow> bool" where
  "background_ok y s \<longleftrightarrow> flush_ok y s \<and>
     (check_due y s \<longrightarrow> attended s \<and> \<not> some_device_ended s \<and> restartable (thread_check_timer s))"

text \<open>
  A server with this traffic, whose log can be written, with a worker and a reactor, and whose devices run;
  and the same with no background activity due. A flush logs a message before anything is served.
\<close>

definition works :: "codec \<Rightarrow> own_log \<Rightarrow> system \<Rightarrow> Server \<Rightarrow> traffic \<Rightarrow> bool" where
  "works c L y s q \<longleftrightarrow> conveys c L s q \<and> log_ready y s \<and> workers_connected s \<and> reactors_connected s \<and> background_ok y s"

definition carries :: "codec \<Rightarrow> own_log \<Rightarrow> system \<Rightarrow> Server \<Rightarrow> traffic \<Rightarrow> bool" where
  "carries c L y s q \<longleftrightarrow> works c L y s q \<and> \<not> flush_due y s \<and> \<not> check_due y s"

definition to_serve :: "own_log \<Rightarrow> system \<Rightarrow> Server \<Rightarrow> traffic \<Rightarrow> traffic" where
  "to_serve L y s q = (if flush_due y s then logging L ServerFlushOutputStreams q else q)"

text \<open>The message to be moved next is for a socket that nothing is connected to.\<close>

definition held_up :: "Server \<Rightarrow> traffic \<Rightarrow> bool" where
  "held_up s q \<longleftrightarrow> (urgent q = Some AtSubscriptions \<and> \<not> reactors_connected s) \<or>
     (urgent q = Some AtClients \<and> \<not> workers_connected s)"

text \<open>What moving a message does not touch.\<close>

definition settings :: "Server \<Rightarrow> (bool \<times> string \<times> string) \<times> (Timer \<times> Timer) \<times>
    (server_impl rp device option list \<times> reactor device option list \<times> watcher device option \<times> store_writer device option)" where
  "settings s = ((write_logs s, log_bucket s, log_stream_set s), (stream_flush_timer s, thread_check_timer s),
     (request_processors s, persisted_state_reactors s, sv_watcher s, sv_writer s))"

lemma settings_keep:
  assumes "settings s' = settings s" "sv_store s' = sv_store s"
  shows "log_ready y s' = log_ready y s"
  using assms by (simp add: settings_def log_ready_def)

lemma settings_connected:
  assumes "settings s' = settings s"
  shows "workers_connected s' = workers_connected s" "reactors_connected s' = reactors_connected s"
  using assms by (simp_all add: settings_def workers_connected_def reactors_connected_def)

lemma frames_nonempty: "m \<noteq> [] \<Longrightarrow> frames m \<noteq> []"
  by (cases m rule: rev_cases) (simp_all add: frames_snoc)

lemma holds_ready: "holds k ms out \<Longrightarrow> ready k \<longleftrightarrow> ms \<noteq> []"
  by (cases ms) (auto simp: holds_def ready_def message_frames_def frames_nonempty split: option.splits)

lemma holds_deliver: "holds k ms out \<Longrightarrow> m \<noteq> [] \<Longrightarrow> holds (deliver (frames m) k) (ms @ [m]) out"
  by (cases k) (auto simp: holds_def deliver_def message_frames_def)

lemma deliver_nothing [simp]: "deliver [] k = k"
  by (cases k) (simp_all add: deliver_def)

lemma whole_messages [simp]: "whole (message_frames ms) = message_frames ms"
proof -
  have "whole (fs @ frames m) = whole fs" if "m = []" for fs m using that by simp
  moreover have "whole (fs @ frames m) = fs @ frames m" if "m \<noteq> []" for fs m
    using that by (cases m rule: rev_cases) (simp_all add: whole_def frames_snoc)
  ultimately show ?thesis
  proof (induction ms rule: rev_induct)
    case Nil
    then show ?case by (simp add: message_frames_def whole_def)
  next
    case (snoc m ms)
    then show ?case by (cases "m = []") (simp_all add: message_frames_def)
  qed
qed

section \<open>Moving a message\<close>

lemma move_holds:
  assumes "holds (src s) (m # ms) out" "holds (dst s) ms' out'" "peers s"
  obtains k1 k2 where "move peers src put_from dst put_to logged s = seq logged (ret MakeWorkDone) (put_to k2 (put_from k1 s))"
    "holds (Some k1) ms out" "holds (Some k2) ms' (out' @ [m])"
proof -
  obtain b where b: "src s = Some b" "inbox b = message_frames (m # ms)" "sent b = message_frames out" "send_results b = []" "m \<noteq> []"
    using assms(1) by (auto simp: holds_def split: option.splits)
  obtain d where d: "dst s = Some d" "inbox d = message_frames ms'" "sent d = message_frames out'" "send_results d = []"
    using assms(2) by (auto simp: holds_def split: option.splits)
  obtain us u where m: "m = us @ [u]" using b(5) by (cases m rule: rev_cases) auto
  have "inbox b = frames (us @ [u]) @ message_frames ms" using b(2) by (simp add: m message_frames_def)
  from transfer_moves_message [OF this d(4)]
  have "move peers src put_from dst put_to logged s = seq logged (ret MakeWorkDone)
      (put_to (d\<lparr>sent := sent d @ frames m\<rparr>) (put_from (b\<lparr>inbox := message_frames ms\<rparr>) s))"
    using b(1) d(1) assms(3) by (simp add: move_def m)
  moreover have "holds (Some (b\<lparr>inbox := message_frames ms\<rparr>)) ms out" using assms(1) b by (simp add: holds_def)
  moreover have "holds (Some (d\<lparr>sent := sent d @ frames m\<rparr>)) ms' (out' @ [m])"
    using assms(2) d by (simp add: holds_def message_frames_def)
  ultimately show thesis by (rule that)
qed

lemma move_waits:
  assumes "holds (src s) (m # ms) out" "holds (dst s) ms' out'" "\<not> peers s"
  obtains k where "move peers src put_from dst put_to logged s = (Inl Blocked, put_from k s)"
proof -
  obtain b d where b: "src s = Some b" "inbox b = message_frames (m # ms)" "m \<noteq> []" "dst s = Some d"
    using assms(1,2) by (auto simp: holds_def split: option.splits)
  then have "inbox b \<noteq> []" by (simp add: message_frames_def frames_nonempty)
  with b assms(3) have "move peers src put_from dst put_to logged s = (Inl Blocked, put_from (b\<lparr>inbox := tl (inbox b)\<rparr>) s)"
    by (simp add: move_def throw_run)
  then show thesis by (rule that)
qed

text \<open>A log message of the server is one of the messages on its logger socket.\<close>

lemma own_log_cong: "sv_id s' = sv_id s \<Longrightarrow> server_clock s' = server_clock s \<Longrightarrow> own_log_of c s' = own_log_of c s"
  by (intro ext) (simp add: own_log_of_def)

lemma logs_conveyed:
  assumes "conveys c L s q"
  shows "\<exists>s'. server_logs c l s = (Inr (), s') \<and> conveys c L s' (logging L l q) \<and> settings s' = settings s \<and> sv_store s' = sv_store s"
proof -
  let ?e = "add_to_envelope c (ServerLog l (sv_id s)) (new_Envelope (server_clock s (server_made s)))"
  obtain k where k: "log_client_sock s = Some k" "sent k = message_frames (own_logged q)" "send_results k = []" "inbox k = []"
    using assms by (auto simp: conveys_def holds_def message_frames_def split: option.splits)
  have n: "server_made s = log_count q" and own: "L = own_log_of c s" and logger: "holds (sv_logger_sock s) (logs q) []"
    using assms by (simp_all add: conveys_def)
  show ?thesis
  proof (cases "serialize_for c ?e False")
    case None
    then have "L l (log_count q) = []" by (simp add: own own_log_of_def n)
    moreover have "SendEnvelope_pointer c ?e False \<lparr>SNDMORE = False, DONTWAIT = True\<rparr> k = (- 1, k)"
      using None by (simp add: SendEnvelope_pointer_def SendEnvelope_to_def)
    then have "server_logs c l s = (Inr (), s\<lparr>server_made := server_made s + 1\<rparr>)"
      using k(1) by (simp add: server_logs_def Let_def ret_run)
    moreover have "own_log_of c (s\<lparr>server_made := server_made s + 1\<rparr>) = L"
      using own own_log_cong [of "s\<lparr>server_made := server_made s + 1\<rparr>" s c] by simp
    ultimately have "conveys c L (s\<lparr>server_made := server_made s + 1\<rparr>) (logging L l q)"
      using assms by (simp add: conveys_def n)
    with \<open>server_logs c l s = _\<close> show ?thesis by (auto simp: settings_def)
  next
    case (Some m)
    let ?k = "k\<lparr>sent := message_frames (own_logged q @ [[[], m]])\<rparr>"
    have L: "L l (log_count q) = [[[], m]]" using Some by (simp add: own own_log_of_def n)
    have "SendEnvelope_pointer c ?e False \<lparr>SNDMORE = False, DONTWAIT = True\<rparr> k = (1, ?k)"
      using SendEnvelope_to_ok [OF k(3) Some, of "[]"] k(2) by (simp add: SendEnvelope_pointer_def message_frames_def)
    moreover have "drop (length (message_frames (own_logged q))) (message_frames (own_logged q @ [[[], m]])) = frames [[], m]"
      by (simp add: message_frames_def)
    ultimately have run: "server_logs c l s = (Inr (), s\<lparr>server_made := server_made s + 1, log_client_sock := Some ?k,
        sv_logger_sock := deliver (frames [[], m]) (sv_logger_sock s)\<rparr>)" (is "_ = (_, ?s)")
      using k(1,2) by (simp add: server_logs_def Let_def ret_run)
    have "own_log_of c ?s = L" using own own_log_cong [of ?s s c] by simp
    moreover have "holds (deliver (frames [[], m]) (sv_logger_sock s)) (logs q @ [[[], m]]) []"
      by (rule holds_deliver [OF logger]) simp
    moreover have "holds (Some ?k) [] (own_logged q @ [[[], m]])" using k by (simp add: holds_def message_frames_def)
    ultimately have "conveys c L ?s (logging L l q)" using assms by (simp add: conveys_def L n)
    with run show ?thesis by (auto simp: settings_def)
  qed
qed

lemma logs_then:
  assumes "conveys c L t q" "settings t = settings s" "sv_store t = sv_store s"
  shows "\<exists>s'. seq (server_logs c l) (ret r) t = (Inr r, s') \<and> conveys c L s' (logging L l q) \<and>
    settings s' = settings s \<and> sv_store s' = sv_store s"
proof -
  from logs_conveyed [OF assms(1)] obtain s' where "server_logs c l t = (Inr (), s')" "conveys c L s' (logging L l q)"
    "settings s' = settings t" "sv_store s' = sv_store t" by blast
  with assms(2,3) show ?thesis by (simp add: andThen_Inr ret_run)
qed

lemma serve_moves:
  assumes "conveys c L s q" "logs q = []" "\<not> held_up s q"
  shows "\<exists>r s'. serve c y s = (Inr r, s') \<and> \<not> is_error r \<and> conveys c L s' (traffic_step L q) \<and>
    settings s' = settings s \<and> sv_store s' = sv_store s"
proof -
  note w = MakeWorkDone_def MakeNoWorkDone_def
  have h: "holds (sv_logger_sock s) (logs q) []" "holds (workers_sock s) (responses q) (to_workers q)"
     "holds (streaming_sock s) (streamed q) []" "holds (worker_subscriptions_sock s) (new_subscriptions q) []"
     "holds (store_changes_input_sock s) (changes_seen q) []" "holds (worker_streaming_notify_sock s) (notices q) []"
     "holds (clients_sock s) (requests q) (to_clients q)" "holds (streaming_subscriptions_sock s) [] (to_one_reactor q)"
     "holds (store_changes_output_sock s) [] (change_news q)" "holds (streaming_streaming_notify_sock s) [] (notice_news q)"
    using assms(1) by (simp_all add: conveys_def)
  note ready = h(1-7) [THEN holds_ready]
  have nw: "never_waits s" by (simp add: never_waits_def)
  have own: "own_log_of c t = L" if "sv_id t = sv_id s" "server_clock t = server_clock s" for t
    using assms(1) own_log_cong [OF that] by (simp add: conveys_def)
  consider (response) m ms where "responses q = m # ms"
    | (stream) m ms where "responses q = []" "streamed q = m # ms"
    | (sub) m ms where "responses q = []" "streamed q = []" "new_subscriptions q = m # ms"
    | (change) m ms where "responses q = []" "streamed q = []" "new_subscriptions q = []" "changes_seen q = m # ms"
    | (notice) m ms where "responses q = []" "streamed q = []" "new_subscriptions q = []" "changes_seen q = []"
        "notices q = m # ms"
    | (request) m ms where "responses q = []" "streamed q = []" "new_subscriptions q = []" "changes_seen q = []"
        "notices q = []" "requests q = m # ms"
    | (nothing) "responses q = []" "streamed q = []" "new_subscriptions q = []" "changes_seen q = []"
        "notices q = []" "requests q = []"
    by (metis list.exhaust)
  then show ?thesis
  proof cases
    case response
    from move_holds [where src = workers_sock and dst = clients_sock and s = s and put_from = put_workers and put_to = put_clients
        and peers = never_waits and logged = "server_logs c ServerSendClientMessage", OF h(2) [unfolded response] h(7) nw]
    obtain k1 k2 where k: "move never_waits workers_sock put_workers clients_sock put_clients (server_logs c ServerSendClientMessage) s =
        seq (server_logs c ServerSendClientMessage) (ret MakeWorkDone) (put_clients k2 (put_workers k1 s))"
      "holds (Some k1) ms (to_workers q)" "holds (Some k2) (requests q) (to_clients q @ [m])" .
    have "conveys c L (put_clients k2 (put_workers k1 s)) (q\<lparr>responses := ms, to_clients := to_clients q @ [m]\<rparr>)"
      using assms(1) k(2,3) own [of "put_clients k2 (put_workers k1 s)"] by (simp add: conveys_def)
    from logs_then [OF this, of s ServerSendClientMessage MakeWorkDone] k(1) response assms(2) ready show ?thesis
      by (auto simp: serve_def settings_def w)
  next
    case stream
    from move_holds [where src = streaming_sock and dst = clients_sock and s = s and put_from = put_streaming and put_to = put_clients
        and peers = never_waits and logged = "server_logs c ServerSendClientMessage", OF h(3) [unfolded stream] h(7) nw]
    obtain k1 k2 where k: "move never_waits streaming_sock put_streaming clients_sock put_clients (server_logs c ServerSendClientMessage) s =
        seq (server_logs c ServerSendClientMessage) (ret MakeWorkDone) (put_clients k2 (put_streaming k1 s))"
      "holds (Some k1) ms []" "holds (Some k2) (requests q) (to_clients q @ [m])" .
    have "conveys c L (put_clients k2 (put_streaming k1 s)) (q\<lparr>streamed := ms, to_clients := to_clients q @ [m]\<rparr>)"
      using assms(1) k(2,3) own [of "put_clients k2 (put_streaming k1 s)"] by (simp add: conveys_def)
    from logs_then [OF this, of s ServerSendClientMessage MakeWorkDone] k(1) stream assms(2) ready show ?thesis
      by (auto simp: serve_def settings_def w)
  next
    case sub
    have "reactors_connected s" using assms(2,3) sub by (simp add: held_up_def urgent_def)
    from move_holds [where src = worker_subscriptions_sock and dst = streaming_subscriptions_sock and s = s and put_from = put_worker_subs
        and put_to = put_streaming_subs and peers = reactors_connected and logged = "ret ()", OF h(4) [unfolded sub] h(8) this]
    obtain k1 k2 where k: "move reactors_connected worker_subscriptions_sock put_worker_subs streaming_subscriptions_sock put_streaming_subs (ret ()) s =
        seq (ret ()) (ret MakeWorkDone) (put_streaming_subs k2 (put_worker_subs k1 s))"
      "holds (Some k1) ms []" "holds (Some k2) [] (to_one_reactor q @ [m])" .
    have "conveys c L (put_streaming_subs k2 (put_worker_subs k1 s)) (traffic_step L q)"
      using assms(1,2) sub k(2,3) own [of "put_streaming_subs k2 (put_worker_subs k1 s)"] by (simp add: conveys_def)
    with k(1) sub assms(2) ready show ?thesis by (simp add: serve_def settings_def w andThen_def ret_run)
  next
    case change
    from move_holds [where src = store_changes_input_sock and dst = store_changes_output_sock and s = s and put_from = put_changes_in
        and put_to = put_changes_out and peers = never_waits and logged = "ret ()", OF h(5) [unfolded change] h(9) nw]
    obtain k1 k2 where k: "move never_waits store_changes_input_sock put_changes_in store_changes_output_sock put_changes_out (ret ()) s =
        seq (ret ()) (ret MakeWorkDone) (put_changes_out k2 (put_changes_in k1 s))"
      "holds (Some k1) ms []" "holds (Some k2) [] (change_news q @ [m])" .
    have "conveys c L (put_changes_out k2 (put_changes_in k1 s)) (traffic_step L q)"
      using assms(1,2) change k(2,3) own [of "put_changes_out k2 (put_changes_in k1 s)"] by (simp add: conveys_def)
    with k(1) change assms(2) ready show ?thesis by (simp add: serve_def settings_def w andThen_def ret_run)
  next
    case notice
    from move_holds [where src = worker_streaming_notify_sock and dst = streaming_streaming_notify_sock and s = s and put_from = put_notify_in
        and put_to = put_notify_out and peers = never_waits and logged = "ret ()", OF h(6) [unfolded notice] h(10) nw]
    obtain k1 k2 where k: "move never_waits worker_streaming_notify_sock put_notify_in streaming_streaming_notify_sock put_notify_out (ret ()) s =
        seq (ret ()) (ret MakeWorkDone) (put_notify_out k2 (put_notify_in k1 s))"
      "holds (Some k1) ms []" "holds (Some k2) [] (notice_news q @ [m])" .
    have "conveys c L (put_notify_out k2 (put_notify_in k1 s)) (traffic_step L q)"
      using assms(1,2) notice k(2,3) own [of "put_notify_out k2 (put_notify_in k1 s)"] by (simp add: conveys_def)
    with k(1) notice assms(2) ready show ?thesis by (simp add: serve_def settings_def w andThen_def ret_run)
  next
    case request
    have "workers_connected s" using assms(2,3) request by (simp add: held_up_def urgent_def)
    from move_holds [where src = clients_sock and dst = workers_sock and s = s and put_from = put_clients and put_to = put_workers
        and peers = workers_connected and logged = "server_logs c ServerReceiveClientMessage", OF h(7) [unfolded request] h(2) this]
    obtain k1 k2 where k: "move workers_connected clients_sock put_clients workers_sock put_workers (server_logs c ServerReceiveClientMessage) s =
        seq (server_logs c ServerReceiveClientMessage) (ret MakeWorkDone) (put_workers k2 (put_clients k1 s))"
      "holds (Some k1) ms (to_clients q)" "holds (Some k2) (responses q) (to_workers q @ [m])" .
    have "conveys c L (put_workers k2 (put_clients k1 s)) (q\<lparr>requests := ms, to_workers := to_workers q @ [m]\<rparr>)"
      using assms(1) k(2,3) own [of "put_workers k2 (put_clients k1 s)"] by (simp add: conveys_def)
    from logs_then [OF this, of s ServerReceiveClientMessage MakeWorkDone] k(1) request assms(2) ready show ?thesis
      by (auto simp: serve_def settings_def w)
  next
    case nothing
    with assms(1,2) ready show ?thesis by (simp add: serve_def w ret_run)
  qed
qed

lemma serve_waits:
  assumes "conveys c L s q" "held_up s q"
  shows "\<exists>s'. serve c y s = (Inl Blocked, s')"
proof -
  have h: "holds (sv_logger_sock s) (logs q) []" "holds (workers_sock s) (responses q) (to_workers q)"
     "holds (streaming_sock s) (streamed q) []" "holds (worker_subscriptions_sock s) (new_subscriptions q) []"
     "holds (store_changes_input_sock s) (changes_seen q) []" "holds (worker_streaming_notify_sock s) (notices q) []"
     "holds (clients_sock s) (requests q) (to_clients q)" "holds (streaming_subscriptions_sock s) [] (to_one_reactor q)"
    using assms(1) by (simp_all add: conveys_def)
  note ready = h(1-7) [THEN holds_ready]
  show ?thesis
  proof (cases "urgent q = Some AtSubscriptions")
    case True
    then have e: "logs q = []" "responses q = []" "streamed q = []" "new_subscriptions q \<noteq> []"
      by (simp_all add: urgent_def split: if_splits)
    then obtain m ms where "new_subscriptions q = m # ms" by (cases "new_subscriptions q") auto
    with h(4) have "holds (worker_subscriptions_sock s) (m # ms) []" by simp
    from move_waits [where src = worker_subscriptions_sock and dst = streaming_subscriptions_sock and s = s and peers = reactors_connected and put_from = put_worker_subs
        and put_to = put_streaming_subs and logged = "ret ()", OF this h(8)] assms(2) True
    obtain k where "move reactors_connected worker_subscriptions_sock put_worker_subs streaming_subscriptions_sock put_streaming_subs (ret ()) s =
        (Inl Blocked, put_worker_subs k s)" by (auto simp: held_up_def)
    with e ready show ?thesis by (simp add: serve_def)
  next
    case False
    with assms(2) have e: "logs q = []" "responses q = []" "streamed q = []" "new_subscriptions q = []" "changes_seen q = []"
      "notices q = []" "requests q \<noteq> []" and u: "\<not> workers_connected s"
      by (simp_all add: held_up_def urgent_def split: if_splits)
    then obtain m ms where "requests q = m # ms" by (cases "requests q") auto
    with h(7) have "holds (clients_sock s) (m # ms) (to_clients q)" by simp
    from move_waits [where src = clients_sock and dst = workers_sock and s = s and peers = workers_connected and put_from = put_clients
        and put_to = put_workers and logged = "server_logs c ServerReceiveClientMessage", OF this h(2) u]
    obtain k where "move workers_connected clients_sock put_clients workers_sock put_workers (server_logs c ServerReceiveClientMessage) s =
        (Inl Blocked, put_clients k s)" .
    with e ready show ?thesis by (simp add: serve_def)
  qed
qed

section \<open>Receiving a log message\<close>

text \<open>A message is taken off the logger socket, and written when the server writes its log.\<close>

lemma log_frames_whole:
  "log_frames W (frames m @ fs) st = (Inr e, fs', st') \<Longrightarrow> m \<noteq> [] \<Longrightarrow> e = False \<and> fs' = fs"
proof (induction m arbitrary: st rule: frames.induct)
  case (3 x z xs)
  obtain r st1 where w: "W x st = (r, st1)" by (cases "W x st")
  with 3(2) have "log_frames W (frames (z # xs) @ fs) st1 = (Inr e, fs', st')" by (cases r) simp_all
  then show ?case by (rule 3(1)) simp
next
  case (2 x)
  obtain r st1 where "W x st = (r, st1)" by (cases "W x st")
  with 2 show ?case by (cases r) simp_all
qed simp

lemma log_frames_message:
  assumes step: "\<And>msg st. P st \<Longrightarrow> \<exists>st'. W msg st = (Inr (), st') \<and> P st' \<and> R [msg] st st'"
    and trans: "\<And>x y st0 st1 st2. R x st0 st1 \<Longrightarrow> R y st1 st2 \<Longrightarrow> R (x @ y) st0 st2"
  shows "P st \<Longrightarrow> m \<noteq> [] \<Longrightarrow> \<exists>st'. log_frames W (frames m @ fs) st = (Inr False, fs, st') \<and> P st' \<and> R m st st'"
proof (induction m arbitrary: st rule: rev_induct)
  case (snoc u us)
  have "P st \<Longrightarrow> \<exists>st'. log_frames W (map (\<lambda>y. (y, True)) us @ (u, False) # fs) st = (Inr False, fs, st') \<and> P st' \<and> R (us @ [u]) st st'" for st
  proof (induction us arbitrary: st)
    case Nil
    from step [OF this] obtain st' where "W u st = (Inr (), st')" "P st'" "R [u] st st'" by blast
    then show ?case by simp
  next
    case (Cons v us)
    from step [OF Cons.prems] obtain st1 where st1: "W v st = (Inr (), st1)" "P st1" "R [v] st st1" by blast
    from Cons.IH [OF st1(2)] obtain st' where
      "log_frames W (map (\<lambda>y. (y, True)) us @ (u, False) # fs) st1 = (Inr False, fs, st')" "P st'" "R (us @ [u]) st1 st'" by blast
    with st1 trans [OF st1(3), of "us @ [u]" st'] show ?case by simp
  qed
  with snoc.prems(1) show ?case by (simp add: frames_snoc)
qed simp

text \<open>What a message does to the store: its parts are written to the log's stream of the hour.\<close>

definition log_written :: "codec \<Rightarrow> system \<Rightarrow> Server \<Rightarrow> string list \<Rightarrow> Store \<Rightarrow> Store \<Rightarrow> bool" where
  "log_written c y s m st st' \<longleftrightarrow>
     (if write_logs s then extends_stream (log_bucket s) (log_stream_set s) (hour_stream (wall y) (- 1)) (concat (map (data_record c) m)) st st'
      else st' = st)"

lemma log_received:
  assumes "log_ready y s" "m \<noteq> []" "inbox k = frames m @ fs"
  shows "\<exists>st. receive_log c y k s = (Inr MakeWorkDone, s\<lparr>sv_logger_sock := Some (k\<lparr>inbox := fs\<rparr>), sv_store := st\<rparr>) \<and>
    log_ready y (s\<lparr>sv_store := st\<rparr>) \<and> log_written c y s m (sv_store s) st"
proof -
  let ?b = "log_bucket s" and ?t = "log_stream_set s" and ?n = "hour_stream (wall y) (- 1)"
  let ?P = "\<lambda>st. log_ready y (s\<lparr>sv_store := st\<rparr>)"
  have W: "\<exists>st'. write_log c y s msg st = (Inr (), st') \<and> ?P st' \<and> log_written c y s [msg] st st'" if P: "?P st" for msg st
  proof (cases "write_logs s")
    case True
    with P have "writer_ready st ?b ?t ?n" "is_name ?b" "is_name ?t" by (simp_all add: log_ready_def)
    from data_written [OF this refl, of c msg] obtain st' where
      "Store_WriteEnvelope_data (sds_ops c) c (wall y) ?b ?t msg (- 1) st = (Inr True, st')" "writer_ready st' ?b ?t ?n"
      "extends_stream ?b ?t ?n (data_record c msg) st st'" by blast
    with P True show ?thesis by (simp add: write_log_def andThen_Inr log_ready_def log_written_def)
  qed (use P in \<open>simp add: write_log_def log_written_def\<close>)
  have trans: "log_written c y s (x @ z) st0 st2" if "log_written c y s x st0 st1" "log_written c y s z st1 st2" for x z st0 st1 st2
    using that extends_trans [of ?b ?t ?n _ st0 st1 _ st2] by (simp add: log_written_def split: if_splits)
  have "?P (sv_store s)" using assms(1) by (simp add: log_ready_def)
  from this assms(2) have "\<exists>st. log_frames (write_log c y s) (frames m @ fs) (sv_store s) = (Inr False, fs, st) \<and> ?P st \<and>
      log_written c y s m (sv_store s) st"
    by (rule log_frames_message [where P = ?P and R = "log_written c y s" and W = "write_log c y s", rotated 2]) (use W trans in blast)+
  then obtain st where "log_frames (write_log c y s) (inbox k) (sv_store s) = (Inr False, fs, st)" "?P st"
    "log_written c y s m (sv_store s) st" unfolding assms(3) by blast
  then show ?thesis by (intro exI [of _ st]) (simp add: receive_log_def)
qed

lemma serve_log:
  assumes "conveys c L s q" "logs q = m # ms" "serve c y s = (Inr r, s')"
  shows "\<not> is_error r \<and> conveys c L s' (traffic_step L q) \<and> settings s' = settings s"
proof -
  obtain b where b: "sv_logger_sock s = Some b" "inbox b = frames m @ message_frames ms" "sent b = []" "send_results b = []" "m \<noteq> []"
    using assms(1,2) by (auto simp: conveys_def holds_def message_frames_def split: option.splits)
  have "ready (sv_logger_sock s)" using b by (simp add: ready_def frames_nonempty)
  with assms(3) b(1) have r: "receive_log c y b s = (Inr r, s')" by (simp add: serve_def)
  obtain e fs st where lf: "log_frames (write_log c y s) (inbox b) (sv_store s) = (e, fs, st)" by (metis prod.collapse)
  with r obtain err where e: "e = Inr err" by (cases e) (auto simp: receive_log_def throw_run)
  from log_frames_whole [of "write_log c y s" m "message_frames ms" "sv_store s"] lf e b(2,5) have f: "err = False" "fs = message_frames ms"
    by auto
  have s': "s' = s\<lparr>sv_logger_sock := Some (b\<lparr>inbox := message_frames ms\<rparr>), sv_store := st\<rparr>" "r = MakeWorkDone"
    using r lf e f by (simp_all add: receive_log_def ret_run)
  have "holds (Some (b\<lparr>inbox := message_frames ms\<rparr>)) ms []" using assms(1,2) b by (simp add: conveys_def holds_def message_frames_def)
  moreover have "own_log_of c s' = L" using assms(1) own_log_cong [of s' s c] by (simp add: conveys_def s')
  ultimately show ?thesis using assms(1,2) by (simp add: s' conveys_def settings_def MakeWorkDone_def)
qed

text \<open>What serving a message does to the store.\<close>

definition served_store :: "codec \<Rightarrow> system \<Rightarrow> Server \<Rightarrow> traffic \<Rightarrow> Store \<Rightarrow> Store \<Rightarrow> bool" where
  "served_store c y s q st st' \<longleftrightarrow> (case logs q of [] \<Rightarrow> st' = st | m # _ \<Rightarrow> log_written c y s m st st')"

lemma serve_conveys:
  assumes "conveys c L s q" "log_ready y s" "\<not> held_up s q"
  shows "\<exists>r s'. serve c y s = (Inr r, s') \<and> \<not> is_error r \<and> conveys c L s' (traffic_step L q) \<and> settings s' = settings s \<and>
    log_ready y s' \<and> served_store c y s q (sv_store s) (sv_store s')"
proof (cases "logs q")
  case Nil
  from serve_moves [OF assms(1) Nil assms(3), of y] obtain r s' where s': "serve c y s = (Inr r, s')" "\<not> is_error r"
    "conveys c L s' (traffic_step L q)" "settings s' = settings s" "sv_store s' = sv_store s" by blast
  with settings_keep [OF s'(4,5), of y] assms(2) Nil show ?thesis by (simp add: served_store_def del: traffic_step.simps)
next
  case (Cons m ms)
  obtain b where b: "sv_logger_sock s = Some b" "inbox b = frames m @ message_frames ms" "m \<noteq> []"
    using assms(1) Cons by (auto simp: conveys_def holds_def message_frames_def split: option.splits)
  from log_received [OF assms(2) b(3,2), of c] obtain st where
    st: "receive_log c y b s = (Inr MakeWorkDone, s\<lparr>sv_logger_sock := Some (b\<lparr>inbox := message_frames ms\<rparr>), sv_store := st\<rparr>)"
      "log_ready y (s\<lparr>sv_store := st\<rparr>)" "log_written c y s m (sv_store s) st" by blast
  let ?s = "s\<lparr>sv_logger_sock := Some (b\<lparr>inbox := message_frames ms\<rparr>), sv_store := st\<rparr>"
  have "ready (sv_logger_sock s)" using b by (simp add: ready_def frames_nonempty)
  with st(1) b(1) have run: "serve c y s = (Inr MakeWorkDone, ?s)" by (simp add: serve_def)
  have "log_ready y ?s" using st(2) by (simp add: log_ready_def)
  with run serve_log [OF assms(1) Cons run] st(3) Cons show ?thesis by (simp add: served_store_def)
qed

lemma serve_returned:
  assumes "conveys c L s q" "serve c y s = (Inr r, s')"
  shows "\<not> is_error r \<and> conveys c L s' (traffic_step L q) \<and> \<not> held_up s q"
proof -
  have n: "\<not> held_up s q" using serve_waits [OF assms(1), of y] assms(2) by auto
  show ?thesis
  proof (cases "logs q")
    case Nil
    from serve_moves [OF assms(1) Nil n, of y] assms(2) n show ?thesis by simp
  next
    case (Cons m ms)
    from serve_log [OF assms(1) Cons assms(2)] n show ?thesis by simp
  qed
qed

section \<open>A server with messages on its sockets\<close>

definition queue :: "string list list \<Rightarrow> socket" where
  "queue ms = \<lparr>sent = [], send_results = [], inbox = message_frames ms\<rparr>"

definition sample_traffic :: traffic where
  "sample_traffic = \<lparr>logs = [[''log'']], responses = [[''id'', [], ''answer'']], streamed = [], new_subscriptions = [[''sub'']],
     changes_seen = [], notices = [], requests = [[''id'', [], ''question''], [''id'', [], ''another'']], to_clients = [],
     to_workers = [], to_one_reactor = [], change_news = [], notice_news = [], log_done = [], own_logged = [], log_count = 0\<rparr>"

definition in_thread :: "bool \<Rightarrow> 'd \<Rightarrow> 'd device" where
  "in_thread alive d = \<lparr>dev = d, dev_thread = True, dev_running = alive, has_ran = True, async_signaled = True, waits = 3\<rparr>"

definition sample_server :: "traffic \<Rightarrow> Server" where
  "sample_server q = \<lparr>sv_id = ''id'', uuid_text = ''0'', sv_store_path = ''/s'', listen_endpoints = [''tcp''],
     number_worker_threads = 1, number_persisted_reactor_threads = 1, sv_subscription_ttl = 60000, log_bucket = [],
     log_stream_set = [], write_logs = False, stream_flush_interval = 5000000, lua_execute_client_code = False,
     lua_streaming_max_memory = 524288, sv_store = sample_store, start_started = True, sv_initialized = True,
     sv_active = new_ConditionalWait, own_context = True, workers_sock = Some (queue (responses q)),
     clients_sock = Some (queue (requests q)), streaming_sock = Some (queue (streamed q)),
     worker_subscriptions_sock = Some (queue (new_subscriptions q)), streaming_subscriptions_sock = Some (queue []),
     worker_streaming_notify_sock = Some (queue (notices q)), streaming_streaming_notify_sock = Some (queue []),
     store_changes_input_sock = Some (queue (changes_seen q)), store_changes_output_sock = Some (queue []),
     sv_logger_sock = Some (queue (logs q)), log_client_sock = Some (queue []),
     stream_flush_timer = new_Timer 5000000, thread_check_timer = new_Timer 5000000,
     sv_writer = Some (in_thread True sample_writer), sv_watcher = Some (in_thread True sample_watcher),
     request_processors = [Some (in_thread True sample_rp)], persisted_state_reactors = [Some (in_thread True (sample_reactor sample_manager [] []))],
     server_clock = (\<lambda>_. 7), server_made = 0\<rparr>"

definition sample_system :: system where
  "sample_system = \<lparr>can_bind = (\<lambda>_. True), fresh_socket = queue [], inotify_of = ((\<lambda>_ _. 1), 3),
     sys_garbage = UNKNOWN, device_id = ''d'', id_at = (\<lambda>_. ''u''), clock_at = (\<lambda>_. 7),
     thread_alive = True, thread_joins = True, monotonic = 0, wall = (0, 0)\<rparr>"

abbreviation sample_log :: own_log where
  "sample_log \<equiv> own_log_of sample_codec (sample_server sample_traffic)"

lemma sample_carries: "carries sample_codec sample_log sample_system (sample_server sample_traffic) sample_traffic"
  by (simp add: carries_def works_def background_ok_def flush_ok_def flush_due_def check_due_def conveys_def holds_def sample_server_def
      sample_traffic_def queue_def message_frames_def log_ready_def Timer_Signaled_def new_Timer_def workers_connected_def
      reactors_connected_def)

section \<open>The background activities\<close>

lemma Timer_not_due: "\<not> fst (Timer_Signaled now t) \<Longrightarrow> Timer_Signaled now t = (False, t)"
  by (auto simp: Timer_Signaled_def split: if_splits)

lemma timer_restarts:
  assumes "fst (Timer_Signaled now t)" "restartable t"
  obtains t' where "Timer_Start now 0 (snd (Timer_Signaled now t)) = (True, t')" "\<not> fst (Timer_Signaled now t')"
proof -
  let ?t = "snd (Timer_Signaled now t)"
  have "Timer_Signaled now t = (True, ?t)" using assms(1) by (metis prod.collapse)
  moreover have "running ?t" "initialized ?t" "0 < microseconds ?t"
    using assms(2) by (auto simp: restartable_def Timer_Signaled_def)
  ultimately show thesis using Timer_restarts [of now t ?t] that by blast
qed

text \<open>The activities leave the sockets alone, but for the log message of the flush.\<close>

definition same_sockets :: "Server \<Rightarrow> Server \<Rightarrow> bool" where
  "same_sockets s s' \<longleftrightarrow> (\<forall>c L q. conveys c L s q \<longrightarrow> conveys c L s' q)"

lemma same_sockets_refl: "same_sockets s s"
  by (simp add: same_sockets_def)

lemma same_socketsI:
  assumes "sv_logger_sock s' = sv_logger_sock s" "workers_sock s' = workers_sock s" "streaming_sock s' = streaming_sock s"
    "worker_subscriptions_sock s' = worker_subscriptions_sock s" "store_changes_input_sock s' = store_changes_input_sock s"
    "worker_streaming_notify_sock s' = worker_streaming_notify_sock s" "clients_sock s' = clients_sock s"
    "streaming_subscriptions_sock s' = streaming_subscriptions_sock s" "store_changes_output_sock s' = store_changes_output_sock s"
    "streaming_streaming_notify_sock s' = streaming_streaming_notify_sock s" "log_client_sock s' = log_client_sock s"
    "server_made s' = server_made s" "sv_id s' = sv_id s" "server_clock s' = server_clock s"
  shows "same_sockets s s'"
  using assms own_log_cong [of s' s] by (auto simp: same_sockets_def conveys_def)

text \<open>A flush that is due: its log message, the streams in their files, and the timer again.\<close>

lemma flush_runs:
  assumes "conveys c L s q" "flush_due y s" "sds_inv (sv_store s)" "streams_ok (sv_store s)" "restartable (stream_flush_timer s)"
  obtains s' t where "flush_streams c y s = (Inr True, s')" "conveys c L s' (logging L ServerFlushOutputStreams q)"
    "settings s' = settings (put_flush_timer t s)" "\<not> fst (Timer_Signaled (monotonic y) t)"
    "FlushOutputStreams (sv_store s) = (Inr True, sv_store s')" "log_ready y s \<Longrightarrow> log_ready y s'"
proof -
  let ?now = "monotonic y" and ?s0 = "put_flush_timer (snd (Timer_Signaled (monotonic y) (stream_flush_timer s))) s"
  obtain t where t: "Timer_Start ?now 0 (snd (Timer_Signaled ?now (stream_flush_timer s))) = (True, t)" "\<not> fst (Timer_Signaled ?now t)"
    using timer_restarts assms(2,5) unfolding flush_due_def by blast
  obtain st where st: "FlushOutputStreams (sv_store s) = (Inr True, st)" "sds_inv st" "streams_ok st"
    "\<And>b t n. writable_place st b t n = writable_place (sv_store s) b t n" using store_flushed [OF assms(3,4)] by metis
  have "same_sockets s ?s0" by (rule same_socketsI) simp_all
  with assms(1) have "conveys c L ?s0 q" by (simp add: same_sockets_def)
  from logs_conveyed [OF this, of ServerFlushOutputStreams] obtain s1 where
    s1: "server_logs c ServerFlushOutputStreams ?s0 = (Inr (), s1)" "conveys c L s1 (logging L ServerFlushOutputStreams q)"
      "settings s1 = settings ?s0" "sv_store s1 = sv_store s" by auto
  let ?s' = "put_flush_timer t (s1\<lparr>sv_store := st\<rparr>)"
  have timer: "stream_flush_timer s1 = snd (Timer_Signaled ?now (stream_flush_timer s))" using s1(3) by (simp add: settings_def)
  have "flush_streams c y s = (Inr True, ?s')"
    using assms(2) s1(1,4) st(1) t(1) timer
    by (simp add: flush_streams_def flush_due_def split_beta andThen_def on_store_def start_timer_def ret_run)
  moreover have "same_sockets s1 ?s'" by (rule same_socketsI) simp_all
  then have "conveys c L ?s' (logging L ServerFlushOutputStreams q)" using s1(2) by (simp add: same_sockets_def)
  moreover have "settings ?s' = settings (put_flush_timer t s)" using s1(3) by (simp add: settings_def)
  moreover from this have "log_ready y ?s'" if "log_ready y s"
    using that st(2-4) by (simp add: log_ready_def settings_def writer_ready_def)
  ultimately show thesis using t(2) st(1) by (intro that [of ?s' t]) simp_all
qed

lemma attended_settings:
  assumes "settings s' = settings (put_flush_timer t s)"
  shows "attended s' = attended s" "some_device_ended s' = some_device_ended s" "check_due y s' = check_due y s"
    "workers_connected s' = workers_connected s" "reactors_connected s' = reactors_connected s"
  using assms by (simp_all add: settings_def attended_def some_device_ended_def check_due_def workers_connected_def reactors_connected_def)

lemma check_runs:
  assumes "check_due y s \<longrightarrow> attended s \<and> \<not> some_device_ended s \<and> restartable (thread_check_timer s)"
  obtains t where "check_threads y s = (Inr (check_due y s), put_check_timer t s)" "\<not> fst (Timer_Signaled (monotonic y) t)"
proof (cases "check_due y s")
  case False
  then have "Timer_Signaled (monotonic y) (thread_check_timer s) = (False, thread_check_timer s)"
    by (simp add: check_due_def Timer_not_due)
  with False that [of "thread_check_timer s"] show thesis by (simp add: check_threads_def ret_run)
next
  case True
  let ?s0 = "put_check_timer (snd (Timer_Signaled (monotonic y) (thread_check_timer s))) s"
  obtain t where t: "Timer_Start (monotonic y) 0 (snd (Timer_Signaled (monotonic y) (thread_check_timer s))) = (True, t)"
    "\<not> fst (Timer_Signaled (monotonic y) t)" using timer_restarts assms True unfolding check_due_def by blast
  have "attended ?s0" "\<not> some_device_ended ?s0" using assms True by (simp_all add: attended_def some_device_ended_def)
  with CheckDevices_attended [of ?s0 y] have "CheckDevices y ?s0 = (Inr (), ?s0)" by simp
  with t True that [of t] show thesis
    by (simp add: check_threads_def check_due_def split_beta andThen_def start_timer_def ret_run)
qed

section \<open>A pump is a step of the traffic\<close>

lemma conveys_clients: "conveys c L s q \<Longrightarrow> clients_sock s \<noteq> None"
  by (auto simp: conveys_def holds_def split: option.splits)

text \<open>What a pump does to the store: a flush when one is due, and the log message that is served.\<close>

definition store_after :: "codec \<Rightarrow> system \<Rightarrow> Server \<Rightarrow> traffic \<Rightarrow> Server \<Rightarrow> bool" where
  "store_after c y s q s' \<longleftrightarrow>
     (\<exists>st. (if flush_due y s then FlushOutputStreams (sv_store s) = (Inr True, st) else st = sv_store s) \<and>
        served_store c y s q st (sv_store s'))"

lemma flush_step_runs:
  assumes "conveys c L s q" "log_ready y s" "flush_ok y s"
  obtains s1 t where "flush_streams c y s = (Inr (flush_due y s), s1)" "conveys c L s1 (to_serve L y s q)" "log_ready y s1"
    "settings s1 = settings (put_flush_timer t s)" "\<not> flush_due y s1"
    "if flush_due y s then FlushOutputStreams (sv_store s) = (Inr True, sv_store s1) else sv_store s1 = sv_store s"
proof (cases "flush_due y s")
  case True
  have "sds_inv (sv_store s)" "streams_ok (sv_store s)" "restartable (stream_flush_timer s)"
    using assms(3) True by (simp_all add: flush_ok_def)
  from flush_runs [OF assms(1) True this] obtain s1 t where s1: "flush_streams c y s = (Inr True, s1)"
    "conveys c L s1 (logging L ServerFlushOutputStreams q)" "settings s1 = settings (put_flush_timer t s)"
    "\<not> fst (Timer_Signaled (monotonic y) t)" "FlushOutputStreams (sv_store s) = (Inr True, sv_store s1)" "log_ready y s \<Longrightarrow> log_ready y s1"
    by metis
  have "stream_flush_timer s1 = t" using s1(3) by (simp add: settings_def)
  with s1 assms(2) True show thesis by (intro that [of s1 t]) (simp_all add: to_serve_def flush_due_def)
next
  case False
  then have "Timer_Signaled (monotonic y) (stream_flush_timer s) = (False, stream_flush_timer s)"
    by (simp add: flush_due_def Timer_not_due)
  then have "flush_streams c y s = (Inr False, s)" by (simp add: flush_streams_def ret_run)
  moreover have "settings s = settings (put_flush_timer (stream_flush_timer s) s)" by (simp add: settings_def)
  ultimately show thesis using False assms(1,2) by (intro that [of s "stream_flush_timer s"]) (simp_all add: to_serve_def)
qed

lemma pump_works:
  assumes "works c L y s q"
  shows "\<exists>s'. Server_Pump c y s = (Inr MakeWorkDone, s') \<and> carries c L y s' (traffic_step L (to_serve L y s q)) \<and>
    store_after c y s (to_serve L y s q) s'"
proof -
  let ?q = "to_serve L y s q"
  have "conveys c L s q" "log_ready y s" "flush_ok y s" using assms by (simp_all add: works_def background_ok_def)
  from flush_step_runs [OF this] obtain s1 u where s1: "flush_streams c y s = (Inr (flush_due y s), s1)" "conveys c L s1 ?q"
    "log_ready y s1" "settings s1 = settings (put_flush_timer u s)" "\<not> flush_due y s1"
    "if flush_due y s then FlushOutputStreams (sv_store s) = (Inr True, sv_store s1) else sv_store s1 = sv_store s" by metis
  have kept: "workers_connected s1" "reactors_connected s1"
    "check_due y s1 \<longrightarrow> attended s1 \<and> \<not> some_device_ended s1 \<and> restartable (thread_check_timer s1)"
    using attended_settings [OF s1(4)] s1(4) assms by (simp_all add: works_def background_ok_def settings_def)
  obtain t where t: "check_threads y s1 = (Inr (check_due y s1), put_check_timer t s1)" "\<not> fst (Timer_Signaled (monotonic y) t)"
    using check_runs [OF kept(3)] .
  let ?s2 = "put_check_timer t s1"
  have "same_sockets s1 ?s2" by (rule same_socketsI) simp_all
  then have c2: "conveys c L ?s2 ?q" using s1(2) by (simp add: same_sockets_def)
  have r2: "log_ready y ?s2" "\<not> held_up ?s2 ?q"
    using s1(3) kept(1,2) by (simp_all add: log_ready_def held_up_def workers_connected_def reactors_connected_def)
  from serve_conveys [OF c2 r2] obtain r s' where s': "serve c y ?s2 = (Inr r, s')" "\<not> is_error r"
    "conveys c L s' (traffic_step L ?q)" "settings s' = settings ?s2" "log_ready y s'"
    "served_store c y ?s2 ?q (sv_store ?s2) (sv_store s')" by blast
  have "\<not> flush_due y s'" "\<not> check_due y s'"
    using s'(4) s1(5) t(2) by (simp_all add: settings_def flush_due_def check_due_def)
  moreover have "workers_connected s'" "reactors_connected s'"
    using settings_connected [OF s'(4)] kept(1,2) by (simp_all add: workers_connected_def reactors_connected_def)
  ultimately have "carries c L y s' (traffic_step L ?q)"
    using s'(3,5) by (simp add: carries_def works_def background_ok_def flush_ok_def del: traffic_step.simps)
  moreover have "served_store c y s ?q (sv_store s1) (sv_store s')"
    using s'(6) s1(4) by (cases "logs ?q") (auto simp: served_store_def log_written_def settings_def split: if_splits)
  then have "store_after c y s ?q s'" unfolding store_after_def using s1(6) by auto
  moreover have "r = MakeWorkDone" using s'(2) by (simp add: MakeWorkDone_def)
  then have "Server_Pump c y s = (Inr MakeWorkDone, s')"
    using s1(1) t(1) s'(1) conveys_clients [OF s1(2)]
    by (simp add: Server_Pump_def andThen_def MakeWorkDone_def ret_run)
  ultimately show ?thesis by blast
qed

text \<open>
  C8: whatever waits on the sockets of a server with a worker and a reactor, a pump is one step of the abstract
  traffic: one message, the first of its socket, moves with all its frames to where messages of that
  socket go, log messages before responses before streamed envelopes before subscriptions before store
  changes before notices before requests; what has been sent before stays in front of it, and every
  message to or from a client is logged once, by a message that comes back on the logger socket. A log
  message is written to the log's stream of the hour, every part as an envelope, when the server writes its
  log; nothing else is written. When the flush of the streams is due, it comes first, with a log message of its
  own, and when the check of the devices is due and all of them run, it changes nothing.
\<close>

theorem pump_refines_traffic:
  assumes "works c L y s q"
  shows "\<exists>s'. Server_Pump c y s = (Inr MakeWorkDone, s') \<and> carries c L y s' (traffic_step L (to_serve L y s q)) \<and>
    store_after c y s (to_serve L y s q) s'"
  by (rule pump_works [OF assms])

definition pump_state :: "codec \<Rightarrow> system \<Rightarrow> Server \<Rightarrow> Server" where
  "pump_state c y s = snd (Server_Pump c y s)"

lemma pump_carries:
  assumes "carries c L y s q"
  shows "\<exists>s'. Server_Pump c y s = (Inr MakeWorkDone, s') \<and> carries c L y s' (traffic_step L q)"
proof -
  have "works c L y s q" "to_serve L y s q = q" using assms by (simp_all add: carries_def to_serve_def)
  with pump_works [of c L y s q] show ?thesis by auto
qed

lemma pumps_carry: "carries c L y s q \<Longrightarrow> carries c L y ((pump_state c y ^^ n) s) ((traffic_step L ^^ n) q)"
proof (induction n)
  case (Suc n)
  from pump_carries [OF Suc.IH [OF Suc.prems]] show ?case by (auto simp: pump_state_def)
qed simp

text \<open>A server whose two timers have expired, with everything else as before.\<close>

definition expired :: Timer where
  "expired = \<lparr>signaled = False, running = True, initialized = True, microseconds = 5000000, deadline = Some 0\<rparr>"

definition sample_due :: Server where
  "sample_due = (sample_server sample_traffic)\<lparr>stream_flush_timer := expired, thread_check_timer := expired\<rparr>"

lemma sample_works: "works sample_codec sample_log sample_system sample_due sample_traffic" "flush_due sample_system sample_due"
proof -
  have "same_sockets (sample_server sample_traffic) sample_due" by (rule same_socketsI) (simp_all add: sample_due_def)
  with sample_carries have "conveys sample_codec sample_log sample_due sample_traffic"
    by (simp add: carries_def works_def same_sockets_def)
  then show "works sample_codec sample_log sample_system sample_due sample_traffic"
    using sample_store_inv sample_streams_ok
    by (simp add: works_def background_ok_def flush_ok_def sample_due_def sample_server_def log_ready_def workers_connected_def
        reactors_connected_def attended_def some_device_ended_def threaded_def stopped_def in_thread_def restartable_def expired_def)
  show "flush_due sample_system sample_due"
    by (simp add: flush_due_def sample_due_def expired_def Timer_Signaled_def sample_system_def)
qed

lemma pump_refines_traffic_witness:
  "\<exists>s'. Server_Pump sample_codec sample_system sample_due = (Inr MakeWorkDone, s') \<and>
     carries sample_codec sample_log sample_system s' (traffic_step sample_log (logging sample_log ServerFlushOutputStreams sample_traffic)) \<and>
     store_after sample_codec sample_system sample_due (logging sample_log ServerFlushOutputStreams sample_traffic) s'"
  using pump_refines_traffic [OF sample_works(1)] sample_works(2) by (simp add: to_serve_def del: traffic_step.simps)

text \<open>
  C9: while nothing more arrives from outside and no other activity becomes due, a server with a worker and a
  reactor empties all its sockets, its own log messages included: one pump for every waiting message and one
  more for the log message of every response, streamed envelope and request, and of a flush that is due,
  are enough. Then all responses and after them all streamed envelopes are with the clients, all requests
  with the workers, everything in the order in which it had come, and every log message has been taken off
  the log socket, those that had waited before those the server has made; so no request is passed over
  for ever.
\<close>

theorem server_drains:
  assumes "works c L y s q" "work (to_serve L y s q) \<le> n" "0 < n"
  shows "carries c L y ((pump_state c y ^^ n) s) (drained L (to_serve L y s q))"
proof -
  let ?q = "to_serve L y s q"
  obtain k where n: "n = Suc k" using assms(3) by (cases n) auto
  have terse: "length (L l i) \<le> 1" for l i using assms(1) own_log_terse [of c s l i] by (simp add: works_def conveys_def)
  from pump_works [OF assms(1)] obtain s1 where s1: "pump_state c y s = s1" "carries c L y s1 (traffic_step L ?q)"
    by (auto simp: pump_state_def)
  have "work (traffic_step L ?q) \<le> k" using step_work [of L ?q, OF terse] assms(2) n by linarith
  from pumps_carry [OF s1(2), of k] have "carries c L y ((pump_state c y ^^ k) s1) (drained L ?q)"
    by (simp only: steps_drain [OF terse \<open>work (traffic_step L ?q) \<le> k\<close>] step_drained)
  then show ?thesis by (simp add: n funpow_swap1 s1(1))
qed

lemma server_drains_witness:
  "carries sample_codec sample_log sample_system ((pump_state sample_codec sample_system ^^ 9) sample_due)
     (drained sample_log (logging sample_log ServerFlushOutputStreams sample_traffic)) \<and>
    to_workers (drained sample_log (logging sample_log ServerFlushOutputStreams sample_traffic)) =
      [[''id'', [], ''question''], [''id'', [], ''another'']]"
proof -
  have "length (sample_log ServerFlushOutputStreams 0) \<le> 1" by (rule own_log_terse)
  then have "work (to_serve sample_log sample_system sample_due sample_traffic) \<le> 9"
    using sample_works(2) by (simp add: to_serve_def work_def) (simp add: sample_traffic_def)
  from server_drains [OF sample_works(1) this] sample_works(2) show ?thesis
    by (simp add: to_serve_def) (simp add: drained_def Let_def sample_traffic_def)
qed

section \<open>Interleavings\<close>

text \<open>
  Messages arrive on the sockets between the pumps, in any order and at any time, and the devices do what
  they do in their threads. A pump finds the system in any state, with its background activities due or
  not, and returns.
\<close>

fun arrival :: "port \<Rightarrow> (string \<times> bool) list \<Rightarrow> Server \<Rightarrow> Server" where
  "arrival AtLogger fs s = s\<lparr>sv_logger_sock := deliver fs (sv_logger_sock s)\<rparr>"
| "arrival AtWorkers fs s = s\<lparr>workers_sock := deliver fs (workers_sock s)\<rparr>"
| "arrival AtStreaming fs s = s\<lparr>streaming_sock := deliver fs (streaming_sock s)\<rparr>"
| "arrival AtSubscriptions fs s = s\<lparr>worker_subscriptions_sock := deliver fs (worker_subscriptions_sock s)\<rparr>"
| "arrival AtChanges fs s = s\<lparr>store_changes_input_sock := deliver fs (store_changes_input_sock s)\<rparr>"
| "arrival AtNotices fs s = s\<lparr>worker_streaming_notify_sock := deliver fs (worker_streaming_notify_sock s)\<rparr>"
| "arrival AtClients fs s = s\<lparr>clients_sock := deliver fs (clients_sock s)\<rparr>"

inductive server_step :: "codec \<Rightarrow> Server \<Rightarrow> (port \<times> string list) option \<Rightarrow> Server \<Rightarrow> bool" for c :: codec where
  arrives: "m \<noteq> [] \<Longrightarrow> server_step c s (Some (p, m)) (arrival p (frames m) s)"
| pumps: "Server_Pump c y s = (Inr r, s') \<Longrightarrow> server_step c s None s'"
| devices_act: "server_step c s None (s\<lparr>sv_writer := w, sv_watcher := h, request_processors := ps, persisted_state_reactors := rs\<rparr>)"

inductive server_steps :: "codec \<Rightarrow> Server \<Rightarrow> (port \<times> string list) option list \<Rightarrow> Server \<Rightarrow> bool" for c :: codec where
  no_step: "server_steps c s [] s"
| one_more: "server_steps c s es s1 \<Longrightarrow> server_step c s1 e s' \<Longrightarrow> server_steps c s (es @ [e]) s'"

inductive_cases server_stepE: "server_step c s e s'"

fun queued :: "port \<Rightarrow> string list \<Rightarrow> traffic \<Rightarrow> traffic" where
  "queued AtLogger m q = q\<lparr>logs := logs q @ [m]\<rparr>"
| "queued AtWorkers m q = q\<lparr>responses := responses q @ [m]\<rparr>"
| "queued AtStreaming m q = q\<lparr>streamed := streamed q @ [m]\<rparr>"
| "queued AtSubscriptions m q = q\<lparr>new_subscriptions := new_subscriptions q @ [m]\<rparr>"
| "queued AtChanges m q = q\<lparr>changes_seen := changes_seen q @ [m]\<rparr>"
| "queued AtNotices m q = q\<lparr>notices := notices q @ [m]\<rparr>"
| "queued AtClients m q = q\<lparr>requests := requests q @ [m]\<rparr>"

lemma arrival_conveys: "conveys c L s q \<Longrightarrow> m \<noteq> [] \<Longrightarrow> conveys c L (arrival p (frames m) s) (queued p m q)"
  using own_log_cong [of "arrival p (frames m) s" s c] by (cases p) (simp_all add: conveys_def holds_deliver)

text \<open>Whatever the background activities come to, they leave the sockets alone.\<close>

lemma same_sockets_then:
  fixes m :: "(Server, 'a) action"
  assumes "same_sockets s (snd (m s))" "\<And>x s. same_sockets s (snd (f x s))"
  shows "same_sockets s (snd (andThen m f s))"
proof (cases "m s")
  case (Pair x t)
  with assms(1) assms(2) [of t] show ?thesis
    by (cases x) (auto simp: andThen_def same_sockets_def)
qed

lemma Shutdown_sockets: "same_sockets s (snd (Shutdown y s))"
proof -
  have "same_sockets s (snd (stop_processors y s))" "same_sockets s (snd (stop_reactors y s))"
    "same_sockets s (snd (stop_watcher y s))" "same_sockets s (snd (stop_writer y s))"
    "same_sockets s (snd (modify (\<lambda>s. s\<lparr>sv_active := snd (Signal (sv_active s))\<rparr>) s))" for s
    by (intro same_socketsI; simp add: stop_processors_def stop_reactors_def stop_watcher_def stop_writer_def modify_def split_beta
        split: prod.split sum.split)+
  then show ?thesis unfolding Shutdown_def by (intro same_sockets_then) simp_all
qed

lemma start_timer_sockets:
  assumes "\<And>t s. same_sockets s (put t s)"
  shows "same_sockets s (snd (start_timer timer put y e s))"
  using assms by (simp add: start_timer_def Let_def split_beta)

lemma check_sockets: "same_sockets s (snd (check_threads y s))"
proof -
  have put: "same_sockets s (put_check_timer t s)" for t s by (rule same_socketsI) simp_all
  have "same_sockets s (snd (CheckDevices y s))" for s
    by (auto simp: CheckDevices_def same_sockets_refl Shutdown_sockets ret_run split: sum.split)
  then have "same_sockets t (snd (seq (CheckDevices y) (seq (start_timer thread_check_timer put_check_timer y e) (ret True)) t))" for t e
    by (intro same_sockets_then start_timer_sockets put) (simp_all add: same_sockets_refl ret_run)
  then show ?thesis
    using put [of s] by (fastforce simp: check_threads_def Let_def split_beta same_sockets_def)
qed

lemma flush_conveys:
  assumes "conveys c L s q" "flush_streams c y s = (Inr flushed, s')"
  shows "conveys c L s' (if flushed then logging L ServerFlushOutputStreams q else q)"
proof -
  let ?t = "put_flush_timer (snd (Timer_Signaled (monotonic y) (stream_flush_timer s))) s"
  have put: "same_sockets s (put_flush_timer t s)" for t s by (rule same_socketsI) simp_all
  have t: "conveys c L ?t q" using put assms(1) by (auto simp: same_sockets_def)
  show ?thesis
  proof (cases "fst (Timer_Signaled (monotonic y) (stream_flush_timer s))")
    case False
    with assms(2) t show ?thesis by (auto simp: flush_streams_def Let_def split_beta ret_run)
  next
    case True
    from logs_conveyed [OF t, of ServerFlushOutputStreams] obtain s1 where
      s1: "server_logs c ServerFlushOutputStreams ?t = (Inr (), s1)" "conveys c L s1 (logging L ServerFlushOutputStreams q)" by blast
    let ?rest = "seq (andThen (on_store FlushOutputStreams) (\<lambda>_. ret ()))
        (seq (start_timer stream_flush_timer put_flush_timer y ''could not restart stream flush timer'') (ret True))"
    have "same_sockets s (snd (on_store FlushOutputStreams s))" for s
      by (rule same_socketsI) (simp_all add: on_store_def split_beta)
    then have "same_sockets s (snd (?rest s))" for s
      by (intro same_sockets_then start_timer_sockets put) (simp_all add: same_sockets_refl ret_run)
    moreover have run: "flush_streams c y s = ?rest s1"
      using True s1(1) by (simp add: flush_streams_def Let_def split_beta andThen_Inr)
    ultimately have "conveys c L s' (logging L ServerFlushOutputStreams q)"
      using s1(2) assms(2) unfolding same_sockets_def by (metis snd_conv)
    moreover have "flushed = True"
      using run assms(2) by (auto simp: andThen_def ret_run split: prod.splits sum.splits)
    ultimately show ?thesis by simp
  qed
qed

lemma andThen_returned:
  assumes "andThen m f s = (Inr x, s')"
  obtains a t where "m s = (Inr a, t)" "f a t = (Inr x, s')"
  using assms by (auto simp: andThen_def split: prod.splits sum.splits)

lemma pump_conveys:
  assumes "conveys c L s q" "Server_Pump c y s = (Inr r, s')"
  obtains flushed where "conveys c L s' (traffic_step L (if flushed then logging L ServerFlushOutputStreams q else q))"
proof -
  obtain flushed s1 where s1: "flush_streams c y s = (Inr flushed, s1)" and r1:
    "andThen (check_threads y) (\<lambda>checked s.
       if clients_sock s = None then throw (Undefined ''poll items not set'') s
       else andThen (serve c y) (\<lambda>r. ret (if is_error r then MakeError_pump else if flushed \<or> checked then MakeWorkDone else r)) s) s1 = (Inr r, s')"
    using assms(2) unfolding Server_Pump_def by (rule andThen_returned)
  let ?q = "if flushed then logging L ServerFlushOutputStreams q else q"
  from flush_conveys [OF assms(1) s1] have c1: "conveys c L s1 ?q" .
  from r1 obtain checked s2 where s2: "check_threads y s1 = (Inr checked, s2)" and r2:
    "(if clients_sock s2 = None then throw (Undefined ''poll items not set'') s2
       else andThen (serve c y) (\<lambda>r. ret (if is_error r then MakeError_pump else if flushed \<or> checked then MakeWorkDone else r)) s2) = (Inr r, s')"
    by (rule andThen_returned)
  have c2: "conveys c L s2 ?q" using check_sockets [of s1 y] c1 s2 by (simp add: same_sockets_def)
  from r2 conveys_clients [OF c2] have "andThen (serve c y) (\<lambda>r. ret (if is_error r then MakeError_pump else if flushed \<or> checked then MakeWorkDone else r)) s2 = (Inr r, s')"
    by simp
  then obtain r' t where "serve c y s2 = (Inr r', t)" "t = s'" by (rule andThen_returned) (simp add: ret_run)
  with serve_returned [OF c2] show thesis by (intro that [of flushed]) blast
qed

text \<open>What has arrived at a port, and what interleavings of messages there are.\<close>

definition arrived :: "port \<Rightarrow> (port \<times> string list) option list \<Rightarrow> string list list" where
  "arrived p es = [m. Some (p', m) \<leftarrow> es, p' = p]"

lemma shuffles_extend: "zs \<in> shuffles xs ys \<Longrightarrow> zs @ ws \<in> shuffles xs (ys @ ws)"
proof (induction xs ys arbitrary: zs rule: shuffles.induct)
  case (2 x xs)
  have "us @ ws \<in> shuffles us ws" for us
    by (induction us) (simp_all add: Cons_in_shuffles_iff)
  with 2 show ?case by simp
qed (auto simp: Cons_in_shuffles_iff)

lemma shuffles_extend_left: "zs \<in> shuffles xs ys \<Longrightarrow> zs @ ws \<in> shuffles (xs @ ws) ys"
  using shuffles_extend [of zs ys xs ws] by (simp add: shuffles_commutes)

text \<open>
  What holds between the traffic at the start and later, when \<open>es\<close> has arrived: on the sockets with one
  source, to the clients, and on the log.
\<close>

definition in_order :: "traffic \<Rightarrow> (port \<times> string list) option list \<Rightarrow> traffic \<Rightarrow> bool" where
  "in_order q es q' \<longleftrightarrow>
     to_workers q' @ requests q' = to_workers q @ requests q @ arrived AtClients es \<and>
     to_one_reactor q' @ new_subscriptions q' = to_one_reactor q @ new_subscriptions q @ arrived AtSubscriptions es \<and>
     change_news q' @ changes_seen q' = change_news q @ changes_seen q @ arrived AtChanges es \<and>
     notice_news q' @ notices q' = notice_news q @ notices q @ arrived AtNotices es"

definition merged :: "traffic \<Rightarrow> (port \<times> string list) option list \<Rightarrow> traffic \<Rightarrow> bool" where
  "merged q es q' \<longleftrightarrow>
     (\<exists>rs ss zs. rs @ responses q' = responses q @ arrived AtWorkers es \<and> ss @ streamed q' = streamed q @ arrived AtStreaming es \<and>
        zs \<in> shuffles rs ss \<and> to_clients q' = to_clients q @ zs)"

definition log_kept :: "own_log \<Rightarrow> traffic \<Rightarrow> (port \<times> string list) option list \<Rightarrow> server_log list \<Rightarrow> traffic \<Rightarrow> bool" where
  "log_kept L q es ls q' \<longleftrightarrow>
     log_count q' = log_count q + length ls \<and> own_logged q' = own_logged q @ own_logs L (log_count q) ls \<and>
     (\<exists>zs \<in> shuffles (arrived AtLogger es) (own_logs L (log_count q) ls). log_done q' @ logs q' = log_done q @ logs q @ zs)"

definition counted :: "traffic \<Rightarrow> server_log list \<Rightarrow> traffic \<Rightarrow> bool" where
  "counted q ls q' \<longleftrightarrow>
     length (to_clients q') = length (to_clients q) + count_list ls ServerSendClientMessage \<and>
     length (to_workers q') = length (to_workers q) + count_list ls ServerReceiveClientMessage"

definition conserved :: "own_log \<Rightarrow> traffic \<Rightarrow> (port \<times> string list) option list \<Rightarrow> traffic \<Rightarrow> bool" where
  "conserved L q es q' \<longleftrightarrow> in_order q es q' \<and> merged q es q' \<and> (\<exists>ls. log_kept L q es ls q' \<and> counted q ls q')"

lemma arrived_simps [simp]:
  "arrived p [] = []" "arrived p (es @ [None]) = arrived p es"
  "arrived p (es @ [Some (p', m)]) = (if p' = p then arrived p es @ [m] else arrived p es)"
  by (simp_all add: arrived_def)

lemma own_logs_snoc: "own_logs L n (ls @ [l]) = own_logs L n ls @ L l (n + length ls)"
  by (induction ls arbitrary: n) simp_all

lemma conserved_nothing: "conserved L q [] q"
  by (auto simp: conserved_def in_order_def merged_def log_kept_def counted_def intro!: exI [of _ "[]"])

lemma conserved_idle: "conserved L q es q' \<Longrightarrow> conserved L q (es @ [None]) q'"
  by (simp add: conserved_def in_order_def merged_def log_kept_def)

text \<open>An arrival, and a log message of the server.\<close>

lemma merged_arrival:
  assumes "merged q es q'"
  shows "merged q (es @ [Some (p, m)]) (queued p m q')"
proof -
  obtain rs ss zs where "rs @ responses q' = responses q @ arrived AtWorkers es" "ss @ streamed q' = streamed q @ arrived AtStreaming es"
    "zs \<in> shuffles rs ss" "to_clients q' = to_clients q @ zs"
    using assms by (auto simp: merged_def)
  then show ?thesis
    unfolding merged_def by (intro exI [of _ rs] exI [of _ ss] exI [of _ zs]) (cases p; simp flip: append_assoc)
qed

lemma log_kept_arrival:
  assumes "log_kept L q es ls q'"
  shows "log_kept L q (es @ [Some (p, m)]) ls (queued p m q')"
proof -
  obtain zs where z: "zs \<in> shuffles (arrived AtLogger es) (own_logs L (log_count q) ls)" "log_done q' @ logs q' = log_done q @ logs q @ zs"
    using assms by (auto simp: log_kept_def)
  show ?thesis
  proof (cases "p = AtLogger")
    case True
    have "log_done q' @ logs q' @ [m] = log_done q @ logs q @ zs @ [m]" using z(2) by (simp flip: append_assoc)
    then have "\<exists>zs \<in> shuffles (arrived AtLogger es @ [m]) (own_logs L (log_count q) ls). log_done q' @ logs q' @ [m] = log_done q @ logs q @ zs"
      using shuffles_extend_left [OF z(1), of "[m]"] by (rule bexI)
    with assms True show ?thesis by (simp add: log_kept_def)
  next
    case False
    with assms show ?thesis by (cases p) (simp_all add: log_kept_def)
  qed
qed

lemma conserved_arrival:
  assumes "conserved L q es q'"
  shows "conserved L q (es @ [Some (p, m)]) (queued p m q')"
proof -
  have "in_order q (es @ [Some (p, m)]) (queued p m q')"
    using assms by (cases p) (simp_all add: conserved_def in_order_def flip: append_assoc)
  moreover have "counted q ls (queued p m q') = counted q ls q'" for ls by (cases p) (simp_all add: counted_def)
  ultimately show ?thesis using assms merged_arrival log_kept_arrival by (fastforce simp: conserved_def)
qed

lemma log_kept_logging:
  assumes "log_kept L q es ls q'" "logs q'' = logs q'" "log_done q'' = log_done q'" "log_count q'' = log_count q'"
    "own_logged q'' = own_logged q'"
  shows "log_kept L q es (ls @ [l]) (logging L l q'')"
proof -
  obtain zs where z: "zs \<in> shuffles (arrived AtLogger es) (own_logs L (log_count q) ls)" "log_done q' @ logs q' = log_done q @ logs q @ zs"
    using assms(1) by (auto simp: log_kept_def)
  have n: "log_count q' = log_count q + length ls" using assms(1) by (simp add: log_kept_def)
  have "log_done q' @ logs q' @ L l (log_count q + length ls) = log_done q @ logs q @ zs @ L l (log_count q + length ls)"
    using z(2) by (simp flip: append_assoc)
  then have "\<exists>zs \<in> shuffles (arrived AtLogger es) (own_logs L (log_count q) ls @ L l (log_count q + length ls)).
      log_done q' @ logs q' @ L l (log_count q + length ls) = log_done q @ logs q @ zs"
    using shuffles_extend [OF z(1), of "L l (log_count q + length ls)"] by (rule bexI)
  with assms show ?thesis by (simp add: log_kept_def own_logs_snoc n)
qed

lemma conserved_flush:
  assumes "conserved L q es q'"
  shows "conserved L q es (logging L ServerFlushOutputStreams q')"
proof -
  from assms obtain ls where ls: "log_kept L q es ls q'" "counted q ls q'" by (auto simp: conserved_def)
  have "log_kept L q es (ls @ [ServerFlushOutputStreams]) (logging L ServerFlushOutputStreams q')"
    by (rule log_kept_logging [OF ls(1)]) simp_all
  moreover have "counted q (ls @ [ServerFlushOutputStreams]) (logging L ServerFlushOutputStreams q')"
    using ls(2) by (simp add: counted_def)
  ultimately show ?thesis using assms by (auto simp: conserved_def in_order_def merged_def)
qed

text \<open>A message that is moved.\<close>

lemma merged_response:
  assumes "merged q es q'" "responses q' = m # ms"
  shows "merged q es (q'\<lparr>responses := ms, to_clients := to_clients q' @ [m]\<rparr>)"
proof -
  obtain rs ss zs where z: "rs @ responses q' = responses q @ arrived AtWorkers es" "ss @ streamed q' = streamed q @ arrived AtStreaming es"
    "zs \<in> shuffles rs ss" "to_clients q' = to_clients q @ zs"
    using assms(1) by (auto simp: merged_def)
  with shuffles_extend_left [OF z(3), of "[m]"] assms(2) show ?thesis
    unfolding merged_def by (intro exI [of _ "rs @ [m]"] exI [of _ ss] exI [of _ "zs @ [m]"]) simp
qed

lemma merged_streamed:
  assumes "merged q es q'" "streamed q' = m # ms"
  shows "merged q es (q'\<lparr>streamed := ms, to_clients := to_clients q' @ [m]\<rparr>)"
proof -
  obtain rs ss zs where z: "rs @ responses q' = responses q @ arrived AtWorkers es" "ss @ streamed q' = streamed q @ arrived AtStreaming es"
    "zs \<in> shuffles rs ss" "to_clients q' = to_clients q @ zs"
    using assms(1) by (auto simp: merged_def)
  with shuffles_extend [OF z(3), of "[m]"] assms(2) show ?thesis
    unfolding merged_def by (intro exI [of _ rs] exI [of _ "ss @ [m]"] exI [of _ "zs @ [m]"]) simp
qed

lemma conserved_moved:
  assumes "conserved L q es q'" "in_order q es q1" "merged q es q1"
    "logs q1 = logs q'" "log_done q1 = log_done q'" "log_count q1 = log_count q'" "own_logged q1 = own_logged q'"
    "length (to_clients q1) = length (to_clients q') + (if l = ServerSendClientMessage then 1 else 0)"
    "length (to_workers q1) = length (to_workers q') + (if l = ServerReceiveClientMessage then 1 else 0)"
  shows "conserved L q es (logging L l q1)"
proof -
  from assms(1) obtain ls where ls: "log_kept L q es ls q'" "counted q ls q'" by (auto simp: conserved_def)
  have "log_kept L q es (ls @ [l]) (logging L l q1)"
    by (rule log_kept_logging [OF ls(1)]) (fact assms)+
  moreover have "counted q (ls @ [l]) (logging L l q1)"
    using ls(2) assms(8,9) by (auto simp: counted_def)
  moreover have "in_order q es (logging L l q1)" "merged q es (logging L l q1)"
    using assms(2,3) by (simp_all add: in_order_def merged_def)
  ultimately show ?thesis by (auto simp: conserved_def)
qed

lemma conserved_pump:
  assumes "conserved L q es q'"
  shows "conserved L q es (traffic_step L q')"
proof -
  note d = conserved_def in_order_def merged_def log_kept_def counted_def
  have o: "in_order q es q'" and m: "merged q es q'" using assms by (simp_all add: conserved_def)
  consider (log) m ms where "logs q' = m # ms" | (response) m ms where "logs q' = []" "responses q' = m # ms"
    | (stream) m ms where "logs q' = []" "responses q' = []" "streamed q' = m # ms"
    | (sub) m ms where "logs q' = []" "responses q' = []" "streamed q' = []" "new_subscriptions q' = m # ms"
    | (change) m ms where "logs q' = []" "responses q' = []" "streamed q' = []" "new_subscriptions q' = []" "changes_seen q' = m # ms"
    | (notice) m ms where "logs q' = []" "responses q' = []" "streamed q' = []" "new_subscriptions q' = []" "changes_seen q' = []"
        "notices q' = m # ms"
    | (request) m ms where "logs q' = []" "responses q' = []" "streamed q' = []" "new_subscriptions q' = []" "changes_seen q' = []"
        "notices q' = []" "requests q' = m # ms"
    | (nothing) "logs q' = []" "responses q' = []" "streamed q' = []" "new_subscriptions q' = []" "changes_seen q' = []"
        "notices q' = []" "requests q' = []"
    by (metis list.exhaust)
  then show ?thesis
  proof cases
    case response
    have "conserved L q es (logging L ServerSendClientMessage (q'\<lparr>responses := ms, to_clients := to_clients q' @ [m]\<rparr>))"
      using o by (intro conserved_moved [OF assms _ merged_response [OF m response(2)]]) (simp_all add: in_order_def)
    with response show ?thesis by simp
  next
    case stream
    have "conserved L q es (logging L ServerSendClientMessage (q'\<lparr>streamed := ms, to_clients := to_clients q' @ [m]\<rparr>))"
      using o by (intro conserved_moved [OF assms _ merged_streamed [OF m stream(3)]]) (simp_all add: in_order_def)
    with stream show ?thesis by simp
  next
    case request
    have "conserved L q es (logging L ServerReceiveClientMessage (q'\<lparr>requests := ms, to_workers := to_workers q' @ [m]\<rparr>))"
      using o m request by (intro conserved_moved [OF assms]) (simp_all add: in_order_def merged_def)
    with request show ?thesis by simp
  next
    case nothing
    with assms show ?thesis by simp
  qed (use assms in \<open>simp_all add: d\<close>)
qed

lemma step_conveys:
  assumes "server_step c s e s'" "conveys c L s q'" "conserved L q es q'"
  shows "\<exists>q''. conveys c L s' q'' \<and> conserved L q (es @ [e]) q''"
  using assms(1)
proof (cases rule: server_step.cases)
  case (arrives m p)
  with arrival_conveys [OF assms(2), of m p] conserved_arrival [OF assms(3), of p m] show ?thesis by blast
next
  case (pumps y r)
  from pump_conveys [OF assms(2) this(2)] obtain flushed where
    "conveys c L s' (traffic_step L (if flushed then logging L ServerFlushOutputStreams q' else q'))" .
  moreover have "conserved L q es (if flushed then logging L ServerFlushOutputStreams q' else q')"
    using assms(3) conserved_flush by simp
  ultimately show ?thesis using conserved_idle [OF conserved_pump] pumps(1) by blast
next
  case (devices_act w h ps rs)
  have "same_sockets s s'" unfolding devices_act(2) by (rule same_socketsI) simp_all
  then have "conveys c L s' q'" using assms(2) by (simp add: same_sockets_def)
  with conserved_idle [OF assms(3)] devices_act(1) show ?thesis by blast
qed

text \<open>
  C10: whatever arrives at the server between its pumps, and whenever, whether its timers are due or not,
  whatever its devices do and whether its log can be written or not: as long as its pumps return, no message
  is lost, made up or doubled, and none overtakes another of its socket. What the workers have been sent
  followed by what still waits is what the clients have sent, in that order, and so for subscriptions,
  changes and notices; what the clients have been sent is an interleaving of the responses and of the
  streamed envelopes up to those that still wait; what has been taken off the log socket, followed by what
  waits there, is an interleaving of what the devices have logged and of what the server itself has logged,
  which is one message for every message to or from a client besides those of its flushes.
\<close>

theorem traffic_conserved:
  assumes "server_steps c s es s'" "conveys c L s q"
  shows "\<exists>q'. conveys c L s' q' \<and> conserved L q es q'"
  using assms
proof (induction rule: server_steps.induct)
  case (no_step s)
  then show ?case using conserved_nothing by blast
next
  case (one_more s es s1 e s')
  then obtain q' where "conveys c L s1 q'" "conserved L q es q'" by blast
  from step_conveys [OF one_more.hyps(2) this] show ?case .
qed

lemma traffic_conserved_witness:
  "\<exists>s'. server_steps sample_codec (sample_server sample_traffic) [None, Some (AtClients, [''late''])] s' \<and>
    (\<exists>q'. conveys sample_codec sample_log s' q' \<and>
      to_workers q' @ requests q' = [[''id'', [], ''question''], [''id'', [], ''another''], [''late'']])"
proof -
  let ?s = "sample_server sample_traffic"
  from pump_carries [OF sample_carries] obtain s1 where p: "Server_Pump sample_codec sample_system ?s = (Inr MakeWorkDone, s1)" by blast
  have "server_steps sample_codec ?s ([] @ [None]) s1"
    by (rule server_steps.intros) (auto intro: server_steps.intros server_step.intros p)
  then have steps: "server_steps sample_codec ?s (([] @ [None]) @ [Some (AtClients, [''late''])]) (arrival AtClients (frames [''late'']) s1)"
    by (rule server_steps.intros) (rule server_step.intros, simp)
  from sample_carries have "conveys sample_codec sample_log ?s sample_traffic" by (simp add: carries_def works_def)
  from traffic_conserved [OF steps this] obtain q' where
    "conveys sample_codec sample_log (arrival AtClients (frames [''late'']) s1) q'"
    "conserved sample_log sample_traffic (([] @ [None]) @ [Some (AtClients, [''late''])]) q'" by blast
  with steps show ?thesis by (auto simp: conserved_def in_order_def arrived_def sample_traffic_def)
qed

end
