(* ===== verification/Server_Safety.thy ===== *)
theory Server_Safety
  imports Server_Traffic
begin

text \<open>
  What holds of the server device over its whole life (src/zippylog/device/server.cpp): what the check of
  its devices does when one of them has ended, that devices once shut down are never made again, and what
  the server's own log looks like to a reader.
\<close>

section \<open>The end of a device\<close>


section \<open>What only the shutdown changes\<close>

text \<open>A server that was started and has no device.\<close>

definition devices :: "Server \<Rightarrow> bool \<times> bool \<times> store_writer device option \<times> watcher device option \<times> server_impl rp device option list \<times> reactor device option list" where
  "devices s = (sv_initialized s, cw_signaled (sv_active s), sv_writer s, sv_watcher s, request_processors s, persisted_state_reactors s)"

definition no_devices :: "Server \<Rightarrow> bool" where
  "no_devices s \<longleftrightarrow> devices s = (True, True, None, None, [], [])"

lemma devices_logs [simp]: "devices (snd (server_logs c l s)) = devices s"
  by (simp add: server_logs_def devices_def Let_def split_beta split: option.splits)

lemma devices_then:
  assumes "devices (snd (m s)) = devices s" "\<And>x s. devices (snd (f x s)) = devices s"
  shows "devices (snd (andThen m f s)) = devices s"
proof (cases "m s")
  case (Pair x t)
  with assms show ?thesis by (cases x) (simp_all add: andThen_def)
qed

lemma devices_move:
  assumes "\<And>s. devices (snd (logged s)) = devices s" "\<And>k s. devices (put_from k s) = devices s" "\<And>k s. devices (put_to k s) = devices s"
  shows "devices (snd (move peers src put_from dst put_to logged s)) = devices s"
proof -
  have "devices (snd (seq logged (ret r) t)) = devices t" "devices (snd (seq (ret ()) (ret r) t)) = devices t" for r :: PumpResult and t
    using assms(1) by (intro devices_then; simp)+
  with assms(2,3) show ?thesis by (simp add: move_def Let_def split_beta throw_run split: option.splits)
qed

lemma devices_serve: "devices (snd (serve c y s)) = devices s"
proof -
  have "devices (snd (receive_log c y k s)) = devices s" for k
    by (simp add: receive_log_def Let_def split_beta devices_def split: sum.splits)
  moreover have "devices (snd (move peers src put_from dst put_to (server_logs c l) s)) = devices s"
    "devices (snd (move peers src put_from dst put_to (ret ()) s)) = devices s"
    if "\<And>k s. devices (put_from k s) = devices s" "\<And>k s. devices (put_to k s) = devices s" for peers src put_from dst put_to l
    using that by (intro devices_move; simp)+
  ultimately show ?thesis
    by (simp add: serve_def) (simp add: devices_def)
qed

lemma devices_timer:
  assumes "\<And>t s. devices (put t s) = devices s"
  shows "devices (snd (start_timer timer put y e s)) = devices s"
  using assms by (simp add: start_timer_def Let_def split_beta)

lemma devices_flush: "devices (snd (flush_streams c y s)) = devices s"
proof -
  have put: "devices (put_flush_timer t s) = devices s" for t s by (simp add: devices_def)
  have "devices (snd (on_store f s)) = devices s" for f :: "(Store, bool) action" and s
    by (simp add: on_store_def split_beta devices_def)
  then have "devices (snd (seq (server_logs c l) (seq (andThen (on_store FlushOutputStreams) (\<lambda>_. ret ()))
      (seq (start_timer stream_flush_timer put_flush_timer y e) (ret True))) s)) = devices s" for l e s
    using devices_timer [of put_flush_timer, OF put] by (intro devices_then) simp_all
  then show ?thesis
    using put by (simp add: flush_streams_def Let_def split_beta)
qed

text \<open>
  The outside of the server between two steps: messages arrive, children do their work in their threads,
  and the system changes.
\<close>

record outside =
  next_system :: system
  arriving :: "inproc option \<Rightarrow> (string \<times> bool) list"
  writer_does :: "store_writer device \<Rightarrow> store_writer device"
  watcher_does :: "watcher device \<Rightarrow> watcher device"
  processor_does :: "server_impl rp device \<Rightarrow> server_impl rp device"
  reactor_does :: "reactor device \<Rightarrow> reactor device"

definition server_env :: "(nat \<Rightarrow> outside) \<Rightarrow> nat \<Rightarrow> Server \<times> system \<Rightarrow> Server \<times> system" where
  "server_env out k x =
     (let s = fst x; u = out k in
      (s\<lparr>sv_logger_sock := deliver (arriving u (Some LOGGER)) (sv_logger_sock s),
         workers_sock := deliver (arriving u (Some WORKERS)) (workers_sock s),
         streaming_sock := deliver (arriving u (Some STREAMING)) (streaming_sock s),
         worker_subscriptions_sock := deliver (arriving u (Some WORKER_SUBSCRIPTIONS)) (worker_subscriptions_sock s),
         store_changes_input_sock := deliver (arriving u (Some STORE_CHANGES_INPUT)) (store_changes_input_sock s),
         worker_streaming_notify_sock := deliver (arriving u (Some WORKER_STREAMING_NOTIFY)) (worker_streaming_notify_sock s),
         clients_sock := deliver (arriving u None) (clients_sock s),
         sv_writer := map_option (writer_does u) (sv_writer s), sv_watcher := map_option (watcher_does u) (sv_watcher s),
         request_processors := map (map_option (processor_does u)) (request_processors s),
         persisted_state_reactors := map (map_option (reactor_does u)) (persisted_state_reactors s)\<rparr>,
       next_system u))"

lemma no_devices_fields:
  "no_devices s \<longleftrightarrow> sv_initialized s \<and> cw_signaled (sv_active s) \<and> sv_writer s = None \<and> sv_watcher s = None \<and>
     request_processors s = [] \<and> persisted_state_reactors s = []"
  by (simp add: no_devices_def devices_def)

lemma no_devices_Shutdown: "no_devices s \<Longrightarrow> Shutdown y s = (Inr (), s)"
  by (cases s) (simp add: no_devices_fields Shutdown_attended attended_def without_devices_def)

lemma no_devices_then:
  assumes "no_devices (snd (m s))" "\<And>x s. no_devices s \<Longrightarrow> no_devices (snd (f x s))"
  shows "no_devices (snd (andThen m f s))"
proof (cases "m s")
  case (Pair x t)
  with assms show ?thesis by (cases x) (simp_all add: andThen_def)
qed

lemma no_devices_check: "no_devices s \<Longrightarrow> no_devices (snd (check_threads y s))"
  unfolding check_threads_def Let_def split_beta
  by (auto simp: no_devices_fields CheckDevices_def stopped_def no_devices_Shutdown [unfolded no_devices_fields] start_timer_def
      Let_def split_beta intro!: no_devices_then [unfolded no_devices_fields])


lemma no_devices_pump: "no_devices s \<Longrightarrow> no_devices (snd (Server_Pump c y s))"
  unfolding Server_Pump_def
proof (intro no_devices_then)
  assume "no_devices s"
  then show "no_devices (snd (flush_streams c y s))" by (simp add: no_devices_def devices_flush)
next
  show "no_devices (snd (check_threads y t))" if "no_devices t" for t using no_devices_check [OF that] .
next
  fix flushed checked t
  assume t: "no_devices t"
  have "no_devices (snd (andThen (serve c y) (\<lambda>r. ret (if is_error r then MakeError_pump else if flushed \<or> checked then MakeWorkDone else r)) t))"
    using t by (intro no_devices_then) (simp_all add: no_devices_def devices_serve)
  then show "no_devices (snd (if clients_sock t = None then throw (Undefined ''poll items not set'') t
      else andThen (serve c y) (\<lambda>r. ret (if is_error r then MakeError_pump else if flushed \<or> checked then MakeWorkDone else r)) t))"
    using t by simp
qed

lemma no_devices_Start: "no_devices s \<Longrightarrow> Start E y s = (Inr True, s)"
  by (simp add: Start_def no_devices_fields)

lemma no_devices_env: "no_devices (fst x) \<Longrightarrow> no_devices (fst (server_env out k x))"
  by (simp add: server_env_def no_devices_fields Let_def)

lemma no_devices_hooks:
  assumes "no_devices s"
  shows "no_devices (snd (Server_OnFirstRun E y s))" "no_devices (snd (Server_OnRunStart E y s))"
    "no_devices (snd (Server_OnRunFinish c y s))"
  using assms no_devices_Start [OF assms, of E y] no_devices_Shutdown [OF assms, of y]
  by (simp_all add: Server_OnFirstRun_def Server_OnRunStart_def Server_OnRunFinish_def andThen_def no_devices_def)

interpretation abandoned: device_invariant "server_ops E" "server_env out" "\<lambda>x. no_devices (fst x)"
  by unfold_locales (simp_all add: server_ops_def with_system_def split_beta no_devices_env no_devices_pump no_devices_hooks)

section \<open>Properties\<close>


text \<open>
  C12: a server that has lost its devices never has any again: whatever arrives and however its run loop
  ends, no request processor, reactor, writer or watcher is made, also not by another start, and the
  condition of the children stays signalled.
\<close>

theorem no_restart:
  assumes "no_devices (fst (dev s))" "AsyncExecStart cw (server_env out) (server_ops E) s = Some (x, s')"
  shows "no_devices (fst (dev s')) \<and> Start E y (fst (dev s')) = (Inr True, fst (dev s'))"
  using abandoned.async_keeps [OF assms] no_devices_Start by blast


text \<open>A server whose worker has ended, with a log message waiting, or with a request only.\<close>

definition sample_ended :: "traffic \<Rightarrow> Server" where
  "sample_ended q = (sample_server q)\<lparr>request_processors := [Some (in_thread False sample_rp)], thread_check_timer := expired\<rparr>"



lemma no_restart_witness:
  "\<exists>x s'. AsyncExecStart (\<lambda>k. 9 \<le> k)
      (server_env (\<lambda>_. \<lparr>next_system = sample_system, arriving = (\<lambda>_. []), writer_does = id, watcher_does = id, processor_does = id,
         reactor_does = id\<rparr>)) (server_ops sample_env)
      \<lparr>dev = (without_devices (sample_ended sample_traffic), sample_system), dev_thread = True, dev_running = True, has_ran = True,
       async_signaled = True, waits = 0\<rparr> = Some (x, s') \<and> no_devices (fst (dev s'))"
proof -
  let ?s = "\<lparr>dev = (without_devices (sample_ended sample_traffic), sample_system), dev_thread = True, dev_running = True, has_ran = True,
       async_signaled = True, waits = 0\<rparr>"
  let ?e = "server_env (\<lambda>_. \<lparr>next_system = sample_system, arriving = (\<lambda>_. []), writer_does = id, watcher_does = id,
    processor_does = id, reactor_does = id\<rparr>)"
  from async_returns [where cw = "\<lambda>k. 9 \<le> k" and k = 9 and s = ?s and env = ?e and V = "server_ops sample_env"]
  obtain x s' where r: "AsyncExecStart (\<lambda>k. 9 \<le> k) ?e (server_ops sample_env) ?s = Some (x, s')" by auto
  have "no_devices (fst (dev ?s))" by (simp add: no_devices_fields without_devices_def sample_ended_def sample_server_def)
  from no_restart [OF this r] r show ?thesis by blast
qed

section \<open>What the server's log looks like\<close>

text \<open>A reader that meets a record of no bytes reads nothing, now and ever after.\<close>

lemma stuck_at_empty: "have_next_size s \<Longrightarrow> next_envelope_size s = 0 \<Longrightarrow> read_some c n s = ([], s)"
  by (cases n) (simp_all add: ReadEnvelope_def NextEnvelopeSize_def)

lemma read_before_empty:
  assumes "list_all (sound_record c) pbs" "rest s = concat (map (record_bytes c) pbs) @ WriteVarint32 c 0 @ r" "\<not> have_next_size s"
    "\<And>r. ReadVarint32 c (WriteVarint32 c 0 @ r) = Some (0, r)"
  shows "fst (read_some c n s) = take n pbs \<and>
    (length pbs < n \<longrightarrow> (\<forall>k. fst (read_some c k (snd (read_some c n s))) = []))"
  using assms(1-3)
proof (induction pbs arbitrary: n s)
  case Nil
  let ?s = "s\<lparr>next_envelope_size := 0, rest := r, have_next_size := True\<rparr>"
  have "read_some c (Suc m) s = ([], ?s)" for m
    using Nil assms(4) [of r] by (simp add: ReadEnvelope_def NextEnvelopeSize_def)
  moreover have "read_some c k ?s = ([], ?s)" for k by (rule stuck_at_empty) simp_all
  ultimately show ?case by (cases n) simp_all
next
  case (Cons pb pbs)
  show ?case
  proof (cases n)
    case (Suc m)
    have "sound_record c pb" "rest s = record_bytes c pb @ (concat (map (record_bytes c) pbs) @ WriteVarint32 c 0 @ r)"
      using Cons.prems by simp_all
    from ReadEnvelope_record [OF this Cons.prems(3), of "of_pb empty_envelope"] obtain s1 where s1:
      "ReadEnvelope c (of_pb empty_envelope) s = ((True, of_pb empty_envelope\<lparr>messages := None, envelope := pb\<rparr>,
         record_size (word_of_nat (length (EnvelopeBytes c pb)))), s1)"
      "rest s1 = concat (map (record_bytes c) pbs) @ WriteVarint32 c 0 @ r" "\<not> have_next_size s1" .
    obtain es s2 where s2: "read_some c m s1 = (es, s2)" by (cases "read_some c m s1")
    have "read_some c n s = (pb # es, s2)" by (simp add: Suc s1(1) s2)
    with Cons.IH [OF _ s1(2,3), of m] Cons.prems(1) s2 Suc show ?thesis by simp
  qed simp
qed

lemma server_logs_frames:
  assumes "log_client_sock s = Some k" "send_results k = []" "whole (sent k) = sent k" "sv_logger_sock s = Some b"
    "serialize_for c (add_to_envelope c (ServerLog l (sv_id s)) (new_Envelope (server_clock s (server_made s)))) False = Some m"
  shows "server_logs c l s = (Inr (), s\<lparr>server_made := server_made s + 1,
    log_client_sock := Some (k\<lparr>sent := sent k @ frames [[], m]\<rparr>), sv_logger_sock := Some (b\<lparr>inbox := inbox b @ frames [[], m]\<rparr>)\<rparr>)"
proof -
  have "whole (sent k @ frames [[], m]) = sent k @ frames [[], m]" by (simp add: whole_def)
  with assms SendEnvelope_to_ok [OF assms(2,5), of "[]" "\<lparr>SNDMORE = False, DONTWAIT = True\<rparr>"]
  show ?thesis by (simp add: server_logs_def SendEnvelope_pointer_def Let_def deliver_def ret_run)
qed

text \<open>
  C13: the server's own log cannot be read. What the server logs is a message of two parts, the first of
  them empty, that it puts at the end of its own logger socket; and whenever such a message is received,
  every part is written to the log's stream of the hour as an envelope of its own, the first as a record of
  size 0. So when the stream of the hour holds readable envelopes only, such as what the server's devices have
  logged, or is new, then from this message on a reader of the file gets these envelopes and no other:
  neither this message nor anything written later, however often it tries.
\<close>

theorem log_unreadable:
  assumes "log_client_sock s = Some k" "send_results k = []" "whole (sent k) = sent k" "sv_logger_sock s = Some b"
    "serialize_for c (add_to_envelope c (ServerLog l (sv_id s)) (new_Envelope (server_clock s (server_made s)))) False = Some m"
    "\<And>r. ReadVarint32 c (WriteVarint32 c 0 @ r) = Some (0, r)"
  shows "(\<exists>s1. server_logs c l s = (Inr (), s1) \<and> sv_logger_sock s1 = Some (b\<lparr>inbox := inbox b @ frames [[], m]\<rparr>)) \<and>
    (\<forall>y s1 b1 later pbs. sv_logger_sock s1 = Some b1 \<and> inbox b1 = frames [[], m] @ later \<and> log_ready y s1 \<and> write_logs s1 \<and>
       list_all (sound_record c) pbs \<and>
       begun (content (sv_store s1) (log_bucket s1) (log_stream_set s1) (hour_stream (wall y) (- 1))) = stream_bytes c pbs \<longrightarrow>
      (\<exists>s2. receive_log c y b1 s1 = (Inr MakeWorkDone, s2) \<and> sv_logger_sock s2 = Some (b1\<lparr>inbox := later\<rparr>) \<and>
        (\<forall>fs path x n. node_at fs (components path) =
            Some (Reg (content (sv_store s2) (log_bucket s1) (log_stream_set s1) (hour_stream (wall y) (- 1)) @ x)) \<longrightarrow>
          allowed fs (components path) \<longrightarrow>
          (\<exists>t. new_FileInputStream fs path 0 = Inr t \<and> fst (read_some c n t) = take n pbs \<and>
            (length pbs < n \<longrightarrow> (\<forall>i. fst (read_some c i (snd (read_some c n t))) = []))))))"
proof -
  have "\<exists>s2. receive_log c y b1 s1 = (Inr MakeWorkDone, s2) \<and> sv_logger_sock s2 = Some (b1\<lparr>inbox := later\<rparr>) \<and>
        (\<forall>fs path x n. node_at fs (components path) =
            Some (Reg (content (sv_store s2) (log_bucket s1) (log_stream_set s1) (hour_stream (wall y) (- 1)) @ x)) \<longrightarrow>
          allowed fs (components path) \<longrightarrow>
          (\<exists>t. new_FileInputStream fs path 0 = Inr t \<and> fst (read_some c n t) = take n pbs \<and>
            (length pbs < n \<longrightarrow> (\<forall>i. fst (read_some c i (snd (read_some c n t))) = []))))"
    if s1: "inbox b1 = frames [[], m] @ later" "log_ready y s1" "write_logs s1" and pbs: "list_all (sound_record c) pbs"
      "begun (content (sv_store s1) (log_bucket s1) (log_stream_set s1) (hour_stream (wall y) (- 1))) = stream_bytes c pbs"
    for y s1 b1 later pbs
  proof -
    from log_received [OF s1(2) _ s1(1), of c] obtain st where
      st: "receive_log c y b1 s1 = (Inr MakeWorkDone, s1\<lparr>sv_logger_sock := Some (b1\<lparr>inbox := later\<rparr>), sv_store := st\<rparr>)"
      "extends_stream (log_bucket s1) (log_stream_set s1) (hour_stream (wall y) (- 1)) (concat (map (data_record c) [[], m])) (sv_store s1) st"
      using s1(3) by (auto simp: log_written_def)
    have bytes: "content st (log_bucket s1) (log_stream_set s1) (hour_stream (wall y) (- 1)) @ x =
        CHR 0x01 # (concat (map (record_bytes c) pbs) @ WriteVarint32 c 0 @ data_record c m @ x)" for x
      using st(2) pbs(2) by (simp add: extends_stream_def stream_bytes_def data_record_def)
    have "\<exists>t. new_FileInputStream fs path 0 = Inr t \<and> fst (read_some c n t) = take n pbs \<and>
        (length pbs < n \<longrightarrow> (\<forall>i. fst (read_some c i (snd (read_some c n t))) = []))"
      if f: "node_at fs (components path) = Some (Reg (content st (log_bucket s1) (log_stream_set s1) (hour_stream (wall y) (- 1)) @ x))"
        "allowed fs (components path)" for fs path x n
    proof -
      from new_FileInputStream_stream [OF f [unfolded bytes], of 0] obtain t where
        t: "new_FileInputStream fs path 0 = Inr t" "\<not> have_next_size t"
        "rest t = concat (map (record_bytes c) pbs) @ WriteVarint32 c 0 @ data_record c m @ x" by auto
      with read_before_empty [OF pbs(1) t(3,2) assms(6), of n] show ?thesis by blast
    qed
    with st(1) show ?thesis by auto
  qed
  with server_logs_frames [OF assms(1-5)] show ?thesis by auto
qed

definition sample_logging :: Server where
  "sample_logging = (sample_server sample_traffic)\<lparr>write_logs := True, log_bucket := ''n'', log_stream_set := ''s'',
     sv_logger_sock := Some (queue [])\<rparr>"

lemma log_unreadable_witness:
  "\<exists>s1 b1 s2. server_logs sample_codec ServerRunStart sample_logging = (Inr (), s1) \<and> sv_logger_sock s1 = Some b1 \<and>
    receive_log sample_codec sample_system b1 s1 = (Inr MakeWorkDone, s2) \<and>
    (\<forall>fs path. node_at fs (components path) =
        Some (Reg (content (sv_store s2) ''n'' ''s'' (hour_stream (wall sample_system) (- 1)))) \<longrightarrow>
      allowed fs (components path) \<longrightarrow>
      (\<exists>t. new_FileInputStream fs path 0 = Inr t \<and> fst (read_some sample_codec 1 t) = []))"
proof -
  let ?s = sample_logging and ?n = "hour_stream (wall sample_system) (- 1)"
  have k: "log_client_sock ?s = Some (queue [])" "send_results (queue []) = []" "whole (sent (queue [])) = sent (queue [])"
    "sv_logger_sock ?s = Some (queue [])" "inbox (queue []) = []"
    by (simp_all add: sample_logging_def sample_server_def queue_def whole_def message_frames_def)
  obtain m where m: "serialize_for sample_codec (add_to_envelope sample_codec (ServerLog ServerRunStart (sv_id ?s))
      (new_Envelope (server_clock ?s (server_made ?s)))) False = Some m"
    by (simp add: serialize_for_def ToZmqMessage_def sample_codec_def)
  have place: "content sample_store ''n'' ''s'' n = []" "writable_place sample_store ''n'' ''s'' n" for n
    by (simp_all add: content_def file_content_def writable_place_def stream_file_def sample_store_def root_components_def
        components_def c_str_def node_at_def)
  have z: "ReadVarint32 sample_codec (WriteVarint32 sample_codec 0 @ r) = Some (0, r)" for r by (simp add: sample_codec_def char_of_def)
  let ?s1 = "?s\<lparr>server_made := server_made ?s + 1, log_client_sock := Some ((queue [])\<lparr>sent := sent (queue []) @ frames [[], m]\<rparr>),
      sv_logger_sock := Some ((queue [])\<lparr>inbox := inbox (queue []) @ frames [[], m]\<rparr>)\<rparr>"
  have s1: "server_logs sample_codec ServerRunStart ?s = (Inr (), ?s1)" by (rule server_logs_frames [OF k(1-4) m])
  have f: "write_logs ?s1" "log_bucket ?s1 = ''n''" "log_stream_set ?s1 = ''s''" "sv_store ?s1 = sample_store"
    by (simp_all add: sample_logging_def sample_server_def)
  have ready: "log_ready sample_system ?s1"
    using sample_names sample_store_inv sample_streams_ok place
    by (simp add: log_ready_def writer_ready_def sample_logging_def sample_server_def)
  let ?b = "(queue [])\<lparr>inbox := inbox (queue []) @ frames [[], m]\<rparr>"
  have "begun (content (sv_store ?s1) (log_bucket ?s1) (log_stream_set ?s1) ?n) = stream_bytes sample_codec []"
    unfolding f by (simp add: place begun_def stream_bytes_def)
  with ready f(1) k(5) have "sv_logger_sock ?s1 = Some ?b \<and> inbox ?b = frames [[], m] @ [] \<and> log_ready sample_system ?s1 \<and> write_logs ?s1 \<and>
      list_all (sound_record sample_codec) [] \<and>
      begun (content (sv_store ?s1) (log_bucket ?s1) (log_stream_set ?s1) ?n) = stream_bytes sample_codec []"
    by (intro conjI) simp_all
  note log_unreadable [where s = ?s, OF k(1-4) m z, THEN conjunct2, THEN spec [of _ sample_system], THEN spec [of _ ?s1],
      THEN spec [of _ ?b], THEN spec [of _ "[]"], THEN spec [of _ "[]"], THEN mp, OF this]
  then obtain s2 where s2: "receive_log sample_codec sample_system ?b ?s1 = (Inr MakeWorkDone, s2)" and
    u: "\<forall>fs path x n. node_at fs (components path) = Some (Reg (content (sv_store s2) (log_bucket ?s1) (log_stream_set ?s1) ?n @ x)) \<longrightarrow>
       allowed fs (components path) \<longrightarrow> (\<exists>t. new_FileInputStream fs path 0 = Inr t \<and> fst (read_some sample_codec n t) = take n [] \<and>
         (length ([] :: EnvelopePB list) < n \<longrightarrow> (\<forall>i. fst (read_some sample_codec i (snd (read_some sample_codec n t))) = [])))" by blast
  have "\<exists>t. new_FileInputStream fs path 0 = Inr t \<and> fst (read_some sample_codec 1 t) = []"
    if "node_at fs (components path) = Some (Reg (content (sv_store s2) ''n'' ''s'' ?n))" "allowed fs (components path)" for fs path
  proof -
    have "node_at fs (components path) = Some (Reg (content (sv_store s2) (log_bucket ?s1) (log_stream_set ?s1) ?n @ []))"
      unfolding f using that(1) by simp
    from u [rule_format, OF this that(2), of 1] show ?thesis by auto
  qed
  with s1 s2 show ?thesis by (intro exI [of _ ?s1] exI [of _ ?b] exI [of _ s2]) simp
qed

end
