(* ===== verification/String_Loader.thy ===== *)
theory String_Loader
  imports Lua_State Store_Writer
begin

text \<open>
  The string loader (src/zippylog/device/string_loader.cpp): a device that reads lines from a stream, makes
  envelopes of them, by a Lua function if there is one, and writes them to a stream and to a store.
\<close>

section \<open>Streams of text\<close>

text \<open>An input stream of the language's library with its state bits, and the lines that \<open>getline\<close> gives.\<close>

record istream =
  unread :: string
  eofbit :: bool
  failbit :: bool

definition new_istream :: "string \<Rightarrow> istream" where
  "new_istream s = \<lparr>unread = s, eofbit = False, failbit = False\<rparr>"

definition newline :: char where
  "newline = CHR 0x0A"

definition getline :: "istream \<Rightarrow> string \<times> istream" where
  "getline i =
     (if eofbit i \<or> failbit i then ([], i\<lparr>failbit := True\<rparr>)
      else
        let line = takeWhile (\<lambda>x. x \<noteq> newline) (unread i) in
        if newline \<in> set (unread i) then (line, i\<lparr>unread := drop (length line + 1) (unread i)\<rparr>)
        else (line, i\<lparr>unread := [], eofbit := True, failbit := (line = [])\<rparr>))"

section \<open>State\<close>

record loader_params =
  lp_input :: "istream option"
  lua_file :: string
  lua_code :: string
  lua_max_size :: u32
  lp_output :: bool
  lp_store_path :: string
  lp_default_bucket :: string
  lp_default_set :: string
  lp_active :: bool

definition new_loader_params :: loader_params where
  "new_loader_params = \<lparr>lp_input = None, lua_file = [], lua_code = [], lua_max_size = 1024, lp_output = False,
     lp_store_path = [], lp_default_bucket = [], lp_default_set = [], lp_active = False\<rparr>"

record processing_result =
  res_success :: bool
  res_error :: string
  res_envelopes :: "Envelope list"
  res_has_bucket :: bool
  res_has_set :: bool
  res_bucket :: string
  res_set :: string

definition new_processing_result :: processing_result where
  "new_processing_result = \<lparr>res_success = False, res_error = [], res_envelopes = [], res_has_bucket = False, res_has_set = False,
     res_bucket = [], res_set = []\<rparr>"

text \<open>
  \<open>loader_clock\<close> gives the creation times of the envelopes and \<open>loader_wall\<close> the time of day when one is
  written, as often as \<open>loader_made\<close> and \<open>loader_written\<close> count. The input stream belongs to the caller: an
  operation that reads works on the stream behind the pointer and the loader.
\<close>

record string_loader =
  outstream :: "string option"
  loader_lua :: LuaState
  have_lua_string_loader :: bool
  default_bucket :: string
  default_set :: string
  loader_store :: "Store option"
  loader_active :: bool
  loader_clock :: "nat \<Rightarrow> u64"
  loader_wall :: "nat \<Rightarrow> int \<times> int"
  loader_made :: nat
  loader_written :: nat

section \<open>Construction\<close>

text \<open>\<open>dofile\<close> is the loading of a file by the library, \<open>L\<close> a new interpreter. Loading a library always succeeds.\<close>

definition load_scripts ::
  "((string \<Rightarrow> LuaValue) \<Rightarrow> string \<Rightarrow> string option \<times> (string \<Rightarrow> LuaValue)) \<Rightarrow> loader_params \<Rightarrow> LuaState \<Rightarrow> LuaState res" where
  "load_scripts dofile p L =
     rbind
       (if length (lua_file p) > 0
        then (let (ok, error, L) = LoadFile_state dofile (lua_file p) [] L in
              if ok then Inr L else Inl (RuntimeException (''error loading Lua file: '' @ error)))
        else Inr L)
       (\<lambda>L.
          if length (lua_code p) > 0
          then (let (ok, error, L) = LoadLuaCode_state (lua_code p) [] L in
                if ok then Inr L else Inl (RuntimeException (''error loading Lua code: '' @ error)))
          else Inr L)"

definition new_StringLoader ::
  "((string \<Rightarrow> LuaValue) \<Rightarrow> string \<Rightarrow> string option \<times> (string \<Rightarrow> LuaValue)) \<Rightarrow> LuaState \<Rightarrow> FileType \<Rightarrow> filesystem \<Rightarrow>
   (nat \<Rightarrow> u64) \<Rightarrow> (nat \<Rightarrow> int \<times> int) \<Rightarrow> loader_params \<Rightarrow> string_loader res" where
  "new_StringLoader dofile L garbage fs clock wall' p =
     (let (ok, m) = SetMemoryCeiling (1024 * lua_max_size p) (lua_mem L); L = L\<lparr>lua_mem := m\<rparr> in
      if \<not> ok then Inl (RuntimeException ''error setting max memory ceiling on Lua interpreter'')
      else
        rbind (load_scripts dofile p L) (\<lambda>L.
        let have_write_output = length (lp_store_path p) > 0 in
        rbind (if have_write_output then rbind (CreateStore garbage fs (lp_store_path p)) (\<lambda>st. Inr (Some st)) else Inr None) (\<lambda>store.
          if have_write_output \<and> length (lp_default_bucket p) = 0 then Inl (InvalidArgument ''default_bucket not defined'')
          else if have_write_output \<and> length (lp_default_set p) = 0 then Inl (InvalidArgument ''default_set not defined'')
          else
            Inr \<lparr>outstream = (if lp_output p then Some [] else None), loader_lua = L,
                 have_lua_string_loader = have_load_string L, default_bucket = lp_default_bucket p,
                 default_set = lp_default_set p, loader_store = store, loader_active = lp_active p, loader_clock = clock,
                 loader_wall = wall', loader_made = 0, loader_written = 0\<rparr>)))"

text \<open>The destructor deletes the store, which flushes it.\<close>

definition delete_StringLoader :: "string_loader \<Rightarrow> filesystem option" where
  "delete_StringLoader s = map_option delete_Store (loader_store s)"

section \<open>The text of an envelope\<close>

text \<open>
  \<open>Envelope::ToString\<close> (src/zippylog/envelope.cpp); \<open>print\<close> is the text of a message, which reflection gives.
  The envelope is returned with the messages it has parsed.
\<close>

definition time_text :: "Time \<Rightarrow> string" where
  "time_text t = date_part t @ '' '' @ zpad 2 (hour t) @ '':'' @ zpad 2 (min t) @ '':'' @ zpad 2 (sec t) @ ''.'' @
     zpad 6 (usec t) @ '' UTC''"

fun print_messages :: "codec \<Rightarrow> registrar \<Rightarrow> (Message \<Rightarrow> string) \<Rightarrow> nat list \<Rightarrow> string \<Rightarrow> (Envelope, string) action" where
  "print_messages c types print [] s = ret s"
| "print_messages c types print (i # is) s =
     andThen (GetMessage c types (int i)) (\<lambda>m.
       print_messages c types print is (case m of None \<Rightarrow> s | Some m \<Rightarrow> s @ ''  '' @ print m))"

definition Envelope_ToString :: "codec \<Rightarrow> registrar \<Rightarrow> (Message \<Rightarrow> string) \<Rightarrow> (Envelope, string) action" where
  "Envelope_ToString c types print e =
     (let pb = envelope e; s = ''Envelope'' @ [newline];
          s = (case create_time pb of None \<Rightarrow> s
               | Some t \<Rightarrow> s @ ''  create_time: '' @ time_text (UnixMicroTimeToZippyTime (sint t)) @ [newline]);
          s = (case string_value pb of None \<Rightarrow> s | Some x \<Rightarrow> s @ ''  string: '' @ x @ [newline])
      in print_messages c types print [0..<MessageCount e] s e)"

section \<open>Processing\<close>

definition made_envelopes :: "string list \<Rightarrow> string_loader \<Rightarrow> Envelope list \<times> string_loader" where
  "made_envelopes ss s =
     (map2 (\<lambda>k x. Envelope_of_string (loader_clock s (loader_made s + k)) x) [0..<length ss] ss,
      s\<lparr>loader_made := loader_made s + length ss\<rparr>)"

definition take_names :: "LoadStringResult \<Rightarrow> processing_result \<Rightarrow> processing_result" where
  "take_names l r =
     (let r = (if has_bucket l then r\<lparr>res_has_bucket := True, res_bucket := ls_bucket l\<rparr> else r) in
      if has_set l then r\<lparr>res_has_set := True, res_set := ls_set l\<rparr> else r)"

definition take_strings :: "string list \<Rightarrow> (processing_result \<Rightarrow> processing_result) \<Rightarrow> processing_result \<Rightarrow>
    (string_loader, processing_result) action" where
  "take_strings ss names r s =
     (let (es, s) = made_envelopes ss s in
      ret ((names (r\<lparr>res_envelopes := res_envelopes r @ es\<rparr>))\<lparr>res_success := True\<rparr>) s)"

text \<open>The result of a call, by its type; a type that was not set is uninitialised.\<close>

definition ProcessString :: "string \<Rightarrow> processing_result \<Rightarrow> (string_loader, processing_result) action" where
  "ProcessString x r s =
     (let r = r\<lparr>res_success := False\<rparr> in
      if \<not> have_lua_string_loader s then take_strings [x] (\<lambda>r. r) r s
      else
        let (out, L) = ExecuteLoadString x new_LoadStringResult (loader_lua s); s = s\<lparr>loader_lua := L\<rparr> in
        case out of
          Inl e \<Rightarrow> throw e s
        | Inr (ok, l) \<Rightarrow>
            if \<not> ok then ret (r\<lparr>res_error := ''Lua load string function did not execute''\<rparr>) s
            else if \<not> ls_success l then ret (r\<lparr>res_error := ''Lua error: '' @ ls_error l\<rparr>) s
            else
              (case ls_type l of
                 Some NIL \<Rightarrow> take_strings [x] (take_names l) r s
               | Some BOOLTRUE \<Rightarrow> take_strings [x] (take_names l) r s
               | Some BOOLFALSE \<Rightarrow> ret (r\<lparr>res_success := True\<rparr>) s
               | Some STRING \<Rightarrow> take_strings (strings l) (take_names l) r s
               | Some INVALID \<Rightarrow> ret (r\<lparr>res_error := ''invalid signature from Lua function''\<rparr>) s
               | Some MESSAGE \<Rightarrow> throw (LogicError ''message and envelope returns from Lua not currently implemented'') s
               | Some ENVELOPES \<Rightarrow> throw (LogicError ''message and envelope returns from Lua not currently implemented'') s
               | None \<Rightarrow> throw (Undefined ''return type'') s))"

definition with_loader :: "(string_loader, 'a) action \<Rightarrow> (istream option \<times> string_loader, 'a) action" where
  "with_loader f x = (let (r, s) = f (snd x) in (r, (fst x, s)))"

definition ReadLineAndProcess :: "processing_result \<Rightarrow> (istream option \<times> string_loader, processing_result) action" where
  "ReadLineAndProcess r x =
     (case fst x of
        None \<Rightarrow> throw (RuntimeException ''cannot receive line since no input stream is defined'') x
      | Some i \<Rightarrow>
          if failbit i then ret (r\<lparr>res_success := False, res_error := ''input stream is closed''\<rparr>) x
          else (let (line, i) = getline i in with_loader (ProcessString line r) (Some i, snd x)))"

text \<open>The envelopes of the results have no messages, so printing does not change what is written.\<close>

definition print_result :: "codec \<Rightarrow> registrar \<Rightarrow> (Message \<Rightarrow> string) \<Rightarrow> Envelope \<Rightarrow> (string_loader, unit) action" where
  "print_result c types print e s =
     (case outstream s of
        None \<Rightarrow> ret () s
      | Some out \<Rightarrow> andThen (lift_res (fst (Envelope_ToString c types print e))) (\<lambda>x. modify (\<lambda>s. s\<lparr>outstream := Some (out @ x)\<rparr>)) s)"

definition write_result :: "codec \<Rightarrow> string \<Rightarrow> string \<Rightarrow> Envelope \<Rightarrow> (string_loader, unit) action" where
  "write_result c bucket sset e s =
     (case loader_store s of
        None \<Rightarrow> ret () s
      | Some st \<Rightarrow>
          let (x, st) = Store_WriteEnvelope (sds_ops c) c (loader_wall s (loader_written s)) bucket sset e (- 1) st in
          (rbind x (\<lambda>_. Inr ()), s\<lparr>loader_store := Some st, loader_written := loader_written s + 1\<rparr>))"

definition SendResult :: "codec \<Rightarrow> registrar \<Rightarrow> (Message \<Rightarrow> string) \<Rightarrow> processing_result \<Rightarrow> (string_loader, unit) action" where
  "SendResult c types print r s =
     (if \<not> res_success r then throw (InvalidArgument ''cannot send unsuccessful results'') s
      else
        let bucket = (if res_has_bucket r then res_bucket r else default_bucket s);
            sset = (if res_has_set r then res_set r else default_set s) in
        andThen (for_each (print_result c types print) (res_envelopes r))
          (\<lambda>_. for_each (write_result c bucket sset) (res_envelopes r)) s)"

section \<open>Running\<close>

text \<open>
  \<open>active k\<close> is what the loop finds behind the pointer \<open>active\<close> when it looks there for the \<open>k\<close>-th time. A loop
  that never ends is \<open>None\<close>.
\<close>

definition load_line :: "codec \<Rightarrow> registrar \<Rightarrow> (Message \<Rightarrow> string) \<Rightarrow> (istream option \<times> string_loader, unit) action" where
  "load_line c types print =
     andThen (ReadLineAndProcess new_processing_result) (\<lambda>r.
       if res_success r then with_loader (SendResult c types print r) else ret ())"

partial_function (option) loader_loop ::
  "(nat \<Rightarrow> bool) \<Rightarrow> (istream option \<times> string_loader, unit) action \<Rightarrow> nat \<Rightarrow> istream option \<times> string_loader \<Rightarrow>
   (unit res \<times> istream option \<times> string_loader) option" where
  "loader_loop active body k x =
     (if \<not> active k then Some (Inr (), x)
      else (case body x of (Inl e, x) \<Rightarrow> Some (Inl e, x) | (Inr _, x) \<Rightarrow> loader_loop active body (Suc k) x))"

definition StringLoader_Run :: "(nat \<Rightarrow> bool) \<Rightarrow> codec \<Rightarrow> registrar \<Rightarrow> (Message \<Rightarrow> string) \<Rightarrow> istream option \<times> string_loader \<Rightarrow>
    (unit res \<times> istream option \<times> string_loader) option" where
  "StringLoader_Run active c types print x =
     (if \<not> loader_active (snd x)
      then Some (throw (ThrownPointer ''StringLoader cannot be executed because no active semaphore defined'') x)
      else loader_loop active (load_line c types print) 0 x)"

section \<open>The lines of a text\<close>

lemma take_line: "newline \<notin> set l \<Longrightarrow> takeWhile (\<lambda>x. x \<noteq> newline) (l @ newline # r) = l"
  "newline \<notin> set l \<Longrightarrow> takeWhile (\<lambda>x. x \<noteq> newline) l = l"
  by (induction l) auto

text \<open>What the calls of \<open>getline\<close> give up to and including the one that fails.\<close>

function reads :: "string \<Rightarrow> string list" where
  "reads t =
     (if newline \<in> set t
      then takeWhile (\<lambda>x. x \<noteq> newline) t # reads (drop (length (takeWhile (\<lambda>x. x \<noteq> newline) t) + 1) t)
      else if t = [] then [[]] else [t, []])"
  by pat_completeness auto
termination by (relation "measure length") (auto dest: length_pos_if_in_set)

declare reads.simps [simp del]

lemma reads_line: "newline \<notin> set l \<Longrightarrow> reads (l @ newline # r) = l # reads r"
  by (subst reads.simps) (simp add: take_line)

lemma reads_end: "newline \<notin> set t \<Longrightarrow> reads t = (if t = [] then [[]] else [t, []])"
  by (subst reads.simps) simp

lemma text_induct [case_names line last]:
  assumes "\<And>l r. newline \<notin> set l \<Longrightarrow> P r \<Longrightarrow> P (l @ newline # r)" "\<And>t. newline \<notin> set t \<Longrightarrow> P t"
  shows "P t"
proof (induction t rule: length_induct)
  case (1 t)
  show ?case
  proof (cases "newline \<in> set t")
    case True
    from split_list_first [OF this] obtain l r where "t = l @ newline # r" "newline \<notin> set l" by blast
    with 1 assms(1) show ?thesis by simp
  qed (rule assms(2))
qed

text \<open>The lines are those of the text, without their ends, and one more, which is empty.\<close>

lemma reads_lines:
  "reads t \<noteq> [] \<and> last (reads t) = [] \<and> (\<forall>l \<in> set (reads t). newline \<notin> set l) \<and>
   concat (map (\<lambda>l. l @ [newline]) (butlast (reads t))) = (if t = [] \<or> last t = newline then t else t @ [newline])"
proof (induction t rule: text_induct)
  case (line l r)
  then show ?case by (auto simp: reads_line)
next
  case (last t)
  then show ?case by (cases "t = []") (auto simp: reads_end dest: last_in_set)
qed

lemma getline_line: "newline \<notin> set l \<Longrightarrow> getline (new_istream (l @ newline # r)) = (l, new_istream r)"
  by (simp add: getline_def new_istream_def take_line)

lemma getline_end: "newline \<notin> set t \<Longrightarrow> getline (new_istream t) = (t, \<lparr>unread = [], eofbit = True, failbit = t = []\<rparr>)"
  by (simp add: getline_def new_istream_def take_line)

section \<open>What a loader does with a text\<close>

text \<open>A line that has been read: it is processed, and what it gave is sent.\<close>

definition load_text :: "codec \<Rightarrow> registrar \<Rightarrow> (Message \<Rightarrow> string) \<Rightarrow> string \<Rightarrow> (string_loader, unit) action" where
  "load_text c types print line =
     andThen (ProcessString line new_processing_result) (\<lambda>r. if res_success r then SendResult c types print r else ret ())"

definition at_end :: istream where
  "at_end = \<lparr>unread = [], eofbit = True, failbit = True\<rparr>"

lemma with_loader_then:
  "andThen (with_loader m) (\<lambda>r. with_loader (f r)) = with_loader (andThen m f)"
  by (rule ext) (simp add: andThen_def with_loader_def split_beta split: sum.split)

lemma load_line_reads:
  assumes "\<not> failbit i" "getline i = (line, i')"
  shows "load_line c types print (Some i, s) = with_loader (load_text c types print line) (Some i', s)"
proof -
  have w: "(if b then with_loader m else ret ()) = with_loader (if b then m else ret ())" for b and m :: "(string_loader, unit) action"
    by (rule ext) (simp add: with_loader_def)
  have "load_line c types print (Some i, s) = andThen (with_loader (ProcessString line new_processing_result))
      (\<lambda>r. with_loader (if res_success r then SendResult c types print r else ret ())) (Some i', s)"
    using assms by (simp add: load_line_def w andThen_def) (simp add: ReadLineAndProcess_def)
  then show ?thesis by (simp add: with_loader_then load_text_def)
qed

lemma load_line_closed: "load_line c types print (Some at_end, s) = (Inr (), (Some at_end, s))"
  by (simp add: load_line_def ReadLineAndProcess_def at_end_def andThen_def new_processing_result_def)

lemma loop_closed:
  assumes "\<And>j. active j \<longleftrightarrow> j < k"
  shows "loader_loop active (load_line c types print) n (Some at_end, s) = Some (Inr (), (Some at_end, s))"
proof (induction "k - n" arbitrary: n)
  case 0
  then show ?case by (subst loader_loop.simps) (simp add: assms)
next
  case (Suc m)
  from Suc.hyps(2) have "m = k - Suc n" by simp
  from Suc.hyps(1) [OF this] show ?case by (subst loader_loop.simps) (simp add: load_line_closed)
qed

lemma loop_next:
  assumes "active n" "\<not> failbit i" "getline i = (line, i')" "load_text c types print line s = (Inr (), s')"
  shows "loader_loop active (load_line c types print) n (Some i, s) = loader_loop active (load_line c types print) (Suc n) (Some i', s')"
  using assms by (subst loader_loop.simps) (simp add: load_line_reads with_loader_def)

lemma andThen_ret [simp]: "andThen m ret = m"
  by (rule ext) (simp add: andThen_def split: prod.split sum.split)

lemma loop_to_end:
  "for_each (load_text c types print) (reads t) s = (Inr (), s') \<Longrightarrow> (\<And>j. n \<le> j \<Longrightarrow> j < n + length (reads t) \<Longrightarrow> active j) \<Longrightarrow>
    loader_loop active (load_line c types print) n (Some (new_istream t), s) =
      loader_loop active (load_line c types print) (n + length (reads t)) (Some at_end, s')"
proof (induction t arbitrary: n s rule: text_induct)
  case (line l r)
  then obtain s1 where s1: "load_text c types print l s = (Inr (), s1)" "for_each (load_text c types print) (reads r) s1 = (Inr (), s')"
    by (auto simp: reads_line andThen_Inr_iff)
  have "loader_loop active (load_line c types print) (Suc n) (Some (new_istream r), s1) =
      loader_loop active (load_line c types print) (Suc n + length (reads r)) (Some at_end, s')"
    using line.prems(2) by (intro line.IH [OF s1(2)]) (simp add: reads_line line.hyps)
  moreover have "active n" using line.prems(2) by (simp add: reads_line line.hyps)
  ultimately show ?case
    using loop_next [where active = active and n = n, OF _ _ getline_line [OF line.hyps] s1(1)]
    by (simp add: new_istream_def reads_line line.hyps)
next
  case (last t)
  note g = getline_end [OF last.hyps]
  show ?case
  proof (cases "t = []")
    case True
    with last have "load_text c types print [] s = (Inr (), s')" "active n"
      by (auto simp: reads_end)
    with loop_next [where active = active and n = n, OF _ _ g, of c types print s s'] True
    show ?thesis by (simp add: new_istream_def at_end_def reads_end)
  next
    case False
    with last.prems obtain s1 where s1: "load_text c types print t s = (Inr (), s1)" "load_text c types print [] s1 = (Inr (), s')"
      by (auto simp: reads_end [OF last.hyps] andThen_Inr_iff)
    have a: "active n" "active (Suc n)" using last.prems(2) False by (simp_all add: reads_end [OF last.hyps])
    let ?i = "\<lparr>unread = [], eofbit = True, failbit = False\<rparr>"
    have "getline ?i = ([], at_end)" by (simp add: getline_def at_end_def)
    with loop_next [where active = active and n = n, OF a(1) _ g s1(1)] False
      loop_next [where active = active and n = "Suc n", OF a(2) _ this s1(2)]
    show ?thesis by (simp add: new_istream_def reads_end [OF last.hyps])
  qed
qed

text \<open>Without an end of the run the loop goes round for ever once the stream is closed.\<close>

lemma loop_closed_forever:
  "loader_loop (\<lambda>_. True) (load_line c types print) n (Some at_end, s) = None"
proof (rule ccontr)
  let ?P = "\<lambda>active body (n :: nat) x (y :: unit res \<times> istream option \<times> string_loader).
    \<not> (active = (\<lambda>_. True) \<and> body = load_line c types print \<and> x = (Some at_end, s))"
  assume "loader_loop (\<lambda>_. True) (load_line c types print) n (Some at_end, s) \<noteq> None"
  then obtain y where y: "loader_loop (\<lambda>_. True) (load_line c types print) n (Some at_end, s) = Some y" by blast
  note induct = loader_loop.raw_induct [of ?P "(((\<lambda>_. True, load_line c types print), n), (Some at_end, s))" y,
      unfolded prod.case, OF _ y]
  have "\<not> ((\<lambda>_ :: nat. True) = (\<lambda>_. True) \<and> load_line c types print = load_line c types print \<and> (Some at_end, s) = (Some at_end, s))"
  proof (rule induct)
    fix loop active body n x y
    assume IH: "\<And>active body n x y. loop active body n x = Some y \<Longrightarrow> ?P active body n x y"
      and step: "(if \<not> active n then Some (Inr (), x)
        else (case body x of (Inl e, x) \<Rightarrow> Some (Inl e, x) | (Inr _, x) \<Rightarrow> loop active body (Suc n) x)) = Some y"
    show "?P active body n x y"
      using step IH [of active body "Suc n" x y] by (auto simp: load_line_closed)
  qed
  then show False by simp
qed

text \<open>
  C37: a loader that runs long enough processes every line of its input, in order, each once, and then one
  line more, which is empty and not in the input: the read that finds the end of the stream is not looked
  at, so an envelope with no text (or what the Lua function makes of one) follows the last line. After it
  nothing happens until the caller ends the run, but the loop goes round all the while.
\<close>

theorem loader_run:
  assumes "loader_active s" "\<And>j. active j \<longleftrightarrow> j < k" "length (reads t) \<le> k"
    "for_each (load_text c types print) (reads t) s = (Inr (), s')"
  shows "StringLoader_Run active c types print (Some (new_istream t), s) = Some (Inr (), (Some at_end, s')) \<and>
    last (reads t) = [] \<and>
    concat (map (\<lambda>l. l @ [newline]) (butlast (reads t))) = (if t = [] \<or> last t = newline then t else t @ [newline])"
  using loop_to_end [OF assms(4), of 0 active] loop_closed [OF assms(2)] assms(1-3) reads_lines [of t]
  by (simp add: StringLoader_Run_def)


text \<open>A loader with nothing but an output stream.\<close>

lemma plain_loads:
  assumes "\<not> have_lua_string_loader s" "loader_store s = None" "outstream s = Some out"
  shows "\<exists>s'. load_text c types print l s = (Inr (), s') \<and> \<not> have_lua_string_loader s' \<and> loader_store s' = None \<and>
    outstream s' = Some (out @ ''Envelope'' @ [newline] @ ''  create_time: '' @
      time_text (UnixMicroTimeToZippyTime (sint (loader_clock s (loader_made s)))) @ [newline] @ ''  string: '' @ l @ [newline])"
proof -
  let ?e = "Envelope_of_string (loader_clock s (loader_made s)) l" and ?s = "s\<lparr>loader_made := Suc (loader_made s)\<rparr>"
  have made: "made_envelopes [l] s = ([?e], ?s)" by (simp add: made_envelopes_def)
  have "fst (Envelope_ToString c types print ?e) = Inr (''Envelope'' @ [newline] @ ''  create_time: '' @
      time_text (UnixMicroTimeToZippyTime (sint (loader_clock s (loader_made s)))) @ [newline] @ ''  string: '' @ l @ [newline])"
    by (simp add: Envelope_ToString_def Envelope_of_string_def of_pb_def empty_envelope_def MessageCount_def Let_def)
  with assms show ?thesis
    by (simp add: load_text_def ProcessString_def take_strings_def made new_processing_result_def SendResult_def
        print_result_def write_result_def andThen_def)
qed

lemma plain_loads_all:
  "\<not> have_lua_string_loader s \<Longrightarrow> loader_store s = None \<Longrightarrow> outstream s = Some out \<Longrightarrow>
    \<exists>s'. for_each (load_text c types print) ls s = (Inr (), s')"
proof (induction ls arbitrary: s out)
  case (Cons l ls)
  from plain_loads [OF Cons.prems, of c types print l] obtain s1 out' where
    "load_text c types print l s = (Inr (), s1)" "\<not> have_lua_string_loader s1" "loader_store s1 = None" "outstream s1 = Some out'" by blast
  with Cons.IH [of s1 out'] show ?case by (simp add: andThen_Inr)
qed simp

definition sample_loader :: string_loader where
  "sample_loader = \<lparr>outstream = Some [], loader_lua = sample_lua_state, have_lua_string_loader = False, default_bucket = [],
     default_set = [], loader_store = None, loader_active = True, loader_clock = (\<lambda>_. 7), loader_wall = (\<lambda>_. (0, 0)),
     loader_made = 0, loader_written = 0\<rparr>"

lemma loader_run_witness:
  "\<exists>s'. StringLoader_Run (\<lambda>k. k < 5) sample_codec [] (\<lambda>_. []) (Some (new_istream ''a''), sample_loader) = Some (Inr (), (Some at_end, s')) \<and>
    reads ''a'' = [''a'', []]"
proof -
  have "\<not> have_lua_string_loader sample_loader" "loader_store sample_loader = None" "outstream sample_loader = Some []"
    by (simp_all add: sample_loader_def)
  from plain_loads_all [OF this] obtain s' where
    "for_each (load_text sample_codec [] (\<lambda>_. [])) (reads ''a'') sample_loader = (Inr (), s')" by blast
  moreover have r: "reads ''a'' = [''a'', []]" by (simp add: reads_end newline_def)
  ultimately show ?thesis
    using loader_run [where s = sample_loader and k = 5 and active = "\<lambda>k. k < 5" and t = "''a''" and c = sample_codec
        and types = "[]" and print = "\<lambda>_. []" and s' = s'] by (auto simp: sample_loader_def)
qed

end
