(* ===== verification/Server_Config.thy ===== *)
theory Server_Config
  imports Server_State
begin

text \<open>
  The configuration file of the server (\<open>Server::ParseConfig\<close> in src/zippylog/device/server.cpp): a Lua chunk
  whose global variables become the server's parameters. Running the chunk is the interpreter's work; what
  it leaves, values on the stack and globals, is a parameter.
\<close>

section \<open>Values\<close>

text \<open>
  A number carries its integer part and its text, a table its entries in the order of \<open>lua_next\<close>.
\<close>

datatype ConfigValue =
    CNil | CBoolean bool | CNumber int string | CString string | CTable "(ConfigValue \<times> ConfigValue) list" | COther

fun config_text :: "ConfigValue \<Rightarrow> string option" where
  "config_text (CString s) = Some s"
| "config_text (CNumber _ s) = Some s"
| "config_text _ = None"

definition panic :: exn where
  "panic = Undefined ''Lua error outside of a protected call''"

text \<open>\<open>luaL_optinteger\<close> and \<open>luaL_optstring\<close>. \<open>number\<close> is Lua's reading of a string as a number.\<close>

definition optinteger :: "(string \<Rightarrow> int option) \<Rightarrow> ConfigValue \<Rightarrow> int \<Rightarrow> int res" where
  "optinteger number v d =
     (case v of
        CNil \<Rightarrow> Inr d
      | CNumber n _ \<Rightarrow> Inr n
      | CString s \<Rightarrow> (case number s of Some n \<Rightarrow> Inr n | None \<Rightarrow> Inl panic)
      | _ \<Rightarrow> Inl panic)"

definition optstring :: "ConfigValue \<Rightarrow> string \<Rightarrow> string res" where
  "optstring v d = (if v = CNil then Inr d else case config_text v of Some s \<Rightarrow> Inr (c_str s) | None \<Rightarrow> Inl panic)"

definition toboolean :: "ConfigValue \<Rightarrow> bool" where
  "toboolean v \<longleftrightarrow> v \<noteq> CNil \<and> v \<noteq> CBoolean False"

section \<open>Parsing\<close>

text \<open>
  A step works on the parameters, which the caller sees whatever the outcome; its result is the error
  message if there is one. The loop over a table collects endpoints up to the first value that is no string.
\<close>

type_synonym config_step = "(ServerStartParams, string option) action"

definition and_then_config :: "config_step \<Rightarrow> config_step \<Rightarrow> config_step" where
  "and_then_config f g = andThen f (\<lambda>error. case error of Some e \<Rightarrow> ret (Some e) | None \<Rightarrow> g)"

fun collect_endpoints :: "(ConfigValue \<times> ConfigValue) list \<Rightarrow> config_step" where
  "collect_endpoints [] p = ret None p"
| "collect_endpoints ((k, v) # es) p =
     (case config_text v of
        Some s \<Rightarrow> collect_endpoints es (p\<lparr>sp_listen_endpoints := sp_listen_endpoints p @ [c_str s]\<rparr>)
      | None \<Rightarrow>
          (case config_text k of
             Some i \<Rightarrow> ret (Some (''endpoints value at index '' @ [CHR 0x27] @ c_str i @ [CHR 0x27] @ '' is not a string'')) p
           | None \<Rightarrow> ret (Some ''non-string value seen in endpoints table. index not printable'') p))"

definition parse_store_path :: "ConfigValue \<Rightarrow> config_step" where
  "parse_store_path v p =
     (if v = CNil then ret (Some ([CHR 0x27] @ ''store_path'' @ [CHR 0x27] @ '' is not defined'')) p
      else case config_text v of
        None \<Rightarrow> ret (Some ([CHR 0x27] @ ''store_path'' @ [CHR 0x27] @ '' not a string'')) p
      | Some s \<Rightarrow> ret None (p\<lparr>sp_store_path := c_str s\<rparr>))"

text \<open>
  The table that is iterated over is the value at the bottom of the stack: the first value the chunk
  returned, if it returned any.
\<close>

definition parse_endpoints :: "ConfigValue list \<Rightarrow> ConfigValue \<Rightarrow> config_step" where
  "parse_endpoints stack v p =
     (case v of
        CNil \<Rightarrow> ret (Some ([CHR 0x27] @ ''endpoints'' @ [CHR 0x27] @ '' not defined'')) p
      | CTable _ \<Rightarrow>
          (case hd (stack @ [v]) of
             CTable es \<Rightarrow> collect_endpoints es p
           | _ \<Rightarrow> throw (Undefined ''lua_next on a value that is no table'') p)
      | _ \<Rightarrow> ret (Some ([CHR 0x27] @ ''endpoints'' @ [CHR 0x27] @ '' variable not a table'')) p)"

definition take_integer :: "(string \<Rightarrow> int option) \<Rightarrow> ConfigValue \<Rightarrow> int \<Rightarrow> (int \<Rightarrow> ServerStartParams \<Rightarrow> ServerStartParams) \<Rightarrow> config_step" where
  "take_integer number v d put =
     andThen (lift_res (optinteger number v d)) (\<lambda>n. andThen (modify (put n)) (\<lambda>_. ret None))"

definition take_string :: "ConfigValue \<Rightarrow> string \<Rightarrow> (string \<Rightarrow> ServerStartParams \<Rightarrow> ServerStartParams) \<Rightarrow> config_step" where
  "take_string v d put = andThen (lift_res (optstring v d)) (\<lambda>t. andThen (modify (put t)) (\<lambda>_. ret None))"

definition check_interval :: config_step where
  "check_interval p =
     (if sp_stream_flush_interval p < 0 then ret (Some ''stream_flush_interval must be positive'') p
      else if sp_stream_flush_interval p < 1000 then ret (Some ''stream_flush_interval must be greater than 1000'') p
      else ret None p)"

definition parse_settings :: "(string \<Rightarrow> int option) \<Rightarrow> (string \<Rightarrow> ConfigValue) \<Rightarrow> config_step" where
  "parse_settings number g =
     and_then_config (take_integer number (g ''worker_threads'') 2 (\<lambda>n p. p\<lparr>worker_threads := word_of_int n\<rparr>))
     (and_then_config (take_integer number (g ''persisted_state_reactor_threads'') 1
         (\<lambda>n p. p\<lparr>persisted_state_reactor_threads := word_of_int n\<rparr>))
     (and_then_config (take_integer number (g ''streaming_subscription_ttl'') 60000 (\<lambda>n p. p\<lparr>sp_subscription_ttl := word_of_int n\<rparr>))
     (and_then_config (take_string (g ''log_bucket'') ''zippylog'' (\<lambda>t p. p\<lparr>sp_log_bucket := t\<rparr>))
     (and_then_config (take_string (g ''log_stream_set'') ''zippylog'' (\<lambda>t p. p\<lparr>sp_log_stream_set := t\<rparr>))
     (and_then_config (take_integer number (g ''stream_flush_interval'') 5000 (\<lambda>n p. p\<lparr>sp_stream_flush_interval := to_int32 n\<rparr>))
     (and_then_config check_interval
     (andThen (modify (\<lambda>p. p\<lparr>sp_lua_execute_client_code := toboolean (g ''lua_execute_client_code'')\<rparr>)) (\<lambda>_.
      take_integer number (g ''lua_streaming_max_memory'') 524288 (\<lambda>n p. p\<lparr>sp_lua_streaming_max_memory := word_of_int n\<rparr>)))))))))"

text \<open>
  \<open>chunk\<close> is an error message, or what the file's chunk left. The result is the function's own and the
  error it sets.
\<close>

definition ParseConfig :: "(string \<Rightarrow> int option) \<Rightarrow> string + ConfigValue list \<times> (string \<Rightarrow> ConfigValue) \<Rightarrow>
    (ServerStartParams, bool \<times> string) action" where
  "ParseConfig number chunk =
     andThen
       (case chunk of
          Inl e \<Rightarrow> ret (Some (''error running config file: '' @ e))
        | Inr (stack, g) \<Rightarrow>
            and_then_config (parse_store_path (g ''store_path''))
            (and_then_config (parse_endpoints stack (g ''endpoints'')) (parse_settings number g)))
       (\<lambda>error. ret (case error of Some e \<Rightarrow> (False, e) | None \<Rightarrow> (True, [])))"

section \<open>What a parsed configuration is\<close>

lemma config_then:
  "and_then_config f g p = (Inr None, p') \<longleftrightarrow> (\<exists>p1. f p = (Inr None, p1) \<and> g p1 = (Inr None, p'))"
  by (auto simp: and_then_config_def andThen_def split: prod.splits sum.splits option.splits)

lemma take_integer_then:
  "and_then_config (take_integer number v d put) g p = (Inr None, p') \<longleftrightarrow>
     (\<exists>n. optinteger number v d = Inr n \<and> g (put n p) = (Inr None, p'))"
  by (auto simp: config_then take_integer_def lift_res_def andThen_def split: sum.splits)

lemma take_integer_ok:
  "take_integer number v d put p = (Inr None, p') \<longleftrightarrow> (\<exists>n. optinteger number v d = Inr n \<and> p' = put n p)"
  by (cases "optinteger number v d") (auto simp: take_integer_def andThen_def)

lemma take_string_then:
  "and_then_config (take_string v d put) g p = (Inr None, p') \<longleftrightarrow> (\<exists>t. optstring v d = Inr t \<and> g (put t p) = (Inr None, p'))"
  by (auto simp: config_then take_string_def lift_res_def andThen_def split: sum.splits)


lemma collect_endpoints_all:
  "collect_endpoints es p = (Inr None, p') \<longleftrightarrow>
     (\<forall>e \<in> set es. config_text (snd e) \<noteq> None) \<and>
     p' = p\<lparr>sp_listen_endpoints := sp_listen_endpoints p @ map (\<lambda>e. c_str (the (config_text (snd e)))) es\<rparr>"
  by (induction es p rule: collect_endpoints.induct) (auto split: option.splits)

lemma parse_store_path_ok:
  "parse_store_path v p = (Inr None, p') \<longleftrightarrow> (\<exists>s. config_text v = Some s \<and> p' = p\<lparr>sp_store_path := c_str s\<rparr>)"
  by (auto simp: parse_store_path_def split: option.splits)

lemma parse_endpoints_ok:
  "parse_endpoints stack v p = (Inr None, p') \<longleftrightarrow>
     (\<exists>es. (\<exists>x. v = CTable x) \<and> hd (stack @ [v]) = CTable es \<and> collect_endpoints es p = (Inr None, p'))"
  by (auto simp: parse_endpoints_def split: ConfigValue.splits)

lemma check_interval_ok:
  "check_interval p = (Inr None, p') \<longleftrightarrow> 1000 \<le> sp_stream_flush_interval p \<and> p' = p"
  by (auto simp: check_interval_def)

lemma parse_settings_ok:
  assumes "parse_settings number g p = (Inr None, p')"
  shows "sp_store_path p' = sp_store_path p \<and> sp_listen_endpoints p' = sp_listen_endpoints p \<and>
    1000 \<le> sp_stream_flush_interval p' \<and> sp_stream_flush_interval p' < 2 ^ 31 \<and>
    (\<exists>b t. optstring (g ''log_bucket'') ''zippylog'' = Inr b \<and> optstring (g ''log_stream_set'') ''zippylog'' = Inr t \<and>
      sp_log_bucket p' = b \<and> sp_log_stream_set p' = t) \<and>
    sp_lua_execute_client_code p' = toboolean (g ''lua_execute_client_code'')"
proof -
  from assms obtain w r ttl b t i m where
    "optstring (g ''log_bucket'') ''zippylog'' = Inr b" "optstring (g ''log_stream_set'') ''zippylog'' = Inr t"
    "1000 \<le> to_int32 i"
    "p' = p\<lparr>worker_threads := word_of_int w, persisted_state_reactor_threads := word_of_int r, sp_subscription_ttl := word_of_int ttl,
       sp_log_bucket := b, sp_log_stream_set := t, sp_stream_flush_interval := to_int32 i,
       sp_lua_execute_client_code := toboolean (g ''lua_execute_client_code''), sp_lua_streaming_max_memory := word_of_int m\<rparr>"
    unfolding parse_settings_def take_integer_then take_string_then config_then [where f = check_interval] check_interval_ok
    by (auto simp: take_integer_ok andThen_def)
  then show ?thesis using to_int32_bounds [of i] by simp
qed

section \<open>Properties\<close>

text \<open>
  C19: a configuration that is accepted has a store path, a table with nothing but strings for the
  endpoints, which are added to those the parameters had, and a flush interval of at least a second that
  fits its type. But the endpoints are those of the first value the chunk returns, if it returns one, and
  the stream set of the server's log is by default the default bucket, not the default stream set.
\<close>

theorem config_accepted:
  assumes "ParseConfig number (Inr (stack, g)) p = (Inr (True, e), p')"
  shows "\<exists>s es. config_text (g ''store_path'') = Some s \<and> sp_store_path p' = c_str s \<and>
    hd (stack @ [g ''endpoints'']) = CTable es \<and> (\<forall>e \<in> set es. config_text (snd e) \<noteq> None) \<and>
    sp_listen_endpoints p' = sp_listen_endpoints p @ map (\<lambda>e. c_str (the (config_text (snd e)))) es \<and>
    1000 \<le> sp_stream_flush_interval p' \<and> sp_stream_flush_interval p' < 2 ^ 31 \<and>
    (g ''log_stream_set'' = CNil \<longrightarrow> sp_log_stream_set p' = ''zippylog'')"
proof -
  have "and_then_config (parse_store_path (g ''store_path''))
      (and_then_config (parse_endpoints stack (g ''endpoints'')) (parse_settings number g)) p = (Inr None, p')"
    using assms by (auto simp: ParseConfig_def andThen_def split: prod.splits sum.splits option.splits)
  then obtain s es p1 where s: "config_text (g ''store_path'') = Some s"
    and es: "hd (stack @ [g ''endpoints'']) = CTable es" "\<forall>e \<in> set es. config_text (snd e) \<noteq> None"
    and p1: "p1 = p\<lparr>sp_store_path := c_str s, sp_listen_endpoints := sp_listen_endpoints p @ map (\<lambda>e. c_str (the (config_text (snd e)))) es\<rparr>"
    and settings: "parse_settings number g p1 = (Inr None, p')"
    by (auto simp: config_then parse_store_path_ok parse_endpoints_ok collect_endpoints_all)
  from parse_settings_ok [OF settings] p1 s es show ?thesis
    by (intro exI [of _ s] exI [of _ es]) (auto simp: optstring_def)
qed

definition sample_globals :: "string \<Rightarrow> ConfigValue" where
  "sample_globals x =
     (if x = ''store_path'' then CString ''/store'' else if x = ''endpoints'' then CTable [(CNumber 1 ''1'', CString ''tcp'')]
      else CNil)"

lemma config_accepted_witness:
  "\<exists>p'. ParseConfig (\<lambda>_. None) (Inr ([], sample_globals)) default_server_params = (Inr (True, []), p') \<and>
    sp_listen_endpoints p' = [''tcp''] \<and> sp_log_stream_set p' = ''zippylog'' \<and>
    sp_log_stream_set p' \<noteq> sp_log_stream_set default_server_params"
proof -
  have "\<exists>p'. ParseConfig (\<lambda>_. None) (Inr ([], sample_globals)) default_server_params = (Inr (True, []), p')"
    by (simp add: ParseConfig_def and_then_config_def andThen_def parse_store_path_def parse_endpoints_def sample_globals_def
        parse_settings_def take_integer_def take_string_def optinteger_def optstring_def check_interval_def modify_def to_int32_def)
  then obtain p' where p': "ParseConfig (\<lambda>_. None) (Inr ([], sample_globals)) default_server_params = (Inr (True, []), p')" ..
  from config_accepted [OF this] p' show ?thesis
    by (auto simp: sample_globals_def default_server_params_def c_str_def)
qed

end
