(* ===== verification/Library_Init.thy ===== *)
theory Library_Init
  imports Request_Info
begin

text \<open>
  What the library sets up when it is initialised (src/zippylog/zippylog.cpp, messages.cpp): the registry with
  an object of every class of message, from which those of envelopes are made.
\<close>

section \<open>The registered messages\<close>

text \<open>Objects with no field set.\<close>

definition empty_stream_info :: StreamInfoV1 where
  "empty_stream_info = \<lparr>si_path = [], si_length = None\<rparr>"

definition empty_features :: FeatureSpecification where
  "empty_features = \<lparr>supported_message_formats = [], supported_request_types = [], supported_request_names = [],
     max_stream_segment_bytes = 0, max_stream_segment_envelopes = 0\<rparr>"

definition empty_subscription_record :: SubscriptionRecord where
  "empty_subscription_record = \<lparr>sr_id = None, sr_type = None, sr_path = [], sr_lua_code = None, sr_socket_identifier = [],
     sr_filter_namespace = [], sr_enumeration_namespace = [], sr_enumeration_type = []\<rparr>"

definition known_messages :: "((u32 \<times> u32) \<times> Message) list" where
  "known_messages =
    [((1, 1), RequestProcessorLog LogCreate []),
     ((1, 2), RequestProcessorLog LogDestroy []),
     ((1, 3), RequestProcessorLog LogRunStart []),
     ((1, 4), RequestProcessorLog LogRunStop []),
     ((1, 5), RequestProcessorLog LogFailReceiveMessage []),
     ((1, 6), RequestProcessorLog LogReceiveEmptyMessage []),
     ((1, 7), RequestProcessorLog LogUnknownMessageVersion []),
     ((1, 8), RequestProcessorLog (LogUnknownRequestType 0) []),
     ((1, 9), RequestProcessorLog (LogEnvelopeParseFailure None) []),
     ((1, 10), RequestProcessorLog LogEmptyEnvelope []),
     ((1, 11), RequestProcessorLog LogInvalidMessageEnumeration []),
     ((1, 12), RequestProcessorLog LogEmbeddedMessageParseFailure []),
     ((1, 13), RequestProcessorLog LogBeginStoreInfo []),
     ((1, 14), RequestProcessorLog LogEndStoreInfo []),
     ((1, 15), RequestProcessorLog LogReceiveInvalidGet []),
     ((1, 16), RequestProcessorLog LogGetInvalidStream []),
     ((1, 17), RequestProcessorLog LogGetInvalidOffset []),
     ((1, 18), RequestProcessorLog LogBeginGetStream []),
     ((1, 19), RequestProcessorLog LogEndGetStream []),
     ((1, 20), RequestProcessorLog (LogSendErrorResponse []) []),
     ((1, 21), RequestProcessorLog (LogForwardSubscribeKeepalive []) []),
     ((1, 22), RequestProcessorLog LogBeginBucketInfo []),
     ((1, 23), RequestProcessorLog LogEndBucketInfo []),
     ((1, 24), RequestProcessorLog LogBeginStreamSetInfo []),
     ((1, 25), RequestProcessorLog LogEndStreamSetInfo []),
     ((1, 26), RequestProcessorLog LogBeginStreamInfo []),
     ((1, 27), RequestProcessorLog LogEndStreamInfo []),
     ((1, 28), RequestProcessorLog LogBeginWriteEnvelope []),
     ((1, 29), RequestProcessorLog LogEndWriteEnvelope []),
     ((1, 93), StreamInfoMsg empty_stream_info),
     ((1, 94), StreamSetInfoMsg \<lparr>ss_path = [], ss_stream = []\<rparr>),
     ((1, 95), BucketInfoMsg \<lparr>bi_path = [], bi_stream_set = []\<rparr>),
     ((1, 96), StoreInfoMsg []),
     ((1, 97), StoreChangeStreamAddedV1 [] [] []),
     ((1, 98), StoreChangeStreamDeletedV1 [] [] []),
     ((1, 99), StoreChangeStreamAppendedV1 [] [] [] 0),
     ((1, 100), StoreChangeBucketAddedV1 []),
     ((1, 101), StoreChangeBucketDeletedV1 []),
     ((1, 102), StoreChangeStreamSetAddedV1 [] []),
     ((1, 103), StoreChangeStreamSetDeletedV1 [] []),
     ((1, 113), OtherMessage PluginStateV1),
     ((1, 127), StoreWatcherLog WatcherCreate []),
     ((1, 128), StoreWatcherLog WatcherDestroy []),
     ((1, 129), StoreWatcherLog WatcherRunStart []),
     ((1, 130), StoreWatcherLog WatcherRunFinish []),
     ((1, 119), SubscriptionRecordMsg empty_subscription_record),
     ((1, 120), ServerLog (ServerCreate [] []) []),
     ((1, 121), ServerLog ServerDestroy []),
     ((1, 122), ServerLog ServerRunStart []),
     ((1, 123), ServerLog ServerRunFinish []),
     ((1, 124), ServerLog ServerFlushOutputStreams []),
     ((1, 125), ServerLog ServerReceiveClientMessage []),
     ((1, 126), ServerLog ServerSendClientMessage []),
     ((1, 70), PongV1),
     ((1, 71), FeatureSpecificationV1 empty_features),
     ((1, 104), StreamSegmentStartV1 [] 0),
     ((1, 105), StreamSegmentEndV1 0 0 0),
     ((1, 109), SubscriptionAcceptAckV1 [] 0),
     ((1, 110), OtherMessage SubscriptionKeepaliveAckV1),
     ((1, 107), SubscriptionStartV1 []),
     ((1, 108), WriteAckV1 0),
     ((1, 114), OtherMessage PluginRegisterAckV1),
     ((1, 117), OtherMessage PluginUnregisterAckV1),
     ((1, 115), OtherMessage PluginStatusV1),
     ((1, 69), Error ENVELOPE_PARSE_FAILURE []),
     ((1, 91), PingV1),
     ((1, 72), GetFeaturesV1),
     ((1, 73), GetStoreInfoV1),
     ((1, 74), GetBucketInfoV1 None),
     ((1, 75), GetStreamSetInfoV1 None),
     ((1, 76), GetStreamInfoV1 None),
     ((1, 92), GetStreamSegmentV1 None None None None),
     ((1, 78), WriteEnvelopeV1 None [] False False),
     ((1, 79), OtherMessage WriteEnvelopeFromMessagesV1),
     ((1, 131), OtherMessage WriteEnvelopeFromStringV1),
     ((1, 80), SubscribeStoreChangesV1 []),
     ((1, 81), SubscribeEnvelopesV1 [] None [] [] []),
     ((1, 82), SubscribeKeepaliveV1 []),
     ((1, 83), SubscribeCancelV1 []),
     ((1, 111), RegisterPluginV1 [] []),
     ((1, 112), UnregisterPluginV1 []),
     ((1, 116), GetPluginStatusV1 [])]"

text \<open>The calls of \<open>register_message\<close>, whose results are ignored.\<close>

fun register_all :: "((u32 \<times> u32) \<times> Message) list \<Rightarrow> registrar \<Rightarrow> registrar" where
  "register_all [] reg = reg"
| "register_all (((ns, ty), m) # l) reg = register_all l (snd (register_message ns ty m reg))"

definition register_known_messages :: "registrar \<Rightarrow> registrar" where
  "register_known_messages reg = register_all known_messages reg"

text \<open>The registry is made by the first call of \<open>instance\<close> and deleted by \<open>shutdown_library\<close>.\<close>

definition initialize_library :: "registrar option \<Rightarrow> registrar option" where
  "initialize_library reg = Some (register_known_messages (case reg of None \<Rightarrow> [] | Some r \<Rightarrow> r))"

definition shutdown_library :: "registrar option \<Rightarrow> registrar option" where
  "shutdown_library reg = None"

lemma register_all_ordered: "ordered reg \<Longrightarrow> ordered (register_all l reg)"
  by (induction l reg rule: register_all.induct) (simp_all add: register_message_registers(1))

lemma register_all_registered:
  "registered (register_all l reg) ns ty =
     (case registered reg ns ty of Some p \<Rightarrow> Some p | None \<Rightarrow> map_of l (ns, ty))"
  by (induction l reg rule: register_all.induct) (auto simp: register_message_registers(2) split: option.splits)

lemma known_distinct: "distinct (map fst known_messages)"
  by (simp add: known_messages_def)

text \<open>Every class is registered under the enumeration it writes.\<close>

definition zippylog_class :: "Message \<Rightarrow> bool" where
  "zippylog_class m \<longleftrightarrow> (\<forall>a b x. m \<noteq> ApplicationMessage a b x)"

lemma known_enumerations: "\<forall>(k, m) \<in> set known_messages. message_enumeration m = k \<and> zippylog_class m"
  by (simp add: known_messages_def message_namespace_def zippylog_class_def)

lemma all_known: "zippylog_class m \<Longrightarrow> message_enumeration m \<in> set (map fst known_messages)"
proof (cases m)
  case (RequestProcessorLog l x)
  then show ?thesis by (cases l) (simp_all add: known_messages_def message_namespace_def)
next
  case (ServerLog l x)
  then show ?thesis by (cases l) (simp_all add: known_messages_def message_namespace_def)
next
  case (StoreWatcherLog l x)
  then show ?thesis by (cases l) (simp_all add: known_messages_def message_namespace_def)
next
  case (OtherMessage l)
  then show ?thesis by (cases l) (simp_all add: known_messages_def message_namespace_def)
qed (simp_all add: known_messages_def message_namespace_def zippylog_class_def)


section \<open>Properties\<close>

text \<open>
  C14: after the library is initialised every class of zippylog's messages is registered, under the namespace
  and the enumeration that its objects write into envelopes and under no other, and nothing else is
  registered, even if the library is initialised twice. So, as the serialisation library parses to an
  object of the prototype's class, the request processors get for every enumeration an object of its class,
  which is what their properties assume of the registry.
\<close>

theorem known_messages_registered:
  assumes "\<forall>p b m. ParseMessage c p b = Some m \<longrightarrow> message_enumeration m = message_enumeration p \<and> zippylog_class m = zippylog_class p"
  shows "\<exists>r. initialize_library None = Some r \<and> ordered r \<and> initialize_library (Some r) = Some r \<and> classes_ok c r \<and>
    (\<forall>m. zippylog_class m \<longrightarrow>
      (\<exists>p. registered r (fst (message_enumeration m)) (snd (message_enumeration m)) = Some p \<and>
        message_enumeration p = message_enumeration m)) \<and>
    (\<forall>ns ty p. registered r ns ty = Some p \<longrightarrow> message_enumeration p = (ns, ty) \<and> zippylog_class p)"
proof -
  let ?r = "register_known_messages []"
  have empty: "registered [] ns ty = None" for ns ty by (simp add: registered_def)
  have r: "registered ?r ns ty = map_of known_messages (ns, ty)" for ns ty
    by (simp add: register_known_messages_def register_all_registered empty)
  have own: "message_enumeration p = (ns, ty) \<and> zippylog_class p" if "registered ?r ns ty = Some p" for ns ty p
    using that known_enumerations by (auto simp: r dest: map_of_SomeD)
  have known: "\<exists>p. registered ?r (fst (message_enumeration m)) (snd (message_enumeration m)) = Some p \<and>
      message_enumeration p = message_enumeration m" if "zippylog_class m" for m
  proof -
    from all_known [OF that] obtain p where "map_of known_messages (message_enumeration m) = Some p"
      by (metis map_of_eq_None_iff image_set option.exhaust)
    then show ?thesis using own [of "fst (message_enumeration m)" "snd (message_enumeration m)" p] by (simp add: r)
  qed
  have twice: "register_all l reg = reg" if "\<forall>((ns, ty), m) \<in> set l. registered reg ns ty \<noteq> None" for l and reg :: registrar
    using that by (induction l reg rule: register_all.induct) (auto simp: register_message_def registered_def)
  have "\<forall>((ns, ty), m) \<in> set known_messages. registered ?r ns ty \<noteq> None"
    using weak_map_of_SomeI [of _ _ known_messages] by (fastforce simp: r)
  from twice [OF this] have "initialize_library (Some ?r) = Some ?r"
    by (simp add: initialize_library_def register_known_messages_def)
  moreover have "classes_ok c ?r"
    using assms own by (fastforce simp: classes_ok_def own_class_def zippylog_class_def)
  moreover have "ordered ?r"
    using register_all_ordered [of "[]"] by (simp add: register_known_messages_def) (simp add: ordered_def)
  ultimately show ?thesis using own known by (intro exI [of _ ?r]) (simp add: initialize_library_def)
qed

lemma known_messages_registered_witness:
  "\<exists>r. initialize_library None = Some r \<and> classes_ok sample_codec r \<and> (\<exists>p. registered r 1 91 = Some p)"
proof -
  have "\<forall>p b m. ParseMessage sample_codec p b = Some m \<longrightarrow>
      message_enumeration m = message_enumeration p \<and> zippylog_class m = zippylog_class p"
    by (simp add: sample_codec_def)
  from known_messages_registered [OF this] obtain r where r: "initialize_library None = Some r" "classes_ok sample_codec r"
    "\<forall>m. zippylog_class m \<longrightarrow> (\<exists>p. registered r (fst (message_enumeration m)) (snd (message_enumeration m)) = Some p \<and>
        message_enumeration p = message_enumeration m)" by blast
  from r(3) [rule_format, of PingV1] r show ?thesis by (auto simp: zippylog_class_def message_namespace_def)
qed

end
