(* ===== verification/Programs.thy ===== *)
theory Programs
  imports String_Loader Server_Config Server_Device Library_Init Request_Stream
begin

text \<open>
  The command line programs (src/zippylogd.cpp, src/zippylog_string_loader.cpp, src/zippylogcat.cpp and
  src/zippylog/util.cpp): the parsing of their arguments, and their \<open>main\<close> as the way the process ends and
  what it prints.
\<close>

section \<open>Ends of a process\<close>

text \<open>
  \<open>Dies\<close> is an end by something that no handler of \<open>main\<close> catches. The handlers for \<open>std::exception\<close> take a copy of
  the base class, whose text does not say what has happened; a thrown pointer is none.
\<close>

datatype outcome = Exit nat string | Dies exn

definition std_exception :: "exn \<Rightarrow> bool" where
  "std_exception x \<longleftrightarrow> catchable x \<and> (\<forall>s. x \<noteq> ThrownPointer s)"

definition sliced :: string where
  "sliced = ''Exception: std::exception'' @ [newline]"

definition caught :: "string \<Rightarrow> exn \<Rightarrow> outcome" where
  "caught out x = (if std_exception x then Exit 1 (out @ sliced)
     else if catchable x then Exit 1 (out @ ''received an exception'' @ [newline]) else Dies x)"

text \<open>Every program initialises the library first and shuts it down last; the latter is not to be seen from outside.\<close>

definition library_registry :: registrar where
  "library_registry = (case initialize_library None of Some reg \<Rightarrow> reg | None \<Rightarrow> [])"

definition printed :: "string_loader \<Rightarrow> string" where
  "printed s = (case outstream s of None \<Rightarrow> [] | Some out \<Rightarrow> out)"

section \<open>Arguments\<close>

text \<open>The result: whether there is a value, the arguments without the name and the value, the index, and the value.\<close>

definition GetArgumentValueAndPop :: "string list \<Rightarrow> nat \<Rightarrow> (bool \<times> string list \<times> nat \<times> string) res" where
  "GetArgumentValueAndPop args index =
     (if length args - index < 2 then Inr (False, args, index, [])
      else if args ! (index + 1) = [] then Inl OutOfRange
      else if hd (args ! (index + 1)) = CHR ''-'' \<or> take 1 (args ! (index + 1)) = ''--'' then Inr (False, args, index, [])
      else Inr (True, take index args @ drop (index + 2) args, index, args ! (index + 1)))"

lemma popped:
  "GetArgumentValueAndPop args i = Inr (True, args', i', v) \<Longrightarrow>
    i' = i \<and> length args' + 2 = length args \<and> i + 2 \<le> length args \<and> v = args ! (i + 1) \<and> args' = take i args @ drop (i + 2) args"
  by (auto simp: GetArgumentValueAndPop_def split: if_splits)

section \<open>The string loader\<close>

definition value_option :: "string \<Rightarrow> (string \<times> (string \<Rightarrow> loader_params \<Rightarrow> loader_params)) option" where
  "value_option name =
     (if name = ''--store'' then Some (''--store argument requires a value. None found'', \<lambda>v p. p\<lparr>lp_store_path := v\<rparr>)
      else if name = ''--default-bucket'' then Some (''--default-bucket argument requires a value'', \<lambda>v p. p\<lparr>lp_default_bucket := v\<rparr>)
      else if name = ''--default-stream-set'' then Some (''--default-stream-set argument requires a value'', \<lambda>v p. p\<lparr>lp_default_set := v\<rparr>)
      else if name = ''--lua-file'' then Some (''--lua-file argument requires a value'', \<lambda>v p. p\<lparr>lua_file := v\<rparr>)
      else None)"

function loader_options :: "string list \<Rightarrow> nat \<Rightarrow> loader_params \<Rightarrow> (string option \<times> loader_params) res" where
  "loader_options args i p =
     (if length args \<le> i then Inr (None, p)
      else if args ! i = ''--stdout'' then loader_options args (i + 1) (p\<lparr>lp_output := True\<rparr>)
      else
        (case value_option (args ! i) of
           None \<Rightarrow> loader_options args (i + 1) p
         | Some (error, put) \<Rightarrow>
             (case GetArgumentValueAndPop args i of
                Inl x \<Rightarrow> Inl x
              | Inr (ok, args', i', v) \<Rightarrow> if ok then loader_options args' i' (put v p) else Inr (Some error, p))))"
  by pat_completeness auto
termination
  by (relation "measure (\<lambda>(args, i, p). length args - i)") (auto dest!: sym [of "Inr _"] dest: popped)

declare loader_options.simps [simp del]

definition ParseLoaderArguments :: "string \<Rightarrow> string list \<Rightarrow> (string option \<times> loader_params) res" where
  "ParseLoaderArguments usage args =
     (if length args < 2 then Inr (Some usage, new_loader_params)
      else
        rbind (loader_options (tl args) 0 new_loader_params) (\<lambda>(error, p).
          if error \<noteq> None then Inr (error, p)
          else if length (lp_store_path p) > 0 \<and> length (lp_default_bucket p) < 1
            then Inr (Some ''--default-bucket required when --store is defined'', p)
          else if length (lp_store_path p) > 0 \<and> length (lp_default_set p) < 1
            then Inr (Some ''--default-stream-set required when --store is defined'', p)
          else Inr (None, p)))"

text \<open>
  \<open>main\<close>: \<open>construct\<close> is the construction of the loader from the parameters. Nothing ever clears \<open>active\<close>. The
  result \<open>None\<close> is a process that goes on for ever.
\<close>

definition string_loader_main ::
  "codec \<Rightarrow> (Message \<Rightarrow> string) \<Rightarrow> (loader_params \<Rightarrow> string_loader res) \<Rightarrow> string \<Rightarrow> string list \<Rightarrow> string \<Rightarrow> outcome option" where
  "string_loader_main c print construct usage args input =
     (case ParseLoaderArguments usage args of
        Inl x \<Rightarrow> Some (caught [] x)
      | Inr (Some error, _) \<Rightarrow> Some (Exit 1 (error @ [newline]))
      | Inr (None, p) \<Rightarrow>
          let p = p\<lparr>lp_input := Some (new_istream input), lp_active := True\<rparr> in
          (case construct p of
             Inl x \<Rightarrow> Some (caught [] x)
           | Inr s \<Rightarrow>
               (case StringLoader_Run (\<lambda>_. True) c library_registry print (lp_input p, s) of
                  None \<Rightarrow> None
                | Some (Inl x, _, s) \<Rightarrow> Some (caught (printed s) x)
                | Some (Inr _, _, s) \<Rightarrow> Some (Exit 0 (printed s)))))"

section \<open>The printer of streams\<close>

definition contains :: "string \<Rightarrow> string \<Rightarrow> bool" where
  "contains x s \<longleftrightarrow> list_ex (\<lambda>i. take (length x) (drop i s) = x) [0..<length s + 1]"

text \<open>A source that looks like a URI is skipped.\<close>

fun cat_sources :: "filesystem \<Rightarrow> string list \<Rightarrow> string list \<Rightarrow> string option \<times> string list" where
  "cat_sources fs [] sources = (None, sources)"
| "cat_sources fs (arg # args) sources =
     (if contains ''://'' arg then cat_sources fs args sources
      else
        (case stat fs arg of
           None \<Rightarrow> (Some (''file path does not seem to exist or isn'' @ [CHR 0x27] @ ''t readable: '' @ arg), sources)
         | Some _ \<Rightarrow> cat_sources fs args (sources @ [arg])))"

definition ParseCatArguments :: "filesystem \<Rightarrow> (string \<Rightarrow> string) \<Rightarrow> string list \<Rightarrow> string option \<times> string list" where
  "ParseCatArguments fs usage args =
     (if length args < 2 then (Some (usage (args ! 0)), [])
      else
        (case List.find (\<lambda>a. a \<noteq> [] \<and> hd a = CHR ''-'') (tl args) of
           Some a \<Rightarrow> (Some (''unrecognized argument: '' @ a), [])
         | None \<Rightarrow> cat_sources fs (tl args) []))"

text \<open>The loop over the envelopes of a stream, with what has been printed so far.\<close>

partial_function (option) cat_loop ::
  "codec \<Rightarrow> registrar \<Rightarrow> (Message \<Rightarrow> string) \<Rightarrow> Envelope \<Rightarrow> InputStream \<Rightarrow> string \<Rightarrow> (unit res \<times> string) option" where
  "cat_loop c reg print e s out =
     (case ReadEnvelope c e s of ((ok, e, _), s) \<Rightarrow>
        if \<not> ok then Some (Inr (), out)
        else (case Envelope_ToString c reg print e of
            (Inl x, _) \<Rightarrow> Some (Inl x, out)
          | (Inr t, e) \<Rightarrow> cat_loop c reg print e s (out @ t)))"

text \<open>The result is the function's own; errors are printed on another stream.\<close>

definition ProcessFilename ::
  "codec \<Rightarrow> (Message \<Rightarrow> string) \<Rightarrow> u64 \<Rightarrow> filesystem \<Rightarrow> string \<Rightarrow> string \<Rightarrow> (bool res \<times> string) option" where
  "ProcessFilename c print now fs filename out =
     (let handled = (\<lambda>x out. Some (if std_exception x then Inr False else Inl x, out)) in
      case new_FileInputStream fs filename 0 of
        Inl x \<Rightarrow> handled x out
      | Inr s \<Rightarrow>
          (case cat_loop c library_registry print (new_Envelope now) s out of
             None \<Rightarrow> None
           | Some (Inl x, out) \<Rightarrow> handled x out
           | Some (Inr _, out) \<Rightarrow> Some (Inr True, out)))"

text \<open>The first source that fails ends the output, but not the success of the program.\<close>

fun cat_files ::
  "codec \<Rightarrow> (Message \<Rightarrow> string) \<Rightarrow> u64 \<Rightarrow> filesystem \<Rightarrow> string list \<Rightarrow> string \<Rightarrow> outcome option" where
  "cat_files c print now fs [] out = Some (Exit 0 out)"
| "cat_files c print now fs (f # sources) out =
     (case ProcessFilename c print now fs f out of
        None \<Rightarrow> None
      | Some (Inl x, out) \<Rightarrow> Some (if catchable x then Exit 1 (out @ ''received an exception'' @ [newline]) else Dies x)
      | Some (Inr ok, out) \<Rightarrow> if ok then cat_files c print now fs sources out else Some (Exit 0 out))"

definition zippylogcat_main ::
  "codec \<Rightarrow> (Message \<Rightarrow> string) \<Rightarrow> u64 \<Rightarrow> filesystem \<Rightarrow> (string \<Rightarrow> string) \<Rightarrow> string list \<Rightarrow> outcome option" where
  "zippylogcat_main c print now fs usage args =
     (case ParseCatArguments fs usage args of
        (Some error, _) \<Rightarrow> Some (Exit 1 (error @ [newline]))
      | (None, sources) \<Rightarrow> cat_files c print now fs sources [])"

section \<open>The daemon\<close>

text \<open>
  \<open>chunk\<close> is what the configuration file at a path leaves. A daemon whose server has been made runs it until a
  signal arrives.
\<close>

datatype daemon = Ends outcome | Serves "Server device"

definition zippylogd_main ::
  "(string \<Rightarrow> int option) \<Rightarrow> (string \<Rightarrow> string + ConfigValue list \<times> (string \<Rightarrow> ConfigValue)) \<Rightarrow> FileType \<Rightarrow> filesystem \<Rightarrow>
   string \<times> string \<Rightarrow> (nat \<Rightarrow> u64) \<Rightarrow> string list \<Rightarrow> daemon" where
  "zippylogd_main number chunk garbage fs uuid clock args =
     (let handled = (\<lambda>x. Ends (if std_exception x then Exit 1 sliced else Dies x)) in
      if length args < 2 then Ends (Exit 1 (''Usage: zippylogd /path/to/config/file'' @ [newline]))
      else
        (case ParseConfig number (chunk (args ! 1)) default_server_params of
           (Inl x, _) \<Rightarrow> handled x
         | (Inr (ok, error), p) \<Rightarrow>
             if \<not> ok then Ends (Exit 1 (''Error loading config file: '' @ error @ [newline]))
             else
               (case rbind (new_Server garbage fs uuid clock p) (new_Device (sp_active p)) of
                  Inl x \<Rightarrow> handled x
                | Inr h \<Rightarrow> Serves h)))"


section \<open>Properties\<close>

lemma parse_keeps_active: "keeps (\<lambda>p p'. sp_active p' = sp_active p) (ParseConfig number chunk)"
proof -
  let ?P = "\<lambda>p p' :: ServerStartParams. sp_active p' = sp_active p"
  have P: "reflp ?P" "transp ?P" by (auto simp: reflp_def transp_def)
  note k = keeps_pure [OF P(1)] keeps_andThen [OF P(2)]
  have config: "keeps ?P (and_then_config f g)" if "keeps ?P f" "keeps ?P g" for f g
    unfolding and_then_config_def using that by (intro k keeps_option)
  have integer: "keeps ?P (take_integer number v d put)" if "\<And>n p. sp_active (put n p) = sp_active p" for v d put
    unfolding take_integer_def using that by (intro k keeps_modify) simp
  have strings: "keeps ?P (take_string v d put)" if "\<And>n p. sp_active (put n p) = sp_active p" for v d put
    unfolding take_string_def using that by (intro k keeps_modify) simp
  have settings: "keeps ?P (parse_settings number g)" for g
    unfolding parse_settings_def
    by (intro config integer strings k keeps_modify) (simp_all add: keeps_def check_interval_def)
  have collect: "sp_active (snd (collect_endpoints es p)) = sp_active p" for es p
    by (induction es p rule: collect_endpoints.induct) (simp_all split: option.split)
  have "keeps ?P (parse_endpoints stack v)" for stack v
    by (auto simp: keeps_def parse_endpoints_def collect split: ConfigValue.split)
  moreover have "keeps ?P (parse_store_path v)" for v
    by (auto simp: keeps_def parse_store_path_def split: option.split)
  ultimately show ?thesis
    unfolding ParseConfig_def
    by (intro k) (auto split: sum.split intro!: k config settings)
qed

text \<open>
  C15: the daemon never serves: whatever its arguments and its configuration, it ends with an error, because
  it gives the server no condition to run under, which the server's constructor does not accept. With a
  configuration that is in order the message is that of a standard exception.
\<close>

theorem daemon_never_serves:
  "\<exists>e. zippylogd_main number chunk garbage fs uuid clock args = Ends e \<and> (\<forall>out. e \<noteq> Exit 0 out) \<and>
    (fst (ParseConfig number (chunk (args ! 1)) default_server_params) = Inr (True, []) \<and> 2 \<le> length args \<longrightarrow> e = Exit 1 sliced)"
proof (cases "length args < 2")
  case False
  obtain r p where parse: "ParseConfig number (chunk (args ! 1)) default_server_params = (r, p)"
    by (cases "ParseConfig number (chunk (args ! 1)) default_server_params")
  have "\<not> sp_active p"
    using keepsD [OF parse_keeps_active [of number "chunk (args ! 1)"], of default_server_params] parse
    by (simp add: default_server_params_def)
  then have server: "new_Server garbage fs uuid clock p = Inl (InvalidArgument ''ConditionalWait parameter not defined'')"
    by (simp add: new_Server_def)
  show ?thesis
  proof (cases r)
    case (Inl x)
    with False parse show ?thesis by (simp add: zippylogd_main_def Let_def)
  next
    case (Inr y)
    with False parse server show ?thesis
      by (cases y) (simp add: zippylogd_main_def Let_def std_exception_def)
  qed
qed (simp add: zippylogd_main_def)

lemma daemon_never_serves_witness:
  "zippylogd_main (\<lambda>_. None) (\<lambda>_. Inr ([], sample_globals)) UNKNOWN sample_file ([], []) (\<lambda>_. 0) [''zippylogd'', ''zippylogd.lua''] =
    Ends (Exit 1 sliced)"
proof -
  have "fst (ParseConfig (\<lambda>_. None) (Inr ([], sample_globals)) default_server_params) = Inr (True, [])"
    by (simp add: ParseConfig_def and_then_config_def andThen_def parse_store_path_def parse_endpoints_def sample_globals_def
        parse_settings_def take_integer_def take_string_def optinteger_def optstring_def check_interval_def modify_def to_int32_def)
  with daemon_never_serves [where number = "\<lambda>_. None" and chunk = "\<lambda>_. Inr ([], sample_globals)" and garbage = UNKNOWN
      and fs = sample_file and uuid = "([], [])" and clock = "\<lambda>_. 0" and args = "[''zippylogd'', ''zippylogd.lua'']"]
  show ?thesis by auto
qed

text \<open>
  C18: the string loader's program does not end when its input ends, as its usage says it does: once every
  line is processed without an exception it goes round for ever.
\<close>

theorem string_loader_never_exits:
  assumes "ParseLoaderArguments usage args = Inr (None, p)"
    "construct (p\<lparr>lp_input := Some (new_istream input), lp_active := True\<rparr>) = Inr s" "loader_active s"
    "for_each (load_text c library_registry print) (reads input) s = (Inr (), s')"
  shows "string_loader_main c print construct usage args input = None"
  using assms loop_to_end [OF assms(4), of 0 "\<lambda>_. True"] loop_closed_forever [of c library_registry print "length (reads input)" s']
  by (simp add: string_loader_main_def StringLoader_Run_def Let_def)

lemma string_loader_never_exits_witness:
  "string_loader_main sample_codec (\<lambda>_. [])
    (new_StringLoader (\<lambda>g _. (None, g)) (sample_lua_state\<lparr>have_load_string := False\<rparr>) UNKNOWN sample_file (\<lambda>_. 7) (\<lambda>_. (0, 0)))
    [] [''zippylog_string_loader'', ''--stdout''] ''a'' = None"
proof -
  let ?p = "new_loader_params\<lparr>lp_output := True\<rparr>"
  have args: "ParseLoaderArguments [] [''zippylog_string_loader'', ''--stdout''] = Inr (None, ?p)"
    by (simp add: ParseLoaderArguments_def loader_options.simps new_loader_params_def)
  obtain s where s: "new_StringLoader (\<lambda>g _. (None, g)) (sample_lua_state\<lparr>have_load_string := False\<rparr>) UNKNOWN sample_file
      (\<lambda>_. 7) (\<lambda>_. (0, 0)) (?p\<lparr>lp_input := Some (new_istream ''a''), lp_active := True\<rparr>) = Inr s"
    "loader_active s" "\<not> have_lua_string_loader s" "loader_store s = None" "outstream s = Some []"
    by (simp add: new_StringLoader_def SetMemoryCeiling_def load_scripts_def new_loader_params_def Let_def)
  from plain_loads_all [OF s(3-5)] obtain s' where
    "for_each (load_text sample_codec library_registry (\<lambda>_. [])) (reads ''a'') s = (Inr (), s')" by blast
  from string_loader_never_exits [where construct = "new_StringLoader (\<lambda>g _. (None, g)) (sample_lua_state\<lparr>have_load_string := False\<rparr>)
      UNKNOWN sample_file (\<lambda>_. 7) (\<lambda>_. (0, 0))", OF args s(1,2) this] show ?thesis .
qed


lemma cat_loop_prints:
  assumes "ReadVarint32 c [] = None"
  shows "list_all (sound_record c) pbs \<Longrightarrow> rest s = concat (map (record_bytes c) pbs) \<Longrightarrow> \<not> have_next_size s \<Longrightarrow>
    \<forall>pb \<in> set pbs. fst (Envelope_ToString c reg print (of_pb pb)) = Inr (shown pb) \<Longrightarrow>
    cat_loop c reg print e s out = Some (Inr (), out @ concat (map shown pbs))"
proof (induction pbs arbitrary: e s out)
  case Nil
  then show ?case
    by (subst cat_loop.simps) (simp add: ReadEnvelope_def NextEnvelopeSize_def assms)
next
  case (Cons pb pbs)
  have r: "sound_record c pb" "rest s = record_bytes c pb @ concat (map (record_bytes c) pbs)" using Cons.prems by simp_all
  have e: "e\<lparr>messages := None, envelope := pb\<rparr> = of_pb pb" by (cases e) (simp add: of_pb_def)
  from ReadEnvelope_record [OF r Cons.prems(3), where e = e, unfolded e] obtain s1 n where s1:
    "ReadEnvelope c e s = ((True, of_pb pb, n), s1)" "rest s1 = concat (map (record_bytes c) pbs)" "\<not> have_next_size s1"
    by metis
  obtain e1 where t: "Envelope_ToString c reg print (of_pb pb) = (Inr (shown pb), e1)"
    using Cons.prems(4) by (cases "Envelope_ToString c reg print (of_pb pb)") auto
  have "cat_loop c reg print e1 s1 (out @ shown pb) = Some (Inr (), (out @ shown pb) @ concat (map shown pbs))"
    using Cons.prems by (intro Cons.IH s1) simp_all
  then show ?case using s1(1) t by (subst cat_loop.simps) simp
qed

text \<open>
  C17: the printer of streams prints the envelopes of all its files, in the order of the files and of the
  envelopes in them, and nothing else, and it ends.
\<close>

theorem cat_prints_streams:
  assumes "inputs \<noteq> []" "ReadVarint32 c [] = None"
    "\<forall>(f, pbs) \<in> set inputs. node_at fs (components f) = Some (Reg (stream_bytes c pbs)) \<and> allowed fs (components f) \<and>
      \<not> contains ''://'' f \<and> (f = [] \<or> hd f \<noteq> CHR ''-'') \<and> list_all (sound_record c) pbs \<and>
      (\<forall>pb \<in> set pbs. fst (Envelope_ToString c library_registry print (of_pb pb)) = Inr (shown pb))"
  shows "zippylogcat_main c print now fs usage (prog # map fst inputs) =
    Some (Exit 0 (concat (map (\<lambda>(_, pbs). concat (map shown pbs)) inputs)))"
proof -
  have sources: "cat_sources fs (map fst fls) srcs = (None, srcs @ map fst fls)" if "set fls \<subseteq> set inputs" for fls srcs
    using that assms(3) by (induction fls arbitrary: srcs) (auto simp: stat_def lookup_path_def split: option.split)
  have process: "ProcessFilename c print now fs f out = Some (Inr True, out @ concat (map shown pbs))"
    if "(f, pbs) \<in> set inputs" for f pbs out
  proof -
    from that assms(3) have f: "node_at fs (components f) = Some (Reg (stream_bytes c pbs))" "allowed fs (components f)"
      "list_all (sound_record c) pbs" "\<forall>pb \<in> set pbs. fst (Envelope_ToString c library_registry print (of_pb pb)) = Inr (shown pb)" by auto
    from new_FileInputStream_stream [OF f(1) [unfolded stream_bytes_def] f(2), of 0] obtain s where
      "new_FileInputStream fs f 0 = Inr s" "\<not> have_next_size s" "rest s = concat (map (record_bytes c) pbs)" by auto
    with cat_loop_prints [OF assms(2) f(3) _ _ f(4)] show ?thesis by (simp add: ProcessFilename_def Let_def)
  qed
  have inputs: "cat_files c print now fs (map fst fls) out = Some (Exit 0 (out @ concat (map (\<lambda>(_, pbs). concat (map shown pbs)) fls)))"
    if "set fls \<subseteq> set inputs" for fls out
    using that process by (induction fls arbitrary: out) auto
  have "List.find (\<lambda>a. a \<noteq> [] \<and> hd a = CHR ''-'') (map fst inputs) = None"
    using assms(3) by (auto simp: find_None_iff)
  with sources [of inputs "[]"] inputs [of inputs "[]"] assms(1) show ?thesis
    by (cases inputs) (auto simp: zippylogcat_main_def ParseCatArguments_def)
qed

lemma library_registered: "registered library_registry ns ty = map_of known_messages (ns, ty)"
  by (simp add: library_registry_def initialize_library_def register_known_messages_def register_all_registered)
    (simp add: registered_def)

lemma cat_prints_streams_witness:
  "zippylogcat_main sample_codec (\<lambda>m. if m = PingV1 then ''ping'' else ''features'') 0 sample_file (\<lambda>_. []) [''zippylogcat'', ''x''] =
    Some (Exit 0 (''Envelope'' @ [newline] @ ''  pingEnvelope'' @ [newline] @ ''  features''))"
proof -
  let ?p = "\<lambda>m. if m = PingV1 then ''ping'' else ''features''"
  note string = Envelope_ToString_def of_pb_def empty_envelope_def MessageCount_def Let_def GetMessage_def andThen_def grow_cache_def
    library_registered
  have ping: "map_of known_messages (1, 91) = Some PingV1" and features: "map_of known_messages (1, 72) = Some GetFeaturesV1"
    by (simp_all add: known_messages_def)
  have a: "fst (Envelope_ToString sample_codec library_registry ?p (of_pb sample_a)) = Inr (''Envelope'' @ [newline] @ ''  ping'')"
    by (simp add: string sample_a_def ping sample_codec_def)
  have b: "fst (Envelope_ToString sample_codec library_registry ?p (of_pb sample_b)) = Inr (''Envelope'' @ [newline] @ ''  features'')"
    by (simp add: string sample_b_def features sample_codec_def)
  have f: "node_at sample_file (components ''x'') = Some (Reg (stream_bytes sample_codec [sample_a, sample_b]))"
    "allowed sample_file (components ''x'')" "\<not> contains ''://'' ''x''"
    unfolding sample_stream_bytes
    by (simp_all add: node_at_def components_def c_str_def allowed_def sample_file_def contains_def)
  have "sample_a \<noteq> sample_b" by (simp add: sample_a_def sample_b_def empty_envelope_def)
  then show ?thesis
    using cat_prints_streams [where inputs = "[(''x'', [sample_a, sample_b])]" and c = sample_codec and fs = sample_file
        and print = ?p and shown = "\<lambda>pb. ''Envelope'' @ [newline] @ (if pb = sample_a then ''  ping'' else ''  features'')" and now = 0
        and usage = "\<lambda>_. []" and prog = "''zippylogcat''"] f a b sample_stream_bytes(2)
    by (simp add: sample_codec_def)
qed

end
