(* ===== verification/Client_Program.thy ===== *)
theory Client_Program
  imports Programs Client
begin

text \<open>
  The client's command line program (src/zippylogclient.cpp) and the sleep of platform.cpp it uses: it asks
  servers for their contents, or mirrors their streams, which here means to print what was fetched.
\<close>

section \<open>Sleeping\<close>

text \<open>The nanoseconds that \<open>sleep\<close> asks the system for: the product is one of 32 bits.\<close>

definition sleep_nanos :: "u32 \<Rightarrow> nat" where
  "sleep_nanos milliseconds =
     unat (milliseconds div 1000) * 1000000000 + unat ((milliseconds * 1000000) mod 1000000000)"

section \<open>Arguments\<close>

record zippylogclient_params =
  show_store_info :: bool
  mirror :: bool
  mirror_state :: string
  mirror_interval :: int
  servers :: "string list"

definition new_client_params :: zippylogclient_params where
  "new_client_params =
     \<lparr>show_store_info = False, mirror = False, mirror_state = [], mirror_interval = - 1, servers = []\<rparr>"

text \<open>\<open>number\<close> gives the result of \<open>atoi\<close> and whether \<open>errno\<close> is \<open>EINVAL\<close> after it, which need not be the call's doing.\<close>

definition client_value_option ::
  "(string \<Rightarrow> int \<times> bool) \<Rightarrow> string \<Rightarrow> (string \<times> (string \<Rightarrow> zippylogclient_params \<Rightarrow> string + zippylogclient_params)) option" where
  "client_value_option number name =
     (if name = ''--mirror-state''
      then Some (''--mirror-state requires a value'', \<lambda>v p. Inr (p\<lparr>mirror_state := v, mirror := True\<rparr>))
      else if name = ''--mirror-interval''
      then Some (''--mirror-interval requires a value'', \<lambda>v p.
        let (n, invalid) = number v in
        if invalid then Inl ''--mirror-interval value could not be parsed. is it a positive integer?''
        else Inr (p\<lparr>mirror_interval := n, mirror := True\<rparr>))
      else None)"

definition plain_argument :: "string \<Rightarrow> zippylogclient_params \<Rightarrow> zippylogclient_params" where
  "plain_argument a p =
     (if a = ''--storeinfo'' then p\<lparr>show_store_info := True\<rparr>
      else if a = ''--mirror'' then p\<lparr>mirror := True\<rparr>
      else if a = [] \<or> hd a \<noteq> CHR ''-'' then p\<lparr>servers := servers p @ [a]\<rparr>
      else p)"

function client_options ::
  "(string \<Rightarrow> int \<times> bool) \<Rightarrow> string list \<Rightarrow> nat \<Rightarrow> zippylogclient_params \<Rightarrow> (string option \<times> zippylogclient_params) res" where
  "client_options number args i p =
     (if length args \<le> i then Inr (None, p)
      else
        (case client_value_option number (args ! i) of
           None \<Rightarrow> client_options number args (i + 1) (plain_argument (args ! i) p)
         | Some (error, put) \<Rightarrow>
             (case GetArgumentValueAndPop args i of
                Inl x \<Rightarrow> Inl x
              | Inr (ok, args', i', v) \<Rightarrow>
                  if \<not> ok then Inr (Some error, p)
                  else (case put v p of Inl error \<Rightarrow> Inr (Some error, p) | Inr p \<Rightarrow> client_options number args' i' p))))"
  by pat_completeness auto
termination
  by (relation "measure (\<lambda>(number, args, i, p). length args - i)") (auto dest!: sym [of "Inr _"] dest: popped)

declare client_options.simps [simp del]

definition ParseClientArguments ::
  "string \<Rightarrow> (string \<Rightarrow> int \<times> bool) \<Rightarrow> string list \<Rightarrow> (string option \<times> zippylogclient_params) res" where
  "ParseClientArguments usage number args =
     (if length args < 2 then Inr (Some usage, new_client_params) else client_options number (tl args) 0 new_client_params)"

section \<open>What is done with the servers\<close>

text \<open>
  A client that has been made, with the world around it. What the program has printed is the application of
  the client that runs.
\<close>

type_synonym a_client = "string client_env \<times> string client"

definition MirrorCallback :: "client_event \<Rightarrow> addr \<Rightarrow> (string client, unit) action" where
  "MirrorCallback ev a =
     (case ev of
        OnSegment path start seg \<Rightarrow>
          modify (\<lambda>s. s\<lparr>application := application s @ path @ '': '' @ dec (unat start) @ ''-'' @ dec (unat (seg_end seg)) @ [newline]\<rparr>)
      | _ \<Rightarrow> ret ())"

text \<open>\<open>connect k endpoint\<close> is the world of the \<open>k\<close>-th client with its new socket, or the error of the connection.\<close>

fun new_clients ::
  "(nat \<Rightarrow> string \<Rightarrow> (string client_env \<times> socket \<times> memory) res) \<Rightarrow> nat \<Rightarrow> nat \<Rightarrow> string list \<Rightarrow> a_client list res" where
  "new_clients connect now k [] = Inr []"
| "new_clients connect now k (e # es) =
     rbind (connect k e) (\<lambda>(E, sock, mem).
     rbind (new_Client True sock mem [] now) (\<lambda>s.
     rbind (new_clients connect now (k + 1) es) (\<lambda>cs. Inr ((E\<lparr>callback_of := \<lambda>_. MirrorCallback\<rparr>, s) # cs))))"

fun ShowStoreInfo ::
  "(BucketInfoV1 list \<Rightarrow> string) \<Rightarrow> a_client list \<Rightarrow> string \<Rightarrow> (unit res \<times> a_client list \<times> string) option" where
  "ShowStoreInfo print [] out = Some (Inr (), [], out)"
| "ShowStoreInfo print ((E, s) # cs) out =
     (let (a, s) = new_local (s\<lparr>application := out\<rparr>) in
      case GetStoreInfo E a 10000000 s of
        None \<Rightarrow> None
      | Some (Inl x, s) \<Rightarrow> Some (Inl x, (E, s) # cs, application s)
      | Some (Inr ok, s) \<Rightarrow>
          map_option (\<lambda>(r, cs, out). (r, (E, s) # cs, out))
            (ShowStoreInfo print cs (if ok then application s @ print (mem_store_info (memory s) a) @ [newline] else application s)))"

text \<open>The results of the calls of \<open>Client::Mirror\<close> are ignored.\<close>

fun mirror_each ::
  "a_client list \<Rightarrow> (string \<times> u64) list list \<Rightarrow> string \<Rightarrow> (unit res \<times> a_client list \<times> (string \<times> u64) list list \<times> string) option" where
  "mirror_each [] states out = Some (Inr (), [], states, out)"
| "mirror_each (c # cs) [] out = Some (Inl (Undefined ''states''), c # cs, [], out)"
| "mirror_each ((E, s) # cs) (st # states) out =
     (case Mirror E st (Some 0) (Caller 0) (s\<lparr>application := out\<rparr>) of
        None \<Rightarrow> None
      | Some (Inl x, st, s) \<Rightarrow> Some (Inl x, (E, s) # cs, st # states, application s)
      | Some (Inr _, st, s) \<Rightarrow>
          map_option (\<lambda>(r, cs, states, out). (r, (E, s) # cs, st # states, out)) (mirror_each cs states (application s)))"

definition MirrorAll ::
  "a_client list \<Rightarrow> (string \<times> u64) list list \<Rightarrow> string \<Rightarrow> (unit res \<times> a_client list \<times> (string \<times> u64) list list \<times> string) option" where
  "MirrorAll cs states out = mirror_each cs (if states = [] then map (\<lambda>_. []) cs else states) out"

definition pass_time :: "nat \<Rightarrow> a_client list \<Rightarrow> a_client list" where
  "pass_time nanos cs = map (\<lambda>(E, s). (E, s\<lparr>clock := clock s + nanos div 1000\<rparr>)) cs"

partial_function (option) mirror_loop ::
  "int \<Rightarrow> a_client list \<Rightarrow> (string \<times> u64) list list \<Rightarrow> string \<Rightarrow> (unit res \<times> string) option" where
  "mirror_loop interval cs states out =
     (case MirrorAll cs states out of
        None \<Rightarrow> None
      | Some (Inl x, _, _, out) \<Rightarrow> Some (Inl x, out)
      | Some (Inr _, cs, states, out) \<Rightarrow>
          if interval > 0 then
            mirror_loop interval (pass_time (sleep_nanos (word_of_int (to_int32 (interval * 1000)))) cs) states out
          else Some (Inr (), out))"

section \<open>The program\<close>

text \<open>The handlers: zippylog's own exceptions, which are caught with their text, and all others.\<close>

definition client_caught :: "string \<Rightarrow> exn \<Rightarrow> outcome" where
  "client_caught out x =
     (case x of
        RuntimeException s \<Rightarrow> Exit 1 (out @ ''zippylog Exception:'' @ [newline] @ s @ [newline])
      | StorePathNotDirectoryException s \<Rightarrow> Exit 1 (out @ ''zippylog Exception:'' @ [newline] @ s @ [newline])
      | _ \<Rightarrow> if catchable x then Exit 1 (out @ ''received an exception'' @ [newline]) else Dies x)"

definition client_end :: "string \<Rightarrow> unit res \<Rightarrow> outcome" where
  "client_end out r = (case r of Inl x \<Rightarrow> client_caught out x | Inr _ \<Rightarrow> Exit 0 out)"

definition zippylogclient_main ::
  "(nat \<Rightarrow> string \<Rightarrow> (string client_env \<times> socket \<times> memory) res) \<Rightarrow> nat \<Rightarrow> (BucketInfoV1 list \<Rightarrow> string) \<Rightarrow> string \<Rightarrow>
   (string \<Rightarrow> int \<times> bool) \<Rightarrow> string list \<Rightarrow> outcome option" where
  "zippylogclient_main connect now print usage number args =
     (case ParseClientArguments usage number args of
        Inl x \<Rightarrow> Some (client_caught [] x)
      | Inr (Some error, _) \<Rightarrow> Some (Exit 1 (error @ [newline]))
      | Inr (None, p) \<Rightarrow>
          (case new_clients connect now 0 (servers p) of
             Inl x \<Rightarrow> Some (client_caught [] x)
           | Inr cs \<Rightarrow>
               if show_store_info p then map_option (\<lambda>(r, _, out). client_end out r) (ShowStoreInfo print cs [])
               else if mirror p then map_option (\<lambda>(r, out). client_end out r) (mirror_loop (mirror_interval p) cs [] [])
               else Some (Exit 1 (''Not sure what to do!'' @ [newline]))))"

section \<open>Properties\<close>

text \<open>
  \<open>sleep\<close> sleeps exactly as long as it is told only below 4295 milliseconds. The product that gives the
  nanoseconds of the last second wraps from there on: what the system is asked for is still in the second
  that is meant, and never out of its range, but a sleep of 5 seconds takes 5.705.
\<close>

theorem sleep_duration:
  "unat ms div 1000 * 1000000000 \<le> sleep_nanos ms \<and> sleep_nanos ms < (unat ms div 1000 + 1) * 1000000000 \<and>
    (unat ms < 4295 \<longrightarrow> sleep_nanos ms = unat ms * 1000000) \<and> sleep_nanos 5000 = 5705032704"
proof (intro conjI impI)
  have nsec: "unat ((ms * 1000000) mod 1000000000) = unat (ms * 1000000) mod 1000000000" and sec: "unat (ms div 1000) = unat ms div 1000"
    by (simp_all add: unat_mod_distrib unat_div_distrib)
  show "unat ms div 1000 * 1000000000 \<le> sleep_nanos ms" by (simp add: sleep_nanos_def sec)
  have "unat (ms * 1000000) mod 1000000000 < 1000000000" by simp
  then show "sleep_nanos ms < (unat ms div 1000 + 1) * 1000000000" by (simp add: sleep_nanos_def sec nsec)
  show "sleep_nanos ms = unat ms * 1000000" if "unat ms < 4295"
  proof -
    have "unat (ms * 1000000) = unat ms * 1000000"
      using that by (simp add: unat_word_ariths(2))
    moreover have "unat ms * 1000000 mod 1000000000 = unat ms mod 1000 * 1000000"
      using mult_mod_left [of "unat ms" 1000 1000000] by simp
    moreover have "unat ms div 1000 * 1000000000 + unat ms mod 1000 * 1000000 = unat ms * 1000000"
    proof -
      have "q * 1000000000 + r * 1000000 = (q * 1000 + r) * 1000000" for q r :: nat by simp
      from this [of "unat ms div 1000" "unat ms mod 1000"] show ?thesis by (simp only: div_mult_mod_eq)
    qed
    ultimately show ?thesis by (simp only: sleep_nanos_def sec nsec)
  qed
qed (simp add: sleep_nanos_def)

lemma sleep_duration_witness: "sleep_nanos 4294 = 4294000000"
  using sleep_duration [of 4294] by simp












text \<open>
  With \<open>--mirror-interval\<close> and a positive number of seconds the program never ends well: it goes on or
  ends in an error.
\<close>

lemma mirror_goes_on:
  assumes "mirror_loop interval cs states out = Some y" "0 < interval"
  shows "\<exists>x. fst y = Inl x"
proof -
  have "0 < interval \<longrightarrow> (\<exists>x. fst y = Inl x)"
  proof (rule mirror_loop.raw_induct [of "\<lambda>interval cs states out (y :: unit res \<times> string). 0 < interval \<longrightarrow> (\<exists>x. fst y = Inl x)", OF _ assms(1)])
    fix loop interval cs states out and y :: "unit res \<times> string"
    assume IH: "\<And>interval cs states out y. loop interval cs states out = Some y \<Longrightarrow> 0 < interval \<longrightarrow> (\<exists>x. fst y = Inl x)"
      and step: "(case MirrorAll cs states out of
        None \<Rightarrow> None
      | Some (Inl x, _, _, out) \<Rightarrow> Some (Inl x, out)
      | Some (Inr _, cs, states, out) \<Rightarrow>
          if interval > 0 then
            loop interval (pass_time (sleep_nanos (word_of_int (to_int32 (interval * 1000)))) cs) states out
          else Some (Inr (), out)) = Some y"
    show "0 < interval \<longrightarrow> (\<exists>x. fst y = Inl x)"
      using step by (auto split: option.splits prod.splits sum.splits if_splits dest!: IH)
  qed
  with assms(2) show ?thesis by simp
qed

theorem client_mirrors_forever:
  assumes "ParseClientArguments usage number args = Inr (None, p)" "\<not> show_store_info p" "mirror p" "0 < mirror_interval p"
  shows "zippylogclient_main connect now print usage number args \<noteq> Some (Exit 0 out)"
proof -
  have caught: "client_caught t x \<noteq> Exit 0 u" for t x u
    by (cases x) (simp_all add: client_caught_def)
  show ?thesis
  proof (cases "new_clients connect now 0 (servers p)")
    case (Inl x)
    with assms caught show ?thesis by (simp add: zippylogclient_main_def)
  next
    case (Inr cs)
    then have "zippylogclient_main connect now print usage number args =
        map_option (\<lambda>(r, out). client_end out r) (mirror_loop (mirror_interval p) cs [] [])"
      using assms by (simp add: zippylogclient_main_def)
    then show ?thesis
      using mirror_goes_on [of "mirror_interval p" cs "[]" "[]"] assms(4) caught
      by (cases "mirror_loop (mirror_interval p) cs [] []") (auto simp: client_end_def split: sum.split)
  qed
qed

text \<open>A world of servers that do not answer.\<close>

definition silent_connect :: "nat \<Rightarrow> string \<Rightarrow> (string client_env \<times> socket \<times> memory) res" where
  "silent_connect k endpoint =
     Inr (\<lparr>cl_codec = sample_codec, cl_types = library_registry, cl_uuid = (\<lambda>n. [char_of n]), cl_wall = (\<lambda>_. 7),
        uninitialised = mem_segment sample_memory (Caller 0), uninit_micros = 0, callback_of = (\<lambda>_ _ _. ret ()),
        arrivals = (\<lambda>_ _. []), elapsed = (\<lambda>_ _. 25000)\<rparr>, \<lparr>sent = [], send_results = [], inbox = []\<rparr>, sample_memory)"


lemma client_mirrors_forever_witness:
  "zippylogclient_main silent_connect 0 (\<lambda>_. []) [] (\<lambda>_. (5, False)) [''zippylogclient'', ''--mirror-interval'', ''5'', ''tcp://x''] \<noteq>
    Some (Exit 0 [])"
proof -
  have args: "ParseClientArguments [] (\<lambda>_. (5, False)) [''zippylogclient'', ''--mirror-interval'', ''5'', ''tcp://x''] =
      Inr (None, new_client_params\<lparr>mirror := True, mirror_interval := 5, servers := [''tcp://x'']\<rparr>)"
    by (simp add: ParseClientArguments_def client_options.simps client_value_option_def plain_argument_def new_client_params_def
        GetArgumentValueAndPop_def)
  show ?thesis by (rule client_mirrors_forever [OF args]) (simp_all add: new_client_params_def)
qed

end
