(* ===== verification/Spec2Isabelle.thy ===== *)
theory Spec2Isabelle
  imports Store_Writer Client_Server Request_Safety Request_Pump Lua_State Watcher_Reactor Server_Safety Client_Program Conditional_Wait
begin

text \<open>
  A verification development for zippylog, a server that stores streams of envelopes and serves them to
  clients over 0MQ (the C++ sources under src/src/zippylog).

  \<^bold>\<open>The program.\<close> A \<^emph>\<open>store\<close> is a directory of buckets, stream sets and streams; a stream is a file of
  \<^emph>\<open>envelopes\<close>, serialised protocol buffers with messages inside. The \<^emph>\<open>server\<close> is a device that owns the store's
  sockets and a number of other devices, each in a thread: \<^emph>\<open>request processors\<close> answer the requests of clients,
  the \<^emph>\<open>store watcher\<close> turns the events of the file system into messages, \<^emph>\<open>persisted state reactors\<close> hold the
  subscriptions of clients and send them what the watcher announces, and the \<^emph>\<open>store writer\<close> writes
  envelopes. The server's pump only moves messages between the sockets of these. A \<^emph>\<open>client\<close> sends requests and
  calls the application back; a \<^emph>\<open>string loader\<close> makes envelopes of lines of text.

  \<^bold>\<open>Theories.\<close> In the order of the code's layers, with the files they model:

  \<^item> \<open>Prelude\<close>: exceptions, results (\<open>exn + 'a\<close>), actions on a state (\<open>'s \<Rightarrow> 'a res \<times> 's\<close>, the state is kept when an
    exception is thrown) and their rules; \<open>Sorted_Map\<close>: \<open>std::map\<close>.
  \<^item> \<open>Store_Path\<close>, \<open>Calendar\<close>: the paths of a store (store.cpp) with the grammar they implement; times and the names of
    streams (platform.cpp, store.cpp).
  \<^item> \<open>Platform\<close>, \<open>File_Tree\<close>, \<open>Conditional_Wait\<close>, \<open>Directory_Watcher\<close>: timers, files, condition variables and inotify of
    platform.cpp, over a model of a POSIX file tree.
  \<^item> \<open>Messages\<close>, \<open>Envelope\<close>, \<open>Stream\<close>: message_registrar.cpp, envelope.cpp and stream.cpp. Protocol Buffers is the
    record \<open>codec\<close>.
  \<^item> \<open>Store\<close>, \<open>Store_Write\<close>: the class \<open>Store\<close> over its virtual functions and \<open>SimpleDirectoryStore\<close> (store.cpp).
  \<^item> \<open>Zeromq\<close>: zeromq.cpp. A socket is the frames it has, the frames sent through it and the results of its sends.
    Who is connected to it is said where the code makes a difference: the server's log socket is connected to its
    own logger socket, and its sends to workers and reactors wait while there is none.
  \<^item> \<open>Device\<close>, \<open>Device_Loop\<close>: device.cpp, the run loop and the thread's function. \<open>Reactor_Device\<close>, \<open>Store_Watcher\<close> and
    \<open>Server_Safety\<close> put the devices into it.
  \<^item> \<open>Subscription\<close>, \<open>Request_State\<close>, \<open>Request_Processor\<close>: request_processor.cpp. \<open>Request_Info\<close>, \<open>Request_Answers\<close>,
    \<open>Request_Stream\<close>, \<open>Request_Subscribe\<close>, \<open>Request_Pump\<close> and \<open>Request_Safety\<close> hold what is proved of it, and
    \<open>Server_Worker\<close> the server's implementation of its handlers (device/server_worker.cpp).
  \<^item> \<open>Lua_State\<close>: lua.cpp. The interpreter is a parameter.
  \<^item> \<open>Persisted_State\<close>, \<open>State_Reactor\<close>: persisted_state_manager.cpp and device/persisted_state_reactor.cpp.
  \<^item> \<open>Store_Writer\<close>: device/store_writer.cpp and device/store_writer_sender.cpp.
  \<^item> \<open>Store_Watcher\<close>: store_watcher.cpp and device/server_watcher.cpp; \<open>Watcher_Reactor\<close>: the watcher and the reactor together.
  \<^item> \<open>Client_State\<close>, \<open>Client_Response\<close>, \<open>Client_Request\<close>, \<open>Client\<close>: client.cpp; \<open>Client_Server\<close>: the client and the
    request processor together.
  \<^item> \<open>Server_State\<close>, \<open>Server_Device\<close>, \<open>Server_Config\<close>: device/server.cpp. \<open>Server_Check\<close>, \<open>Server_Traffic\<close> and
    \<open>Server_Safety\<close> hold what is proved of it.
  \<^item> \<open>String_Loader\<close>: device/string_loader.cpp; \<open>Library_Init\<close>: messages.cpp and zippylog.cpp; \<open>Programs\<close>: the programs
    zippylogd, zippylogcat and zippylog_string_loader with util.cpp; \<open>Client_Program\<close>: zippylogclient.

  \<^bold>\<open>Correspondence.\<close> A class is a record with its members, named as in the code where that is possible; a method is
  a definition of its name on that record, and returns the record. Exceptions are the left of a sum; what is
  undefined in C++ is the exception \<open>Undefined\<close>, and a call that waits for ever is \<open>Blocked\<close> (a receive when
  nothing more can come, a send to a socket that nothing is connected to, Lua code that never ends); no handler
  catches these. Integers that can wrap are words, or integers that are reduced by \<open>to_int32\<close> where the code
  converts and where a product overflows an \<open>int\<close>, which wraps in the code compilers make of it. Callbacks and virtual functions are arguments
  or records of functions (\<open>store_ops\<close>, \<open>device_ops\<close>, \<open>rp_env\<close>, \<open>watcher_handlers\<close>), whose contracts are the locales
  \<open>store_contract\<close>, \<open>device_invariant\<close> and \<open>processor_contract\<close>; each is interpreted on the code's own
  implementation. What the code reads from outside (clocks, ids, arriving frames, events, results of system
  calls) are arguments or functions of the number of the step.

  \<^bold>\<open>What is shown.\<close>

  \<^item> Refinement: the parser of paths implements the grammar \<open>path_denotes\<close>; the store's writes append a record to
    the contents of one stream; the persisted state manager implements a set of lifetimes; a pump of the server
    is a step on queues of messages, which keeps every message and the order of every source under all
    interleavings of arrivals, pumps and what the devices do.
  \<^item> Round trips: paths, streams, multi-part messages.
  \<^item> Behaviour of each request on every branch, the errors included, as the exact list of responses; segments of
    streams with their limits; what the string loader writes for a text; what a configuration gives.
  \<^item> Invariants by induction over the operations or the steps of a run loop: the store's streams, the client's
    maps, the reactor's subscriptions, the Lua memory limit, the server without devices.
  \<^item> Termination and liveness: device threads return, requests return or are shown to wait forever, the server
    drains its sockets, its own log messages included, until it has lost its devices and waits for ever in a
    send; the client's program passes over silent servers, the printer of streams ends, the string loader's program and the daemon do not do what
    they are started for.
  \<^item> Composition: request processor and client, watcher and reactor, request processor and reactor, writer and
    sender. Most of the findings are here: the peers do not agree on the delimiter frame of a message, on the
    lifetime of a subscription and on the end of a segment.

  \<^bold>\<open>Bounds and fuel.\<close> Loops that may not end are \<open>partial_function (option)\<close> (the run loop of devices, the waiting
  of synchronous requests, the string loader, the mirror of the client's program, the printer of streams); the theorems say when they return. The loops over the frames of a
  message and over the envelopes of a segment recurse on what is left. \<open>tree_below\<close> visits a directory tree with the
  length of the longest path of the file tree as fuel, which every descent uses up by one, and
  \<open>DirectoriesInTree_iff\<close> shows that it is enough. Sizes of records are bounded by \<open>2 ^ 28\<close> where the code counts
  the bytes of a size wrongly from there on.

  \<^bold>\<open>Not modelled.\<close> The Windows and macOS branches of platform.cpp, \<open>CreateUUID\<close> and the creation of threads (system
  calls; ids and thread results are parameters); the classes that the protocol compiler generates and their Lua
  bindings (*.pb.*, *.pb-lua.*), of which only the fields are used; the printing of messages by reflection
  (\<open>CustomPrintMessage\<close>); the plugin handlers, which only throw and are never called; the program
  zippylogbench, which measures the times of operations; tests, examples and the Python bindings.
\<close>

end
